(* ===== verification/Rust_Prelude.thy ===== *)
theory Rust_Prelude
  imports Main "HOL-Library.Word" "HOL-Library.Signed_Division"
begin

text \<open>
  The shared base of the development: Rust's machine integers at their width, the saturating,
  checked and truncating operations of the standard library that the modelled code calls, the
  result type of fallible operations, and the generic lemmas on words, lists and finite maps that
  the component theories share.

  An unsigned Rust integer is an unsigned word; a signed one is a word of the same width read with
  \<^const>\<open>sint\<close>. Every operation has a characteristic lemma that reads its result as a
  natural number (collection \<open>sat_simps\<close>) or as an integer (collection \<open>ssat_simps\<close>),
  so component proofs move to linear arithmetic with one \<open>simp add\<close>.
\<close>

section \<open>Integer types\<close>

type_synonym u8 = "8 word"
type_synonym u16 = "16 word"
type_synonym u32 = "32 word"
type_synonym u64 = "64 word"
type_synonym u128 = "128 word"
type_synonym i64 = "64 word"
type_synonym i128 = "128 word"
type_synonym usize = "64 word"
type_synonym bytes = "8 word list"

text \<open>\<open>Result<T, E>\<close> is \<open>E + T\<close>, the error on the left.\<close>

type_synonym ('e, 'a) result = "'e + 'a"

named_theorems sat_simps \<open>unsigned results of saturating and checked operations\<close>
named_theorems ssat_simps \<open>signed results of saturating and checked operations\<close>

section \<open>Unsigned operations\<close>

definition u_max :: "'a::len word" where
  "u_max = - 1"

definition sat_add :: "'a::len word \<Rightarrow> 'a word \<Rightarrow> 'a word" where
  "sat_add a b = (if unat a + unat b < 2 ^ LENGTH('a) then a + b else u_max)"

definition sat_sub :: "'a::len word \<Rightarrow> 'a word \<Rightarrow> 'a word" where
  "sat_sub a b = (if b \<le> a then a - b else 0)"

definition sat_mul :: "'a::len word \<Rightarrow> 'a word \<Rightarrow> 'a word" where
  "sat_mul a b = (if unat a * unat b < 2 ^ LENGTH('a) then a * b else u_max)"

definition checked_add :: "'a::len word \<Rightarrow> 'a word \<Rightarrow> 'a word option" where
  "checked_add a b = (if unat a + unat b < 2 ^ LENGTH('a) then Some (a + b) else None)"

definition checked_sub :: "'a::len word \<Rightarrow> 'a word \<Rightarrow> 'a word option" where
  "checked_sub a b = (if b \<le> a then Some (a - b) else None)"

definition checked_div :: "'a::len word \<Rightarrow> 'a word \<Rightarrow> 'a word option" where
  "checked_div a b = (if b = 0 then None else Some (a div b))"

definition div_ceil :: "'a::len word \<Rightarrow> 'a word \<Rightarrow> 'a word" where
  "div_ceil a b = (if a mod b \<noteq> 0 then a div b + 1 else a div b)"

lemma unat_u_max [sat_simps]: "unat (u_max :: 'a::len word) = 2 ^ LENGTH('a) - 1"
  by (simp add: u_max_def unsigned_minus_1_eq_mask mask_eq_exp_minus_1)

lemma uint_u_max [sat_simps]: "uint (u_max :: 'a::len word) = 2 ^ LENGTH('a) - 1"
  by (simp add: u_max_def unsigned_minus_1_eq_mask mask_eq_exp_minus_1)

lemma unat_sat_add [sat_simps]:
  "unat (sat_add a b) = min (unat a + unat b) (2 ^ LENGTH('a) - 1)" for a b :: "'a::len word"
  by (auto simp: sat_add_def unat_word_ariths unat_u_max)

lemma unat_sat_sub [sat_simps]: "unat (sat_sub a b) = unat a - unat b"
  by (auto simp: sat_sub_def unat_sub word_le_nat_alt)

lemma unat_sat_mul [sat_simps]:
  "unat (sat_mul a b) = min (unat a * unat b) (2 ^ LENGTH('a) - 1)" for a b :: "'a::len word"
  by (auto simp: sat_mul_def unat_word_ariths unat_u_max)

lemma unat_less_pow: "unat a < 2 ^ LENGTH('a)" for a :: "'a::len word"
  by simp

lemma unat_le_pow: "unat a \<le> 2 ^ LENGTH('a) - Suc 0" for a :: "'a::len word"
  using unat_less_pow [of a] by linarith

lemma unat_max [sat_simps]: "unat (max a b) = max (unat a) (unat b)"
  by (simp add: max_def word_le_nat_alt)

lemma unat_min [sat_simps]: "unat (min a b) = min (unat a) (unat b)"
  by (simp add: min_def word_le_nat_alt)

lemma uint_max [sat_simps]: "uint (max a b) = max (uint a) (uint b)"
  by (simp add: max_def word_le_def)

lemma uint_min [sat_simps]: "uint (min a b) = min (uint a) (uint b)"
  by (simp add: min_def word_le_def)

lemma sat_add_comm: "sat_add a b = sat_add b a"
  by (simp add: sat_add_def add.commute)

lemma sat_add_mono: "a \<le> b \<Longrightarrow> sat_add a c \<le> sat_add b c"
  by (simp add: word_le_nat_alt sat_simps)

lemma sat_mul_mono: "a \<le> b \<Longrightarrow> sat_mul a c \<le> sat_mul b c"
  unfolding word_le_nat_alt unat_sat_mul by (intro min.mono mult_le_mono1) simp_all

lemma sat_sub_le: "sat_sub a b \<le> a"
  by (simp add: word_le_nat_alt sat_simps)

lemma sat_add_ge: "a \<le> sat_add a b"
  using unat_le_pow [of a] by (simp add: word_le_nat_alt sat_simps)

lemma checked_add_eq_Some [sat_simps]:
  "checked_add a b = Some c \<longleftrightarrow> unat a + unat b < 2 ^ LENGTH('a) \<and> unat c = unat a + unat b"
  for a b c :: "'a::len word"
  by (auto simp: checked_add_def unat_word_ariths word_unat_eq_iff)

lemma checked_sub_eq_Some [sat_simps]:
  "checked_sub a b = Some c \<longleftrightarrow> unat b \<le> unat a \<and> unat c = unat a - unat b"
  by (auto simp: checked_sub_def word_le_nat_alt unat_sub word_unat_eq_iff)

lemma unat_add_1_le: "unat (a + 1) \<le> Suc (unat a)"
  by (simp add: unat_word_ariths)

lemma nat_div_less_of_le_mult: "x div y < k" if "x \<le> y * k" "x mod y \<noteq> 0" for x y k :: nat
proof (rule ccontr)
  assume "\<not> x div y < k"
  then have "y * k \<le> y * (x div y)" by simp
  also have "\<dots> < x"
    using that(2) mult_div_mod_eq [of y x] by linarith
  finally show False using that(1) by simp
qed

lemma unat_div_ceil_le:
  assumes "unat a \<le> unat b * k"
  shows "unat (div_ceil a b) \<le> k \<or> b = 0"
proof (cases "a mod b = 0")
  case True
  have "unat a div unat b \<le> k \<or> unat b = 0"
    using div_le_mono [OF assms, of "unat b"] by (cases "unat b = 0") simp_all
  then show ?thesis using True by (simp add: div_ceil_def unat_div unat_eq_zero)
next
  case False
  then have "unat a mod unat b \<noteq> 0" by (simp add: word_unat_eq_iff unat_mod)
  with assms have "unat a div unat b < k" by (rule nat_div_less_of_le_mult)
  then show ?thesis
    using False unat_add_1_le [of "a div b"] by (simp add: div_ceil_def unat_div)
qed

section \<open>Signed operations\<close>

definition s_max :: "'a::len word" where
  "s_max = word_of_int (2 ^ (LENGTH('a) - 1) - 1)"

definition s_min :: "'a::len word" where
  "s_min = word_of_int (- (2 ^ (LENGTH('a) - 1)))"

text \<open>The saturating signed operations clamp the exact result into the range of the type.\<close>

definition s_clamp :: "int \<Rightarrow> 'a::len word" where
  "s_clamp i =
     (if 2 ^ (LENGTH('a) - 1) \<le> i then s_max
      else if i < - (2 ^ (LENGTH('a) - 1)) then s_min
      else word_of_int i)"

definition ssat_add :: "'a::len word \<Rightarrow> 'a word \<Rightarrow> 'a word" where
  "ssat_add a b = s_clamp (sint a + sint b)"

definition ssat_sub :: "'a::len word \<Rightarrow> 'a word \<Rightarrow> 'a word" where
  "ssat_sub a b = s_clamp (sint a - sint b)"

definition ssat_mul :: "'a::len word \<Rightarrow> 'a word \<Rightarrow> 'a word" where
  "ssat_mul a b = s_clamp (sint a * sint b)"

definition ssat_abs :: "'a::len word \<Rightarrow> 'a word" where
  "ssat_abs a = s_clamp \<bar>sint a\<bar>"

definition s_signum :: "'a::len word \<Rightarrow> 'a word" where
  "s_signum a = word_of_int (sgn (sint a))"

definition smin :: "'a::len word \<Rightarrow> 'a word \<Rightarrow> 'a word" where
  "smin a b = (if sint a \<le> sint b then a else b)"

definition schecked_add :: "'a::len word \<Rightarrow> 'a word \<Rightarrow> 'a word option" where
  "schecked_add a b =
     (let r = sint a + sint b
      in if - (2 ^ (LENGTH('a) - 1)) \<le> r \<and> r < 2 ^ (LENGTH('a) - 1)
         then Some (word_of_int r) else None)"

text \<open>
  Rust's signed division truncates towards zero; it fails on a zero divisor and on the one
  quotient that is out of range, the least value divided by minus one.
\<close>

definition schecked_div :: "'a::len word \<Rightarrow> 'a word \<Rightarrow> 'a word option" where
  "schecked_div a b =
     (if sint b = 0 \<or> (sint a = - (2 ^ (LENGTH('a) - 1)) \<and> sint b = - 1) then None
      else Some (word_of_int (sint a sdiv sint b)))"

lemma sint_word_of_int_in_range:
  "sint (word_of_int i :: 'a::len word) = i"
  if "- (2 ^ (LENGTH('a) - 1)) \<le> i" "i < 2 ^ (LENGTH('a) - 1)"
  using that by (simp add: sint_sbintrunc' signed_take_bit_int_eq_self)

lemma sint_range: "- (2 ^ (LENGTH('a) - 1)) \<le> sint a" "sint a < 2 ^ (LENGTH('a) - 1)"
  for a :: "'a::len word"
  by (rule sint_ge) (rule sint_lt)

lemma sint_s_clamp [ssat_simps]:
  "sint (s_clamp i :: 'a::len word) = max (- (2 ^ (LENGTH('a) - 1))) (min (2 ^ (LENGTH('a) - 1) - 1) i)"
proof -
  have "sint (s_max :: 'a word) = 2 ^ (LENGTH('a) - 1) - 1"
    unfolding s_max_def by (rule sint_word_of_int_in_range) (simp_all add: order.trans [of _ 0])
  moreover have "sint (s_min :: 'a word) = - (2 ^ (LENGTH('a) - 1))"
    unfolding s_min_def by (rule sint_word_of_int_in_range) (simp_all add: order.strict_trans1 [of _ 0])
  ultimately show ?thesis
    by (auto simp: s_clamp_def sint_word_of_int_in_range)
qed

lemma sint_ssat_abs [ssat_simps]:
  "sint (ssat_abs a) = min (2 ^ (LENGTH('a) - 1) - 1) \<bar>sint a\<bar>" for a :: "'a::len word"
  using sint_range [of a] by (auto simp: ssat_abs_def sint_s_clamp)

lemma sint_smin [ssat_simps]: "sint (smin a b) = min (sint a) (sint b)"
  by (simp add: smin_def)

lemma sint_s_signum [ssat_simps]:
  "sint (s_signum a) = sgn (sint a)" if "1 < LENGTH('a)" for a :: "'a::len word"
proof -
  have "(2::int) ^ 1 \<le> 2 ^ (LENGTH('a) - 1)"
    using that by (intro power_increasing) auto
  then show ?thesis
    unfolding s_signum_def by (intro sint_word_of_int_in_range) (auto simp: sgn_if)
qed

lemma schecked_add_eq_Some [ssat_simps]:
  "schecked_add a b = Some c \<Longrightarrow> sint c = sint a + sint b" for a b c :: "'a::len word"
  using sint_word_of_int_in_range [where 'a = 'a, of "sint a + sint b"]
  by (auto simp: schecked_add_def Let_def simp del: of_int_add split: if_splits)

lemma schecked_add_eq_None [ssat_simps]:
  "schecked_add a b = None \<longleftrightarrow>
     sint a + sint b < - (2 ^ (LENGTH('a) - 1)) \<or> 2 ^ (LENGTH('a) - 1) \<le> sint a + sint b"
  for a b :: "'a::len word"
  by (auto simp: schecked_add_def Let_def)

lemma sint_ucast_wider:
  "sint (ucast a :: 'b::len word) = int (unat a)" if "LENGTH('a) < LENGTH('b)"
  for a :: "'a::len word"
proof -
  have "int (unat a) < 2 ^ LENGTH('a)"
    using unat_less_pow [of a] by (metis of_nat_less_iff of_nat_numeral of_nat_power)
  also have "(2::int) ^ LENGTH('a) \<le> 2 ^ (LENGTH('b) - 1)"
    using that by (intro power_increasing) auto
  finally have "int (unat a) < 2 ^ (LENGTH('b) - 1)" .
  moreover have "(ucast a :: 'b word) = word_of_int (int (unat a))"
    by (simp add: of_nat_unat)
  ultimately show ?thesis
    by (simp only:) (rule sint_word_of_int_in_range, simp_all add: order.trans [of _ 0])
qed

lemma unat_ucast_wider:
  "unat (ucast a :: 'b::len word) = unat a" if "LENGTH('a) \<le> LENGTH('b)" for a :: "'a::len word"
  using that by (simp add: unsigned_ucast_eq take_bit_nat_eq_self unat_less_pow [THEN order.strict_trans2])

section \<open>Lists and finite maps\<close>

text \<open>\<open>start..=end\<close> on \<open>u32\<close>, as the list of the values the loop visits.\<close>

definition range_inclusive :: "u32 \<Rightarrow> u32 \<Rightarrow> u32 list" where
  "range_inclusive s e = map of_nat [unat s ..< Suc (unat e)]"

lemma set_range_inclusive: "set (range_inclusive s e) = {h. s \<le> h \<and> h \<le> e}"
proof (rule set_eqI)
  fix h
  have "h \<in> set (range_inclusive s e) \<longleftrightarrow> (\<exists>n \<in> {unat s..unat e}. h = of_nat n)"
    by (auto simp: range_inclusive_def)
  also have "\<dots> \<longleftrightarrow> s \<le> h \<and> h \<le> e"
  proof
    assume "\<exists>n \<in> {unat s..unat e}. h = of_nat n"
    then obtain n where n: "unat s \<le> n" "n \<le> unat e" "h = of_nat n" by auto
    with unat_less_pow [of e] have "unat h = n" by (simp add: unat_of_nat)
    with n show "s \<le> h \<and> h \<le> e" by (simp add: word_le_nat_alt)
  next
    assume "s \<le> h \<and> h \<le> e"
    then show "\<exists>n \<in> {unat s..unat e}. h = of_nat n"
      by (intro bexI [of _ "unat h"]) (auto simp: word_le_nat_alt)
  qed
  finally show "h \<in> set (range_inclusive s e) \<longleftrightarrow> h \<in> {h. s \<le> h \<and> h \<le> e}" by simp
qed

lemma distinct_range_inclusive: "distinct (range_inclusive s e)"
proof -
  have "inj_on (of_nat :: nat \<Rightarrow> u32) {unat s..unat e}"
    using unat_less_pow [of e] by (intro inj_onI) (simp add: word_of_nat_eq_iff take_bit_nat_eq_self)
  then show ?thesis
    by (simp add: range_inclusive_def distinct_map atLeastLessThanSuc_atLeastAtMost
        del: upt_Suc)
qed

text \<open>The sum of the values of a finite map, read through a measure.\<close>

definition sum_map :: "('v \<Rightarrow> nat) \<Rightarrow> ('k \<rightharpoonup> 'v) \<Rightarrow> nat" where
  "sum_map f m = (\<Sum>k \<in> dom m. f (the (m k)))"

lemma sum_map_empty [simp]: "sum_map f Map.empty = 0"
  by (simp add: sum_map_def)

lemma sum_map_insert:
  assumes "finite (dom m)" "m k = None"
  shows "sum_map f (m(k \<mapsto> v)) = f v + sum_map f m"
proof -
  have "k \<notin> dom m" using assms(2) by (simp add: domIff)
  then have "(\<Sum>k' \<in> dom m. f (the ((m(k \<mapsto> v)) k'))) = (\<Sum>k' \<in> dom m. f (the (m k')))"
    by (intro sum.cong) auto
  with \<open>k \<notin> dom m\<close> assms(1) show ?thesis by (simp add: sum_map_def)
qed

lemma sum_map_remove:
  assumes "finite (dom m)" "m k = Some v"
  shows "sum_map f m = f v + sum_map f (m(k := None))"
proof -
  have "sum_map f ((m(k := None))(k \<mapsto> v)) = f v + sum_map f (m(k := None))"
    using assms(1) by (intro sum_map_insert) auto
  moreover have "(m(k := None))(k \<mapsto> v) = m"
    using assms(2) by auto
  ultimately show ?thesis by simp
qed

lemma fun_upd_None_idem: "m k = None \<Longrightarrow> m(k := None) = m"
  by auto

end
