(* ===== verification/Gas_Price.thy ===== *)
theory Gas_Price
  imports Rust_Prelude
begin

text \<open>
  The gas price algorithm of \<^verbatim>\<open>crates/fuel-gas-price-algorithm/src\<close>: version 0 (execution
  price only) and version 1 (execution price plus the data availability (DA) price steered by a
  clamped PD controller and the L2 activity tracker).

  The state of each updater is a record with the source's fields at their widths. An update takes
  the record and returns the new one; a fallible update returns the state the caller is left with
  beside the result, because the source mutates \<^verbatim>\<open>self\<close> before some of its error returns.
  The trait \<^verbatim>\<open>UnrecordedBlocks\<close> is a record of its two operations; its laws are the
  locale \<open>unrecorded_blocks_impl\<close>, interpreted by the source's own \<^verbatim>\<open>BTreeMap\<close>
  implementation. Logging is left out. \<^verbatim>\<open>NonZeroU64\<close> values are \<open>u64\<close> words that
  the invariant keeps different from zero.
\<close>

section \<open>Version 0\<close>

datatype error_v0 = SkippedL2BlockV0 u32 u32

record algorithm_v0 =
  a0_new_exec_price :: u64
  a0_for_height :: u32
  a0_percentage :: u64

definition calculate_v0 :: "algorithm_v0 \<Rightarrow> u64" where
  "calculate_v0 a = a0_new_exec_price a"

record algorithm_updater_v0 =
  new_exec_price :: u64
  min_exec_gas_price_v0 :: u64
  exec_gas_price_change_percent_v0 :: u64
  l2_block_height_v0 :: u32
  l2_block_fullness_threshold_percent_v0 :: u64

definition new_v0 :: "u64 \<Rightarrow> u64 \<Rightarrow> u64 \<Rightarrow> u32 \<Rightarrow> u64 \<Rightarrow> algorithm_updater_v0" where
  "new_v0 price min_price percent height threshold =
     (let new_exec_price_corrected = max price min_price
      in \<lparr>new_exec_price = new_exec_price_corrected,
          min_exec_gas_price_v0 = min_price,
          exec_gas_price_change_percent_v0 = percent,
          l2_block_height_v0 = height,
          l2_block_fullness_threshold_percent_v0 = threshold\<rparr>)"

definition change_amount :: "algorithm_updater_v0 \<Rightarrow> u64 \<Rightarrow> u64" where
  "change_amount s principle = sat_mul principle (exec_gas_price_change_percent_v0 s) div 100"

definition update_exec_gas_price_v0 :: "u64 \<Rightarrow> u64 \<Rightarrow> algorithm_updater_v0 \<Rightarrow> algorithm_updater_v0" where
  "update_exec_gas_price_v0 used capacity s =
     (let exec_gas_price = new_exec_price s;
          threshold = l2_block_fullness_threshold_percent_v0 s;
          fullness_percent =
            (case checked_div (sat_mul used 100) capacity of Some f \<Rightarrow> f | None \<Rightarrow> threshold);
          exec_gas_price' =
            (if threshold \<le> fullness_percent
             then sat_add exec_gas_price (change_amount s exec_gas_price)
             else sat_sub exec_gas_price (change_amount s exec_gas_price))
      in s\<lparr>new_exec_price := max (min_exec_gas_price_v0 s) exec_gas_price'\<rparr>)"

definition update_l2_block_data_v0 ::
  "u32 \<Rightarrow> u64 \<Rightarrow> u64 \<Rightarrow> algorithm_updater_v0 \<Rightarrow> algorithm_updater_v0 \<times> (error_v0, unit) result" where
  "update_l2_block_data_v0 height used capacity s =
     (let expected = sat_add (l2_block_height_v0 s) 1
      in if height \<noteq> expected then (s, Inl (SkippedL2BlockV0 expected height))
         else (update_exec_gas_price_v0 used capacity (s\<lparr>l2_block_height_v0 := height\<rparr>), Inr ()))"

definition algorithm_of_v0 :: "algorithm_updater_v0 \<Rightarrow> algorithm_v0" where
  "algorithm_of_v0 s =
     \<lparr>a0_new_exec_price = new_exec_price s,
      a0_for_height = l2_block_height_v0 s,
      a0_percentage = exec_gas_price_change_percent_v0 s\<rparr>"

section \<open>Version 1: data\<close>

datatype error_v1 =
    SkippedL2Block u32 u32
  | CouldNotCalculateCostPerByte u128 u128
  | FailedToIncludeL2BlockData string
  | L2BlockExpectedNotFound u32
  | CouldNotInsertUnrecordedBlock string
  | CouldNotRemoveUnrecordedBlock string

record algorithm_v1 =
  a1_new_exec_price :: u64
  a1_exec_price_percentage :: u64
  a1_new_da_gas_price :: u64
  a1_da_gas_price_percentage :: u64
  a1_for_height :: u32

definition calculate :: "algorithm_v1 \<Rightarrow> u64" where
  "calculate a = sat_add (a1_new_exec_price a) (a1_new_da_gas_price a)"

text \<open>The trait \<^verbatim>\<open>UnrecordedBlocks\<close> and its \<^verbatim>\<open>BTreeMap<Height, Bytes>\<close> implementation.\<close>

record 'u unrecorded_blocks =
  ub_insert :: "u32 \<Rightarrow> u64 \<Rightarrow> 'u \<Rightarrow> 'u \<times> (string, unit) result"
  ub_remove :: "u32 \<Rightarrow> 'u \<Rightarrow> 'u \<times> (string, u64 option) result"

definition btree_unrecorded_blocks :: "(u32 \<rightharpoonup> u64) unrecorded_blocks" where
  "btree_unrecorded_blocks =
     \<lparr>ub_insert = (\<lambda>height bytes m. (m(height \<mapsto> bytes), Inr ())),
      ub_remove = (\<lambda>height m. (m(height := None), Inr (m height)))\<rparr>"

record clamped_percentage =
  percentage_value :: u8

definition new_clamped_percentage :: "u8 \<Rightarrow> clamped_percentage" where
  "new_clamped_percentage maybe_value = \<lparr>percentage_value = min maybe_value 100\<rparr>"

record l2_activity_tracker =
  max_activity :: u16
  capped_activity_threshold :: u16
  decrease_activity_threshold :: u16
  chain_activity :: u16
  block_activity_threshold :: clamped_percentage

datatype da_gas_price_safety_mode = Normal | Capped | AlwaysDecrease

definition new_full :: "u16 \<Rightarrow> u16 \<Rightarrow> u16 \<Rightarrow> clamped_percentage \<Rightarrow> l2_activity_tracker" where
  "new_full normal_range_size capped_range_size decrease_range_size threshold =
     (let decrease_threshold = decrease_range_size;
          capped_threshold = sat_add decrease_range_size capped_range_size;
          max_act = sat_add capped_threshold normal_range_size
      in \<lparr>max_activity = max_act,
          capped_activity_threshold = capped_threshold,
          decrease_activity_threshold = decrease_threshold,
          chain_activity = max_act,
          block_activity_threshold = threshold\<rparr>)"

definition new_tracker ::
  "u16 \<Rightarrow> u16 \<Rightarrow> u16 \<Rightarrow> u16 \<Rightarrow> clamped_percentage \<Rightarrow> l2_activity_tracker" where
  "new_tracker normal_range_size capped_range_size decrease_range_size activity threshold =
     (let tracker = new_full normal_range_size capped_range_size decrease_range_size threshold
      in tracker\<lparr>chain_activity := min activity (max_activity tracker)\<rparr>)"

definition new_always_normal :: l2_activity_tracker where
  "new_always_normal = new_tracker 100 0 0 100 (new_clamped_percentage 0)"

definition safety_mode :: "l2_activity_tracker \<Rightarrow> da_gas_price_safety_mode" where
  "safety_mode t =
     (if capped_activity_threshold t \<le> chain_activity t then Normal
      else if decrease_activity_threshold t \<le> chain_activity t then Capped
      else AlwaysDecrease)"

definition update_tracker :: "clamped_percentage \<Rightarrow> l2_activity_tracker \<Rightarrow> l2_activity_tracker" where
  "update_tracker block_usage t =
     (if percentage_value block_usage < percentage_value (block_activity_threshold t)
      then t\<lparr>chain_activity := sat_sub (chain_activity t) 1\<rparr>
      else t\<lparr>chain_activity := min (sat_add (chain_activity t) 1) (max_activity t)\<rparr>)"

record algorithm_updater_v1 =
  new_scaled_exec_price :: u64
  min_exec_gas_price :: u64
  exec_gas_price_change_percent :: u16
  l2_block_height :: u32
  l2_block_fullness_threshold_percent :: clamped_percentage
  new_scaled_da_gas_price :: u64
  gas_price_factor :: u64
  min_da_gas_price :: u64
  max_da_gas_price :: u64
  max_da_gas_price_change_percent :: u16
  total_da_rewards :: u128
  latest_known_total_da_cost :: u128
  projected_total_da_cost :: u128
  da_p_component :: i64
  da_d_component :: i64
  last_profit :: i128
  second_to_last_profit :: i128
  latest_da_cost_per_byte :: u128
  l2_activity :: l2_activity_tracker
  unrecorded_blocks_bytes :: u128

section \<open>Version 1: operations\<close>

definition descaled_exec_price :: "algorithm_updater_v1 \<Rightarrow> u64" where
  "descaled_exec_price s = new_scaled_exec_price s div gas_price_factor s"

definition descaled_da_price :: "algorithm_updater_v1 \<Rightarrow> u64" where
  "descaled_da_price s = new_scaled_da_gas_price s div gas_price_factor s"

definition algorithm_of :: "algorithm_updater_v1 \<Rightarrow> algorithm_v1" where
  "algorithm_of s =
     \<lparr>a1_new_exec_price = descaled_exec_price s,
      a1_exec_price_percentage = ucast (exec_gas_price_change_percent s),
      a1_new_da_gas_price = descaled_da_price s,
      a1_da_gas_price_percentage = ucast (max_da_gas_price_change_percent s),
      a1_for_height = l2_block_height s\<rparr>"

definition da_portion_of_fee :: "algorithm_updater_v1 \<Rightarrow> u128 \<Rightarrow> u128" where
  "da_portion_of_fee s fee_wei =
     (let numerator = sat_mul fee_wei (ucast (descaled_da_price s));
          denominator = sat_add (ucast (descaled_exec_price s)) (ucast (descaled_da_price s))
      in if denominator = 0 then 0 else div_ceil numerator denominator)"

definition update_activity :: "u64 \<Rightarrow> u64 \<Rightarrow> algorithm_updater_v1 \<Rightarrow> algorithm_updater_v1" where
  "update_activity used capacity s =
     (let block_activity = sat_mul used 100 div capacity;
          usage = new_clamped_percentage
                    (if block_activity \<le> 255 then ucast block_activity else 100)
      in s\<lparr>l2_activity := update_tracker usage (l2_activity s)\<rparr>)"

definition update_da_rewards :: "u128 \<Rightarrow> algorithm_updater_v1 \<Rightarrow> algorithm_updater_v1" where
  "update_da_rewards fee_wei s =
     s\<lparr>total_da_rewards := sat_add (total_da_rewards s) (da_portion_of_fee s fee_wei)\<rparr>"

definition update_projected_da_cost :: "u64 \<Rightarrow> algorithm_updater_v1 \<Rightarrow> algorithm_updater_v1" where
  "update_projected_da_cost block_bytes s =
     (let block_projected_da_cost = sat_mul (ucast block_bytes) (latest_da_cost_per_byte s)
      in s\<lparr>projected_total_da_cost := sat_add (projected_total_da_cost s) block_projected_da_cost\<rparr>)"

text \<open>\<^verbatim>\<open>i128::try_from(x).unwrap_or(i128::MAX)\<close>\<close>

definition clamped_as_i128 :: "u128 \<Rightarrow> i128" where
  "clamped_as_i128 x = (if unat x < 2 ^ 127 then x else s_max)"

definition clamped_projected_cost_as_i128 :: "algorithm_updater_v1 \<Rightarrow> i128" where
  "clamped_projected_cost_as_i128 s = clamped_as_i128 (projected_total_da_cost s)"

definition clamped_rewards_as_i128 :: "algorithm_updater_v1 \<Rightarrow> i128" where
  "clamped_rewards_as_i128 s = clamped_as_i128 (total_da_rewards s)"

definition update_last_profit :: "i128 \<Rightarrow> algorithm_updater_v1 \<Rightarrow> algorithm_updater_v1" where
  "update_last_profit new_profit s =
     s\<lparr>second_to_last_profit := last_profit s, last_profit := new_profit\<rparr>"

definition exec_change :: "algorithm_updater_v1 \<Rightarrow> u64 \<Rightarrow> u64" where
  "exec_change s principle = sat_mul principle (ucast (exec_gas_price_change_percent s)) div 100"

definition min_scaled_exec_gas_price :: "algorithm_updater_v1 \<Rightarrow> u64" where
  "min_scaled_exec_gas_price s = sat_mul (min_exec_gas_price s) (gas_price_factor s)"

definition update_exec_gas_price :: "u64 \<Rightarrow> u64 \<Rightarrow> algorithm_updater_v1 \<Rightarrow> algorithm_updater_v1" where
  "update_exec_gas_price used capacity s =
     (let threshold = ucast (percentage_value (l2_block_fullness_threshold_percent s));
          scaled_exec_gas_price = new_scaled_exec_price s;
          fullness_percent =
            (case checked_div (sat_mul used 100) capacity of Some f \<Rightarrow> f | None \<Rightarrow> threshold);
          scaled_exec_gas_price' =
            (if threshold \<le> fullness_percent
             then sat_add scaled_exec_gas_price (exec_change s scaled_exec_gas_price)
             else sat_sub scaled_exec_gas_price (exec_change s scaled_exec_gas_price))
      in s\<lparr>new_scaled_exec_price := max (min_scaled_exec_gas_price s) scaled_exec_gas_price'\<rparr>)"

definition min_scaled_da_gas_price :: "algorithm_updater_v1 \<Rightarrow> u64" where
  "min_scaled_da_gas_price s = sat_mul (min_da_gas_price s) (gas_price_factor s)"

definition max_scaled_da_gas_price :: "algorithm_updater_v1 \<Rightarrow> u64" where
  "max_scaled_da_gas_price s =
     sat_mul (max (max_da_gas_price s) (min_da_gas_price s)) (gas_price_factor s)"

definition p_term :: "algorithm_updater_v1 \<Rightarrow> i128" where
  "p_term s =
     (let upcast_p = scast (da_p_component s);
          checked_p = schecked_div (last_profit s) upcast_p
      in ssat_mul (case checked_p of Some q \<Rightarrow> q | None \<Rightarrow> 0) (- 1))"

definition d_term :: "algorithm_updater_v1 \<Rightarrow> i128" where
  "d_term s =
     (let upcast_d = scast (da_d_component s);
          slope = ssat_sub (last_profit s) (second_to_last_profit s);
          checked_d = schecked_div slope upcast_d
      in ssat_mul (case checked_d of Some q \<Rightarrow> q | None \<Rightarrow> 0) (- 1))"

definition max_change :: "algorithm_updater_v1 \<Rightarrow> i128" where
  "max_change s =
     ucast (sat_mul (new_scaled_da_gas_price s) (ucast (max_da_gas_price_change_percent s)) div 100)"

definition da_change :: "algorithm_updater_v1 \<Rightarrow> i128 \<Rightarrow> i128 \<Rightarrow> i128" where
  "da_change s p_change d_change =
     (let scaled_pd_change = ssat_mul (ssat_add p_change d_change) (ucast (gas_price_factor s));
          clamped_change = smin (ssat_abs scaled_pd_change) (max_change s)
      in ssat_mul (s_signum scaled_pd_change) clamped_change)"

definition da_change_accounting_for_activity :: "algorithm_updater_v1 \<Rightarrow> i128 \<Rightarrow> i128" where
  "da_change_accounting_for_activity s maybe_da_change =
     (if 0 < sint maybe_da_change
      then (case safety_mode (l2_activity s) of
              Normal \<Rightarrow> maybe_da_change
            | Capped \<Rightarrow> 0
            | AlwaysDecrease \<Rightarrow> ssat_mul (max_change s) (- 1))
      else maybe_da_change)"

definition update_da_gas_price :: "algorithm_updater_v1 \<Rightarrow> algorithm_updater_v1" where
  "update_da_gas_price s =
     (let maybe_scaled_da_change = da_change s (p_term s) (d_term s);
          scaled_da_change = da_change_accounting_for_activity s maybe_scaled_da_change;
          maybe_new_scaled_da_gas_price =
            (case schecked_add (ucast (new_scaled_da_gas_price s)) scaled_da_change of
               Some x \<Rightarrow> if 0 \<le> sint x \<and> sint x < 2 ^ 64 then ucast x
                         else if 0 < sint scaled_da_change then u_max else 0
             | None \<Rightarrow> if 0 < sint scaled_da_change then u_max else 0)
      in s\<lparr>new_scaled_da_gas_price :=
             min (max (min_scaled_da_gas_price s) maybe_new_scaled_da_gas_price)
                 (max_scaled_da_gas_price s)\<rparr>)"

definition update_l2_block_data ::
  "'u unrecorded_blocks \<Rightarrow> u32 \<Rightarrow> u64 \<Rightarrow> u64 \<Rightarrow> u64 \<Rightarrow> u128 \<Rightarrow>
   algorithm_updater_v1 \<Rightarrow> 'u \<Rightarrow> algorithm_updater_v1 \<times> 'u \<times> (error_v1, unit) result" where
  "update_l2_block_data ops height used capacity block_bytes fee_wei s u =
     (let expected = sat_add (l2_block_height s) 1
      in if height \<noteq> expected then (s, u, Inl (SkippedL2Block expected height))
         else
           let s = s\<lparr>l2_block_height := height\<rparr>;
               s = update_da_rewards fee_wei s;
               rewards = clamped_rewards_as_i128 s;
               s = update_projected_da_cost block_bytes s;
               projected = clamped_projected_cost_as_i128 s;
               profit = ssat_sub rewards projected;
               s = update_last_profit profit s;
               s = update_activity used capacity s;
               s = update_exec_gas_price used capacity s;
               s = update_da_gas_price s
           in case ub_insert ops height block_bytes u of
                (u', Inl e) \<Rightarrow> (s, u', Inl (CouldNotInsertUnrecordedBlock e))
              | (u', Inr _) \<Rightarrow>
                  (s\<lparr>unrecorded_blocks_bytes := sat_add (unrecorded_blocks_bytes s) (ucast block_bytes)\<rparr>,
                   u', Inr ()))"

text \<open>The loop of \<^verbatim>\<open>update_unrecorded_block_bytes\<close>: the map after it and the running total.\<close>

fun remove_unrecorded ::
  "'u unrecorded_blocks \<Rightarrow> u32 list \<Rightarrow> u128 \<Rightarrow> 'u \<Rightarrow> 'u \<times> (error_v1, u128) result" where
  "remove_unrecorded ops [] acc u = (u, Inr acc)"
| "remove_unrecorded ops (h # hs) acc u =
     (case ub_remove ops h u of
        (u', Inl e) \<Rightarrow> (u', Inl (CouldNotRemoveUnrecordedBlock e))
      | (u', Inr (Some bytes)) \<Rightarrow> remove_unrecorded ops hs (sat_add acc (ucast bytes)) u'
      | (u', Inr None) \<Rightarrow> remove_unrecorded ops hs acc u')"

definition update_unrecorded_block_bytes ::
  "'u unrecorded_blocks \<Rightarrow> u32 list \<Rightarrow> algorithm_updater_v1 \<Rightarrow> 'u \<Rightarrow>
   algorithm_updater_v1 \<times> 'u \<times> (error_v1, unit) result" where
  "update_unrecorded_block_bytes ops heights s u =
     (case remove_unrecorded ops heights 0 u of
        (u', Inl e) \<Rightarrow> (s, u', Inl e)
      | (u', Inr removed_bytes) \<Rightarrow>
          (s\<lparr>unrecorded_blocks_bytes := sat_sub (unrecorded_blocks_bytes s) removed_bytes\<rparr>, u', Inr ()))"

definition da_block_update ::
  "'u unrecorded_blocks \<Rightarrow> u32 list \<Rightarrow> u128 \<Rightarrow> u128 \<Rightarrow> algorithm_updater_v1 \<Rightarrow> 'u \<Rightarrow>
   algorithm_updater_v1 \<times> 'u \<times> (error_v1, unit) result" where
  "da_block_update ops heights recorded_bytes recording_cost s u =
     (case update_unrecorded_block_bytes ops heights s u of
        (s, u, Inl e) \<Rightarrow> (s, u, Inl e)
      | (s, u, Inr _) \<Rightarrow>
          let new_da_block_cost = sat_add (latest_known_total_da_cost s) recording_cost;
              s = s\<lparr>latest_known_total_da_cost := new_da_block_cost\<rparr>
          in case checked_div recording_cost recorded_bytes of
               None \<Rightarrow> (s, u, Inl (CouldNotCalculateCostPerByte recorded_bytes recording_cost))
             | Some compressed_cost_per_bytes \<Rightarrow>
                 (s\<lparr>latest_da_cost_per_byte := compressed_cost_per_bytes\<rparr>, u, Inr ()))"

definition recalculate_projected_cost :: "algorithm_updater_v1 \<Rightarrow> algorithm_updater_v1" where
  "recalculate_projected_cost s =
     (let projection_portion = sat_mul (unrecorded_blocks_bytes s) (latest_da_cost_per_byte s)
      in s\<lparr>projected_total_da_cost := sat_add (latest_known_total_da_cost s) projection_portion\<rparr>)"

text \<open>The \<^verbatim>\<open>RangeInclusive\<close> argument is given by its two ends.\<close>

definition update_da_record_data ::
  "'u unrecorded_blocks \<Rightarrow> u32 \<Rightarrow> u32 \<Rightarrow> u32 \<Rightarrow> u128 \<Rightarrow> algorithm_updater_v1 \<Rightarrow> 'u \<Rightarrow>
   algorithm_updater_v1 \<times> 'u \<times> (error_v1, unit) result" where
  "update_da_record_data ops first_height last_height recorded_bytes recording_cost s u =
     (if first_height \<le> last_height
      then (case da_block_update ops (range_inclusive first_height last_height)
                   (ucast recorded_bytes) recording_cost s u of
              (s, u, Inl e) \<Rightarrow> (s, u, Inl e)
            | (s, u, Inr _) \<Rightarrow> (update_da_gas_price (recalculate_projected_cost s), u, Inr ()))
      else (s, u, Inr ()))"


section \<open>Rewards and prices\<close>

text \<open>The exact and signed readings of the widening casts.\<close>

lemma unat_ucast_u64_u128 [sat_simps]: "unat (ucast a :: u128) = unat a" for a :: u64
  by (rule unat_ucast_wider) simp

lemma unat_ucast_u16_u64 [sat_simps]: "unat (ucast a :: u64) = unat a" for a :: u16
  by (rule unat_ucast_wider) simp

lemma sint_ucast_u64_i128 [ssat_simps]: "sint (ucast a :: i128) = int (unat a)" for a :: u64
  by (rule sint_ucast_wider) simp

lemma unat_u64_bound: "unat (a :: u64) \<le> 2 ^ 64 - 1"
  using unat_le_pow [of a] by simp

lemma uint_u64_bound: "uint (a :: u64) \<le> 2 ^ 64 - 1"
  using uint_lt2p [of a] by simp

theorem da_portion_of_fee_le: "da_portion_of_fee s fee_wei \<le> fee_wei"
proof -
  define e v where "e = unat (descaled_exec_price s)" and "v = unat (descaled_da_price s)"
  have den: "unat (sat_add (ucast (descaled_exec_price s)) (ucast (descaled_da_price s)) :: u128) = e + v"
    using unat_u64_bound [of "descaled_exec_price s"] unat_u64_bound [of "descaled_da_price s"]
    by (simp add: sat_simps e_def v_def)
  have "unat (sat_mul fee_wei (ucast (descaled_da_price s))) \<le> unat fee_wei * v"
    by (simp add: sat_simps v_def)
  also have "\<dots> \<le> (e + v) * unat fee_wei"
    by (simp add: algebra_simps)
  finally show ?thesis
    using unat_div_ceil_le [of "sat_mul fee_wei (ucast (descaled_da_price s))"
        "sat_add (ucast (descaled_exec_price s)) (ucast (descaled_da_price s))" "unat fee_wei"]
    by (auto simp: da_portion_of_fee_def Let_def den word_le_nat_alt)
qed

lemma sint_max_change: "sint (max_change s) = int (min (unat (new_scaled_da_gas_price s) *
    unat (max_da_gas_price_change_percent s)) (2 ^ 64 - 1) div 100)"
  by (simp add: max_change_def ssat_simps unat_div sat_simps)

lemma max_change_bounds: "0 \<le> sint (max_change s)" "sint (max_change s) < 2 ^ 64"
proof -
  show "0 \<le> sint (max_change s)" by (simp only: sint_max_change of_nat_0_le_iff)
  have "min (unat (new_scaled_da_gas_price s) * unat (max_da_gas_price_change_percent s)) (2 ^ 64 - 1)
      div 100 \<le> (2 ^ 64 - 1 :: nat)"
    by (rule order.trans [OF div_le_dividend min.cobounded2])
  then show "sint (max_change s) < 2 ^ 64"
    by (simp only: sint_max_change zless_nat_eq_int_zless [symmetric]) simp
qed

lemma sint_da_change_bound: "\<bar>sint (da_change s x y)\<bar> \<le> sint (max_change s)"
  using max_change_bounds [of s]
  by (auto simp: da_change_def Let_def ssat_mul_def ssat_simps sgn_if abs_if min_def max_def)

lemma sint_activity_change_bound:
  "\<bar>sint (da_change_accounting_for_activity s (da_change s x y))\<bar> \<le> sint (max_change s)"
  using sint_da_change_bound [of s x y] max_change_bounds [of s]
  by (auto simp: da_change_accounting_for_activity_def ssat_mul_def ssat_simps
      split: da_gas_price_safety_mode.splits)


text \<open>The signed change that one update applies to the DA price.\<close>

abbreviation applied_da_change :: "algorithm_updater_v1 \<Rightarrow> i128" where
  "applied_da_change s \<equiv> da_change_accounting_for_activity s (da_change s (p_term s) (d_term s))"

lemma uint_ucast_i128_u64: "uint (ucast x :: u64) = sint x"
  if "0 \<le> sint x" "sint x < 2 ^ 64" for x :: i128
proof -
  have "uint x = sint x"
    using that(1) sint_range [of x] by (simp add: uint_sint take_bit_int_eq_self_iff)
  then show ?thesis
    using that by (simp add: unsigned_ucast_eq take_bit_int_eq_self)
qed

lemma u64_change_fits_i128:
  "- (2 ^ 127) \<le> n + c \<and> n + c < 2 ^ 127" if "\<bar>c\<bar> < 2 ^ 64" "0 \<le> n" "n \<le> 2 ^ 64 - 1" for n c :: int
  using that by simp linarith

lemma uint_new_da_price:
  "uint (new_scaled_da_gas_price (update_da_gas_price s)) =
     min (max (uint (min_scaled_da_gas_price s))
           (max 0 (min (2 ^ 64 - 1) (uint (new_scaled_da_gas_price s) + sint (applied_da_change s)))))
         (uint (max_scaled_da_gas_price s))"
proof -
  define c where "c = applied_da_change s"
  define old where "old = new_scaled_da_gas_price s"
  have c: "\<bar>sint c\<bar> < 2 ^ 64"
    using sint_activity_change_bound [of s "p_term s" "d_term s"] max_change_bounds [of s]
    by (simp add: c_def)
  have old: "uint old \<le> 2 ^ 64 - 1" by (rule uint_u64_bound)
  define cand :: u64 where "cand =
    (case schecked_add (ucast old) c of
       Some x \<Rightarrow> if 0 \<le> sint x \<and> sint x < 2 ^ 64 then ucast x
                 else if 0 < sint c then u_max else 0
     | None \<Rightarrow> if 0 < sint c then u_max else 0)"
  have "uint cand = max 0 (min (2 ^ 64 - 1) (uint old + sint c))"
  proof (cases "schecked_add (ucast old :: i128) c")
    case None
    then have "uint old + sint c < - (2 ^ 127) \<or> 2 ^ 127 \<le> uint old + sint c"
      by (simp add: schecked_add_eq_None ssat_simps)
    with u64_change_fits_i128 [OF c uint_ge_0 uint_u64_bound, of old] have False by linarith
    then show ?thesis ..
  next
    case (Some x)
    then have x: "sint x = uint old + sint c"
      by (simp add: schecked_add_eq_Some ssat_simps)
    with Some c old show ?thesis
      by (auto simp: cand_def uint_ucast_i128_u64 uint_u_max)
  qed
  moreover have "new_scaled_da_gas_price (update_da_gas_price s) =
      min (max (min_scaled_da_gas_price s) cand) (max_scaled_da_gas_price s)"
    by (simp add: update_da_gas_price_def Let_def cand_def c_def old_def)
  ultimately show ?thesis
    by (simp only: uint_min uint_max c_def old_def)
qed

lemma clamped_move_bound:
  "\<bar>min (max lo (max 0 (min m (n + c)))) hi - n\<bar> \<le> k"
  if "lo \<le> n" "n \<le> hi" "0 \<le> n" "n \<le> m" "\<bar>c\<bar> \<le> k" for lo n hi m c k :: int
  using that by (auto simp: min_def max_def)


lemma clamped_fall:
  "min (max lo (max 0 (min m (n + c)))) hi \<le> n" if "lo \<le> n" "0 \<le> n" "c \<le> 0"
  for lo n hi m c :: int
  using that by (auto simp: min_def max_def)

lemma max_scaled_ge_min_scaled: "min_scaled_da_gas_price s \<le> max_scaled_da_gas_price s"
  by (simp add: min_scaled_da_gas_price_def max_scaled_da_gas_price_def sat_mul_mono)

lemma update_da_gas_price_frame [simp]:
  "min_scaled_da_gas_price (update_da_gas_price s) = min_scaled_da_gas_price s"
  "max_scaled_da_gas_price (update_da_gas_price s) = max_scaled_da_gas_price s"
  "min_scaled_exec_gas_price (update_da_gas_price s) = min_scaled_exec_gas_price s"
  "new_scaled_exec_price (update_da_gas_price s) = new_scaled_exec_price s"
  "l2_activity (update_da_gas_price s) = l2_activity s"
  "l2_block_height (update_da_gas_price s) = l2_block_height s"
  "unrecorded_blocks_bytes (update_da_gas_price s) = unrecorded_blocks_bytes s"
  "gas_price_factor (update_da_gas_price s) = gas_price_factor s"
  "projected_total_da_cost (update_da_gas_price s) = projected_total_da_cost s"
  "latest_known_total_da_cost (update_da_gas_price s) = latest_known_total_da_cost s"
  "latest_da_cost_per_byte (update_da_gas_price s) = latest_da_cost_per_byte s"
  by (simp_all add: update_da_gas_price_def Let_def min_scaled_da_gas_price_def
      max_scaled_da_gas_price_def min_scaled_exec_gas_price_def)

lemma update_da_gas_price_in_range:
  "min_scaled_da_gas_price s \<le> new_scaled_da_gas_price (update_da_gas_price s)"
  "new_scaled_da_gas_price (update_da_gas_price s) \<le> max_scaled_da_gas_price s"
  using max_scaled_ge_min_scaled [of s]
  by (simp_all add: update_da_gas_price_def Let_def)


text \<open>
  C20. One DA price update moves the price by at most the configured percentage of the old price
  (rounded down, computed with saturation), in either direction, as long as the old price is
  inside the configured range; the new price stays inside the range.
\<close>

theorem da_price_change_bounded:
  assumes "min_scaled_da_gas_price s \<le> new_scaled_da_gas_price s"
    and "new_scaled_da_gas_price s \<le> max_scaled_da_gas_price s"
  shows "\<bar>uint (new_scaled_da_gas_price (update_da_gas_price s)) - uint (new_scaled_da_gas_price s)\<bar>
           \<le> sint (max_change s)
       \<and> min_scaled_da_gas_price s \<le> new_scaled_da_gas_price (update_da_gas_price s)
       \<and> new_scaled_da_gas_price (update_da_gas_price s) \<le> max_scaled_da_gas_price s"
proof -
  have "uint (min_scaled_da_gas_price s) \<le> uint (new_scaled_da_gas_price s)"
    "uint (new_scaled_da_gas_price s) \<le> uint (max_scaled_da_gas_price s)"
    using assms by (simp_all add: word_le_def)
  then have "\<bar>uint (new_scaled_da_gas_price (update_da_gas_price s)) - uint (new_scaled_da_gas_price s)\<bar>
      \<le> sint (max_change s)"
    unfolding uint_new_da_price
    by (rule clamped_move_bound [OF _ _ uint_ge_0 uint_u64_bound sint_activity_change_bound])
  then show ?thesis
    using update_da_gas_price_in_range [of s] by simp
qed


text \<open>
  C22. The activity tracker caps the DA price.  Unless the tracker is in normal mode, an update never
  raises a price that is at or above the configured minimum.  If the controller does not ask for a raise,
  the price moves by what the controller asks for, in every mode.  If it does, the price drops by the whole
  allowed step when the activity is below the decrease threshold, and stays when it is only capped; always
  inside the configured range.
\<close>

theorem low_activity_never_raises_da_price:
  assumes "min_scaled_da_gas_price s \<le> new_scaled_da_gas_price s"
    and "safety_mode (l2_activity s) \<noteq> Normal"
  shows "new_scaled_da_gas_price (update_da_gas_price s) \<le> new_scaled_da_gas_price s
       \<and> uint (new_scaled_da_gas_price (update_da_gas_price s)) =
           min (max (uint (min_scaled_da_gas_price s))
                    (uint (new_scaled_da_gas_price s) +
                       (let asked = sint (da_change s (p_term s) (d_term s)) in
                        if asked \<le> 0 then asked
                        else if safety_mode (l2_activity s) = AlwaysDecrease then - sint (max_change s)
                        else 0)))
               (uint (max_scaled_da_gas_price s))"
proof
  have change: "sint (applied_da_change s) =
      (let asked = sint (da_change s (p_term s) (d_term s)) in
       if asked \<le> 0 then asked else if safety_mode (l2_activity s) = AlwaysDecrease then - sint (max_change s) else 0)"
    using assms(2) max_change_bounds [of s]
    by (auto simp: da_change_accounting_for_activity_def ssat_mul_def ssat_simps Let_def
        split: da_gas_price_safety_mode.splits)
  have neg: "sint (applied_da_change s) \<le> 0"
    unfolding change using max_change_bounds [of s] by (simp add: Let_def)
  have "uint (new_scaled_da_gas_price (update_da_gas_price s)) \<le> uint (new_scaled_da_gas_price s)"
    unfolding uint_new_da_price
    using assms(1) neg by (intro clamped_fall uint_ge_0) (simp_all add: word_le_def)
  then show "new_scaled_da_gas_price (update_da_gas_price s) \<le> new_scaled_da_gas_price s"
    by (simp add: word_le_def)
  have le: "uint (new_scaled_da_gas_price s) + sint (applied_da_change s) \<le> 2 ^ 64 - 1"
    using uint_u64_bound [of "new_scaled_da_gas_price s"] neg by linarith
  show "uint (new_scaled_da_gas_price (update_da_gas_price s)) =
      min (max (uint (min_scaled_da_gas_price s))
               (uint (new_scaled_da_gas_price s) +
                  (let asked = sint (da_change s (p_term s) (d_term s)) in
                   if asked \<le> 0 then asked
                   else if safety_mode (l2_activity s) = AlwaysDecrease then - sint (max_change s)
                   else 0)))
          (uint (max_scaled_da_gas_price s))"
    unfolding change[symmetric] uint_new_da_price min.absorb2 [OF le] max.assoc [symmetric]
      max.absorb1 [OF uint_ge_0] by simp
qed

section \<open>The activity tracker\<close>

definition tracker_ok :: "l2_activity_tracker \<Rightarrow> bool" where
  "tracker_ok t \<longleftrightarrow>
     chain_activity t \<le> max_activity t \<and>
     decrease_activity_threshold t \<le> capped_activity_threshold t \<and>
     capped_activity_threshold t \<le> max_activity t"

lemma tracker_ok_new: "tracker_ok (new_tracker n c r a t)"
  by (simp add: tracker_ok_def new_tracker_def new_full_def Let_def sat_add_ge)

lemma tracker_ok_update: "tracker_ok t \<Longrightarrow> tracker_ok (update_tracker u t)"
  using sat_sub_le [of "chain_activity t" 1]
  by (auto simp: tracker_ok_def update_tracker_def)

section \<open>The execution price\<close>

lemma update_exec_gas_price_frame [simp]:
  "min_scaled_exec_gas_price (update_exec_gas_price u c s) = min_scaled_exec_gas_price s"
  "min_scaled_da_gas_price (update_exec_gas_price u c s) = min_scaled_da_gas_price s"
  "max_scaled_da_gas_price (update_exec_gas_price u c s) = max_scaled_da_gas_price s"
  "new_scaled_da_gas_price (update_exec_gas_price u c s) = new_scaled_da_gas_price s"
  "l2_activity (update_exec_gas_price u c s) = l2_activity s"
  "l2_block_height (update_exec_gas_price u c s) = l2_block_height s"
  "unrecorded_blocks_bytes (update_exec_gas_price u c s) = unrecorded_blocks_bytes s"
  "gas_price_factor (update_exec_gas_price u c s) = gas_price_factor s"
  by (simp_all add: update_exec_gas_price_def Let_def min_scaled_da_gas_price_def
      max_scaled_da_gas_price_def min_scaled_exec_gas_price_def)

lemma unat_exec_change:
  "unat (exec_change s price) =
     min (unat price * unat (exec_gas_price_change_percent s)) (2 ^ 64 - 1) div 100"
  by (simp add: exec_change_def unat_div sat_simps)

text \<open>The fullness of a block in percent, against the threshold of the updater.\<close>

definition block_full :: "algorithm_updater_v1 \<Rightarrow> u64 \<times> u64 \<Rightarrow> bool" where
  "block_full s b \<longleftrightarrow>
     unat (percentage_value (l2_block_fullness_threshold_percent s)) \<le> min (unat (fst b) * 100) (2 ^ 64 - 1) div unat (snd b)"

definition exec_price_after :: "(u64 \<times> u64) list \<Rightarrow> algorithm_updater_v1 \<Rightarrow> algorithm_updater_v1" where
  "exec_price_after bs s = fold (\<lambda>(used, capacity). update_exec_gas_price used capacity) bs s"

lemma unat_exec_price:
  assumes "capacity \<noteq> 0"
  shows "unat (new_scaled_exec_price (update_exec_gas_price used capacity s)) =
     max (unat (min_scaled_exec_gas_price s))
       (let price = unat (new_scaled_exec_price s);
            step = min (price * unat (exec_gas_price_change_percent s)) (2 ^ 64 - 1) div 100
        in if block_full s (used, capacity) then min (price + step) (2 ^ 64 - 1) else price - step)"
proof -
  have "unat (ucast (percentage_value (l2_block_fullness_threshold_percent s)) :: u64) =
      unat (percentage_value (l2_block_fullness_threshold_percent s))"
    by (rule unat_ucast_wider) simp
  then show ?thesis
    using assms
    by (simp add: update_exec_gas_price_def Let_def checked_div_def sat_simps unat_exec_change
        word_le_nat_alt unat_div block_full_def)
qed

lemma update_exec_gas_price_ge_min:
  "min_scaled_exec_gas_price s \<le> new_scaled_exec_price (update_exec_gas_price u c s)"
  by (simp add: update_exec_gas_price_def Let_def)

lemma exec_update_frame [simp]:
  "min_scaled_exec_gas_price (update_exec_gas_price u c s) = min_scaled_exec_gas_price s"
  "exec_gas_price_change_percent (update_exec_gas_price u c s) = exec_gas_price_change_percent s"
  "block_full (update_exec_gas_price u c s) = block_full s"
  by (simp_all add: update_exec_gas_price_def min_scaled_exec_gas_price_def block_full_def Let_def fun_eq_iff)

text \<open>The price cannot fall any further: it is the minimum, or the percentage of it is below one.\<close>

definition exec_price_at_floor :: "algorithm_updater_v1 \<Rightarrow> bool" where
  "exec_price_at_floor s \<longleftrightarrow> new_scaled_exec_price s = min_scaled_exec_gas_price s
     \<or> unat (new_scaled_exec_price s) * unat (exec_gas_price_change_percent s) < 100"

lemma exec_price_step_down:
  assumes "c \<noteq> 0" "\<not> block_full s (u, c)" "min_scaled_exec_gas_price s \<le> new_scaled_exec_price s"
  defines "s' \<equiv> update_exec_gas_price u c s"
  shows "new_scaled_exec_price s' \<le> new_scaled_exec_price s"
    "exec_price_at_floor s \<Longrightarrow> exec_price_at_floor s'"
    "\<not> exec_price_at_floor s \<Longrightarrow> new_scaled_exec_price s' < new_scaled_exec_price s"
proof -
  let ?p = "unat (new_scaled_exec_price s)" and ?m = "unat (min_scaled_exec_gas_price s)"
  let ?step = "min (?p * unat (exec_gas_price_change_percent s)) (2 ^ 64 - 1) div 100"
  have p': "unat (new_scaled_exec_price s') = max ?m (?p - ?step)"
    using unat_exec_price[OF assms(1), of u s] assms(2) by (simp add: s'_def Let_def)
  have m: "?m \<le> ?p" using assms(3) by (simp add: word_le_nat_alt)
  show "new_scaled_exec_price s' \<le> new_scaled_exec_price s"
    using p' m by (simp add: word_le_nat_alt)
  show "exec_price_at_floor s'" if "exec_price_at_floor s"
    using that unfolding exec_price_at_floor_def
  proof
    assume "new_scaled_exec_price s = min_scaled_exec_gas_price s"
    with p' m show "new_scaled_exec_price s' = min_scaled_exec_gas_price s' \<or>
        unat (new_scaled_exec_price s') * unat (exec_gas_price_change_percent s') < 100"
      by (simp add: s'_def word_unat_eq_iff)
  next
    assume "?p * unat (exec_gas_price_change_percent s) < 100"
    with p' m show "new_scaled_exec_price s' = min_scaled_exec_gas_price s' \<or>
        unat (new_scaled_exec_price s') * unat (exec_gas_price_change_percent s') < 100"
      by (simp add: s'_def max_def)
  qed
  show "new_scaled_exec_price s' < new_scaled_exec_price s" if "\<not> exec_price_at_floor s"
  proof -
    have "0 < ?step" using that by (simp add: exec_price_at_floor_def div_greater_zero_iff)
    moreover have "?m < ?p" using that m by (auto simp: exec_price_at_floor_def word_unat_eq_iff)
    ultimately show ?thesis unfolding word_less_nat_alt p' by linarith
  qed
qed

lemma exec_price_run_down:
  assumes "\<forall>b\<in>set bs. snd b \<noteq> 0 \<and> \<not> block_full s b" "min_scaled_exec_gas_price s \<le> new_scaled_exec_price s"
  shows "new_scaled_exec_price (exec_price_after bs s) \<le> new_scaled_exec_price s
    \<and> (exec_price_at_floor s \<longrightarrow> exec_price_at_floor (exec_price_after bs s))
    \<and> (exec_price_at_floor (exec_price_after bs s)
       \<or> unat (new_scaled_exec_price (exec_price_after bs s)) + length bs \<le> unat (new_scaled_exec_price s))"
  using assms
proof (induction bs arbitrary: s)
  case (Cons b bs)
  obtain u c where b: "b = (u, c)" by (cases b)
  let ?s = "update_exec_gas_price u c s"
  have after: "exec_price_after (b # bs) s = exec_price_after bs ?s" by (simp add: exec_price_after_def b)
  have min: "min_scaled_exec_gas_price ?s \<le> new_scaled_exec_price ?s"
    using update_exec_gas_price_ge_min[of s u c] by simp
  have c: "c \<noteq> 0" "\<not> block_full s (u, c)" using Cons.prems(1) b by auto
  note step = exec_price_step_down[OF c Cons.prems(2)]
  have IH: "new_scaled_exec_price (exec_price_after bs ?s) \<le> new_scaled_exec_price ?s"
    "exec_price_at_floor ?s \<longrightarrow> exec_price_at_floor (exec_price_after bs ?s)"
    "exec_price_at_floor (exec_price_after bs ?s)
       \<or> unat (new_scaled_exec_price (exec_price_after bs ?s)) + length bs \<le> unat (new_scaled_exec_price ?s)"
    using Cons.IH[of ?s] Cons.prems(1) min by simp_all
  show ?case
  proof (cases "exec_price_at_floor s")
    case True
    with IH step show ?thesis unfolding after by (meson order.trans)
  next
    case False
    from step(3)[OF this] have "unat (new_scaled_exec_price ?s) + 1 \<le> unat (new_scaled_exec_price s)"
      by (simp add: word_less_nat_alt)
    with False IH(3) order.trans[OF IH(1) step(1)] show ?thesis unfolding after by auto
  qed
qed (simp add: exec_price_after_def)

lemma exec_price_run_up:
  "\<forall>b\<in>set bs. snd b \<noteq> 0 \<and> block_full s b \<Longrightarrow> new_scaled_exec_price s \<le> new_scaled_exec_price (exec_price_after bs s)"
proof (induction bs arbitrary: s)
  case (Cons b bs)
  obtain u c where b: "b = (u, c)" by (cases b)
  have c: "c \<noteq> 0" "block_full s (u, c)" using Cons.prems b by auto
  have "new_scaled_exec_price s \<le> new_scaled_exec_price (update_exec_gas_price u c s)"
    using unat_exec_price[OF c(1), of u s] c(2) unat_less_pow[of "new_scaled_exec_price s"]
    by (simp add: word_le_nat_alt Let_def min_def max_def)
  also have "\<dots> \<le> new_scaled_exec_price (exec_price_after bs (update_exec_gas_price u c s))"
    using Cons.IH[of "update_exec_gas_price u c s"] Cons.prems by simp
  finally show ?case by (simp add: exec_price_after_def b)
qed (simp add: exec_price_after_def)

text \<open>
  C24. Over a run of blocks below the fullness threshold the execution price only falls, and after as many
  blocks as its value it has reached the floor: the configured minimum, or a price of which the
  percentage is below one.  Over a run of blocks at or above the threshold it never falls.
\<close>

theorem exec_price_follows_fullness:
  assumes "min_scaled_exec_gas_price s \<le> new_scaled_exec_price s" "\<forall>b\<in>set bs. snd b \<noteq> 0"
  shows "((\<forall>b\<in>set bs. \<not> block_full s b) \<longrightarrow>
      new_scaled_exec_price (exec_price_after bs s) \<le> new_scaled_exec_price s
      \<and> (unat (new_scaled_exec_price s) \<le> length bs \<longrightarrow> exec_price_at_floor (exec_price_after bs s)))
    \<and> ((\<forall>b\<in>set bs. block_full s b) \<longrightarrow> new_scaled_exec_price s \<le> new_scaled_exec_price (exec_price_after bs s))"
proof (intro conjI impI)
  assume "\<forall>b\<in>set bs. \<not> block_full s b"
  with assms have down: "\<forall>b\<in>set bs. snd b \<noteq> 0 \<and> \<not> block_full s b" by blast
  note run = exec_price_run_down[OF down assms(1)]
  then show "new_scaled_exec_price (exec_price_after bs s) \<le> new_scaled_exec_price s" by blast
  show "exec_price_at_floor (exec_price_after bs s)" if "unat (new_scaled_exec_price s) \<le> length bs"
  proof (rule ccontr)
    assume floor: "\<not> exec_price_at_floor (exec_price_after bs s)"
    with run that have "unat (new_scaled_exec_price (exec_price_after bs s)) = 0" by auto
    with floor show False by (simp add: exec_price_at_floor_def)
  qed
next
  assume "\<forall>b\<in>set bs. block_full s b"
  with assms(2) show "new_scaled_exec_price s \<le> new_scaled_exec_price (exec_price_after bs s)"
    by (intro exec_price_run_up) blast
qed

section \<open>The price invariant\<close>

text \<open>
  The well-formedness of an updater: its scale factor is not zero (the source's
  \<^verbatim>\<open>NonZeroU64\<close>), both prices are inside their configured ranges and the activity
  is inside the tracker's range.
\<close>

definition prices_ok :: "algorithm_updater_v1 \<Rightarrow> bool" where
  "prices_ok s \<longleftrightarrow>
     gas_price_factor s \<noteq> 0 \<and>
     min_scaled_exec_gas_price s \<le> new_scaled_exec_price s \<and>
     min_scaled_da_gas_price s \<le> new_scaled_da_gas_price s \<and>
     new_scaled_da_gas_price s \<le> max_scaled_da_gas_price s \<and>
     tracker_ok (l2_activity s)"

lemmas early_update_defs =
  update_da_rewards_def update_projected_da_cost_def update_last_profit_def update_activity_def Let_def

lemma early_updates_frame [simp]:
  "min_scaled_exec_gas_price (update_da_rewards f s) = min_scaled_exec_gas_price s"
  "min_scaled_exec_gas_price (update_projected_da_cost b s) = min_scaled_exec_gas_price s"
  "min_scaled_exec_gas_price (update_last_profit q s) = min_scaled_exec_gas_price s"
  "min_scaled_exec_gas_price (update_activity u c s) = min_scaled_exec_gas_price s"
  "gas_price_factor (update_da_rewards f s) = gas_price_factor s"
  "gas_price_factor (update_projected_da_cost b s) = gas_price_factor s"
  "gas_price_factor (update_last_profit q s) = gas_price_factor s"
  "gas_price_factor (update_activity u c s) = gas_price_factor s"
  "l2_block_height (update_da_rewards f s) = l2_block_height s"
  "l2_block_height (update_projected_da_cost b s) = l2_block_height s"
  "l2_block_height (update_last_profit q s) = l2_block_height s"
  "l2_block_height (update_activity u c s) = l2_block_height s"
  "unrecorded_blocks_bytes (update_da_rewards f s) = unrecorded_blocks_bytes s"
  "unrecorded_blocks_bytes (update_projected_da_cost b s) = unrecorded_blocks_bytes s"
  "unrecorded_blocks_bytes (update_last_profit q s) = unrecorded_blocks_bytes s"
  "unrecorded_blocks_bytes (update_activity u c s) = unrecorded_blocks_bytes s"
  by (simp_all add: early_update_defs min_scaled_exec_gas_price_def)

lemma early_updates_activity [simp]:
  "l2_activity (update_da_rewards f s) = l2_activity s"
  "l2_activity (update_projected_da_cost b s) = l2_activity s"
  "l2_activity (update_last_profit q s) = l2_activity s"
  "tracker_ok (l2_activity s) \<Longrightarrow> tracker_ok (l2_activity (update_activity u c s))"
  by (simp_all add: early_update_defs tracker_ok_update)

lemma prices_ok_update_da_gas_price:
  "gas_price_factor s \<noteq> 0 \<Longrightarrow> min_scaled_exec_gas_price s \<le> new_scaled_exec_price s \<Longrightarrow>
   tracker_ok (l2_activity s) \<Longrightarrow> prices_ok (update_da_gas_price s)"
  using update_da_gas_price_in_range [of s] by (simp add: prices_ok_def)

lemma prices_ok_cong:
  "prices_ok (s\<lparr>unrecorded_blocks_bytes := b\<rparr>) = prices_ok s"
  "prices_ok (s\<lparr>latest_known_total_da_cost := k\<rparr>) = prices_ok s"
  "prices_ok (s\<lparr>latest_da_cost_per_byte := k\<rparr>) = prices_ok s"
  "prices_ok (s\<lparr>projected_total_da_cost := k\<rparr>) = prices_ok s"
  by (simp_all add: prices_ok_def min_scaled_exec_gas_price_def min_scaled_da_gas_price_def
      max_scaled_da_gas_price_def)

text \<open>The state an L2 block leaves before the block is registered as unrecorded.\<close>

definition after_l2_prices ::
  "u32 \<Rightarrow> u64 \<Rightarrow> u64 \<Rightarrow> u64 \<Rightarrow> u128 \<Rightarrow> algorithm_updater_v1 \<Rightarrow> algorithm_updater_v1" where
  "after_l2_prices height used capacity block_bytes fee_wei s =
     (let s1 = update_da_rewards fee_wei (s\<lparr>l2_block_height := height\<rparr>);
          s2 = update_projected_da_cost block_bytes s1;
          s3 = update_last_profit (ssat_sub (clamped_rewards_as_i128 s1) (clamped_projected_cost_as_i128 s2)) s2
      in update_da_gas_price (update_exec_gas_price used capacity (update_activity used capacity s3)))"

lemma update_l2_block_data_cases:
  "update_l2_block_data ops height used capacity block_bytes fee_wei s u =
     (if height \<noteq> sat_add (l2_block_height s) 1
      then (s, u, Inl (SkippedL2Block (sat_add (l2_block_height s) 1) height))
      else case ub_insert ops height block_bytes u of
        (u', Inl e) \<Rightarrow> (after_l2_prices height used capacity block_bytes fee_wei s, u',
                        Inl (CouldNotInsertUnrecordedBlock e))
      | (u', Inr _) \<Rightarrow>
          ((after_l2_prices height used capacity block_bytes fee_wei s)
             \<lparr>unrecorded_blocks_bytes := sat_add (unrecorded_blocks_bytes s) (ucast block_bytes)\<rparr>,
           u', Inr ()))"
  by (auto simp: update_l2_block_data_def after_l2_prices_def Let_def split: prod.splits sum.splits)

lemma after_l2_prices_frame [simp]:
  "l2_block_height (after_l2_prices h used cap b f s) = h"
  "unrecorded_blocks_bytes (after_l2_prices h used cap b f s) = unrecorded_blocks_bytes s"
  by (simp_all add: after_l2_prices_def Let_def)

lemma prices_ok_after_l2_prices:
  "prices_ok s \<Longrightarrow> prices_ok (after_l2_prices h used cap b f s)"
  unfolding after_l2_prices_def Let_def
  by (rule prices_ok_update_da_gas_price)
     (simp_all add: prices_ok_def update_exec_gas_price_ge_min [THEN order.trans [rotated]])

lemma prices_ok_update_l2_block_data:
  "prices_ok s \<Longrightarrow> prices_ok (fst (update_l2_block_data ops h used cap b f s u))"
  by (auto simp: update_l2_block_data_cases prices_ok_after_l2_prices prices_ok_cong
      split: prod.splits sum.splits)

lemma prices_ok_update_da_record_data:
  "prices_ok s \<Longrightarrow> prices_ok (fst (update_da_record_data ops h1 h2 b k s u))"
proof -
  assume s: "prices_ok s"
  have upd: "prices_ok (update_da_gas_price (recalculate_projected_cost t))" if "prices_ok t" for t
    using that
    by (intro prices_ok_update_da_gas_price)
       (simp_all add: recalculate_projected_cost_def Let_def prices_ok_def min_scaled_exec_gas_price_def)
  have "prices_ok (fst (da_block_update ops hs b' k s u))" for hs b'
    using s by (auto simp: da_block_update_def update_unrecorded_block_bytes_def Let_def prices_ok_cong
        split: prod.splits sum.splits option.splits)
  then show ?thesis
    using s upd by (auto simp: update_da_record_data_def split: prod.splits sum.splits)
       (metis fst_conv)+
qed


section \<open>Runs of the updater\<close>

text \<open>
  One step of the life of the updater and its unrecorded blocks: an L2 block or a DA record is
  delivered, with any arguments; what a failed update leaves behind is the next state, as in the
  source.
\<close>

inductive updater_step ::
  "'u unrecorded_blocks \<Rightarrow> algorithm_updater_v1 \<times> 'u \<Rightarrow> algorithm_updater_v1 \<times> 'u \<Rightarrow> bool"
  for ops :: "'u unrecorded_blocks" where
  l2: "update_l2_block_data ops height used capacity block_bytes fee_wei s u = (s', u', r) \<Longrightarrow>
       updater_step ops (s, u) (s', u')"
| da: "update_da_record_data ops h1 h2 recorded_bytes recording_cost s u = (s', u', r) \<Longrightarrow>
       updater_step ops (s, u) (s', u')"

abbreviation updater_run where
  "updater_run ops \<equiv> (updater_step ops)\<^sup>*\<^sup>*"

lemma updater_step_prices_ok: "updater_step ops x y \<Longrightarrow> prices_ok (fst x) \<Longrightarrow> prices_ok (fst y)"
proof (induction rule: updater_step.induct)
  case l2
  then show ?case using prices_ok_update_l2_block_data by (metis fst_conv)
next
  case da
  then show ?case using prices_ok_update_da_record_data by (metis fst_conv)
qed

text \<open>
  C19. Whatever sequence of L2 blocks and DA records arrives, in whatever order, whether or not
  single updates fail, both prices stay inside their configured ranges and the activity inside
  the tracker's range.
\<close>

theorem updater_run_prices_ok:
  assumes "updater_run ops (s, u) (s', u')" and "prices_ok s"
  shows "prices_ok s'"
proof -
  have "prices_ok (fst y)" if "updater_run ops x y" "prices_ok (fst x)" for x y
    using that by (induction rule: rtranclp_induct) (auto dest: updater_step_prices_ok)
  from this [OF assms(1)] assms(2) show ?thesis by simp
qed

section \<open>The bytes of the unrecorded blocks\<close>

text \<open>
  The contract of \<^verbatim>\<open>UnrecordedBlocks\<close>: through the abstraction to a map from heights to
  bytes, a successful insertion updates the map, a successful removal returns and deletes the
  entry, and a failed operation leaves the map alone.
\<close>

locale unrecorded_blocks_impl =
  fixes ops :: "'u unrecorded_blocks"
    and blocks :: "'u \<Rightarrow> u32 \<rightharpoonup> u64"
  assumes insert_Inr: "ub_insert ops h b u = (u', Inr x) \<Longrightarrow> blocks u' = (blocks u)(h \<mapsto> b)"
    and insert_Inl: "ub_insert ops h b u = (u', Inl e) \<Longrightarrow> blocks u' = blocks u"
    and remove_Inr: "ub_remove ops h u = (u', Inr r) \<Longrightarrow> r = blocks u h \<and> blocks u' = (blocks u)(h := None)"
begin

definition bytes_ok :: "algorithm_updater_v1 \<Rightarrow> 'u \<Rightarrow> bool" where
  "bytes_ok s u \<longleftrightarrow>
     (\<forall>h \<in> dom (blocks u). h \<le> l2_block_height s) \<and>
     unat (unrecorded_blocks_bytes s) = sum_map unat (blocks u)"

lemma finite_blocks: "finite (dom (blocks u))"
  by simp

text \<open>At most \<open>2 ^ 32\<close> blocks of less than \<open>2 ^ 64\<close> bytes: the total never saturates.\<close>

lemma sum_map_blocks_bound: "sum_map unat (blocks u) < 2 ^ 96"
proof -
  have "sum_map unat (blocks u) \<le> card (dom (blocks u)) * (2 ^ 64 - 1)"
    unfolding sum_map_def by (rule order.trans [OF sum_bounded_above]) (use unat_u64_bound in auto)
  also have "\<dots> \<le> card (UNIV :: u32 set) * (2 ^ 64 - 1)"
    by (intro mult_le_mono1 card_mono) auto
  also have "\<dots> < 2 ^ 96"
    by (simp add: card_word)
  finally show ?thesis .
qed

lemma remove_unrecorded_Inl:
  "remove_unrecorded ops hs acc v = (v', Inl e) \<Longrightarrow> \<exists>y. e = CouldNotRemoveUnrecordedBlock y"
  by (induction hs arbitrary: acc v) (auto split: prod.splits sum.splits option.splits)

lemma remove_unrecorded_Inr:
  assumes "remove_unrecorded ops hs acc u = (u', Inr t)"
    and "unat acc + sum_map unat (blocks u) < 2 ^ 128"
  shows "unat t + sum_map unat (blocks u') = unat acc + sum_map unat (blocks u)
       \<and> blocks u' = blocks u |` (- set hs)"
  using assms
proof (induction hs arbitrary: acc u)
  case Nil
  then show ?case by simp
next
  case (Cons h hs)
  obtain u1 r where r: "ub_remove ops h u = (u1, Inr r)"
    using Cons.prems(1) by (auto split: prod.splits sum.splits)
  from remove_Inr [OF r] have u1: "r = blocks u h" "blocks u1 = (blocks u)(h := None)" by auto
  have restr: "(blocks u)(h := None) |` (- set hs) = blocks u |` (- set (h # hs))"
    by (auto simp: restrict_map_def)
  show ?case
  proof (cases r)
    case None
    with u1 have eq: "blocks u1 = blocks u" by (simp add: fun_upd_None_idem)
    have "unat t + sum_map unat (blocks u') = unat acc + sum_map unat (blocks u1)
        \<and> blocks u' = blocks u1 |` (- set hs)"
      by (rule Cons.IH) (use Cons.prems r None eq in simp_all)
    then show ?thesis using eq u1(2) restr by metis
  next
    case (Some b)
    then have sum: "sum_map unat (blocks u) = unat b + sum_map unat (blocks u1)"
      using u1 sum_map_remove [OF finite_blocks] by metis
    then have "unat (sat_add acc (ucast b)) = unat acc + unat b"
      using Cons.prems(2) by (simp add: sat_simps)
    moreover have "unat t + sum_map unat (blocks u') = unat (sat_add acc (ucast b)) + sum_map unat (blocks u1)
        \<and> blocks u' = blocks u1 |` (- set hs)"
      by (rule Cons.IH) (use Cons.prems r Some sum calculation in simp_all)
    ultimately show ?thesis using sum u1(2) restr by (metis add.assoc)
  qed
qed

lemma bytes_ok_update_l2_block_data:
  assumes "update_l2_block_data ops h used cap b f s u = (s', u', r)"
    and "bytes_ok s u" and "l2_block_height s \<noteq> u_max"
  shows "bytes_ok s' u'"
proof (cases "h = sat_add (l2_block_height s) 1")
  case False
  with assms show ?thesis by (simp add: update_l2_block_data_cases)
next
  case True
  have "unat (l2_block_height s) \<noteq> 2 ^ 32 - 1"
    using assms(3) by (simp add: word_unat_eq_iff unat_u_max)
  with True have h: "l2_block_height s < h"
    using unat_le_pow [of "l2_block_height s"] by (simp add: word_less_nat_alt sat_simps)
  then have fresh: "blocks u h = None"
    using assms(2) by (fastforce simp: bytes_ok_def dom_def not_le)
  have old: "\<forall>k \<in> dom (blocks u). k \<le> h"
    using assms(2) h by (auto simp: bytes_ok_def intro: order.trans less_imp_le)
  obtain u1 ri where ins: "ub_insert ops h b u = (u1, ri)" by fastforce
  show ?thesis
  proof (cases ri)
    case (Inl e)
    with assms True ins old insert_Inl [of h b u u1 e] show ?thesis
      by (auto simp: update_l2_block_data_cases bytes_ok_def)
  next
    case (Inr x)
    with ins have m: "blocks u1 = (blocks u)(h \<mapsto> b)" by (simp add: insert_Inr)
    have "sum_map unat (blocks u1) = unat b + sum_map unat (blocks u)"
      unfolding m by (rule sum_map_insert [OF finite_blocks fresh])
    moreover have "unat (sat_add (unrecorded_blocks_bytes s) (ucast b)) = unat (unrecorded_blocks_bytes s) + unat b"
      using assms(2) sum_map_blocks_bound [of u] unat_u64_bound [of b]
      by (simp add: bytes_ok_def sat_simps)
    ultimately show ?thesis
      using assms True ins Inr m old by (auto simp: update_l2_block_data_cases bytes_ok_def)
  qed
qed

lemma bytes_ok_update_da_record_data:
  assumes "update_da_record_data ops h1 h2 b k s u = (s', u', r)"
    and "bytes_ok s u" and "\<forall>e. r \<noteq> Inl (CouldNotRemoveUnrecordedBlock e)"
  shows "bytes_ok s' u' \<and> l2_block_height s' = l2_block_height s
       \<and> blocks u' = blocks u |` {h. \<not> (h1 \<le> h \<and> h \<le> h2)}"
proof (cases "h1 \<le> h2")
  case False
  then have "blocks u |` {h. \<not> (h1 \<le> h \<and> h \<le> h2)} = blocks u"
    by (auto simp: restrict_map_def fun_eq_iff)
  with False assms show ?thesis by (simp add: update_da_record_data_def)
next
  case True
  obtain u1 rr where rem: "remove_unrecorded ops (range_inclusive h1 h2) 0 u = (u1, rr)"
    by fastforce
  show ?thesis
  proof (cases rr)
    case (Inl e)
    with rem obtain y where "e = CouldNotRemoveUnrecordedBlock y"
      by (auto dest: remove_unrecorded_Inl)
    with assms(1,3) True rem Inl show ?thesis
      by (auto simp: update_da_record_data_def da_block_update_def update_unrecorded_block_bytes_def)
  next
    case (Inr t)
    have t: "unat t + sum_map unat (blocks u1) = sum_map unat (blocks u)"
      "blocks u1 = blocks u |` (- set (range_inclusive h1 h2))"
      using remove_unrecorded_Inr [of _ 0, OF rem [unfolded Inr]] sum_map_blocks_bound [of u] by auto
    from t(2) have keep: "blocks u1 = blocks u |` {h. \<not> (h1 \<le> h \<and> h \<le> h2)}"
      by (simp add: set_range_inclusive Collect_neg_eq [symmetric])
    have "u' = u1 \<and> l2_block_height s' = l2_block_height s
        \<and> unrecorded_blocks_bytes s' = sat_sub (unrecorded_blocks_bytes s) t"
      using assms(1) True rem Inr
      by (auto simp: update_da_record_data_def da_block_update_def update_unrecorded_block_bytes_def
          recalculate_projected_cost_def Let_def split: option.splits)
    moreover have "unat (sat_sub (unrecorded_blocks_bytes s) t) = sum_map unat (blocks u1)"
      using assms(2) t(1) by (simp add: bytes_ok_def sat_simps)
    moreover have "\<forall>h \<in> dom (blocks u1). h \<le> l2_block_height s"
      using assms(2) keep by (auto simp: bytes_ok_def)
    ultimately show ?thesis using keep by (simp add: bytes_ok_def)
  qed
qed

end


interpretation btree_ub: unrecorded_blocks_impl btree_unrecorded_blocks "\<lambda>m. m"
  by unfold_locales (auto simp: btree_unrecorded_blocks_def)

lemma remove_unrecorded_btree_ok:
  "remove_unrecorded btree_unrecorded_blocks hs acc u \<noteq> (u', Inl e)"
  by (induction hs arbitrary: acc u)
     (auto simp: btree_unrecorded_blocks_def split: option.splits)

lemma update_da_record_data_btree_no_remove_error:
  "update_da_record_data btree_unrecorded_blocks h1 h2 b k s u \<noteq>
     (s', u', Inl (CouldNotRemoveUnrecordedBlock e))"
  using remove_unrecorded_btree_ok [of "range_inclusive h1 h2" 0 u]
  by (auto simp: update_da_record_data_def da_block_update_def update_unrecorded_block_bytes_def Let_def
      split: prod.splits sum.splits option.splits)

lemma da_block_update_height:
  "l2_block_height (fst (da_block_update ops hs b k s u)) = l2_block_height s"
  by (auto simp: da_block_update_def update_unrecorded_block_bytes_def Let_def
      split: prod.splits sum.splits option.splits)

lemma update_da_record_data_height:
  "l2_block_height (fst (update_da_record_data ops h1 h2 b k s u)) = l2_block_height s"
  using da_block_update_height [of ops "range_inclusive h1 h2" "ucast b" k s u]
  by (auto simp: update_da_record_data_def recalculate_projected_cost_def Let_def
      split: prod.splits sum.splits)

lemma update_l2_block_data_height:
  "l2_block_height s \<le> l2_block_height (fst (update_l2_block_data ops h used cap b f s u))"
  by (auto simp: update_l2_block_data_cases sat_add_ge split: prod.splits sum.splits)

lemma l2_block_height_mono:
  "updater_step ops x y \<Longrightarrow> l2_block_height (fst x) \<le> l2_block_height (fst y)"
proof (induction rule: updater_step.induct)
  case l2
  then show ?case by (metis update_l2_block_data_height fst_conv)
next
  case da
  then show ?case by (metis update_da_record_data_height fst_conv order_refl)
qed

lemma updater_step_bytes_ok:
  "updater_step btree_unrecorded_blocks x y \<Longrightarrow> btree_ub.bytes_ok (fst x) (snd x) \<Longrightarrow>
   l2_block_height (fst x) \<noteq> u_max \<Longrightarrow> btree_ub.bytes_ok (fst y) (snd y)"
proof (induction rule: updater_step.induct)
  case (l2 height used capacity block_bytes fee_wei s u s' u' r)
  then show ?case using btree_ub.bytes_ok_update_l2_block_data [OF l2.hyps] by simp
next
  case (da h1 h2 recorded_bytes recording_cost s u s' u' r)
  have "\<forall>e. r \<noteq> Inl (CouldNotRemoveUnrecordedBlock e)"
    using da.hyps update_da_record_data_btree_no_remove_error by blast
  with da.prems btree_ub.bytes_ok_update_da_record_data [OF da.hyps] show ?case by auto
qed

text \<open>
  C21. The byte counter of the unrecorded blocks is exact: after any sequence of L2 blocks and DA
  records over the map implementation of the unrecorded blocks, it equals the sum of the bytes of
  the blocks that are still in the map, and no unrecorded block lies above the last L2 height.
  The one limit is the end of the height range, where the expected height saturates.
\<close>

theorem unrecorded_bytes_exact:
  assumes run: "updater_run btree_unrecorded_blocks (s, u) (s', u')"
    and start: "\<forall>h \<in> dom u. h \<le> l2_block_height s"
      "unat (unrecorded_blocks_bytes s) = sum_map unat u"
    and height: "l2_block_height s' \<noteq> u_max"
  shows "unat (unrecorded_blocks_bytes s') = sum_map unat u' \<and> (\<forall>h \<in> dom u'. h \<le> l2_block_height s')"
proof -
  have "l2_block_height (fst y) \<noteq> u_max \<Longrightarrow> btree_ub.bytes_ok (fst y) (snd y)"
    if "updater_run btree_unrecorded_blocks x y" "btree_ub.bytes_ok (fst x) (snd x)" for x y
    using that
  proof (induction rule: rtranclp_induct)
    case (step y z)
    have "l2_block_height (fst y) \<le> l2_block_height (fst z)"
      by (rule l2_block_height_mono [OF step.hyps(2)])
    then have "l2_block_height (fst y) \<noteq> u_max"
      using step.prems(1) unat_le_pow [of "l2_block_height (fst z)"]
      by (auto simp: word_le_nat_alt word_unat_eq_iff unat_u_max)
    with step show ?case by (blast intro: updater_step_bytes_ok)
  qed simp
  from this [OF run] start height show ?thesis
    by (simp add: btree_ub.bytes_ok_def)
qed

text \<open>
  C23. A DA record that succeeds removes exactly the recorded heights from the unrecorded blocks,
  adds the recording cost to the known cost, and projects the total cost as the known cost plus
  the bytes still unrecorded times the new cost per byte (both operations saturating).
\<close>

theorem da_record_projects_cost:
  assumes upd: "update_da_record_data btree_unrecorded_blocks h1 h2 recorded_bytes recording_cost s u =
      (s', u', Inr ())"
    and range: "h1 \<le> h2"
    and start: "\<forall>h \<in> dom u. h \<le> l2_block_height s"
      "unat (unrecorded_blocks_bytes s) = sum_map unat u"
  shows "u' = u |` {h. \<not> (h1 \<le> h \<and> h \<le> h2)}
    \<and> recorded_bytes \<noteq> 0
    \<and> latest_da_cost_per_byte s' = recording_cost div ucast recorded_bytes
    \<and> latest_known_total_da_cost s' = sat_add (latest_known_total_da_cost s) recording_cost
    \<and> unat (projected_total_da_cost s') =
        min (unat (latest_known_total_da_cost s') +
             min (sum_map unat u' * unat (latest_da_cost_per_byte s')) (2 ^ 128 - 1)) (2 ^ 128 - 1)"
proof -
  have ok: "btree_ub.bytes_ok s' u'" and u': "u' = u |` {h. \<not> (h1 \<le> h \<and> h \<le> h2)}"
    using btree_ub.bytes_ok_update_da_record_data [OF upd] start by (auto simp: btree_ub.bytes_ok_def)
  have nz: "(ucast recorded_bytes :: u128) = 0 \<longleftrightarrow> recorded_bytes = 0"
    using unat_ucast_wider [of recorded_bytes, where 'b = 128] by (auto simp: word_unat_eq_iff)
  have "recorded_bytes \<noteq> 0
      \<and> latest_da_cost_per_byte s' = recording_cost div ucast recorded_bytes
      \<and> latest_known_total_da_cost s' = sat_add (latest_known_total_da_cost s) recording_cost
      \<and> projected_total_da_cost s' = sat_add (latest_known_total_da_cost s')
          (sat_mul (unrecorded_blocks_bytes s') (latest_da_cost_per_byte s'))"
    using upd range
    by (auto simp: update_da_record_data_def da_block_update_def update_unrecorded_block_bytes_def
        recalculate_projected_cost_def checked_div_def nz Let_def
        split: prod.splits sum.splits if_splits)
  then show ?thesis
    using u' ok by (simp add: sat_simps btree_ub.bytes_ok_def)
qed

text \<open>
  An L2 block is accepted exactly when its height is the next one; a skipped block is reported
  with the expected height and leaves the updater and the unrecorded blocks as they were.
\<close>

theorem skipped_l2_block_rejected:
  "snd (snd (update_l2_block_data btree_unrecorded_blocks height used capacity block_bytes fee_wei s u)) =
     (if height = sat_add (l2_block_height s) 1 then Inr ()
      else Inl (SkippedL2Block (sat_add (l2_block_height s) 1) height))
   \<and> (height \<noteq> sat_add (l2_block_height s) 1 \<longrightarrow>
       update_l2_block_data btree_unrecorded_blocks height used capacity block_bytes fee_wei s u =
         (s, u, Inl (SkippedL2Block (sat_add (l2_block_height s) 1) height)))"
  by (simp add: update_l2_block_data_cases btree_unrecorded_blocks_def)


section \<open>Concrete instances\<close>

text \<open>
  An updater with a loss in the last blocks (the controller asks for a raise) and activity below
  the decrease threshold, with the blocks 6 and 7 unrecorded: the hypotheses of the theorems above
  hold on it.
\<close>

definition sample_updater :: algorithm_updater_v1 where
  "sample_updater =
     \<lparr>new_scaled_exec_price = 1000, min_exec_gas_price = 5, exec_gas_price_change_percent = 10,
      l2_block_height = 7, l2_block_fullness_threshold_percent = new_clamped_percentage 50,
      new_scaled_da_gas_price = 2000, gas_price_factor = 100, min_da_gas_price = 1,
      max_da_gas_price = 1000, max_da_gas_price_change_percent = 10, total_da_rewards = 0,
      latest_known_total_da_cost = 0, projected_total_da_cost = 0, da_p_component = 4,
      da_d_component = 2, last_profit = - 400, second_to_last_profit = - 100,
      latest_da_cost_per_byte = 3, l2_activity = new_tracker 10 10 10 5 (new_clamped_percentage 20),
      unrecorded_blocks_bytes = 60\<rparr>"

definition sample_unrecorded :: "u32 \<rightharpoonup> u64" where
  "sample_unrecorded = [6 \<mapsto> 20, 7 \<mapsto> 40]"

lemmas price_eval =
  min_scaled_da_gas_price_def max_scaled_da_gas_price_def min_scaled_exec_gas_price_def
  sample_updater_def new_tracker_def new_full_def new_clamped_percentage_def safety_mode_def
  sat_mul_def sat_add_def sat_sub_def Let_def tracker_ok_def

lemmas change_eval =
  da_change_def p_term_def d_term_def schecked_div_def ssat_mul_def ssat_add_def ssat_sub_def
  s_clamp_def s_signum_def ssat_abs_def smin_def max_change_def signed_divide_int_def

lemma sample_da_price_in_range:
  "min_scaled_da_gas_price sample_updater \<le> new_scaled_da_gas_price sample_updater"
  "new_scaled_da_gas_price sample_updater \<le> max_scaled_da_gas_price sample_updater"
  by (simp_all add: price_eval)

lemma sample_prices_ok: "prices_ok sample_updater"
  by (simp add: price_eval prices_ok_def)

lemma sample_bytes_ok:
  "\<forall>h \<in> dom sample_unrecorded. h \<le> l2_block_height sample_updater"
  "unat (unrecorded_blocks_bytes sample_updater) = sum_map unat sample_unrecorded"
  by (simp_all add: sample_updater_def sample_unrecorded_def sum_map_def)

text \<open>The run that delivers block 8.\<close>

abbreviation sample_after_block_8 where
  "sample_after_block_8 \<equiv>
     update_l2_block_data btree_unrecorded_blocks 8 30 100 50 1000 sample_updater sample_unrecorded"

lemma sample_run:
  "updater_run btree_unrecorded_blocks (sample_updater, sample_unrecorded)
     (fst sample_after_block_8, fst (snd sample_after_block_8))"
  by (rule r_into_rtranclp, rule updater_step.l2, rule prod.collapse [symmetric, THEN trans], rule arg_cong)
     (rule prod.collapse [symmetric])

theorem da_price_change_bounded_witness:
  "\<bar>uint (new_scaled_da_gas_price (update_da_gas_price sample_updater)) - 2000\<bar> \<le> 200"
  using da_price_change_bounded [OF sample_da_price_in_range]
  by (simp add: sample_updater_def max_change_def sat_mul_def)

theorem low_activity_never_raises_da_price_witness:
  "new_scaled_da_gas_price (update_da_gas_price sample_updater) \<le> 2000
   \<and> uint (new_scaled_da_gas_price (update_da_gas_price sample_updater)) = 1800"
  using low_activity_never_raises_da_price [OF sample_da_price_in_range(1)]
  by (simp add: price_eval change_eval)

theorem exec_price_follows_fullness_witness:
  "let s = sample_updater\<lparr>new_scaled_exec_price := 30, min_exec_gas_price := 0\<rparr> in
   \<not> block_full s (30, 100) \<and> exec_price_at_floor (exec_price_after (replicate 30 (30, 100)) s)
   \<and> block_full s (90, 100) \<and> 30 \<le> new_scaled_exec_price (exec_price_after (replicate 30 (90, 100)) s)"
proof -
  let ?s = "sample_updater\<lparr>new_scaled_exec_price := 30, min_exec_gas_price := 0\<rparr>"
  have low: "\<not> block_full ?s (30, 100)" and high: "block_full ?s (90, 100)"
    by (simp_all add: block_full_def sample_updater_def new_clamped_percentage_def)
  have min: "min_scaled_exec_gas_price ?s \<le> new_scaled_exec_price ?s"
    by (simp add: min_scaled_exec_gas_price_def sat_mul_def sample_updater_def)
  from exec_price_follows_fullness[OF min, of "replicate 30 (30, 100)"]
    exec_price_follows_fullness[OF min, of "replicate 30 (90, 100)"] low high
  show ?thesis by (simp add: Let_def)
qed

theorem updater_run_prices_ok_witness:
  "prices_ok (fst sample_after_block_8)"
  by (rule updater_run_prices_ok [OF sample_run sample_prices_ok])

theorem unrecorded_bytes_exact_witness:
  "unat (unrecorded_blocks_bytes (fst sample_after_block_8)) =
     sum_map unat (fst (snd sample_after_block_8))"
proof -
  have "l2_block_height (fst sample_after_block_8) \<noteq> u_max"
    by (simp add: update_l2_block_data_cases btree_unrecorded_blocks_def sample_updater_def
        sat_add_def u_max_def)
  from unrecorded_bytes_exact [OF sample_run sample_bytes_ok this] show ?thesis by simp
qed

theorem da_record_projects_cost_witness:
  "\<exists>s' u'. update_da_record_data btree_unrecorded_blocks 6 6 10 50 sample_updater sample_unrecorded =
     (s', u', Inr ()) \<and> latest_da_cost_per_byte s' = 5 \<and> u' = sample_unrecorded(6 := None)"
proof -
  have "snd (snd (update_da_record_data btree_unrecorded_blocks 6 6 10 50 sample_updater
      sample_unrecorded)) = Inr ()"
    by (simp add: update_da_record_data_def da_block_update_def update_unrecorded_block_bytes_def
        range_inclusive_def btree_unrecorded_blocks_def checked_div_def split: option.splits)
  then obtain s' u' where upd: "update_da_record_data btree_unrecorded_blocks 6 6 10 50 sample_updater
      sample_unrecorded = (s', u', Inr ())"
    by (metis prod.collapse)
  have "{h. \<not> (6 \<le> h \<and> h \<le> (6 :: u32))} = - {6}"
    using order.antisym by blast
  moreover have "sample_unrecorded |` (- {6}) = sample_unrecorded(6 := None)"
    by (auto simp: restrict_map_def)
  ultimately show ?thesis
    using upd da_record_projects_cost [OF upd _ sample_bytes_ok] by auto
qed

theorem skipped_l2_block_rejected_witness:
  "update_l2_block_data btree_unrecorded_blocks 9 30 100 50 1000 sample_updater sample_unrecorded =
     (sample_updater, sample_unrecorded, Inl (SkippedL2Block 8 9))"
  using skipped_l2_block_rejected [of 9 30 100 50 1000 sample_updater sample_unrecorded]
  by (simp add: sample_updater_def sat_add_def)

end
