(* ===== verification/Ordered_Map.thy ===== *)
theory Ordered_Map
  imports
    Rust_Prelude
    "HOL-Library.AList"
    "HOL-Library.List_Lexorder"
begin

text \<open>
  The two maps of the Rust standard library that the storage crates use, as association lists.
  A \<open>BTreeMap\<close> is a list of entries with strictly increasing keys, so that iteration and the range
  queries of the code are list functions.  Keys that are byte vectors are compared
  lexicographically, which is the order of \<open>Vec<u8>\<close>.  A \<open>HashMap\<close> is a list of entries with
  distinct keys whose order is the (arbitrary) iteration order of the map.
\<close>

section \<open>BTreeMap\<close>

type_synonym ('k, 'v) btree = "('k \<times> 'v) list"

definition bt_ok :: "('k::linorder, 'v) btree \<Rightarrow> bool" where
  "bt_ok t = sorted_wrt (<) (map fst t)"

fun bt_insert :: "'k::linorder \<Rightarrow> 'v \<Rightarrow> ('k, 'v) btree \<Rightarrow> ('k, 'v) btree" where
  "bt_insert k v [] = [(k, v)]"
| "bt_insert k v ((k', v') # t) =
     (if k < k' then (k, v) # (k', v') # t
      else if k = k' then (k, v) # t
      else (k', v') # bt_insert k v t)"

fun bt_remove :: "'k \<Rightarrow> ('k, 'v) btree \<Rightarrow> ('k, 'v) btree" where
  "bt_remove k [] = []"
| "bt_remove k ((k', v') # t) = (if k = k' then t else (k', v') # bt_remove k t)"

text \<open>\<open>range(lo..)\<close> and \<open>range(..=hi)\<close>, in ascending key order.\<close>

definition bt_from :: "'k::linorder \<Rightarrow> ('k, 'v) btree \<Rightarrow> ('k, 'v) btree" where
  "bt_from lo t = filter (\<lambda>e. lo \<le> fst e) t"

definition bt_upto :: "'k::linorder \<Rightarrow> ('k, 'v) btree \<Rightarrow> ('k, 'v) btree" where
  "bt_upto hi t = filter (\<lambda>e. fst e \<le> hi) t"

lemma bt_ok_Nil [simp]: "bt_ok []"
  by (simp add: bt_ok_def)

lemma bt_ok_Cons: "bt_ok (e # t) \<longleftrightarrow> (\<forall>x\<in>set t. fst e < fst x) \<and> bt_ok t"
  by (auto simp: bt_ok_def)

lemma bt_ok_distinct: "bt_ok t \<Longrightarrow> distinct (map fst t)"
  unfolding bt_ok_def by (induction t) auto

lemma keys_bt_insert [simp]: "fst ` set (bt_insert k v t) = insert k (fst ` set t)"
  by (induction k v t rule: bt_insert.induct) auto

lemma bt_insert_elem: "x \<in> set (bt_insert k v t) \<Longrightarrow> x = (k, v) \<or> x \<in> set t"
  by (induction k v t rule: bt_insert.induct) (auto split: if_splits)

lemma bt_ok_insert [simp]: "bt_ok t \<Longrightarrow> bt_ok (bt_insert k v t)"
proof (induction k v t rule: bt_insert.induct)
  case (2 k v k' v' t)
  have "\<forall>x\<in>set (bt_insert k v t). fst x = k \<or> x \<in> set t"
    by (auto dest: bt_insert_elem)
  with 2 show ?case by (fastforce simp: bt_ok_Cons)
qed (simp add: bt_ok_Cons)

lemma map_of_less_None: "bt_ok ((k', v') # t) \<Longrightarrow> k < k' \<Longrightarrow> map_of t k = None"
  by (force simp: bt_ok_Cons map_of_eq_None_iff)

lemma map_of_bt_insert [simp]: "bt_ok t \<Longrightarrow> map_of (bt_insert k v t) = (map_of t)(k \<mapsto> v)"
  by (induction k v t rule: bt_insert.induct) (auto simp: bt_ok_Cons fun_eq_iff)

lemma set_bt_remove_subset: "set (bt_remove k t) \<subseteq> set t"
  by (induction k t rule: bt_remove.induct) auto

lemma bt_ok_remove [simp]: "bt_ok t \<Longrightarrow> bt_ok (bt_remove k t)"
  by (induction k t rule: bt_remove.induct)
    (use set_bt_remove_subset in \<open>fastforce simp: bt_ok_Cons\<close>)+

lemma map_of_bt_remove [simp]: "bt_ok t \<Longrightarrow> map_of (bt_remove k t) = (map_of t)(k := None)"
proof (induction k t rule: bt_remove.induct)
  case (2 k k' v' t)
  then have "map_of t k' = None" by (auto simp: bt_ok_Cons map_of_eq_None_iff)
  with 2 show ?case by (auto simp: bt_ok_Cons fun_eq_iff)
qed simp

lemma bt_ok_filter [simp]: "bt_ok t \<Longrightarrow> bt_ok (filter P t)"
  by (induction t) (auto simp: bt_ok_Cons)

lemma bt_ok_map_of_iff: "bt_ok t \<Longrightarrow> map_of t k = Some v \<longleftrightarrow> (k, v) \<in> set t"
  by (simp add: bt_ok_distinct)

section \<open>HashMap\<close>

definition hm_ok :: "('k \<times> 'v) list \<Rightarrow> bool" where
  "hm_ok m = distinct (map fst m)"

text \<open>\<open>m.entry(k).or_default()\<close> read as a value, with \<open>d\<close> the default of the value type.\<close>

definition hm_get_or :: "'k \<Rightarrow> 'v \<Rightarrow> ('k \<times> 'v) list \<Rightarrow> 'v" where
  "hm_get_or k d m = (case map_of m k of Some v \<Rightarrow> v | None \<Rightarrow> d)"

definition hm_insert :: "'k \<Rightarrow> 'v \<Rightarrow> ('k \<times> 'v) list \<Rightarrow> ('k \<times> 'v) list" where
  "hm_insert k v m = AList.update k v m"

lemma hm_ok_Nil [simp]: "hm_ok []"
  by (simp add: hm_ok_def)

lemma hm_ok_Cons: "hm_ok (e # m) \<longleftrightarrow> fst e \<notin> fst ` set m \<and> hm_ok m"
  by (simp add: hm_ok_def)

lemma hm_ok_insert [simp]: "hm_ok m \<Longrightarrow> hm_ok (hm_insert k v m)"
  unfolding hm_ok_def hm_insert_def by (rule distinct_update)

lemma map_of_hm_insert [simp]: "map_of (hm_insert k v m) = (map_of m)(k \<mapsto> v)"
  unfolding hm_insert_def by (rule update_conv')

lemma ran_hm_insert: "x \<in> ran (map_of (hm_insert k v m)) \<Longrightarrow> x = v \<or> x \<in> ran (map_of m)"
  by (auto simp: ran_def split: if_splits)

lemma ran_map_of_Cons:
  assumes "hm_ok ((k, v) # m)"
  shows "ran (map_of ((k, v) # m)) = insert v (ran (map_of m))"
  using assms by (auto simp: ran_def hm_ok_Cons map_of_eq_None_iff dest: map_of_SomeD)
    (metis fst_conv image_iff map_of_SomeD)

section \<open>Prefixes of byte keys\<close>

text \<open>\<open>key.starts_with(prefix)\<close> of slices.\<close>

definition starts_with :: "'a list \<Rightarrow> 'a list \<Rightarrow> bool" where
  "starts_with key p = (take (length p) key = p)"

lemma starts_with_Nil [simp]: "starts_with key []"
  by (simp add: starts_with_def)

lemma starts_with_Cons [simp]:
  "starts_with key (a # p) \<longleftrightarrow> (\<exists>key'. key = a # key' \<and> starts_with key' p)"
  by (cases key) (auto simp: starts_with_def)

lemma starts_with_refl [simp]: "starts_with p p"
  by (simp add: starts_with_def)

text \<open>The keys with a given prefix are the first ones from the prefix on and are contiguous.\<close>

lemma starts_with_ge: "starts_with key p \<Longrightarrow> p \<le> key"
  for key :: "'a::linorder list"
  by (induction p arbitrary: key) auto

lemma starts_with_between:
  "starts_with z p \<Longrightarrow> p \<le> y \<Longrightarrow> y \<le> z \<Longrightarrow> starts_with y p"
  for y z :: "'a::linorder list"
proof (induction p arbitrary: y z)
  case (Cons a p)
  then show ?case by (cases y) auto
qed simp

lemma takeWhile_filter_sorted:
  assumes "sorted_wrt (\<lambda>x y. P y \<longrightarrow> P x) xs"
  shows "takeWhile P xs = filter P xs"
  using assms by (induction xs) (auto simp: filter_empty_conv)

lemma bt_ok_sorted_wrt: "bt_ok t \<Longrightarrow> sorted_wrt (\<lambda>x y. fst x < fst y) t"
  by (simp add: bt_ok_def sorted_wrt_map)

section \<open>Big-endian bytes\<close>

text \<open>The \<open>n\<close> bytes of a number, the most significant first, and the number that bytes denote:
  \<open>to_be_bytes\<close> and \<open>from_be_bytes\<close> of the machine integers and of byte arrays of fixed length.\<close>

fun be_bytes :: "nat \<Rightarrow> nat \<Rightarrow> bytes" where
  "be_bytes 0 x = []"
| "be_bytes (Suc n) x = be_bytes n (x div 256) @ [of_nat (x mod 256)]"

definition word_bytes :: "'a::len word \<Rightarrow> bytes" where
  "word_bytes w = be_bytes (LENGTH('a) div 8) (unat w)"

fun bytes_value :: "bytes \<Rightarrow> nat" where
  "bytes_value [] = 0"
| "bytes_value (b # bs) = unat b * 256 ^ length bs + bytes_value bs"

definition word_of_bytes :: "bytes \<Rightarrow> 'a::len word" where
  "word_of_bytes bs = of_nat (bytes_value bs)"

lemma length_be_bytes [simp]: "length (be_bytes n x) = n"
  by (induction n arbitrary: x) auto

lemma be_bytes_numeral [simp]:
  "be_bytes (numeral n) x = be_bytes (pred_numeral n) (x div 256) @ [of_nat (x mod 256)]"
  by (subst numeral_eq_Suc) (rule be_bytes.simps)

lemma snoc_less_iff:
  "length xs = length ys \<Longrightarrow>
   xs @ [a] < ys @ [b] \<longleftrightarrow> xs < ys \<or> xs = ys \<and> a < (b :: 'a::linorder)"
  by (induction xs ys rule: list_induct2) auto

lemma less_div_mod:
  "x < y \<longleftrightarrow> x div 256 < y div 256 \<or> x div 256 = y div 256 \<and> x mod 256 < y mod (256 :: nat)"
proof -
  have "x = 256 * (x div 256) + x mod 256" "y = 256 * (y div 256) + y mod 256" by simp_all
  moreover have "x mod 256 < 256" "y mod 256 < 256" by simp_all
  ultimately show ?thesis by linarith
qed

lemma be_bytes_less: "x < 256 ^ n \<Longrightarrow> y < 256 ^ n \<Longrightarrow> be_bytes n x < be_bytes n y \<longleftrightarrow> x < y"
proof (induction n arbitrary: x y)
  case (Suc n)
  have div: "x div 256 < 256 ^ n" "y div 256 < 256 ^ n"
    using Suc.prems by (simp_all add: less_mult_imp_div_less)
  have byte: "(of_nat (x mod 256) :: u8) < of_nat (y mod 256) \<longleftrightarrow> x mod 256 < y mod 256"
    by (simp add: word_less_nat_alt unsigned_of_nat take_bit_nat_eq_self)
  have "be_bytes n (x div 256) = be_bytes n (y div 256) \<longleftrightarrow> x div 256 = y div 256"
    using Suc.IH[OF div] Suc.IH[OF div(2,1)] by (metis linorder_neqE_nat order.irrefl)
  then have "be_bytes (Suc n) x < be_bytes (Suc n) y \<longleftrightarrow>
      x div 256 < y div 256 \<or> x div 256 = y div 256 \<and> x mod 256 < y mod 256"
    using Suc.IH[OF div] byte by (simp add: snoc_less_iff)
  also have "\<dots> \<longleftrightarrow> x < y"
    by (rule less_div_mod[symmetric])
  finally show ?case .
qed simp

lemma bytes_value_append [simp]:
  "bytes_value (xs @ ys) = bytes_value xs * 256 ^ length ys + bytes_value ys"
  by (induction xs) (auto simp: algebra_simps power_add)

lemma bytes_value_be_bytes: "bytes_value (be_bytes n x) = x mod 256 ^ n"
proof (induction n arbitrary: x)
  case (Suc n)
  have "unat (of_nat (x mod 256) :: u8) = x mod 256"
    by (simp add: unsigned_of_nat take_bit_nat_eq_self)
  with Suc show ?case by (simp add: mod_mult2_eq mult.commute)
qed simp

lemma bytes_value_less: "bytes_value bs < 256 ^ length bs"
proof (induction bs)
  case (Cons b bs)
  have "unat b * 256 ^ length bs \<le> 255 * 256 ^ length bs"
    using unat_less_pow[of b] by (intro mult_le_mono1) simp
  with Cons have "unat b * 256 ^ length bs + bytes_value bs < 255 * 256 ^ length bs + 256 ^ length bs"
    by linarith
  then show ?case by simp
qed simp

lemma be_bytes_bytes_value: "be_bytes (length bs) (bytes_value bs) = bs"
proof (induction bs rule: rev_induct)
  case (snoc b bs)
  have "unat b < 256" using unat_less_pow[of b] by simp
  with snoc show ?case by simp
qed simp

text \<open>A word type whose width is a whole number of bytes.\<close>

lemma byte_width: "LENGTH('a::len) mod 8 = 0 \<Longrightarrow> 256 ^ (LENGTH('a) div 8) = (2 :: nat) ^ LENGTH('a)"
proof -
  assume "LENGTH('a) mod 8 = 0"
  then have "8 * (LENGTH('a) div 8) = LENGTH('a)" by auto
  then show ?thesis using power_mult[of "2 :: nat" 8 "LENGTH('a) div 8"] by simp
qed

lemma word_of_bytes_word_bytes:
  "LENGTH('a) mod 8 = 0 \<Longrightarrow> word_of_bytes (word_bytes w) = (w :: 'a::len word)"
  by (simp add: word_of_bytes_def word_bytes_def bytes_value_be_bytes byte_width)

lemma word_bytes_word_of_bytes:
  "LENGTH('a::len) mod 8 = 0 \<Longrightarrow> length bs = LENGTH('a) div 8 \<Longrightarrow>
   word_bytes (word_of_bytes bs :: 'a word) = bs"
  using bytes_value_less[of bs] be_bytes_bytes_value[of bs]
  by (simp add: word_of_bytes_def word_bytes_def byte_width unsigned_of_nat take_bit_nat_eq_self)

lemma length_word_bytes [simp]: "length (word_bytes (w :: 'a::len word)) = LENGTH('a) div 8"
  by (simp add: word_bytes_def)

lemma word_bytes_inj:
  "LENGTH('a) mod 8 = 0 \<Longrightarrow> word_bytes v = word_bytes w \<Longrightarrow> v = (w :: 'a::len word)"
  by (metis word_of_bytes_word_bytes)

lemma word_bytes_inj_iff:
  "LENGTH('a) mod 8 = 0 \<Longrightarrow> word_bytes v = word_bytes w \<longleftrightarrow> v = (w :: 'a::len word)"
  using word_bytes_inj[of v w] by auto

lemma word_bytes_less:
  "LENGTH('a) mod 8 = 0 \<Longrightarrow> word_bytes v < word_bytes w \<longleftrightarrow> v < (w :: 'a::len word)"
  using unat_less_pow[of v] unat_less_pow[of w]
  by (simp add: word_bytes_def be_bytes_less byte_width word_less_nat_alt)

end
