(* ===== verification/Kv_Store.thy ===== *)
theory Kv_Store
  imports Ordered_Map
begin

text \<open>
  The key-value store of \<open>crates/storage\<close>: the trait \<open>KeyValueInspect\<close> with its default methods
  (\<open>kv_store.rs\<close>) and the in-memory transaction that accumulates changes over a store and commits
  them (\<open>transactional.rs\<close>).

  A trait is a record of its operations.  The column of an access is the number \<open>column.id()\<close>.
  A function that fills a buffer returns the new contents of the buffer with its result.  The
  nested results of the code, an error of the storage around an error of the read, are nested sums.

  The contract of the trait is the locale \<open>kv_inspect_laws\<close>: an implementation that overrides the
  default methods agrees with them.  \<open>modifiable_store\<close> adds what \<open>Modifiable::commit_changes\<close>
  promises.  Both are interpreted by the in-memory transaction itself, so that transactions nest.
\<close>

section \<open>kv_store.rs\<close>

datatype write_operation = Insert bytes | Remove

text \<open>
  The errors that the modelled code raises.  The code wraps each of them into a variant of the
  error enum of \<open>lib.rs\<close>, where it is a text; an index out of bounds is a panic.  \<open>Other\<close> stands for
  the errors of a store below.
\<close>

datatype storage_error =
    Conflicting_operation write_operation bytes
  | Conflicting_changes u32 bytes
  | Index_out_of_bounds u32
  | Other string

datatype storage_read_error = KeyNotFound | OutOfBounds

type_synonym 'a storage_result = "(storage_error, 'a) result"
type_synonym read_result = "(storage_read_error, usize) result storage_result"

record 's kv_inspect =
  kv_exists :: "'s \<Rightarrow> bytes \<Rightarrow> u32 \<Rightarrow> bool storage_result"
  kv_size_of_value :: "'s \<Rightarrow> bytes \<Rightarrow> u32 \<Rightarrow> usize option storage_result"
  kv_get :: "'s \<Rightarrow> bytes \<Rightarrow> u32 \<Rightarrow> bytes option storage_result"
  kv_read_exact :: "'s \<Rightarrow> bytes \<Rightarrow> u32 \<Rightarrow> usize \<Rightarrow> bytes \<Rightarrow> bytes \<times> read_result"
  kv_read_zerofill :: "'s \<Rightarrow> bytes \<Rightarrow> u32 \<Rightarrow> usize \<Rightarrow> bytes \<Rightarrow> bytes \<times> read_result"

text \<open>\<open>len()\<close> of a slice, \<open>slice.get(a..b)\<close> and \<open>slice.split_at_checked(i)\<close>.\<close>

definition len :: "'a list \<Rightarrow> usize" where
  "len xs = of_nat (length xs)"

definition slice_get :: "'a list \<Rightarrow> usize \<Rightarrow> usize \<Rightarrow> 'a list option" where
  "slice_get xs a b =
     (if a \<le> b \<and> unat b \<le> length xs then Some (take (unat b - unat a) (drop (unat a) xs))
      else None)"

definition split_at_checked :: "'a list \<Rightarrow> usize \<Rightarrow> ('a list \<times> 'a list) option" where
  "split_at_checked xs i =
     (if unat i \<le> length xs then Some (take (unat i) xs, drop (unat i) xs) else None)"

text \<open>The default methods of the trait, over the methods they call.\<close>

definition default_size_of_value ::
    "('s \<Rightarrow> bytes \<Rightarrow> u32 \<Rightarrow> bytes option storage_result)
     \<Rightarrow> 's \<Rightarrow> bytes \<Rightarrow> u32 \<Rightarrow> usize option storage_result" where
  "default_size_of_value get s key column =
     (case get s key column of Inl e \<Rightarrow> Inl e | Inr v \<Rightarrow> Inr (map_option len v))"

definition default_exists ::
    "('s \<Rightarrow> bytes \<Rightarrow> u32 \<Rightarrow> usize option storage_result)
     \<Rightarrow> 's \<Rightarrow> bytes \<Rightarrow> u32 \<Rightarrow> bool storage_result" where
  "default_exists size_of_value s key column =
     (case size_of_value s key column of Inl e \<Rightarrow> Inl e | Inr n \<Rightarrow> Inr (n \<noteq> None))"

definition default_read_exact ::
    "('s \<Rightarrow> bytes \<Rightarrow> u32 \<Rightarrow> bytes option storage_result)
     \<Rightarrow> 's \<Rightarrow> bytes \<Rightarrow> u32 \<Rightarrow> usize \<Rightarrow> bytes \<Rightarrow> bytes \<times> read_result" where
  "default_read_exact get s key column offset buf =
     (case get s key column of
        Inl e \<Rightarrow> (buf, Inl e)
      | Inr None \<Rightarrow> (buf, Inr (Inl KeyNotFound))
      | Inr (Some val) \<Rightarrow>
          let buf_len = len buf in
          (case slice_get val offset (sat_add offset buf_len) of
             None \<Rightarrow> (buf, Inr (Inl OutOfBounds))
           | Some data \<Rightarrow> (data, Inr (Inr buf_len))))"

definition default_read_zerofill ::
    "('s \<Rightarrow> bytes \<Rightarrow> u32 \<Rightarrow> bytes option storage_result)
     \<Rightarrow> 's \<Rightarrow> bytes \<Rightarrow> u32 \<Rightarrow> usize \<Rightarrow> bytes \<Rightarrow> bytes \<times> read_result" where
  "default_read_zerofill get s key column offset buf =
     (case get s key column of
        Inl e \<Rightarrow> (buf, Inl e)
      | Inr None \<Rightarrow> (buf, Inr (Inl KeyNotFound))
      | Inr (Some val) \<Rightarrow>
          let bytes_len = len val; buf_len = length buf in
          (case split_at_checked val offset of
             None \<Rightarrow> (buf, Inr (Inl OutOfBounds))
           | Some (_, aft) \<Rightarrow>
               let dst = min buf_len (length aft) in
               (take dst aft @ replicate (buf_len - dst) 0, Inr (Inr bytes_len))))"

text \<open>A store that implements \<open>get\<close> only.\<close>

definition kv_default ::
    "('s \<Rightarrow> bytes \<Rightarrow> u32 \<Rightarrow> bytes option storage_result) \<Rightarrow> 's kv_inspect" where
  "kv_default get =
     \<lparr>kv_exists = default_exists (default_size_of_value get),
      kv_size_of_value = default_size_of_value get,
      kv_get = get,
      kv_read_exact = default_read_exact get,
      kv_read_zerofill = default_read_zerofill get\<rparr>"

text \<open>The default methods of \<open>KeyValueMutate\<close>, over \<open>get\<close>, \<open>write\<close> and \<open>delete\<close>.\<close>

definition default_put ::
    "('s \<Rightarrow> bytes \<Rightarrow> u32 \<Rightarrow> bytes \<Rightarrow> 's \<times> usize storage_result)
     \<Rightarrow> 's \<Rightarrow> bytes \<Rightarrow> u32 \<Rightarrow> bytes \<Rightarrow> 's \<times> unit storage_result" where
  "default_put wr s key column val =
     (case wr s key column val of
        (s', Inl e) \<Rightarrow> (s', Inl e)
      | (s', Inr _) \<Rightarrow> (s', Inr ()))"

definition default_replace ::
    "('s \<Rightarrow> bytes \<Rightarrow> u32 \<Rightarrow> bytes option storage_result)
     \<Rightarrow> ('s \<Rightarrow> bytes \<Rightarrow> u32 \<Rightarrow> bytes \<Rightarrow> 's \<times> unit storage_result)
     \<Rightarrow> 's \<Rightarrow> bytes \<Rightarrow> u32 \<Rightarrow> bytes \<Rightarrow> 's \<times> bytes option storage_result" where
  "default_replace get pt s key column val =
     (case get s key column of
        Inl e \<Rightarrow> (s, Inl e)
      | Inr old_value \<Rightarrow>
          (case pt s key column val of
             (s', Inl e) \<Rightarrow> (s', Inl e)
           | (s', Inr _) \<Rightarrow> (s', Inr old_value)))"

definition default_take ::
    "('s \<Rightarrow> bytes \<Rightarrow> u32 \<Rightarrow> bytes option storage_result)
     \<Rightarrow> ('s \<Rightarrow> bytes \<Rightarrow> u32 \<Rightarrow> 's \<times> unit storage_result)
     \<Rightarrow> 's \<Rightarrow> bytes \<Rightarrow> u32 \<Rightarrow> 's \<times> bytes option storage_result" where
  "default_take get del s key column =
     (case get s key column of
        Inl e \<Rightarrow> (s, Inl e)
      | Inr old_value \<Rightarrow>
          (case del s key column of
             (s', Inl e) \<Rightarrow> (s', Inl e)
           | (s', Inr _) \<Rightarrow> (s', Inr old_value)))"

section \<open>transactional.rs\<close>

type_synonym op_tree = "(bytes, write_operation) btree"
type_synonym changes = "(u32 \<times> op_tree) list"

datatype conflict_policy = Fail | Overwrite

record 's in_memory_transaction =
  changes :: changes
  policy :: conflict_policy
  storage :: 's

definition transaction :: "'s \<Rightarrow> conflict_policy \<Rightarrow> changes \<Rightarrow> 's in_memory_transaction" where
  "transaction st pol ch = \<lparr>changes = ch, policy = pol, storage = st\<rparr>"

definition with_policy ::
    "conflict_policy \<Rightarrow> 's in_memory_transaction \<Rightarrow> 's in_memory_transaction" where
  "with_policy pol tx = \<lparr>changes = changes tx, policy = pol, storage = storage tx\<rparr>"

definition with_changes :: "changes \<Rightarrow> 's in_memory_transaction \<Rightarrow> 's in_memory_transaction" where
  "with_changes ch tx = \<lparr>changes = ch, policy = policy tx, storage = storage tx\<rparr>"

definition into_inner :: "'s in_memory_transaction \<Rightarrow> 's \<times> changes" where
  "into_inner tx = (storage tx, changes tx)"

definition reset_changes :: "'s in_memory_transaction \<Rightarrow> 's in_memory_transaction" where
  "reset_changes tx = tx\<lparr>changes := []\<rparr>"

definition write_transaction :: "'s \<Rightarrow> 's in_memory_transaction" where
  "write_transaction st = transaction st Overwrite []"

definition changes_at :: "changes \<Rightarrow> bytes \<Rightarrow> u32 \<Rightarrow> write_operation option" where
  "changes_at ch key column =
     (case map_of ch column of None \<Rightarrow> None | Some t \<Rightarrow> map_of t key)"

definition get_from_changes ::
    "'s in_memory_transaction \<Rightarrow> bytes \<Rightarrow> u32 \<Rightarrow> write_operation option" where
  "get_from_changes tx key column = changes_at (changes tx) key column"

definition tx_exists ::
    "'s kv_inspect \<Rightarrow> 's in_memory_transaction \<Rightarrow> bytes \<Rightarrow> u32 \<Rightarrow> bool storage_result" where
  "tx_exists S tx key column =
     (case get_from_changes tx key column of
        Some (Insert _) \<Rightarrow> Inr True
      | Some Remove \<Rightarrow> Inr False
      | None \<Rightarrow> kv_exists S (storage tx) key column)"

definition tx_size_of_value ::
    "'s kv_inspect \<Rightarrow> 's in_memory_transaction \<Rightarrow> bytes \<Rightarrow> u32 \<Rightarrow> usize option storage_result" where
  "tx_size_of_value S tx key column =
     (case get_from_changes tx key column of
        Some (Insert val) \<Rightarrow> Inr (Some (len val))
      | Some Remove \<Rightarrow> Inr None
      | None \<Rightarrow> kv_size_of_value S (storage tx) key column)"

definition tx_get ::
    "'s kv_inspect \<Rightarrow> 's in_memory_transaction \<Rightarrow> bytes \<Rightarrow> u32 \<Rightarrow> bytes option storage_result" where
  "tx_get S tx key column =
     (case get_from_changes tx key column of
        Some (Insert val) \<Rightarrow> Inr (Some val)
      | Some Remove \<Rightarrow> Inr None
      | None \<Rightarrow> kv_get S (storage tx) key column)"

definition tx_read_exact ::
    "'s kv_inspect \<Rightarrow> 's in_memory_transaction \<Rightarrow> bytes \<Rightarrow> u32 \<Rightarrow> usize \<Rightarrow> bytes
     \<Rightarrow> bytes \<times> read_result" where
  "tx_read_exact S tx key column offset buf =
     (case get_from_changes tx key column of
        Some (Insert val) \<Rightarrow>
          let buf_len = len buf in
          (case slice_get val offset (sat_add offset buf_len) of
             None \<Rightarrow> (buf, Inr (Inl OutOfBounds))
           | Some data \<Rightarrow> (data, Inr (Inr buf_len)))
      | Some Remove \<Rightarrow> (buf, Inr (Inl KeyNotFound))
      | None \<Rightarrow> kv_read_exact S (storage tx) key column offset buf)"

definition tx_read_zerofill ::
    "'s kv_inspect \<Rightarrow> 's in_memory_transaction \<Rightarrow> bytes \<Rightarrow> u32 \<Rightarrow> usize \<Rightarrow> bytes
     \<Rightarrow> bytes \<times> read_result" where
  "tx_read_zerofill S tx key column offset buf =
     (case get_from_changes tx key column of
        Some (Insert val) \<Rightarrow>
          let bytes_len = len val; buf_len = length buf in
          (case split_at_checked val offset of
             None \<Rightarrow> (buf, Inr (Inl OutOfBounds))
           | Some (_, aft) \<Rightarrow>
               let dst = min buf_len (length aft) in
               (take dst aft @ replicate (buf_len - dst) 0, Inr (Inr bytes_len)))
      | Some Remove \<Rightarrow> (buf, Inr (Inl KeyNotFound))
      | None \<Rightarrow> kv_read_zerofill S (storage tx) key column offset buf)"

text \<open>\<open>impl KeyValueInspect for InMemoryTransaction<S>\<close>\<close>

definition tx_kv :: "'s kv_inspect \<Rightarrow> 's in_memory_transaction kv_inspect" where
  "tx_kv S =
     \<lparr>kv_exists = tx_exists S, kv_size_of_value = tx_size_of_value S, kv_get = tx_get S,
      kv_read_exact = tx_read_exact S, kv_read_zerofill = tx_read_zerofill S\<rparr>"

text \<open>\<open>self.changes.entry(column.id()).or_default().insert(key, operation)\<close>\<close>

definition insert_op :: "bytes \<Rightarrow> u32 \<Rightarrow> write_operation \<Rightarrow> changes \<Rightarrow> changes" where
  "insert_op key column operation ch =
     hm_insert column (bt_insert key operation (hm_get_or column [] ch)) ch"

definition tx_put ::
    "'s in_memory_transaction \<Rightarrow> bytes \<Rightarrow> u32 \<Rightarrow> bytes
     \<Rightarrow> 's in_memory_transaction \<times> unit storage_result" where
  "tx_put tx key column val =
     (tx\<lparr>changes := insert_op key column (Insert val) (changes tx)\<rparr>, Inr ())"

text \<open>
  \<open>replace\<close> and \<open>take\<close> write the operation through the entry and look at what it held before:
  the old operation if there was one, the storage otherwise.
\<close>

definition swap_op ::
    "'s kv_inspect \<Rightarrow> 's in_memory_transaction \<Rightarrow> bytes \<Rightarrow> u32 \<Rightarrow> write_operation
     \<Rightarrow> 's in_memory_transaction \<times> bytes option storage_result" where
  "swap_op S tx key column operation =
     (let entry = map_of (hm_get_or column [] (changes tx)) key;
          tx' = tx\<lparr>changes := insert_op key column operation (changes tx)\<rparr> in
      case entry of
        Some (Insert old) \<Rightarrow> (tx', Inr (Some old))
      | Some Remove \<Rightarrow> (tx', Inr None)
      | None \<Rightarrow> (tx', kv_get S (storage tx') key column))"

definition tx_replace ::
    "'s kv_inspect \<Rightarrow> 's in_memory_transaction \<Rightarrow> bytes \<Rightarrow> u32 \<Rightarrow> bytes
     \<Rightarrow> 's in_memory_transaction \<times> bytes option storage_result" where
  "tx_replace S tx key column val = swap_op S tx key column (Insert val)"

definition tx_write ::
    "'s in_memory_transaction \<Rightarrow> bytes \<Rightarrow> u32 \<Rightarrow> bytes
     \<Rightarrow> 's in_memory_transaction \<times> usize storage_result" where
  "tx_write tx key column buf =
     (tx\<lparr>changes := insert_op key column (Insert buf) (changes tx)\<rparr>, Inr (len buf))"

definition tx_take ::
    "'s kv_inspect \<Rightarrow> 's in_memory_transaction \<Rightarrow> bytes \<Rightarrow> u32
     \<Rightarrow> 's in_memory_transaction \<times> bytes option storage_result" where
  "tx_take S tx key column = swap_op S tx key column Remove"

definition tx_delete ::
    "'s in_memory_transaction \<Rightarrow> bytes \<Rightarrow> u32 \<Rightarrow> 's in_memory_transaction \<times> unit storage_result" where
  "tx_delete tx key column =
     (tx\<lparr>changes := insert_op key column Remove (changes tx)\<rparr>, Inr ())"

definition batch_write ::
    "'s in_memory_transaction \<Rightarrow> u32 \<Rightarrow> (bytes \<times> write_operation) list
     \<Rightarrow> 's in_memory_transaction \<times> unit storage_result" where
  "batch_write tx column entries =
     (let btree = hm_get_or column [] (changes tx);
          btree' = fold (\<lambda>(key, operation). bt_insert key operation) entries btree in
      (tx\<lparr>changes := hm_insert column btree' (changes tx)\<rparr>, Inr ()))"

text \<open>
  \<open>commit_changes\<close>: the inner loop over the entries of a column that is already present, and the
  loop over the columns.  An error leaves what was written before it.
\<close>

fun commit_tree ::
    "conflict_policy \<Rightarrow> (bytes \<times> write_operation) list \<Rightarrow> op_tree \<Rightarrow> op_tree \<times> unit storage_result" where
  "commit_tree pol [] btree = (btree, Inr ())"
| "commit_tree pol ((k, v) # rest) btree =
     (case pol of
        Fail \<Rightarrow>
          (case map_of btree k of
             Some _ \<Rightarrow> (btree, Inl (Conflicting_operation v k))
           | None \<Rightarrow> commit_tree pol rest (bt_insert k v btree))
      | Overwrite \<Rightarrow> commit_tree pol rest (bt_insert k v btree))"

fun commit_columns ::
    "conflict_policy \<Rightarrow> changes \<Rightarrow> changes \<Rightarrow> changes \<times> unit storage_result" where
  "commit_columns pol [] ch = (ch, Inr ())"
| "commit_columns pol ((column, val) # rest) ch =
     (case map_of ch column of
        None \<Rightarrow> commit_columns pol rest (hm_insert column val ch)
      | Some btree \<Rightarrow>
          (case commit_tree pol val btree of
             (btree', Inl e) \<Rightarrow> (hm_insert column btree' ch, Inl e)
           | (btree', Inr _) \<Rightarrow> commit_columns pol rest (hm_insert column btree' ch)))"

definition tx_commit_changes ::
    "'s in_memory_transaction \<Rightarrow> changes \<Rightarrow> 's in_memory_transaction \<times> unit storage_result" where
  "tx_commit_changes tx ch =
     (case commit_columns (policy tx) ch (changes tx) of
        (ch', r) \<Rightarrow> (tx\<lparr>changes := ch'\<rparr>, r))"

text \<open>
  \<open>StorageTransaction::commit\<close>, with \<open>commit_changes\<close> of the storage as an argument.  The storage
  may be a mutable reference, so its state is returned in the error case as well.
\<close>

definition tx_commit ::
    "('s \<Rightarrow> changes \<Rightarrow> 's \<times> unit storage_result) \<Rightarrow> 's in_memory_transaction
     \<Rightarrow> 's \<times> unit storage_result" where
  "tx_commit commit_changes tx = commit_changes (storage tx) (changes tx)"


section \<open>Well-formed changes\<close>

definition changes_ok :: "changes \<Rightarrow> bool" where
  "changes_ok ch = (hm_ok ch \<and> (\<forall>e\<in>set ch. bt_ok (snd e)))"

definition tx_ok :: "'s in_memory_transaction \<Rightarrow> bool" where
  "tx_ok tx = changes_ok (changes tx)"

text \<open>What a value looks like through one written operation, and through a set of changes.\<close>

definition op_value :: "write_operation \<Rightarrow> bytes option" where
  "op_value operation = (case operation of Insert val \<Rightarrow> Some val | Remove \<Rightarrow> None)"

definition overlay :: "changes \<Rightarrow> bytes \<Rightarrow> u32 \<Rightarrow> bytes option storage_result
    \<Rightarrow> bytes option storage_result" where
  "overlay ch key column r =
     (case changes_at ch key column of Some operation \<Rightarrow> Inr (op_value operation) | None \<Rightarrow> r)"

text \<open>
  Calls of the mutating operations as data, to speak about whole programs that run on a
  transaction, and the same calls on a plain map from keys and columns to read results.
\<close>

datatype mutation =
    Put bytes u32 bytes
  | Replace bytes u32 bytes
  | Write bytes u32 bytes
  | Take bytes u32
  | Delete bytes u32
  | Batch u32 "(bytes \<times> write_operation) list"

datatype outcome = Done "unit storage_result" | Old "bytes option storage_result"
  | Written "usize storage_result"

fun exec_mutation ::
    "'s kv_inspect \<Rightarrow> mutation \<Rightarrow> 's in_memory_transaction \<Rightarrow> 's in_memory_transaction \<times> outcome" where
  "exec_mutation S (Put key column val) tx = apsnd Done (tx_put tx key column val)"
| "exec_mutation S (Replace key column val) tx = apsnd Old (tx_replace S tx key column val)"
| "exec_mutation S (Write key column val) tx = apsnd Written (tx_write tx key column val)"
| "exec_mutation S (Take key column) tx = apsnd Old (tx_take S tx key column)"
| "exec_mutation S (Delete key column) tx = apsnd Done (tx_delete tx key column)"
| "exec_mutation S (Batch column entries) tx = apsnd Done (batch_write tx column entries)"

fun exec_mutations ::
    "'s kv_inspect \<Rightarrow> mutation list \<Rightarrow> 's in_memory_transaction
     \<Rightarrow> 's in_memory_transaction \<times> outcome list" where
  "exec_mutations S [] tx = (tx, [])"
| "exec_mutations S (m # ms) tx =
     (case exec_mutation S m tx of (tx', r) \<Rightarrow> apsnd (Cons r) (exec_mutations S ms tx'))"

type_synonym store_map = "bytes \<Rightarrow> u32 \<Rightarrow> bytes option storage_result"

definition map_set :: "bytes \<Rightarrow> u32 \<Rightarrow> bytes option \<Rightarrow> store_map \<Rightarrow> store_map" where
  "map_set key column v f = (\<lambda>k c. if k = key \<and> c = column then Inr v else f k c)"

fun spec_mutation :: "mutation \<Rightarrow> store_map \<Rightarrow> store_map \<times> outcome" where
  "spec_mutation (Put key column val) f = (map_set key column (Some val) f, Done (Inr ()))"
| "spec_mutation (Replace key column val) f = (map_set key column (Some val) f, Old (f key column))"
| "spec_mutation (Write key column val) f = (map_set key column (Some val) f, Written (Inr (len val)))"
| "spec_mutation (Take key column) f = (map_set key column None f, Old (f key column))"
| "spec_mutation (Delete key column) f = (map_set key column None f, Done (Inr ()))"
| "spec_mutation (Batch column entries) f =
     (fold (\<lambda>(key, operation). map_set key column (op_value operation)) entries f, Done (Inr ()))"

fun spec_mutations :: "mutation list \<Rightarrow> store_map \<Rightarrow> store_map \<times> outcome list" where
  "spec_mutations [] f = (f, [])"
| "spec_mutations (m # ms) f =
     (case spec_mutation m f of (f', r) \<Rightarrow> apsnd (Cons r) (spec_mutations ms f'))"

section \<open>Lemmas on changes\<close>

lemma changes_ok_Nil [simp]: "changes_ok []"
  by (simp add: changes_ok_def)

lemma changes_ok_Cons:
  "changes_ok ((c, t) # ch) \<longleftrightarrow> c \<notin> fst ` set ch \<and> bt_ok t \<and> changes_ok ch"
  by (auto simp: changes_ok_def hm_ok_Cons)

lemma changes_at_Nil [simp]: "changes_at [] k c = None"
  by (simp add: changes_at_def)

lemma changes_at_notin: "c \<notin> fst ` set ch \<Longrightarrow> changes_at ch k c = None"
  by (simp add: changes_at_def map_of_eq_None_iff[THEN iffD2])

lemma changes_ok_tree: "changes_ok ch \<Longrightarrow> map_of ch c = Some t \<Longrightarrow> bt_ok t"
  unfolding changes_ok_def using map_of_SomeD by fastforce

lemma changes_ok_get_or [simp]: "changes_ok ch \<Longrightarrow> bt_ok (hm_get_or c [] ch)"
  by (auto simp: hm_get_or_def changes_ok_tree split: option.splits)

lemma changes_ok_hm_insert [simp]:
  assumes "changes_ok ch" "bt_ok t"
  shows "changes_ok (hm_insert c t ch)"
proof -
  have "bt_ok (snd e)" if "e \<in> set (hm_insert c t ch)" for e
  proof -
    have "hm_ok (hm_insert c t ch)" using assms by (simp add: changes_ok_def)
    then have "map_of (hm_insert c t ch) (fst e) = Some (snd e)"
      using that by (intro map_of_is_SomeI) (simp_all add: hm_ok_def)
    then show ?thesis using assms changes_ok_tree by (auto split: if_splits)
  qed
  with assms show ?thesis by (simp add: changes_ok_def)
qed

lemma changes_at_hm_insert:
  "changes_at (hm_insert c' t ch) k c = (if c = c' then map_of t k else changes_at ch k c)"
  by (simp add: changes_at_def)

lemma changes_at_get_or: "map_of (hm_get_or c [] ch) k = changes_at ch k c"
  by (simp add: changes_at_def hm_get_or_def split: option.splits)

lemma changes_ok_insert_op [simp]: "changes_ok ch \<Longrightarrow> changes_ok (insert_op k c operation ch)"
  by (simp add: insert_op_def)

lemma changes_at_insert_op [simp]:
  "changes_ok ch \<Longrightarrow> changes_at (insert_op k c operation ch) k' c' =
     (if k' = k \<and> c' = c then Some operation else changes_at ch k' c')"
  by (auto simp: insert_op_def changes_at_hm_insert changes_at_get_or)

lemma changes_at_Cons:
  "c' \<notin> fst ` set ch \<Longrightarrow>
   changes_at ((c', t) # ch) k c = (if c = c' then map_of t k else changes_at ch k c)"
  by (simp add: changes_at_def)

lemma bt_ok_fold_insert:
  "bt_ok t \<Longrightarrow> bt_ok (fold (\<lambda>(k, v). bt_insert k v) es t)"
  by (induction es arbitrary: t) auto

lemma changes_ok_batch [simp]:
  "changes_ok (changes tx) \<Longrightarrow> changes_ok (changes (fst (batch_write tx c es)))"
  by (simp add: batch_write_def Let_def bt_ok_fold_insert)

section \<open>Committing\<close>

lemma commit_tree_bt_ok: "bt_ok t \<Longrightarrow> bt_ok (fst (commit_tree pol es t))"
  by (induction pol es t rule: commit_tree.induct)
    (auto split: conflict_policy.splits option.splits)

lemma commit_tree_Inr:
  "bt_ok t \<Longrightarrow> distinct (map fst es) \<Longrightarrow> commit_tree pol es t = (t', Inr ()) \<Longrightarrow>
   map_of t' = map_of t ++ map_of es"
proof (induction pol es t rule: commit_tree.induct)
  case (2 pol k v rest t)
  have nin: "map_of rest k = None" using 2 by (simp add: map_of_eq_None_iff)
  have "map_of t' = map_of (bt_insert k v t) ++ map_of rest"
    using 2 by (auto simp del: fun_upd_apply split: conflict_policy.splits option.splits)
  with 2(3) nin show ?case
    by (simp add: map_add_upd_left domIff del: fun_upd_apply)
qed simp

lemma commit_tree_Overwrite: "snd (commit_tree Overwrite es t) = Inr ()"
  by (induction Overwrite es t rule: commit_tree.induct) auto

lemma commit_tree_Fail:
  "bt_ok t \<Longrightarrow> distinct (map fst es) \<Longrightarrow>
   snd (commit_tree Fail es t) = Inr () \<longleftrightarrow> (\<forall>k\<in>fst ` set es. map_of t k = None)"
proof (induction Fail es t rule: commit_tree.induct)
  case (2 k v rest t)
  then show ?case by (auto split: option.splits)
qed simp

lemma commit_columns_ok:
  "changes_ok ch \<Longrightarrow> changes_ok new \<Longrightarrow> changes_ok (fst (commit_columns pol new ch))"
proof (induction pol new ch rule: commit_columns.induct)
  case (2 pol c t rest ch)
  have t: "bt_ok t" and rest: "changes_ok rest" using 2(4) by (auto simp: changes_ok_Cons)
  show ?case
  proof (cases "map_of ch c")
    case None
    with 2(1)[OF None] 2(3) t rest show ?thesis by simp
  next
    case (Some bt)
    have bt: "bt_ok bt" using 2(3) Some by (rule changes_ok_tree)
    obtain bt' r where ct: "commit_tree pol t bt = (bt', r)" by fastforce
    have bt': "bt_ok bt'" using commit_tree_bt_ok[OF bt, of pol t] ct by simp
    show ?thesis
      using 2(2)[OF Some ct[symmetric]] 2(3) rest bt' Some ct by (cases r) auto
  qed
qed simp

text \<open>The changes after a commit that succeeded: the new operations before the old ones.\<close>

lemma commit_columns_Inr:
  "changes_ok ch \<Longrightarrow> changes_ok new \<Longrightarrow> commit_columns pol new ch = (ch', Inr ()) \<Longrightarrow>
   changes_at ch' k c = (case changes_at new k c of Some x \<Rightarrow> Some x | None \<Rightarrow> changes_at ch k c)"
proof (induction pol new ch rule: commit_columns.induct)
  case (2 pol c' t rest ch)
  have t: "bt_ok t" and rest: "changes_ok rest" and c': "c' \<notin> fst ` set rest"
    using 2(4) by (auto simp: changes_ok_Cons)
  have notc': "changes_at rest k c' = None"
    using c' by (rule changes_at_notin)
  show ?case
  proof (cases "map_of ch c'")
    case None
    then have at: "changes_at ch k c' = None" by (simp add: changes_at_def)
    have "changes_at ch' k c =
        (case changes_at rest k c of Some x \<Rightarrow> Some x | None \<Rightarrow> changes_at (hm_insert c' t ch) k c)"
      using 2(1)[OF None] 2(3,5) t rest None by simp
    with at notc' c' show ?thesis
      by (auto simp: changes_at_Cons changes_at_hm_insert split: option.splits)
  next
    case (Some bt)
    have bt: "bt_ok bt" using 2(3) Some by (rule changes_ok_tree)
    obtain bt' where ct: "commit_tree pol t bt = (bt', Inr ())"
      and rec: "commit_columns pol rest (hm_insert c' bt' ch) = (ch', Inr ())"
      using 2(5) Some by (auto split: prod.splits sum.splits)
    have bt': "bt_ok bt'" using commit_tree_bt_ok[OF bt, of pol t] ct by simp
    have at: "changes_at ch k c' = map_of bt k" using Some by (simp add: changes_at_def)
    have "changes_at ch' k c =
        (case changes_at rest k c of Some x \<Rightarrow> Some x | None \<Rightarrow> changes_at (hm_insert c' bt' ch) k c)"
      using 2(2)[OF Some ct[symmetric] refl] 2(3) rest bt' rec by simp
    with at notc' c' commit_tree_Inr[OF bt bt_ok_distinct[OF t] ct] show ?thesis
      by (auto simp: changes_at_Cons changes_at_hm_insert map_add_def split: option.splits)
  qed
qed simp

lemma commit_columns_Overwrite: "snd (commit_columns Overwrite new ch) = Inr ()"
proof (induction Overwrite new ch rule: commit_columns.induct)
  case (2 c t rest ch)
  then show ?case
    using commit_tree_Overwrite by (auto split: option.splits prod.splits sum.splits)
      (metis Inl_Inr_False snd_conv)+
qed simp

lemma commit_columns_Fail:
  "changes_ok ch \<Longrightarrow> changes_ok new \<Longrightarrow>
   snd (commit_columns Fail new ch) = Inr () \<longleftrightarrow>
   (\<forall>k c. changes_at new k c = None \<or> changes_at ch k c = None)"
proof (induction Fail new ch rule: commit_columns.induct)
  case (2 c' t rest ch)
  have t: "bt_ok t" and rest: "changes_ok rest" and c': "c' \<notin> fst ` set rest"
    using 2(4) by (auto simp: changes_ok_Cons)
  have notc': "changes_at rest k c' = None" for k
    using c' by (rule changes_at_notin)
  show ?case
  proof (cases "map_of ch c'")
    case None
    then have "changes_at ch k c' = None" for k by (simp add: changes_at_def)
    with 2(1)[OF None] 2(3) t rest None notc' c' show ?thesis
      by (simp add: changes_at_Cons changes_at_hm_insert)
  next
    case (Some bt)
    have bt: "bt_ok bt" using 2(3) Some by (rule changes_ok_tree)
    have at: "changes_at ch k c' = map_of bt k" for k using Some by (simp add: changes_at_def)
    obtain bt' r where ct: "commit_tree Fail t bt = (bt', r)" by fastforce
    have bt': "bt_ok bt'" using commit_tree_bt_ok[OF bt, of Fail t] ct by simp
    have r: "r = Inr () \<longleftrightarrow> (\<forall>k. map_of t k = None \<or> map_of bt k = None)"
      using commit_tree_Fail[OF bt bt_ok_distinct[OF t]] ct
      by (auto simp: map_of_eq_None_iff)
    show ?thesis
    proof (cases r)
      case (Inl e)
      with r ct Some at c' show ?thesis by (simp add: changes_at_Cons) metis
    next
      case (Inr u)
      have "snd (commit_columns Fail rest (hm_insert c' bt' ch)) = Inr () \<longleftrightarrow>
          (\<forall>k c. changes_at rest k c = None \<or> changes_at (hm_insert c' bt' ch) k c = None)"
        using 2(2)[OF Some ct[symmetric] Inr] 2(3) rest bt' by simp
      with Inr r ct Some at c' notc' show ?thesis
        by (simp add: changes_at_Cons changes_at_hm_insert)
    qed
  qed
qed simp

section \<open>Columns of changes\<close>

definition columns :: "changes \<Rightarrow> u32 set" where
  "columns ch = fst ` set ch"

lemma columns_hm_insert [simp]: "columns (hm_insert c v ch) = insert c (columns ch)"
  by (induction ch) (auto simp: columns_def hm_insert_def)

lemma columns_insert_op [simp]: "columns (insert_op k c operation ch) = insert c (columns ch)"
  by (simp add: insert_op_def)

lemma columns_Nil [simp]: "columns [] = {}"
  by (simp add: columns_def)

lemma columns_commit: "columns (fst (commit_columns pol new ch)) \<subseteq> columns new \<union> columns ch"
proof (induction pol new ch rule: commit_columns.induct)
  case (2 pol c val rest ch)
  then show ?case
    by (fastforce simp: columns_def [of "_ # _"] columns_def [symmetric] split: option.splits prod.splits sum.splits)
qed simp

section \<open>The contract of KeyValueInspect\<close>

text \<open>An implementation that overrides the default methods returns what they would return.\<close>

locale kv_inspect_laws =
  fixes S :: "'s kv_inspect"
  assumes exists_law: "kv_exists S s k c = default_exists (default_size_of_value (kv_get S)) s k c"
    and size_law: "kv_size_of_value S s k c = default_size_of_value (kv_get S) s k c"
    and read_exact_law:
      "kv_read_exact S s k c off buf = default_read_exact (kv_get S) s k c off buf"
    and read_zerofill_law:
      "kv_read_zerofill S s k c off buf = default_read_zerofill (kv_get S) s k c off buf"

lemma tx_get_overlay: "tx_get S tx k c = overlay (changes tx) k c (kv_get S (storage tx) k c)"
  by (simp add: tx_get_def overlay_def get_from_changes_def op_value_def
      split: option.splits write_operation.splits)

lemma kv_get_tx_kv [simp]: "kv_get (tx_kv S) = tx_get S"
  by (simp add: tx_kv_def)

lemmas tx_read_defs = tx_exists_def tx_size_of_value_def tx_get_def tx_read_exact_def
  tx_read_zerofill_def default_exists_def default_size_of_value_def default_read_exact_def
  default_read_zerofill_def

context kv_inspect_laws
begin

lemmas read_laws = exists_law size_law read_exact_law read_zerofill_law

lemma reads_of_get:
  assumes "kv_get S s k c = kv_get S s' k c"
  shows "kv_exists S s k c = kv_exists S s' k c"
    and "kv_size_of_value S s k c = kv_size_of_value S s' k c"
    and "kv_read_exact S s k c off buf = kv_read_exact S s' k c off buf"
    and "kv_read_zerofill S s k c off buf = kv_read_zerofill S s' k c off buf"
  using assms by (simp_all add: read_laws default_exists_def default_size_of_value_def
      default_read_exact_def default_read_zerofill_def)

lemma tx_exists_default:
  "tx_exists S tx k c = default_exists (default_size_of_value (tx_get S)) tx k c"
  by (simp add: tx_read_defs read_laws split: option.splits write_operation.splits sum.splits)

lemma tx_size_default: "tx_size_of_value S tx k c = default_size_of_value (tx_get S) tx k c"
  by (simp add: tx_read_defs read_laws split: option.splits write_operation.splits sum.splits)

lemma tx_read_exact_default:
  "tx_read_exact S tx k c off buf = default_read_exact (tx_get S) tx k c off buf"
  by (simp add: tx_read_defs read_laws split: option.splits write_operation.splits sum.splits)

lemma tx_read_zerofill_default:
  "tx_read_zerofill S tx k c off buf = default_read_zerofill (tx_get S) tx k c off buf"
  by (simp add: tx_read_defs read_laws split: option.splits write_operation.splits sum.splits)

text \<open>A transaction over a lawful store is a lawful store.\<close>

lemma tx_kv_laws: "kv_inspect_laws (tx_kv S)"
  by unfold_locales
    (simp_all add: tx_kv_def tx_exists_default tx_size_default tx_read_exact_default
      tx_read_zerofill_default)

end

interpretation kv_default: kv_inspect_laws "kv_default get" for get
  by unfold_locales (simp_all add: kv_default_def)

section \<open>The contract of Modifiable\<close>

text \<open>
  A store whose \<open>commit_changes\<close>, when it succeeds, makes exactly the given operations visible.
  \<open>ok\<close> is the invariant of the store.
\<close>

locale modifiable_store = kv_inspect_laws S for S :: "'s kv_inspect" +
  fixes commit_changes :: "'s \<Rightarrow> changes \<Rightarrow> 's \<times> unit storage_result"
    and ok :: "'s \<Rightarrow> bool"
  assumes commit_ok: "ok s \<Longrightarrow> changes_ok ch \<Longrightarrow> commit_changes s ch = (s', r) \<Longrightarrow> ok s'"
    and commit_get: "ok s \<Longrightarrow> changes_ok ch \<Longrightarrow> commit_changes s ch = (s', Inr ()) \<Longrightarrow>
      kv_get S s' k c = overlay ch k c (kv_get S s k c)"
begin

lemma tx_commit_get:
  assumes "ok (storage tx)" "tx_ok tx" "tx_commit commit_changes tx = (s', Inr ())"
  shows "kv_get S s' k c = tx_get S tx k c"
  using assms commit_get[of "storage tx" "changes tx" s' k c]
  by (simp add: tx_commit_def tx_ok_def tx_get_overlay)

end

lemma tx_commit_changes_ok:
  "tx_ok tx \<Longrightarrow> changes_ok ch \<Longrightarrow> tx_commit_changes tx ch = (tx', r) \<Longrightarrow> tx_ok tx'"
  using commit_columns_ok[of "changes tx" ch "policy tx"]
  by (auto simp: tx_commit_changes_def tx_ok_def split: prod.splits)

lemma tx_commit_changes_get:
  assumes "tx_ok tx" "changes_ok ch" "tx_commit_changes tx ch = (tx', Inr ())"
  shows "tx_get S tx' k c = overlay ch k c (tx_get S tx k c)"
proof -
  obtain ch' where ch': "commit_columns (policy tx) ch (changes tx) = (ch', Inr ())"
    and tx': "tx' = tx\<lparr>changes := ch'\<rparr>"
    using assms(3) by (auto simp: tx_commit_changes_def split: prod.splits)
  have "changes_at ch' k c =
      (case changes_at ch k c of Some x \<Rightarrow> Some x | None \<Rightarrow> changes_at (changes tx) k c)"
    using commit_columns_Inr[OF _ assms(2) ch'] assms(1) by (simp add: tx_ok_def)
  then show ?thesis by (simp add: tx' tx_get_overlay overlay_def split: option.splits)
qed

context kv_inspect_laws
begin

lemma tx_modifiable: "modifiable_store (tx_kv S) tx_commit_changes tx_ok"
proof -
  have "modifiable_store_axioms (tx_kv S) tx_commit_changes tx_ok"
    by unfold_locales
      (auto simp: tx_kv_def tx_commit_changes_ok intro: tx_commit_changes_get)
  with tx_kv_laws show ?thesis by (rule modifiable_store.intro)
qed

end

section \<open>Programs on a transaction\<close>

lemma exec_mutation_ok: "tx_ok tx \<Longrightarrow> exec_mutation S m tx = (tx', r) \<Longrightarrow> tx_ok tx'"
  by (cases m)
    (auto simp: tx_ok_def tx_put_def tx_replace_def swap_op_def tx_write_def tx_take_def
      tx_delete_def batch_write_def Let_def bt_ok_fold_insert
      split: option.splits write_operation.splits)

lemma exec_mutation_storage: "exec_mutation S m tx = (tx', r) \<Longrightarrow> storage tx' = storage tx"
  by (cases m)
    (auto simp: tx_put_def tx_replace_def swap_op_def tx_write_def tx_take_def tx_delete_def
      batch_write_def Let_def split: option.splits write_operation.splits)

lemma tx_get_insert_op:
  "tx_ok tx \<Longrightarrow> tx_get S (tx\<lparr>changes := insert_op key column operation (changes tx)\<rparr>) =
     map_set key column (op_value operation) (tx_get S tx)"
  by (auto simp: fun_eq_iff tx_get_overlay overlay_def tx_ok_def map_set_def)

lemma swap_op_eq:
  "swap_op S tx key column operation =
     (tx\<lparr>changes := insert_op key column operation (changes tx)\<rparr>, tx_get S tx key column)"
  by (simp add: swap_op_def Let_def changes_at_get_or tx_get_def get_from_changes_def
      split: option.splits write_operation.splits)

lemma changes_at_batch:
  "changes_ok ch \<Longrightarrow> bt_ok t \<Longrightarrow> fold (\<lambda>(key, operation). map_set key column (op_value operation)) es
      (\<lambda>k c. overlay (hm_insert column t ch) k c (f k c)) =
   (\<lambda>k c. overlay (hm_insert column (fold (\<lambda>(key, operation). bt_insert key operation) es t) ch) k c
      (f k c))"
proof (induction es arbitrary: t)
  case (Cons e es)
  have "map_set (fst e) column (op_value (snd e)) (\<lambda>k c. overlay (hm_insert column t ch) k c (f k c)) =
      (\<lambda>k c. overlay (hm_insert column (bt_insert (fst e) (snd e) t) ch) k c (f k c))"
    using Cons.prems by (auto simp: fun_eq_iff map_set_def overlay_def changes_at_hm_insert)
  with Cons show ?case by (simp add: case_prod_beta)
qed simp

lemma overlay_hm_get_or:
  "overlay (hm_insert column (hm_get_or column [] ch) ch) k c r = overlay ch k c r"
  by (simp add: overlay_def changes_at_hm_insert changes_at_get_or)

lemma tx_get_batch:
  assumes "tx_ok tx"
  shows "tx_get S (fst (batch_write tx column es)) =
    fold (\<lambda>(key, operation). map_set key column (op_value operation)) es (tx_get S tx)"
proof -
  have "tx_get S tx = (\<lambda>k c. overlay (hm_insert column (hm_get_or column [] (changes tx)) (changes tx))
      k c (kv_get S (storage tx) k c))"
    by (simp add: fun_eq_iff overlay_hm_get_or tx_get_overlay)
  with assms show ?thesis
    by (simp add: changes_at_batch tx_ok_def)
      (simp add: batch_write_def Let_def fun_eq_iff tx_get_overlay)
qed

lemma exec_mutation_refines:
  assumes "tx_ok tx" "exec_mutation S m tx = (tx', r)"
  shows "spec_mutation m (tx_get S tx) = (tx_get S tx', r)"
proof (cases m)
  case (Batch column es)
  with assms tx_get_batch[OF assms(1), of S column es] show ?thesis
    by (auto simp: batch_write_def Let_def)
qed (use assms in \<open>auto simp: tx_put_def tx_replace_def tx_write_def tx_take_def tx_delete_def
    swap_op_eq tx_get_insert_op op_value_def\<close>)

lemma exec_mutations_refines:
  "tx_ok tx \<Longrightarrow> exec_mutations S ms tx = (tx', rs) \<Longrightarrow>
   tx_ok tx' \<and> storage tx' = storage tx \<and> spec_mutations ms (tx_get S tx) = (tx_get S tx', rs)"
proof (induction ms arbitrary: tx rs)
  case (Cons m ms)
  obtain tx1 r1 where 1: "exec_mutation S m tx = (tx1, r1)" by fastforce
  obtain rs' where 2: "exec_mutations S ms tx1 = (tx', rs')" and rs: "rs = r1 # rs'"
    using Cons.prems(2) 1 by (auto simp: apsnd_def map_prod_def split: prod.splits)
  show ?case
    using Cons.IH[OF exec_mutation_ok[OF Cons.prems(1) 1] 2] exec_mutation_storage[OF 1]
      exec_mutation_refines[OF Cons.prems(1) 1] rs by simp
qed simp

context modifiable_store
begin

text \<open>Run a program on a fresh transaction and commit: the store now reads as the program says.\<close>

lemma run_commit:
  assumes "ok s" "exec_mutations S ms (write_transaction s) = (tx, rs)"
    and "tx_commit commit_changes tx = (s', Inr ())"
  shows "spec_mutations ms (kv_get S s) = (kv_get S s', rs)"
proof -
  have "tx_ok (write_transaction s)" and s: "storage (write_transaction s) = s"
    by (simp_all add: tx_ok_def write_transaction_def transaction_def)
  note run = exec_mutations_refines[OF this(1) assms(2)]
  have "tx_get S (write_transaction s) = kv_get S s"
    by (simp add: fun_eq_iff tx_get_overlay overlay_def write_transaction_def transaction_def)
  moreover have "tx_get S tx = kv_get S s'"
    using tx_commit_get[OF _ _ assms(3)] run s assms(1) by (simp add: fun_eq_iff)
  ultimately show ?thesis using run by simp
qed

end

section \<open>Reading parts of a value\<close>

lemma unat_len: "length xs < 2 ^ 64 \<Longrightarrow> unat (len xs) = length xs"
  by (simp add: len_def unsigned_of_nat take_bit_nat_eq_self)

lemma default_read_exact_within:
  assumes "get s k c = Inr (Some val)" "length val < 2 ^ 63" "length buf < 2 ^ 63"
  shows "default_read_exact get s k c off buf =
    (if unat off + length buf \<le> length val
     then (take (length buf) (drop (unat off) val), Inr (Inr (len buf)))
     else (buf, Inr (Inl OutOfBounds)))"
proof -
  have off: "off \<le> sat_add off (len buf)" by (rule sat_add_ge)
  have n: "unat (len buf) = length buf" using assms(3) by (simp add: unat_len)
  have "unat (sat_add off (len buf)) = min (unat off + length buf) (2 ^ 64 - 1)"
    by (simp add: unat_sat_add n)
  then show ?thesis
    using off assms by (auto simp: default_read_exact_def Let_def slice_get_def min_def)
qed

section \<open>Errors of a commit\<close>

lemma commit_tree_Inl:
  "bt_ok t \<Longrightarrow> distinct (map fst es) \<Longrightarrow> commit_tree pol es t = (t', Inl e) \<Longrightarrow>
   \<exists>k v. e = Conflicting_operation v k \<and> map_of es k = Some v \<and> map_of t k \<noteq> None"
proof (induction pol es t rule: commit_tree.induct)
  case (2 pol k v rest t)
  show ?case
  proof (cases "pol = Fail \<and> map_of t k \<noteq> None")
    case True
    with 2(5) show ?thesis by auto
  next
    case False
    then have "\<exists>k' v'. e = Conflicting_operation v' k' \<and> map_of rest k' = Some v' \<and>
        map_of (bt_insert k v t) k' \<noteq> None"
      using 2 by (cases pol) auto
    moreover have "map_of rest k = None" using 2(4) by (simp add: map_of_eq_None_iff[THEN iffD2])
    ultimately show ?thesis using 2(3) by (metis fun_upd_other map_of_Cons_code(2)
          map_of_bt_insert option.distinct(1))
  qed
qed simp

lemma commit_columns_Inl:
  "changes_ok ch \<Longrightarrow> changes_ok new \<Longrightarrow> commit_columns pol new ch = (ch', Inl e) \<Longrightarrow>
   \<exists>k c v. e = Conflicting_operation v k \<and> changes_at new k c = Some v \<and> changes_at ch k c \<noteq> None"
proof (induction pol new ch rule: commit_columns.induct)
  case (2 pol c' t rest ch)
  have t: "bt_ok t" and rest: "changes_ok rest" and c': "c' \<notin> fst ` set rest"
    using 2(4) by (auto simp: changes_ok_Cons)
  have lift: "\<exists>k c v. e = Conflicting_operation v k \<and> changes_at ((c', t) # rest) k c = Some v \<and>
      changes_at ch k c \<noteq> None"
    if "\<exists>k c v. e = Conflicting_operation v k \<and> changes_at rest k c = Some v \<and>
      changes_at (hm_insert c' t' ch) k c \<noteq> None" for t'
    using that changes_at_notin[OF c']
    by (simp add: changes_at_Cons[OF c'] changes_at_hm_insert) (metis option.distinct(1))
  show ?case
  proof (cases "map_of ch c'")
    case None
    with 2(1)[OF None] 2(3,5) t rest show ?thesis by (intro lift) simp
  next
    case (Some bt)
    have bt: "bt_ok bt" using 2(3) Some by (rule changes_ok_tree)
    obtain bt' r where ct: "commit_tree pol t bt = (bt', r)" by fastforce
    have bt': "bt_ok bt'" using commit_tree_bt_ok[OF bt, of pol t] ct by simp
    show ?thesis
    proof (cases r)
      case (Inl e')
      with commit_tree_Inl[OF bt bt_ok_distinct[OF t], of pol bt' e'] ct 2(5) Some
      obtain k v where "e = Conflicting_operation v k" "map_of t k = Some v" "map_of bt k \<noteq> None"
        by auto
      with Some show ?thesis
        by (intro exI[of _ k] exI[of _ c'] exI[of _ v]) (auto simp: changes_at_def)
    next
      case (Inr u)
      with 2(2)[OF Some ct[symmetric] Inr] 2(3,5) rest bt' Some ct show ?thesis
        by (intro lift[of bt']) simp
    qed
  qed
qed simp

section \<open>Properties\<close>

text \<open>
  C10. Nested transactions.  Run any sequence of mutating calls on a fresh transaction over a parent
  transaction whose policy is to overwrite, and commit it: the commit succeeds, the storage below
  the parent is untouched, every call returned what it returns on a plain map holding the
  parent's view, and the parent then reads exactly as that map.
\<close>

theorem nested_commit_refines:
  fixes S :: "'s kv_inspect" and parent :: "'s in_memory_transaction"
  assumes "tx_ok parent" "policy parent = Overwrite"
    and run: "exec_mutations (tx_kv S) ms (write_transaction parent) = (child, rs)"
  shows "\<exists>parent'. tx_commit tx_commit_changes child = (parent', Inr ()) \<and> tx_ok parent' \<and>
    storage parent' = storage parent \<and> spec_mutations ms (tx_get S parent) = (tx_get S parent', rs)"
proof -
  have "tx_ok (write_transaction parent)" "storage (write_transaction parent) = parent"
    by (simp_all add: tx_ok_def write_transaction_def transaction_def)
  moreover have "tx_get (tx_kv S) (write_transaction parent) = tx_get S parent"
    by (simp add: fun_eq_iff tx_get_overlay[of "tx_kv S"] overlay_def write_transaction_def
        transaction_def)
  ultimately have child: "tx_ok child" "storage child = parent"
    "spec_mutations ms (tx_get S parent) = (tx_get (tx_kv S) child, rs)"
    using exec_mutations_refines[OF _ run] by auto
  obtain ch where ch: "commit_columns Overwrite (changes child) (changes parent) = (ch, Inr ())"
    using commit_columns_Overwrite by (metis prod.collapse)
  let ?p = "parent\<lparr>changes := ch\<rparr>"
  have c: "tx_commit_changes parent (changes child) = (?p, Inr ())"
    using ch assms(2) by (simp add: tx_commit_changes_def)
  have "tx_get (tx_kv S) child = tx_get S ?p"
    using tx_commit_changes_get[OF assms(1) _ c, of S] child(1,2)
    by (simp add: fun_eq_iff tx_get_overlay[of "tx_kv S"] tx_ok_def)
  with child c tx_commit_changes_ok[OF assms(1) _ c] show ?thesis
    by (intro exI[of _ ?p]) (simp add: tx_commit_def tx_ok_def)
qed

definition sample_parent :: "nat in_memory_transaction" where
  "sample_parent = \<lparr>changes = [(1, [([7], Insert [1])])], policy = Overwrite, storage = 0\<rparr>"

definition sample_store :: "nat kv_inspect" where
  "sample_store = kv_default (\<lambda>s k c. Inr (if k = [9] then Some [4, 5] else None))"

definition sample_program :: "mutation list" where
  "sample_program = [Replace [7] 1 [2], Take [9] 1, Put [3] 2 [6, 6], Take [3] 2]"

lemmas sample_eval = sample_parent_def sample_store_def sample_program_def kv_default_def
  write_transaction_def transaction_def tx_replace_def tx_take_def tx_put_def swap_op_def
  tx_kv_def tx_get_def get_from_changes_def changes_at_def hm_get_or_def hm_insert_def insert_op_def

theorem nested_commit_refines_witness:
  "tx_ok sample_parent \<and> policy sample_parent = Overwrite \<and>
   snd (exec_mutations (tx_kv sample_store) sample_program (write_transaction sample_parent)) =
     [Old (Inr (Some [1])), Old (Inr (Some [4, 5])), Done (Inr ()), Old (Inr (Some [6, 6]))] \<and>
   (\<exists>parent'. tx_commit tx_commit_changes
       (fst (exec_mutations (tx_kv sample_store) sample_program (write_transaction sample_parent))) =
       (parent', Inr ()) \<and> tx_get sample_store parent' [9] 1 = Inr None \<and>
     tx_get sample_store parent' [7] 1 = Inr (Some [2]))"
proof -
  have ok: "tx_ok sample_parent" "policy sample_parent = Overwrite"
    by (simp_all add: sample_parent_def tx_ok_def changes_ok_def hm_ok_def bt_ok_def)
  obtain child rs where run: "exec_mutations (tx_kv sample_store) sample_program
      (write_transaction sample_parent) = (child, rs)" by fastforce
  have rs: "rs = [Old (Inr (Some [1])), Old (Inr (Some [4, 5])), Done (Inr ()),
      Old (Inr (Some [6, 6]))]"
    using run by (auto simp: sample_eval)
  obtain parent' where p: "tx_commit tx_commit_changes child = (parent', Inr ())"
    "spec_mutations sample_program (tx_get sample_store sample_parent) =
      (tx_get sample_store parent', rs)"
    using nested_commit_refines[OF ok run] by blast
  have f: "fst (spec_mutations sample_program (tx_get sample_store sample_parent)) =
      tx_get sample_store parent'"
    using p(2) by simp
  have "tx_get sample_store parent' [9] 1 = Inr None"
    "tx_get sample_store parent' [7] 1 = Inr (Some [2])"
    unfolding f[symmetric] by (simp_all add: sample_program_def map_set_def)
  with ok run rs p(1) show ?thesis by auto
qed

text \<open>
  Conflicts.  A commit into a transaction whose policy is to fail succeeds exactly when no key
  of a column is written by both sides; otherwise the error names an operation of the incoming
  changes on a key that the transaction had already written.
\<close>

theorem fail_policy_detects_conflicts:
  fixes tx :: "'s in_memory_transaction"
  assumes "tx_ok tx" "policy tx = Fail" "changes_ok ch" "tx_commit_changes tx ch = (tx', r)"
  shows "(r = Inr ()) = (\<forall>k c. changes_at ch k c = None \<or> get_from_changes tx k c = None) \<and>
    (r \<noteq> Inr () \<longrightarrow> (\<exists>k c v. r = Inl (Conflicting_operation v k) \<and>
      changes_at ch k c = Some v \<and> get_from_changes tx k c \<noteq> None))"
proof -
  obtain ch' where c: "commit_columns Fail ch (changes tx) = (ch', r)"
    using assms(2,4) by (auto simp: tx_commit_changes_def split: prod.splits)
  have ok: "changes_ok (changes tx)" using assms(1) by (simp add: tx_ok_def)
  have "(r = Inr ()) = (\<forall>k c. changes_at ch k c = None \<or> get_from_changes tx k c = None)"
    using commit_columns_Fail[OF ok assms(3)] c by (simp add: get_from_changes_def)
  moreover have "\<exists>k c v. r = Inl (Conflicting_operation v k) \<and>
      changes_at ch k c = Some v \<and> get_from_changes tx k c \<noteq> None" if "r \<noteq> Inr ()"
    using commit_columns_Inl[OF ok assms(3), of Fail ch'] c that
    by (cases r) (auto simp: get_from_changes_def)
  ultimately show ?thesis by blast
qed

theorem fail_policy_detects_conflicts_witness:
  "let tx = with_policy Fail sample_parent; ch = [(2, [([7], Remove)]), (1, [([7], Remove)])] in
   tx_ok tx \<and> policy tx = Fail \<and> changes_ok ch \<and>
   snd (tx_commit_changes tx ch) = Inl (Conflicting_operation Remove [7])"
proof -
  let ?tx = "with_policy Fail sample_parent"
  let ?ch = "[(2, [([7], Remove)]), (1, [([7], Remove)])] :: changes"
  have ok: "tx_ok ?tx" "policy ?tx = Fail" "changes_ok ?ch"
    by (simp_all add: sample_parent_def with_policy_def tx_ok_def changes_ok_def hm_ok_def bt_ok_def)
  obtain tx' r where c: "tx_commit_changes ?tx ?ch = (tx', r)" by fastforce
  have at: "changes_at ?ch [7] 1 = Some Remove" "get_from_changes ?tx [7] 1 = Some (Insert [1])"
    "\<And>k c v. changes_at ?ch k c = Some v \<Longrightarrow> k = [7] \<and> v = Remove"
    by (auto simp: sample_parent_def with_policy_def changes_at_def get_from_changes_def
        split: if_splits)
  note main = fail_policy_detects_conflicts[OF ok c]
  have "r \<noteq> Inr ()"
  proof
    assume "r = Inr ()"
    with main have "\<forall>k c. changes_at ?ch k c = None \<or> get_from_changes ?tx k c = None"
      by (simp only: simp_thms)
    from this[rule_format, of "[7]" 1] at(1,2) show False by simp
  qed
  with main at(3) have "r = Inl (Conflicting_operation Remove [7])"
    by blast
  with ok c show ?thesis by (simp add: Let_def)
qed

text \<open>
  C31. The transaction overrides every default method of the two traits.  Over a store that keeps
  the contract of the read trait, each overriding read and \<open>put\<close> return what the default method would
  return.  So do \<open>replace\<close> and \<open>take\<close> when the old value can be read.  When it cannot, the overrides
  return the same error as the default methods, but they have already recorded the operation, which the
  default methods have not.
\<close>

theorem overriding_methods_agree:
  fixes S :: "'s kv_inspect" and tx :: "'s in_memory_transaction"
  assumes "kv_inspect_laws S"
  shows "tx_exists S tx k c = default_exists (default_size_of_value (tx_get S)) tx k c \<and>
    tx_size_of_value S tx k c = default_size_of_value (tx_get S) tx k c \<and>
    tx_read_exact S tx k c off buf = default_read_exact (tx_get S) tx k c off buf \<and>
    tx_read_zerofill S tx k c off buf = default_read_zerofill (tx_get S) tx k c off buf \<and>
    tx_put tx k c val = default_put tx_write tx k c val \<and>
    (case tx_get S tx k c of
       Inr old \<Rightarrow>
         tx_replace S tx k c val = default_replace (tx_get S) tx_put tx k c val \<and>
         tx_take S tx k c = default_take (tx_get S) tx_delete tx k c
     | Inl e \<Rightarrow>
         tx_replace S tx k c val = (fst (tx_put tx k c val), Inl e) \<and>
         default_replace (tx_get S) tx_put tx k c val = (tx, Inl e) \<and>
         tx_take S tx k c = (fst (tx_delete tx k c), Inl e) \<and>
         default_take (tx_get S) tx_delete tx k c = (tx, Inl e))"
  using kv_inspect_laws.tx_exists_default[OF assms] kv_inspect_laws.tx_size_default[OF assms]
    kv_inspect_laws.tx_read_exact_default[OF assms]
    kv_inspect_laws.tx_read_zerofill_default[OF assms]
  by (simp add: tx_replace_def tx_take_def swap_op_eq default_replace_def default_take_def
      default_put_def tx_put_def tx_write_def tx_delete_def split: sum.splits)

theorem overriding_methods_agree_witness:
  "kv_inspect_laws sample_store \<and>
   tx_get sample_store sample_parent [9] 3 = Inr (Some [4, 5]) \<and>
   tx_take sample_store sample_parent [9] 3 =
     default_take (tx_get sample_store) tx_delete sample_parent [9] 3"
proof -
  have "kv_inspect_laws sample_store"
    unfolding sample_store_def by (rule kv_default.kv_inspect_laws_axioms)
  moreover have "tx_get sample_store sample_parent [9] 3 = Inr (Some [4, 5])"
    by (simp add: sample_eval)
  ultimately show ?thesis using overriding_methods_agree[of sample_store sample_parent "[9]" 3] by simp
qed

text \<open>
  Partial reads.  For values and buffers of the sizes that Rust allows, \<open>read_exact\<close> succeeds
  exactly when the requested range lies within the value and then the buffer holds that range;
  \<open>read_zerofill\<close> succeeds exactly when the offset is at most the length of the value and then the
  buffer holds the value from the offset on, followed by zeros.  Both keep the size of the buffer,
  and leave it unchanged on every error.
\<close>

theorem partial_reads_within_bounds:
  assumes "kv_inspect_laws S" "kv_get S s k c = Inr (Some val)"
    and "length val < 2 ^ 63" "length buf < 2 ^ 63"
  shows "kv_read_exact S s k c off buf =
      (if unat off + length buf \<le> length val
       then (take (length buf) (drop (unat off) val), Inr (Inr (len buf)))
       else (buf, Inr (Inl OutOfBounds))) \<and>
    kv_read_zerofill S s k c off buf =
      (if unat off \<le> length val
       then (take (length buf) (drop (unat off) val @ replicate (length buf) 0), Inr (Inr (len val)))
       else (buf, Inr (Inl OutOfBounds))) \<and>
    length (fst (kv_read_exact S s k c off buf)) = length buf \<and>
    length (fst (kv_read_zerofill S s k c off buf)) = length buf"
proof -
  have 1: "kv_read_exact S s k c off buf = default_read_exact (kv_get S) s k c off buf"
    by (rule kv_inspect_laws.read_exact_law[OF assms(1)])
  have 2: "kv_read_zerofill S s k c off buf = default_read_zerofill (kv_get S) s k c off buf"
    by (rule kv_inspect_laws.read_zerofill_law[OF assms(1)])
  show ?thesis
    unfolding 1 2 default_read_exact_within[of "kv_get S", OF assms(2-4)]
    by (auto simp: default_read_zerofill_def assms(2) split_at_checked_def min_def Let_def take_all)
qed

theorem partial_reads_within_bounds_witness:
  "kv_inspect_laws sample_store \<and> kv_get sample_store 0 [9] 1 = Inr (Some [4, 5]) \<and>
   kv_read_exact sample_store 0 [9] 1 1 [0, 0] = ([0, 0], Inr (Inl OutOfBounds)) \<and>
   kv_read_zerofill sample_store 0 [9] 1 1 [8, 8, 8] = ([5, 0, 0], Inr (Inr 2))"
proof -
  have l: "kv_inspect_laws sample_store"
    unfolding sample_store_def by (rule kv_default.kv_inspect_laws_axioms)
  have g: "kv_get sample_store 0 [9] 1 = Inr (Some [4, 5])"
    by (simp add: sample_store_def kv_default_def)
  have b: "length ([4, 5] :: bytes) < 2 ^ 63" "length ([0, 0] :: bytes) < 2 ^ 63"
    "length ([8, 8, 8] :: bytes) < 2 ^ 63"
    by simp_all
  show ?thesis
    using l g partial_reads_within_bounds[OF l g b(1,2), of 1]
      partial_reads_within_bounds[OF l g b(1,3), of 1]
    by (simp add: len_def numeral_3_eq_3 numeral_2_eq_2)
qed

end
