(* ===== verification/Memory_Store.thy ===== *)
theory Memory_Store
  imports Kv_Store
begin

text \<open>
  Iteration over ordered maps (\<open>crates/storage/src/iter.rs\<close>), the view of a set of changes as a
  read-only store (\<open>iter/changes_iterator.rs\<close>), and the in-memory database
  (\<open>crates/fuel-core/src/state/in_memory/memory_store.rs\<close> and \<open>memory_view.rs\<close>).

  An iterator is the list of the items it yields.  The tables of the memory store are a list
  indexed by the column, and an index out of its range, a panic of the code, is the error
  \<open>Index_out_of_bounds\<close>.  Locks are not modelled: every operation of the store holds the locks of
  the tables it reads or writes.
\<close>

section \<open>iter.rs\<close>

datatype iter_direction = Forward | Reverse

fun iterator ::
    "(bytes, 'v) btree \<Rightarrow> bytes option \<Rightarrow> bytes option \<Rightarrow> iter_direction \<Rightarrow> (bytes \<times> 'v) list" where
  "iterator tree None None direction =
     (if direction = Forward then tree else rev tree)"
| "iterator tree (Some prefix) None direction =
     (if direction = Forward
      then takeWhile (\<lambda>(key, _). starts_with key prefix) (bt_from prefix tree)
      else rev (takeWhile (\<lambda>(key, _). starts_with key prefix) (bt_from prefix tree)))"
| "iterator tree None (Some start) direction =
     (if direction = Forward then bt_from start tree else rev (bt_upto start tree))"
| "iterator tree (Some prefix) (Some start) direction =
     (if direction = Forward
      then takeWhile (\<lambda>(key, _). starts_with key prefix) (bt_from start tree)
      else takeWhile (\<lambda>(key, _). starts_with key prefix) (rev (bt_upto start tree)))"

definition keys_iterator ::
    "(bytes, 'v) btree \<Rightarrow> bytes option \<Rightarrow> bytes option \<Rightarrow> iter_direction \<Rightarrow> bytes list" where
  "keys_iterator tree prefix start direction =
     (case (prefix, start) of
        (None, None) \<Rightarrow> if direction = Forward then map fst tree else rev (map fst tree)
      | _ \<Rightarrow> map fst (iterator tree prefix start direction))"

section \<open>changes_iterator.rs\<close>

datatype storage_changes = Changes changes | ChangesList "changes list"

definition inserted :: "write_operation \<Rightarrow> bytes option" where
  "inserted operation = (case operation of Insert val \<Rightarrow> Some val | Remove \<Rightarrow> None)"

fun find_in_list ::
    "changes list \<Rightarrow> bytes \<Rightarrow> u32 \<Rightarrow> bytes option \<Rightarrow> bytes option storage_result" where
  "find_in_list [] key column found_value = Inr found_value"
| "find_in_list (ch # rest) key column found_value =
     (case Option.bind (changes_at ch key column) inserted of
        Some val \<Rightarrow>
          if found_value \<noteq> None then Inl (Conflicting_changes column key)
          else find_in_list rest key column (Some val)
      | None \<Rightarrow> find_in_list rest key column found_value)"

fun changes_get :: "storage_changes \<Rightarrow> bytes \<Rightarrow> u32 \<Rightarrow> bytes option storage_result" where
  "changes_get (Changes ch) key column = Inr (Option.bind (changes_at ch key column) inserted)"
| "changes_get (ChangesList chs) key column = find_in_list chs key column None"

definition filter_inserts :: "(bytes \<times> write_operation) list \<Rightarrow> (bytes \<times> bytes) list" where
  "filter_inserts items =
     List.map_filter (\<lambda>(key, operation). map_option (Pair key) (inserted operation)) items"

definition filter_insert_keys :: "(bytes \<times> write_operation) list \<Rightarrow> bytes list" where
  "filter_insert_keys items =
     List.map_filter (\<lambda>(key, operation). map_option (\<lambda>_. key) (inserted operation)) items"

definition iter_column ::
    "changes \<Rightarrow> u32 \<Rightarrow> bytes option \<Rightarrow> bytes option \<Rightarrow> iter_direction
     \<Rightarrow> (bytes \<times> write_operation) list" where
  "iter_column ch column prefix start direction =
     (case map_of ch column of
        Some tree \<Rightarrow> iterator tree prefix start direction
      | None \<Rightarrow> [])"

fun changes_iter_store ::
    "storage_changes \<Rightarrow> u32 \<Rightarrow> bytes option \<Rightarrow> bytes option \<Rightarrow> iter_direction
     \<Rightarrow> (bytes \<times> bytes) list" where
  "changes_iter_store (Changes ch) column prefix start direction =
     filter_inserts (iter_column ch column prefix start direction)"
| "changes_iter_store (ChangesList chs) column prefix start direction =
     concat (map (\<lambda>ch. filter_inserts (iter_column ch column prefix start direction)) chs)"

fun changes_iter_store_keys ::
    "storage_changes \<Rightarrow> u32 \<Rightarrow> bytes option \<Rightarrow> bytes option \<Rightarrow> iter_direction \<Rightarrow> bytes list" where
  "changes_iter_store_keys (Changes ch) column prefix start direction =
     filter_insert_keys (iter_column ch column prefix start direction)"
| "changes_iter_store_keys (ChangesList chs) column prefix start direction =
     concat (map (\<lambda>ch. filter_insert_keys (iter_column ch column prefix start direction)) chs)"

fun iter_store_writes ::
    "storage_changes \<Rightarrow> u32 \<Rightarrow> bytes option \<Rightarrow> bytes option \<Rightarrow> iter_direction
     \<Rightarrow> (bytes \<times> write_operation) list" where
  "iter_store_writes (Changes ch) column prefix start direction =
     iter_column ch column prefix start direction"
| "iter_store_writes (ChangesList chs) column prefix start direction =
     concat (map (\<lambda>ch. iter_column ch column prefix start direction) chs)"

section \<open>memory_store.rs and memory_view.rs\<close>

record memory_store =
  inner :: "(bytes, bytes) btree list"

definition memory_default :: "usize \<Rightarrow> memory_store" where
  "memory_default largest_column_idx =
     \<lparr>inner = map (\<lambda>_. []) [0 ..< unat largest_column_idx + 1]\<rparr>"

definition table :: "memory_store \<Rightarrow> u32 \<Rightarrow> (bytes, bytes) btree storage_result" where
  "table s column =
     (if unat column < length (inner s) then Inr (inner s ! unat column)
      else Inl (Index_out_of_bounds column))"

definition memory_get :: "memory_store \<Rightarrow> bytes \<Rightarrow> u32 \<Rightarrow> bytes option storage_result" where
  "memory_get s key column =
     (case table s column of Inl e \<Rightarrow> Inl e | Inr btree \<Rightarrow> Inr (map_of btree key))"

definition memory_kv :: "memory_store kv_inspect" where
  "memory_kv = kv_default memory_get"

definition iter_all ::
    "memory_store \<Rightarrow> u32 \<Rightarrow> bytes option \<Rightarrow> bytes option \<Rightarrow> iter_direction
     \<Rightarrow> (bytes \<times> bytes) list storage_result" where
  "iter_all s column prefix start direction =
     (case table s column of
        Inl e \<Rightarrow> Inl e
      | Inr btree \<Rightarrow> Inr (iterator btree prefix start direction))"

definition iter_all_keys ::
    "memory_store \<Rightarrow> u32 \<Rightarrow> bytes option \<Rightarrow> bytes option \<Rightarrow> iter_direction
     \<Rightarrow> bytes list storage_result" where
  "iter_all_keys s column prefix start direction =
     (case table s column of
        Inl e \<Rightarrow> Inl e
      | Inr btree \<Rightarrow> Inr (keys_iterator btree prefix start direction))"

text \<open>
  \<open>_insert_changes\<close>: the loop over the entries of a column, with the keys met so far, and the loop
  over the columns.
\<close>

type_synonym conflicts = "(u32 \<times> bytes) list"

fun insert_entries ::
    "u32 \<Rightarrow> (bytes \<times> write_operation) list \<Rightarrow> conflicts \<Rightarrow> (bytes, bytes) btree
     \<Rightarrow> conflicts \<times> (bytes, bytes) btree \<times> unit storage_result" where
  "insert_entries column [] conflicts_finder tbl = (conflicts_finder, tbl, Inr ())"
| "insert_entries column ((key, operation) # rest) conflicts_finder tbl =
     (if (column, key) \<in> set conflicts_finder
      then (conflicts_finder, tbl, Inl (Conflicting_changes column key))
      else insert_entries column rest ((column, key) # conflicts_finder)
        (case operation of
           Insert val \<Rightarrow> bt_insert key val tbl
         | Remove \<Rightarrow> bt_remove key tbl))"

fun insert_changes ::
    "changes \<Rightarrow> conflicts \<Rightarrow> memory_store \<Rightarrow> conflicts \<times> memory_store \<times> unit storage_result" where
  "insert_changes [] conflicts_finder s = (conflicts_finder, s, Inr ())"
| "insert_changes ((column, btree) # rest) conflicts_finder s =
     (case table s column of
        Inl e \<Rightarrow> (conflicts_finder, s, Inl e)
      | Inr tbl \<Rightarrow>
          (case insert_entries column btree conflicts_finder tbl of
             (cf, tbl', r) \<Rightarrow>
               let s' = s\<lparr>inner := (inner s)[unat column := tbl']\<rparr> in
               (case r of
                  Inl e \<Rightarrow> (cf, s', Inl e)
                | Inr _ \<Rightarrow> insert_changes rest cf s')))"

fun insert_changes_list ::
    "changes list \<Rightarrow> conflicts \<Rightarrow> memory_store \<Rightarrow> memory_store \<times> unit storage_result" where
  "insert_changes_list [] conflicts_finder s = (s, Inr ())"
| "insert_changes_list (ch # rest) conflicts_finder s =
     (case insert_changes ch conflicts_finder s of
        (cf, s', Inl e) \<Rightarrow> (s', Inl e)
      | (cf, s', Inr _) \<Rightarrow> insert_changes_list rest cf s')"

fun memory_commit_changes ::
    "memory_store \<Rightarrow> storage_changes \<Rightarrow> memory_store \<times> unit storage_result" where
  "memory_commit_changes s (ChangesList chs) = insert_changes_list chs [] s"
| "memory_commit_changes s (Changes ch) =
     (case insert_changes ch [] s of (_, s', r) \<Rightarrow> (s', r))"

text \<open>\<open>create_view\<close>: a copy of all the tables, taken with all the locks held.\<close>

record memory_view =
  view_inner :: "(bytes, bytes) btree list"

definition create_view :: "memory_store \<Rightarrow> memory_view" where
  "create_view s = \<lparr>view_inner = map (\<lambda>btree. btree) (inner s)\<rparr>"

definition view_get :: "memory_view \<Rightarrow> bytes \<Rightarrow> u32 \<Rightarrow> bytes option storage_result" where
  "view_get v key column =
     (if unat column < length (view_inner v) then Inr (map_of (view_inner v ! unat column) key)
      else Inl (Index_out_of_bounds column))"

definition view_iter_all ::
    "memory_view \<Rightarrow> u32 \<Rightarrow> bytes option \<Rightarrow> bytes option \<Rightarrow> iter_direction
     \<Rightarrow> (bytes \<times> bytes) list storage_result" where
  "view_iter_all v column prefix start direction =
     (if unat column < length (view_inner v)
      then Inr (iterator (view_inner v ! unat column) prefix start direction)
      else Inl (Index_out_of_bounds column))"

definition view_iter_all_keys ::
    "memory_view \<Rightarrow> u32 \<Rightarrow> bytes option \<Rightarrow> bytes option \<Rightarrow> iter_direction
     \<Rightarrow> bytes list storage_result" where
  "view_iter_all_keys v column prefix start direction =
     (if unat column < length (view_inner v)
      then Inr (keys_iterator (view_inner v ! unat column) prefix start direction)
      else Inl (Index_out_of_bounds column))"

definition memory_ok :: "memory_store \<Rightarrow> bool" where
  "memory_ok s = (\<forall>btree\<in>set (inner s). bt_ok btree)"

section \<open>Iteration\<close>

text \<open>What the arguments of an iteration select.\<close>

definition selected :: "bytes option \<Rightarrow> bytes option \<Rightarrow> iter_direction \<Rightarrow> bytes \<Rightarrow> bool" where
  "selected prefix start direction key =
     ((case prefix of None \<Rightarrow> True | Some p \<Rightarrow> starts_with key p) \<and>
      (case start of
         None \<Rightarrow> True
       | Some s \<Rightarrow> if direction = Forward then s \<le> key else key \<le> s))"

definition start_has_prefix :: "bytes option \<Rightarrow> bytes option \<Rightarrow> bool" where
  "start_has_prefix prefix start =
     (case (prefix, start) of (Some p, Some s) \<Rightarrow> starts_with s p | _ \<Rightarrow> True)"

definition in_direction :: "iter_direction \<Rightarrow> 'a list \<Rightarrow> 'a list" where
  "in_direction direction xs = (if direction = Forward then xs else rev xs)"

lemma takeWhile_prefix_from:
  assumes "bt_ok tree" "p \<le> lo"
  shows "takeWhile (\<lambda>(key, _). starts_with key p) (bt_from lo tree) =
    filter (\<lambda>e. starts_with (fst e) p \<and> lo \<le> fst e) tree"
proof -
  have "sorted_wrt (\<lambda>x y. fst x < fst y) (bt_from lo tree)"
    using assms(1) by (simp add: bt_from_def bt_ok_sorted_wrt)
  then have "sorted_wrt (\<lambda>x y. (\<lambda>(key, _). starts_with key p) y \<longrightarrow>
      (\<lambda>(key, _). starts_with key p) x) (bt_from lo tree)"
    by (rule sorted_wrt_mono_rel[rotated])
      (use assms(2) in \<open>fastforce simp: bt_from_def intro: starts_with_between\<close>)
  from takeWhile_filter_sorted[OF this] show ?thesis
    by (simp add: bt_from_def case_prod_unfold conj_commute)
qed

lemma takeWhile_prefix_upto:
  assumes "bt_ok tree" "starts_with hi p"
  shows "takeWhile (\<lambda>(key, _). starts_with key p) (rev (bt_upto hi tree)) =
    rev (filter (\<lambda>e. starts_with (fst e) p \<and> fst e \<le> hi) tree)"
proof -
  have "sorted_wrt (\<lambda>x y. fst y < fst x) (rev (bt_upto hi tree))"
    using assms(1) by (simp add: bt_upto_def sorted_wrt_rev bt_ok_sorted_wrt)
  then have "sorted_wrt (\<lambda>x y. (\<lambda>(key, _). starts_with key p) y \<longrightarrow>
      (\<lambda>(key, _). starts_with key p) x) (rev (bt_upto hi tree))"
  proof (rule sorted_wrt_mono_rel[rotated])
    fix x y assume "x \<in> set (rev (bt_upto hi tree))" "fst y < fst x"
    then have "fst y \<le> fst x" "fst x \<le> hi" by (auto simp: bt_upto_def)
    then show "(\<lambda>(key, _). starts_with key p) y \<longrightarrow> (\<lambda>(key, _). starts_with key p) x"
      using assms(2) starts_with_ge[of "fst y" p] starts_with_between[of hi p "fst x"]
      by (auto simp: case_prod_beta dest: order.trans)
  qed
  from takeWhile_filter_sorted[OF this] show ?thesis
    by (simp add: bt_upto_def rev_filter case_prod_unfold conj_commute)
qed

lemma iterator_selects:
  assumes "bt_ok tree" "start_has_prefix prefix start"
  shows "iterator tree prefix start direction =
    in_direction direction (filter (\<lambda>e. selected prefix start direction (fst e)) tree)"
proof (cases prefix; cases start)
  fix p assume [simp]: "prefix = Some p" "start = None"
  have "starts_with (fst e) p \<and> p \<le> fst e \<longleftrightarrow> starts_with (fst e) p" for e :: "bytes \<times> 'a"
    using starts_with_ge by blast
  then show ?thesis
    using takeWhile_prefix_from[OF assms(1), of p p]
    by (simp add: selected_def in_direction_def)
next
  fix p s assume [simp]: "prefix = Some p" "start = Some s"
  have "starts_with s p" using assms(2) by (simp add: start_has_prefix_def)
  then show ?thesis
    using takeWhile_prefix_from[OF assms(1) starts_with_ge] takeWhile_prefix_upto[OF assms(1)]
    by (cases direction) (simp_all add: selected_def in_direction_def)
qed (simp_all add: selected_def in_direction_def bt_from_def bt_upto_def)

lemma keys_iterator_eq: "keys_iterator tree prefix start direction =
    map fst (iterator tree prefix start direction)"
  by (cases prefix; cases start) (simp_all add: keys_iterator_def rev_map)

section \<open>The view of a set of changes\<close>

lemma filter_inserts_eq:
  "filter_inserts items = map (\<lambda>(k, x). (k, the (inserted x)))
     (filter (\<lambda>e. inserted (snd e) \<noteq> None) items)"
  unfolding filter_inserts_def by (induction items) (auto simp: List.map_filter_def)

lemma filter_insert_keys_eq: "filter_insert_keys items = map fst (filter_inserts items)"
  unfolding filter_inserts_def filter_insert_keys_def
  by (induction items) (auto simp: List.map_filter_def split: option.splits)

lemma map_fst_filter_inserts:
  "map fst (filter_inserts items) = map fst (filter (\<lambda>e. inserted (snd e) \<noteq> None) items)"
  by (simp add: filter_inserts_eq case_prod_unfold comp_def)

lemma in_direction_map: "map f (in_direction d xs) = in_direction d (map f xs)"
  by (simp add: in_direction_def rev_map)

lemma in_direction_filter: "filter P (in_direction d xs) = in_direction d (filter P xs)"
  by (simp add: in_direction_def rev_filter)

lemma in_direction_twice [simp]: "in_direction d (in_direction d xs) = xs"
  by (simp add: in_direction_def)

lemma set_in_direction [simp]: "set (in_direction d xs) = set xs"
  by (simp add: in_direction_def)

lemma changes_iter_store_spec:
  assumes "changes_ok ch" "start_has_prefix prefix start"
  shows "set (changes_iter_store (Changes ch) c prefix start d) =
      {(k, v). changes_get (Changes ch) k c = Inr (Some v) \<and> selected prefix start d k}"
    and "sorted_wrt (<) (in_direction d
      (map fst (changes_iter_store (Changes ch) c prefix start d)))"
proof -
  define tree where "tree = hm_get_or c [] ch"
  have tree: "bt_ok tree" using assms(1) by (simp add: tree_def)
  have iter: "iter_column ch c prefix start d =
      in_direction d (filter (\<lambda>e. selected prefix start d (fst e)) tree)"
    using iterator_selects[OF tree assms(2), of d] iterator_selects[OF bt_ok_Nil assms(2), of d]
    by (auto simp: iter_column_def tree_def hm_get_or_def in_direction_def split: option.splits)
  have at: "changes_at ch k c = Some x \<longleftrightarrow> (k, x) \<in> set tree" for k x
    using bt_ok_map_of_iff[OF tree] by (simp add: tree_def changes_at_get_or)
  show "set (changes_iter_store (Changes ch) c prefix start d) =
      {(k, v). changes_get (Changes ch) k c = Inr (Some v) \<and> selected prefix start d k}"
    by (auto simp: iter filter_inserts_eq bind_eq_Some_conv at) (force simp: image_iff)
  have "bt_ok (filter (\<lambda>e. inserted (snd e) \<noteq> None)
      (filter (\<lambda>e. selected prefix start d (fst e)) tree))"
    using tree by simp
  then show "sorted_wrt (<) (in_direction d
      (map fst (changes_iter_store (Changes ch) c prefix start d)))"
    by (simp add: map_fst_filter_inserts iter in_direction_filter in_direction_map bt_ok_def)
qed

lemma changes_iter_store_keys_eq:
  "changes_iter_store_keys sc c prefix start d = map fst (changes_iter_store sc c prefix start d)"
  by (cases sc) (simp_all add: filter_insert_keys_eq map_concat comp_def)

section \<open>Committing to the memory store\<close>

lemma table_update:
  "unat column < length (inner s) \<Longrightarrow>
   table (s\<lparr>inner := (inner s)[unat column := tbl]\<rparr>) c = (if c = column then Inr tbl else table s c)"
  by (auto simp: table_def nth_list_update word_unat_eq_iff)

lemma memory_ok_table: "memory_ok s \<Longrightarrow> table s c = Inr tbl \<Longrightarrow> bt_ok tbl"
  by (auto simp: memory_ok_def table_def split: if_splits)

lemma memory_ok_update: "memory_ok s \<Longrightarrow> bt_ok tbl \<Longrightarrow> memory_ok (s\<lparr>inner := (inner s)[i := tbl]\<rparr>)"
  using set_update_subset_insert[of "inner s" i tbl] by (auto simp: memory_ok_def)

lemma insert_entries_bt_ok:
  "bt_ok tbl \<Longrightarrow> insert_entries c es cf tbl = (cf', tbl', r) \<Longrightarrow> bt_ok tbl'"
  by (induction c es cf tbl rule: insert_entries.induct)
    (auto split: if_splits write_operation.splits)

lemma insert_entries_Inr:
  "bt_ok tbl \<Longrightarrow> insert_entries c es cf tbl = (cf', tbl', Inr ()) \<Longrightarrow>
   set cf' = set cf \<union> {c} \<times> (fst ` set es) \<and>
   map_of tbl' k = (case map_of es k of Some x \<Rightarrow> op_value x | None \<Rightarrow> map_of tbl k)"
proof (induction c es cf tbl rule: insert_entries.induct)
  case (2 c key x rest cf tbl)
  let ?tbl = "case x of Insert val \<Rightarrow> bt_insert key val tbl | Remove \<Rightarrow> bt_remove key tbl"
  have nin: "(c, key) \<notin> set cf" using 2(3) by (auto split: if_splits)
  have ok: "bt_ok ?tbl" using 2(2) by (simp split: write_operation.splits)
  have rec: "insert_entries c rest ((c, key) # cf) ?tbl = (cf', tbl', Inr ())"
    using 2(3) nin by simp
  have "(c, key) \<in> set cf'' \<Longrightarrow> (c, key) \<in> fst ` set [] \<or> key \<notin> fst ` set es"
    if "insert_entries c es cf'' t'' = (cf', tbl', Inr ())" for es cf'' t''
    using that by (induction c es cf'' t'' rule: insert_entries.induct) (auto split: if_splits)
  from this[OF rec] have "map_of rest key = None" by (simp add: map_of_eq_None_iff)
  with 2(1)[OF nin ok rec] 2(2) show ?case
    by (auto simp: op_value_def split: write_operation.splits option.splits)
qed simp

lemma insert_entries_succeeds:
  "snd (snd (insert_entries c es cf tbl)) = Inr () \<longleftrightarrow>
   distinct (map fst es) \<and> (\<forall>k\<in>fst ` set es. (c, k) \<notin> set cf)"
  by (induction c es cf tbl rule: insert_entries.induct) auto

lemma insert_changes_ok:
  "memory_ok s \<Longrightarrow> insert_changes ch cf s = (cf', s', r) \<Longrightarrow>
   memory_ok s' \<and> length (inner s') = length (inner s)"
proof (induction ch cf s rule: insert_changes.induct)
  case (2 c es rest cf s)
  show ?case
  proof (cases "table s c")
    case (Inl e)
    with 2 show ?thesis by simp
  next
    case (Inr tbl)
    obtain cf1 tbl1 r1 where e: "insert_entries c es cf tbl = (cf1, tbl1, r1)"
      by (metis prod_cases3)
    have "memory_ok (s\<lparr>inner := (inner s)[unat c := tbl1]\<rparr>)"
      using insert_entries_bt_ok[OF memory_ok_table[OF 2(2) Inr] e] 2(2)
      by (rule memory_ok_update[rotated])
    with 2(1)[OF Inr e[symmetric] refl refl] 2(3) Inr e show ?thesis
      by (cases r1) auto
  qed
qed simp

lemma insert_changes_Inr:
  "memory_ok s \<Longrightarrow> changes_ok ch \<Longrightarrow> insert_changes ch cf s = (cf', s', Inr ()) \<Longrightarrow>
   memory_get s' k c = overlay ch k c (memory_get s k c) \<and>
   set cf' = set cf \<union> {(c, k). changes_at ch k c \<noteq> None}"
proof (induction ch cf s rule: insert_changes.induct)
  case (2 c' es rest cf s)
  have es: "bt_ok es" and rest: "changes_ok rest" and c': "c' \<notin> fst ` set rest"
    using 2(3) by (auto simp: changes_ok_Cons)
  obtain tbl cf1 tbl1 where tbl: "table s c' = Inr tbl"
    and e: "insert_entries c' es cf tbl = (cf1, tbl1, Inr ())"
    and rec: "insert_changes rest cf1 (s\<lparr>inner := (inner s)[unat c' := tbl1]\<rparr>) = (cf', s', Inr ())"
    using 2(4) by (auto simp: Let_def split: sum.splits prod.splits)
  let ?s = "s\<lparr>inner := (inner s)[unat c' := tbl1]\<rparr>"
  have len: "unat c' < length (inner s)" using tbl by (auto simp: table_def split: if_splits)
  have ok: "memory_ok ?s"
    using insert_entries_bt_ok[OF memory_ok_table[OF 2(2) tbl] e] 2(2)
    by (rule memory_ok_update[rotated])
  note entries = insert_entries_Inr[OF memory_ok_table[OF 2(2) tbl] e]
  have get: "memory_get ?s k c = (if c = c' then Inr (map_of tbl1 k) else memory_get s k c)"
    by (simp add: memory_get_def table_update[OF len])
  have keys: "{(c, k). changes_at ((c', es) # rest) k c \<noteq> None} =
      {c'} \<times> fst ` set es \<union> {(c, k). changes_at rest k c \<noteq> None}"
    using changes_at_notin[OF c']
    by (auto simp: changes_at_Cons[OF c'] dom_map_of_conv_image_fst[symmetric])
  have IH: "memory_get s' k c = overlay rest k c (memory_get ?s k c)"
    "set cf' = set cf1 \<union> {(c, k). changes_at rest k c \<noteq> None}"
    using 2(1)[OF tbl e[symmetric] refl refl refl ok rest rec] by auto
  have "memory_get s' k c = overlay ((c', es) # rest) k c (memory_get s k c)"
    using IH(1) get entries[of k] tbl changes_at_notin[OF c', of k]
    by (auto simp: overlay_def changes_at_Cons[OF c'] memory_get_def split: option.splits)
  then show ?case using IH(2) entries keys by auto
qed (simp add: overlay_def)

lemma insert_changes_succeeds:
  "memory_ok s \<Longrightarrow> changes_ok ch \<Longrightarrow>
   snd (snd (insert_changes ch cf s)) = Inr () \<longleftrightarrow>
   (\<forall>c\<in>fst ` set ch. unat c < length (inner s)) \<and>
   (\<forall>k c. changes_at ch k c \<noteq> None \<longrightarrow> (c, k) \<notin> set cf)"
proof (induction ch cf s rule: insert_changes.induct)
  case (2 c' es rest cf s)
  have es: "bt_ok es" and rest: "changes_ok rest" and c': "c' \<notin> fst ` set rest"
    using 2(3) by (auto simp: changes_ok_Cons)
  show ?case
  proof (cases "table s c'")
    case (Inl e)
    then show ?thesis by (auto simp: table_def split: if_splits)
  next
    case (Inr tbl)
    have len: "unat c' < length (inner s)" using Inr by (auto simp: table_def split: if_splits)
    obtain cf1 tbl1 r1 where e: "insert_entries c' es cf tbl = (cf1, tbl1, r1)"
      by (metis prod_cases3)
    have r1: "r1 = Inr () \<longleftrightarrow> (\<forall>k. map_of es k \<noteq> None \<longrightarrow> (c', k) \<notin> set cf)"
      unfolding map_of_eq_None_iff
      using insert_entries_succeeds[of c' es cf tbl] e bt_ok_distinct[OF es]
      by (metis snd_conv)
    let ?s = "s\<lparr>inner := (inner s)[unat c' := tbl1]\<rparr>"
    have ok: "memory_ok ?s"
      using insert_entries_bt_ok[OF memory_ok_table[OF 2(2) Inr] e] 2(2)
      by (rule memory_ok_update[rotated])
    show ?thesis
    proof (cases r1)
      case (Inl x)
      with r1 have "\<exists>k. map_of es k \<noteq> None \<and> (c', k) \<in> set cf" by auto
      then show ?thesis using Inl Inr e by (simp add: changes_at_Cons[OF c'] Let_def) blast
    next
      case r: (Inr u)
      have cf1: "set cf1 = set cf \<union> {c'} \<times> (fst ` set es)"
        using insert_entries_Inr[OF memory_ok_table[OF 2(2) Inr]] e r by auto
      have IH: "snd (snd (insert_changes rest cf1 ?s)) = Inr () \<longleftrightarrow>
          (\<forall>c\<in>fst ` set rest. unat c < length (inner s)) \<and>
          (\<forall>k c. changes_at rest k c \<noteq> None \<longrightarrow> (c, k) \<notin> set cf1)"
        using 2(1)[OF Inr e[symmetric] refl refl r ok rest] by simp
      have "(\<forall>k c. changes_at rest k c \<noteq> None \<longrightarrow> (c, k) \<notin> set cf1) \<longleftrightarrow>
          (\<forall>k c. changes_at ((c', es) # rest) k c \<noteq> None \<longrightarrow> (c, k) \<notin> set cf)"
        using r r1 changes_at_notin[OF c'] by (auto simp: changes_at_Cons[OF c'] cf1) (metis option.simps(3))+
      then show ?thesis using IH len Inr e r by (simp add: Let_def)
    qed
  qed
qed simp

definition commit_batch :: "memory_store \<Rightarrow> changes \<Rightarrow> memory_store \<times> unit storage_result" where
  "commit_batch s ch = memory_commit_changes s (Changes ch)"

interpretation memory: modifiable_store memory_kv commit_batch memory_ok
proof -
  have get: "kv_get memory_kv = memory_get" by (simp add: memory_kv_def kv_default_def)
  have "kv_inspect_laws memory_kv"
    unfolding memory_kv_def by (rule kv_default.kv_inspect_laws_axioms)
  moreover have "modifiable_store_axioms memory_kv commit_batch memory_ok"
    unfolding commit_batch_def
    by unfold_locales
      (use insert_changes_ok in \<open>fastforce split: prod.splits\<close>,
       use insert_changes_Inr in \<open>fastforce simp: get split: prod.splits\<close>)
  ultimately show "modifiable_store memory_kv commit_batch memory_ok"
    by (rule modifiable_store.intro)
qed

lemma commit_batch_succeeds:
  assumes "memory_ok s" "changes_ok ch" "\<forall>c\<in>fst ` set ch. unat c < length (inner s)"
  obtains s' where "commit_batch s ch = (s', Inr ())" "length (inner s') = length (inner s)"
proof -
  obtain cf s' r where i: "insert_changes ch [] s = (cf, s', r)" by (metis prod_cases3)
  with insert_changes_succeeds[OF assms(1,2), of "[]"] assms(3) have "r = Inr ()" by simp
  with i insert_changes_ok[OF assms(1) i] show ?thesis
    by (intro that[of s']) (simp_all add: commit_batch_def)
qed

section \<open>Columns of a program\<close>

fun mutation_column :: "mutation \<Rightarrow> u32" where
  "mutation_column (Put _ c _) = c"
| "mutation_column (Replace _ c _) = c"
| "mutation_column (Write _ c _) = c"
| "mutation_column (Take _ c) = c"
| "mutation_column (Delete _ c) = c"
| "mutation_column (Batch c _) = c"

lemma keys_hm_insert: "fst ` set (hm_insert k v m) = insert k (fst ` set m)"
  by (simp add: hm_insert_def dom_update)

lemma exec_mutation_columns:
  "fst ` set (changes (fst (exec_mutation S m tx))) =
   insert (mutation_column m) (fst ` set (changes tx))"
  by (cases m)
    (simp_all add: tx_put_def tx_replace_def swap_op_eq tx_write_def tx_take_def tx_delete_def
      batch_write_def insert_op_def Let_def keys_hm_insert)

lemma exec_mutations_columns:
  "exec_mutations S ms tx = (tx', rs) \<Longrightarrow>
   fst ` set (changes tx') = mutation_column ` set ms \<union> fst ` set (changes tx)"
proof (induction ms arbitrary: tx rs)
  case (Cons m ms)
  obtain tx1 r1 where 1: "exec_mutation S m tx = (tx1, r1)" by fastforce
  obtain rs' where 2: "exec_mutations S ms tx1 = (tx', rs')"
    using Cons.prems 1 by (auto simp: apsnd_def map_prod_def split: prod.splits)
  show ?case using Cons.IH[OF 2] exec_mutation_columns[of S m tx] 1 by auto
qed simp

lemma memory_kv_get [simp]: "kv_get memory_kv = memory_get"
  by (simp add: memory_kv_def kv_default_def)

section \<open>Lists of changes\<close>

lemma insert_changes_list_ok:
  "memory_ok s \<Longrightarrow> insert_changes_list chs cf s = (s', r) \<Longrightarrow> memory_ok s'"
proof (induction chs cf s rule: insert_changes_list.induct)
  case (2 ch rest cf s)
  obtain cf1 s1 r1 where i: "insert_changes ch cf s = (cf1, s1, r1)" by (metis prod_cases3)
  with 2 insert_changes_ok[OF 2(2) i] show ?case by (cases r1) auto
qed simp

lemma insert_changes_list_length:
  "memory_ok s \<Longrightarrow> insert_changes_list chs cf s = (s', r) \<Longrightarrow> length (inner s') = length (inner s)"
proof (induction chs cf s rule: insert_changes_list.induct)
  case (2 ch rest cf s)
  obtain cf1 s1 r1 where i: "insert_changes ch cf s = (cf1, s1, r1)" by (metis prod_cases3)
  with 2 insert_changes_ok[OF 2(2) i] show ?case by (cases r1) auto
qed simp

definition changes_keys :: "changes \<Rightarrow> (u32 \<times> bytes) set" where
  "changes_keys ch = {(c, k). changes_at ch k c \<noteq> None}"

fun pairwise_disjoint :: "(u32 \<times> bytes) set \<Rightarrow> changes list \<Rightarrow> bool" where
  "pairwise_disjoint seen [] = True"
| "pairwise_disjoint seen (ch # rest) =
     (changes_keys ch \<inter> seen = {} \<and> pairwise_disjoint (seen \<union> changes_keys ch) rest)"

lemma insert_changes_list_succeeds:
  "memory_ok s \<Longrightarrow> \<forall>ch\<in>set chs. changes_ok ch \<Longrightarrow>
   snd (insert_changes_list chs cf s) = Inr () \<longleftrightarrow>
   (\<forall>ch\<in>set chs. \<forall>c\<in>fst ` set ch. unat c < length (inner s)) \<and> pairwise_disjoint (set cf) chs"
proof (induction chs cf s rule: insert_changes_list.induct)
  case (2 ch rest cf s)
  obtain cf1 s1 r1 where i: "insert_changes ch cf s = (cf1, s1, r1)" by (metis prod_cases3)
  have ok: "memory_ok s1" "length (inner s1) = length (inner s)"
    using insert_changes_ok[OF 2(2) i] by auto
  have ch: "changes_ok ch" using 2(3) by simp
  have r1: "r1 = Inr () \<longleftrightarrow> (\<forall>c\<in>fst ` set ch. unat c < length (inner s)) \<and>
      changes_keys ch \<inter> set cf = {}"
    using insert_changes_succeeds[OF 2(2) ch, of cf] i by (auto simp: changes_keys_def)
  show ?case
  proof (cases r1)
    case (Inl e)
    with r1 i show ?thesis by auto
  next
    case (Inr u)
    then have r: "r1 = Inr ()" by simp
    have cf1: "set cf1 = set cf \<union> changes_keys ch"
      using insert_changes_Inr[OF 2(2) ch i[unfolded r]] by (simp add: changes_keys_def)
    have "snd (insert_changes_list rest cf1 s1) = Inr () \<longleftrightarrow>
        (\<forall>ch\<in>set rest. \<forall>c\<in>fst ` set ch. unat c < length (inner s)) \<and>
        pairwise_disjoint (set cf \<union> changes_keys ch) rest"
      using 2(1)[OF i[symmetric] refl Inr ok(1)] 2(3) ok(2) cf1 by simp
    with r1 i r show ?thesis by simp
  qed
qed simp

lemma insert_changes_list_Inr:
  "memory_ok s \<Longrightarrow> \<forall>ch\<in>set chs. changes_ok ch \<Longrightarrow> insert_changes_list chs cf s = (s', Inr ()) \<Longrightarrow>
   memory_get s' k c = fold (\<lambda>ch. overlay ch k c) chs (memory_get s k c)"
proof (induction chs cf s rule: insert_changes_list.induct)
  case (2 ch rest cf s)
  obtain cf1 s1 where i: "insert_changes ch cf s = (cf1, s1, Inr ())"
    and rec: "insert_changes_list rest cf1 s1 = (s', Inr ())"
    using 2(4) by (auto split: prod.splits sum.splits)
  have ok: "memory_ok s1" using insert_changes_ok[OF 2(2) i] by simp
  show ?case
    using 2(1)[OF i[symmetric] refl refl ok _ rec] 2(3) insert_changes_Inr[OF 2(2) _ i] by simp
qed simp

section \<open>Properties\<close>

text \<open>
  C9. Transactions on the in-memory database.  Run any sequence of mutating calls on a fresh
  transaction over a well-formed memory store, on columns that the store has, and commit it: the
  commit succeeds and keeps the store well-formed, every call returned what it returns on a plain
  map with the contents of the store, and the store then reads exactly as that map.
\<close>

theorem memory_transaction_refines:
  assumes "memory_ok s" "\<forall>m\<in>set ms. unat (mutation_column m) < length (inner s)"
    and run: "exec_mutations memory_kv ms (write_transaction s) = (tx, rs)"
  shows "\<exists>s'. tx_commit commit_batch tx = (s', Inr ()) \<and> memory_ok s' \<and>
    length (inner s') = length (inner s) \<and> spec_mutations ms (memory_get s) = (memory_get s', rs)"
proof -
  have fresh: "tx_ok (write_transaction s)" "storage (write_transaction s) = s"
    "changes (write_transaction s) = []"
    by (simp_all add: tx_ok_def write_transaction_def transaction_def)
  have tx: "changes_ok (changes tx)" "storage tx = s"
    using exec_mutations_refines[OF fresh(1) run] fresh(2) by (simp_all add: tx_ok_def)
  have "\<forall>c\<in>fst ` set (changes tx). unat c < length (inner s)"
    unfolding exec_mutations_columns[OF run] using assms(2) fresh(3) by simp
  then obtain s' where s': "tx_commit commit_batch tx = (s', Inr ())"
    "length (inner s') = length (inner s)"
    using commit_batch_succeeds[OF assms(1) tx(1)] tx(2) by (auto simp: tx_commit_def)
  moreover have "memory_ok s'"
    using memory.commit_ok[OF assms(1) tx(1)] s'(1) tx(2) by (auto simp: tx_commit_def)
  ultimately show ?thesis using memory.run_commit[OF assms(1) run s'(1)] by auto
qed

definition sample_memory :: memory_store where
  "sample_memory = \<lparr>inner = [[([1], [10]), ([1, 2], [20]), ([2], [30])], []]\<rparr>"

lemma sample_memory_ok: "memory_ok sample_memory" "length (inner sample_memory) = 2"
  by (simp_all add: sample_memory_def memory_ok_def bt_ok_def)

definition sample_calls :: "mutation list" where
  "sample_calls = [Take [1, 2] 0, Replace [1, 2] 0 [21], Delete [2] 0, Write [5] 1 [1, 1, 1]]"

theorem memory_transaction_refines_witness:
  "memory_ok sample_memory \<and>
   (\<exists>s'. tx_commit commit_batch
       (fst (exec_mutations memory_kv sample_calls (write_transaction sample_memory))) = (s', Inr ()) \<and>
     memory_get s' [1, 2] 0 = Inr (Some [21]) \<and> memory_get s' [2] 0 = Inr None \<and>
     memory_get s' [1] 0 = Inr (Some [10]))"
proof -
  obtain tx rs where run: "exec_mutations memory_kv sample_calls (write_transaction sample_memory) =
      (tx, rs)" by fastforce
  have cols: "\<forall>m\<in>set sample_calls. unat (mutation_column m) < length (inner sample_memory)"
    by (simp add: sample_calls_def sample_memory_ok)
  obtain s' where s': "tx_commit commit_batch tx = (s', Inr ())"
    "spec_mutations sample_calls (memory_get sample_memory) = (memory_get s', rs)"
    using memory_transaction_refines[OF sample_memory_ok(1) cols run] by blast
  have f: "fst (spec_mutations sample_calls (memory_get sample_memory)) = memory_get s'"
    using s'(2) by simp
  have "memory_get s' [1, 2] 0 = Inr (Some [21])" "memory_get s' [2] 0 = Inr None"
    "memory_get s' [1] 0 = Inr (Some [10])"
    unfolding f[symmetric]
    by (simp_all add: sample_calls_def map_set_def memory_get_def table_def sample_memory_def)
  with s'(1) run sample_memory_ok(1) show ?thesis by auto
qed

text \<open>
  C29. Committing a list of changes to the in-memory database succeeds exactly when all columns exist
  and no key of a column is written by two sets of changes of the list; then the store reads as if
  the sets had been applied one after the other.  The store is well-formed whatever the result.
\<close>

theorem memory_commit_list:
  assumes "memory_ok s" "\<forall>ch\<in>set chs. changes_ok ch"
    and "memory_commit_changes s (ChangesList chs) = (s', r)"
  shows "memory_ok s' \<and>
    (r = Inr () \<longleftrightarrow> (\<forall>ch\<in>set chs. \<forall>c\<in>fst ` set ch. unat c < length (inner s)) \<and>
      pairwise_disjoint {} chs) \<and>
    (r = Inr () \<longrightarrow>
      (\<forall>k c. memory_get s' k c = fold (\<lambda>ch. overlay ch k c) chs (memory_get s k c)))"
  using assms insert_changes_list_ok[OF assms(1)] insert_changes_list_succeeds[OF assms(1,2), of "[]"]
    insert_changes_list_Inr[OF assms(1,2), of "[]" s'] by auto

theorem memory_commit_list_witness:
  "let a = [(0, [([1], Remove)])]; b = [(0, [([2], Remove)]), (1, [([1], Insert [3])])] in
   memory_ok sample_memory \<and> changes_ok a \<and> changes_ok b \<and>
   snd (memory_commit_changes sample_memory (ChangesList [a, b])) = Inr () \<and>
   memory_get (fst (memory_commit_changes sample_memory (ChangesList [a, b]))) [1] 0 = Inr None \<and>
   snd (memory_commit_changes sample_memory (ChangesList [a, b, a])) \<noteq> Inr ()"
proof -
  let ?a = "[(0, [([1], Remove)])] :: changes"
  let ?b = "[(0, [([2], Remove)]), (1, [([1], Insert [3])])] :: changes"
  have ok: "changes_ok ?a" "changes_ok ?b" by (simp_all add: changes_ok_def hm_ok_def bt_ok_def)
  have keys: "changes_keys ?a = {(0, [1])}" "changes_keys ?b = {(0, [2]), (1, [1])}"
    by (auto simp: changes_keys_def changes_at_def split: if_splits)
  note ab = memory_commit_list[of sample_memory "[?a, ?b]", OF sample_memory_ok(1) _ surjective_pairing]
  note aba = memory_commit_list[of sample_memory "[?a, ?b, ?a]", OF sample_memory_ok(1) _
      surjective_pairing]
  have r: "snd (memory_commit_changes sample_memory (ChangesList [?a, ?b])) = Inr ()"
    using ab ok by (simp add: keys sample_memory_ok)
  have "memory_get (fst (memory_commit_changes sample_memory (ChangesList [?a, ?b]))) [1] 0 = Inr None"
    using ab ok r by (simp add: overlay_def changes_at_def op_value_def)
  moreover have "snd (memory_commit_changes sample_memory (ChangesList [?a, ?b, ?a])) \<noteq> Inr ()"
    using aba ok by (simp add: keys)
  ultimately show ?thesis using ok r sample_memory_ok(1) unfolding Let_def by blast
qed

text \<open>
  Iteration over a set of changes.  If a start key, when given together with a prefix, has that
  prefix, then the iterator yields exactly the inserted entries of the column that have the prefix
  and lie on the requested side of the start key, each once, in ascending key order for the
  forward direction and in descending order for the reverse direction.  What it yields for a key
  is what \<open>get\<close> returns for it, and the key iterator yields the same keys.
\<close>

theorem changes_iteration_exact:
  assumes "changes_ok ch" "start_has_prefix prefix start"
  shows "set (changes_iter_store (Changes ch) c prefix start d) =
      {(k, v). changes_get (Changes ch) k c = Inr (Some v) \<and> selected prefix start d k} \<and>
    sorted_wrt (\<lambda>x y. if d = Forward then x < y else y < x)
      (map fst (changes_iter_store (Changes ch) c prefix start d)) \<and>
    changes_iter_store_keys (Changes ch) c prefix start d =
      map fst (changes_iter_store (Changes ch) c prefix start d)"
  using changes_iter_store_spec(1)[OF assms, of c d] changes_iter_store_spec(2)[OF assms, of d c]
    changes_iter_store_keys_eq[of "Changes ch" c prefix start d]
  by (cases d) (simp_all add: in_direction_def sorted_wrt_rev)

theorem changes_iteration_exact_witness:
  "let ch = [(4, [([1, 1], Insert [7]), ([1, 2], Remove), ([1, 3], Insert [8]), ([2], Insert [9])])] in
   changes_ok ch \<and> start_has_prefix (Some [1]) (Some [1, 3]) \<and>
   changes_iter_store (Changes ch) 4 (Some [1]) (Some [1, 3]) Reverse = [([1, 3], [8]), ([1, 1], [7])] \<and>
   set (changes_iter_store (Changes ch) 4 (Some [1]) (Some [1, 3]) Reverse) =
     {(k, v). changes_get (Changes ch) k 4 = Inr (Some v) \<and>
        selected (Some [1]) (Some [1, 3]) Reverse k}"
proof -
  let ?ch = "[(4, [([1, 1], Insert [7]), ([1, 2], Remove), ([1, 3], Insert [8]), ([2], Insert [9])])]
    :: changes"
  have ok: "changes_ok ?ch" "start_has_prefix (Some [1 :: u8]) (Some [1, 3])"
    by (simp_all add: changes_ok_def hm_ok_def bt_ok_def start_has_prefix_def)
  have "changes_iter_store (Changes ?ch) 4 (Some [1]) (Some [1, 3]) Reverse =
      [([1, 3], [8]), ([1, 1], [7])]"
    by (simp add: iter_column_def bt_upto_def filter_inserts_eq inserted_def)
  with ok changes_iteration_exact[OF ok, of 4 Reverse] show ?thesis unfolding Let_def by blast
qed

end
