(* ===== verification/Rocks_Db.thy ===== *)
theory Rocks_Db
  imports Memory_Store
begin

text \<open>
  The persistent store \<open>crates/fuel-core/src/state/rocks_db.rs\<close>: reads, iteration and the batched
  commit of \<open>RocksDb\<close>.

  The \<open>rocksdb\<close> library itself is the argument \<open>R\<close> of the definitions: a record of the calls that
  the code makes, and the sizes of the prefixes that the column families are opened with.  What the
  code relies on is the locale \<open>rocksdb_ordered\<close>: a column family is an ordered table of byte keys, an
  iterator yields the entries of the table from a position on, as far as the read options promise it,
  and a write batch is applied in order and as a whole or not at all.  The locale is interpreted by a
  reference implementation with explicit tables, whose iterators yield nothing beyond that promise.

  Every column of the description has its column family, as after the opening of the database; the
  panics of the lookup of a missing column family are not modelled.  The laws are those of a database
  whose reads do not fail; the error branches of the reads are in the definitions.  Metrics are not
  modelled.
\<close>

section \<open>The calls of the library\<close>

datatype iterator_mode = From_start | From_end | From_key bytes iter_direction

datatype read_options = Default_options | Total_order_seek | Prefix_same_as_start

datatype batch_entry = Put_cf u32 bytes bytes | Delete_cf u32 bytes

text \<open>\<open>cf_prefix\<close> is the fixed size of the prefix extractor of a column family, \<open>cf_opts\<close>.\<close>

record 'db rocksdb_api =
  cf_prefix :: "u32 \<Rightarrow> nat option"
  get_cf :: "'db \<Rightarrow> u32 \<Rightarrow> bytes \<Rightarrow> bytes option storage_result"
  iterator_cf :: "'db \<Rightarrow> u32 \<Rightarrow> read_options \<Rightarrow> iterator_mode \<Rightarrow> (bytes \<times> bytes) storage_result list"
  write_db :: "'db \<Rightarrow> batch_entry list \<Rightarrow> 'db \<times> unit storage_result"
  drop_cf :: "'db \<Rightarrow> u32 \<Rightarrow> 'db \<times> unit storage_result"
  create_cf :: "'db \<Rightarrow> u32 \<Rightarrow> 'db \<times> unit storage_result"

section \<open>Reads\<close>

definition rocks_size_of_value ::
    "'db rocksdb_api \<Rightarrow> 'db \<Rightarrow> bytes \<Rightarrow> u32 \<Rightarrow> usize option storage_result" where
  "rocks_size_of_value R db key column =
     (case get_cf R db column key of Inl e \<Rightarrow> Inl e | Inr v \<Rightarrow> Inr (map_option len v))"

definition rocks_get ::
    "'db rocksdb_api \<Rightarrow> 'db \<Rightarrow> bytes \<Rightarrow> u32 \<Rightarrow> bytes option storage_result" where
  "rocks_get R db key column = get_cf R db column key"

definition rocks_read_exact ::
    "'db rocksdb_api \<Rightarrow> 'db \<Rightarrow> bytes \<Rightarrow> u32 \<Rightarrow> usize \<Rightarrow> bytes \<Rightarrow> bytes \<times> read_result" where
  "rocks_read_exact R db key column offset buf =
     (case get_cf R db column key of
        Inl e \<Rightarrow> (buf, Inl e)
      | Inr None \<Rightarrow> (buf, Inr (Inl KeyNotFound))
      | Inr (Some val) \<Rightarrow>
          let bytes_len = length val; buf_len = len buf; fin = sat_add offset buf_len in
          if bytes_len < unat fin then (buf, Inr (Inl OutOfBounds))
          else (take (unat fin - unat offset) (drop (unat offset) val), Inr (Inr buf_len)))"

definition rocks_read_zerofill ::
    "'db rocksdb_api \<Rightarrow> 'db \<Rightarrow> bytes \<Rightarrow> u32 \<Rightarrow> usize \<Rightarrow> bytes \<Rightarrow> bytes \<times> read_result" where
  "rocks_read_zerofill R db key column offset buf =
     (case get_cf R db column key of
        Inl e \<Rightarrow> (buf, Inl e)
      | Inr None \<Rightarrow> (buf, Inr (Inl KeyNotFound))
      | Inr (Some val) \<Rightarrow>
          (case split_at_checked val offset of
             None \<Rightarrow> (buf, Inr (Inl OutOfBounds))
           | Some (_, aft) \<Rightarrow>
               let dst = min (length buf) (length aft) in
               (take dst aft @ replicate (length buf - dst) 0, Inr (Inr (len val)))))"

definition rocks_kv :: "'db rocksdb_api \<Rightarrow> 'db kv_inspect" where
  "rocks_kv R =
     \<lparr>kv_exists = default_exists (rocks_size_of_value R),
      kv_size_of_value = rocks_size_of_value R, kv_get = rocks_get R,
      kv_read_exact = rocks_read_exact R, kv_read_zerofill = rocks_read_zerofill R\<rparr>"

text \<open>\<open>multi_get\<close> looks up the keys in order and returns the first error, if any.\<close>

fun multi_get ::
    "'db rocksdb_api \<Rightarrow> 'db \<Rightarrow> u32 \<Rightarrow> bytes list \<Rightarrow> bytes option list storage_result" where
  "multi_get R db column [] = Inr []"
| "multi_get R db column (k # ks) =
     (case get_cf R db column k of
        Inl e \<Rightarrow> Inl e
      | Inr v \<Rightarrow> (case multi_get R db column ks of Inl e \<Rightarrow> Inl e | Inr vs \<Rightarrow> Inr (v # vs)))"

section \<open>Iteration\<close>

text \<open>
  \<open>next_prefix\<close>: the loop runs from the last byte to the first; \<open>behind\<close> are the bytes behind the
  current one.
\<close>

fun next_prefix_rev :: "bytes \<Rightarrow> bytes \<Rightarrow> bytes option" where
  "next_prefix_rev [] behind = None"
| "next_prefix_rev (byte # rest) behind =
     (case checked_add byte 1 of
        Some new_byte \<Rightarrow> Some (rev rest @ new_byte # behind)
      | None \<Rightarrow> next_prefix_rev rest (byte # behind))"

definition next_prefix :: "bytes \<Rightarrow> bytes option" where
  "next_prefix prefix = next_prefix_rev (rev prefix) []"

definition item_in_prefix :: "bytes \<Rightarrow> (bytes \<times> bytes) storage_result \<Rightarrow> bool" where
  "item_in_prefix prefix item =
     (case item of Inr (key, _) \<Rightarrow> starts_with key prefix | Inl _ \<Rightarrow> True)"

definition reverse_prefix_iter ::
    "'db rocksdb_api \<Rightarrow> 'db \<Rightarrow> bytes \<Rightarrow> u32 \<Rightarrow> (bytes \<times> bytes) storage_result list" where
  "reverse_prefix_iter R db prefix column =
     (case next_prefix prefix of
        Some np \<Rightarrow>
          takeWhile (item_in_prefix prefix)
            (iterator_cf R db column Total_order_seek (From_key np Reverse))
      | None \<Rightarrow>
          takeWhile (item_in_prefix prefix)
            (iterator_cf R db column Default_options From_end))"

fun rocks_iter_store ::
    "'db rocksdb_api \<Rightarrow> 'db \<Rightarrow> u32 \<Rightarrow> bytes option \<Rightarrow> bytes option \<Rightarrow> iter_direction
     \<Rightarrow> (bytes \<times> bytes) storage_result list" where
  "rocks_iter_store R db column None None direction =
     iterator_cf R db column Default_options
       (case direction of Forward \<Rightarrow> From_start | Reverse \<Rightarrow> From_end)"
| "rocks_iter_store R db column (Some prefix) None direction =
     (if direction = Reverse then reverse_prefix_iter R db prefix column
      else takeWhile (item_in_prefix prefix)
        (iterator_cf R db column Prefix_same_as_start (From_key prefix direction)))"
| "rocks_iter_store R db column None (Some start) direction =
     iterator_cf R db column Total_order_seek (From_key start direction)"
| "rocks_iter_store R db column (Some prefix) (Some start) direction =
     (if \<not> starts_with start prefix then []
      else takeWhile (item_in_prefix prefix)
        (iterator_cf R db column Default_options (From_key start direction)))"

section \<open>Commit\<close>

fun populate_ops ::
    "u32 \<Rightarrow> (bytes \<times> write_operation) list \<Rightarrow> conflicts \<Rightarrow> batch_entry list
     \<Rightarrow> conflicts \<times> batch_entry list \<times> unit storage_result" where
  "populate_ops column [] conflict_finder batch = (conflict_finder, batch, Inr ())"
| "populate_ops column ((key, operation) # rest) conflict_finder batch =
     (if (column, key) \<in> set conflict_finder
      then (conflict_finder, batch, Inl (Conflicting_changes column key))
      else populate_ops column rest ((column, key) # conflict_finder)
        (case operation of
           Insert val \<Rightarrow> batch @ [Put_cf column key val]
         | Remove \<Rightarrow> batch @ [Delete_cf column key]))"

fun populate_batch ::
    "changes \<Rightarrow> conflicts \<Rightarrow> batch_entry list \<Rightarrow> conflicts \<times> batch_entry list \<times> unit storage_result" where
  "populate_batch [] conflict_finder batch = (conflict_finder, batch, Inr ())"
| "populate_batch ((column, ops) # rest) conflict_finder batch =
     (case populate_ops column ops conflict_finder batch of
        (cf, batch', Inl e) \<Rightarrow> (cf, batch', Inl e)
      | (cf, batch', Inr _) \<Rightarrow> populate_batch rest cf batch')"

fun populate_list ::
    "changes list \<Rightarrow> conflicts \<Rightarrow> batch_entry list \<Rightarrow> conflicts \<times> batch_entry list \<times> unit storage_result" where
  "populate_list [] conflict_finder batch = (conflict_finder, batch, Inr ())"
| "populate_list (ch # rest) conflict_finder batch =
     (case populate_batch ch conflict_finder batch of
        (cf, batch', Inl e) \<Rightarrow> (cf, batch', Inl e)
      | (cf, batch', Inr _) \<Rightarrow> populate_list rest cf batch')"

definition rocks_commit_changes ::
    "'db rocksdb_api \<Rightarrow> 'db \<Rightarrow> storage_changes \<Rightarrow> 'db \<times> unit storage_result" where
  "rocks_commit_changes R db sc =
     (case (case sc of
              Changes ch \<Rightarrow> populate_batch ch [] []
            | ChangesList chs \<Rightarrow> populate_list chs [] []) of
        (_, batch, Inl e) \<Rightarrow> (db, Inl e)
      | (_, batch, Inr _) \<Rightarrow> write_db R db batch)"

definition clear_table :: "'db rocksdb_api \<Rightarrow> 'db \<Rightarrow> u32 \<Rightarrow> 'db \<times> unit storage_result" where
  "clear_table R db column =
     (case drop_cf R db column of
        (db', Inl e) \<Rightarrow> (db', Inl e)
      | (db', Inr _) \<Rightarrow> create_cf R db' column)"

section \<open>What the code relies on\<close>

definition mode_items :: "iterator_mode \<Rightarrow> (bytes, bytes) btree \<Rightarrow> (bytes \<times> bytes) list" where
  "mode_items mode t =
     (case mode of
        From_start \<Rightarrow> t
      | From_end \<Rightarrow> rev t
      | From_key k Forward \<Rightarrow> bt_from k t
      | From_key k Reverse \<Rightarrow> rev (bt_upto k t))"

fun apply_entry :: "batch_entry \<Rightarrow> u32 \<Rightarrow> (bytes, bytes) btree \<Rightarrow> (bytes, bytes) btree" where
  "apply_entry (Put_cf c' k v) c t = (if c = c' then bt_insert k v t else t)"
| "apply_entry (Delete_cf c' k) c t = (if c = c' then bt_remove k t else t)"

definition apply_batch :: "batch_entry list \<Rightarrow> u32 \<Rightarrow> (bytes, bytes) btree \<Rightarrow> (bytes, bytes) btree" where
  "apply_batch batch c t = fold (\<lambda>e. apply_entry e c) batch t"

text \<open>
  \<open>tbl\<close> is the table that a column family holds.  An iterator is in total order when the option
  \<open>total_order_seek\<close> is set, or when the column family has no prefix extractor.  Otherwise it is only
  relied on to go forward through the section of the keys that share the extracted prefix with the key it
  starts at; nothing is known about what it yields after that section, and nothing about an iterator that
  goes backward or starts at one end of the table.
\<close>

locale rocksdb_ordered =
  fixes R :: "'db rocksdb_api" and tbl :: "'db \<Rightarrow> u32 \<Rightarrow> (bytes, bytes) btree"
  assumes tbl_ok: "bt_ok (tbl db c)"
    and get_law: "get_cf R db c k = Inr (map_of (tbl db c) k)"
    and iter_total_law: "iterator_cf R db c Total_order_seek mode = map Inr (mode_items mode (tbl db c))"
    and iter_plain_law: "cf_prefix R c = None \<Longrightarrow>
      iterator_cf R db c opts mode = map Inr (mode_items mode (tbl db c))"
    and iter_section_law: "cf_prefix R c = Some n \<Longrightarrow> n \<le> length start \<Longrightarrow>
      takeWhile (item_in_prefix (take n start)) (iterator_cf R db c opts (From_key start Forward)) =
      takeWhile (item_in_prefix (take n start)) (map Inr (bt_from start (tbl db c)))"
    and write_law: "write_db R db batch = (db', Inr ()) \<Longrightarrow> tbl db' c = apply_batch batch c (tbl db c)"
    and write_atomic_law: "write_db R db batch = (db', Inl e) \<Longrightarrow> tbl db' c = tbl db c"
    and clear_law: "drop_cf R db c = (db', Inr ()) \<Longrightarrow> create_cf R db' c = (db'', Inr ()) \<Longrightarrow>
      tbl db'' c' = (if c' = c then [] else tbl db c')"

interpretation rocks: kv_inspect_laws "rocks_kv R" for R
proof unfold_locales
  fix s k c off buf
  show "kv_read_exact (rocks_kv R) s k c off buf =
      default_read_exact (kv_get (rocks_kv R)) s k c off buf"
    using sat_add_ge[of off "len buf"]
    by (auto simp: rocks_kv_def rocks_read_exact_def default_read_exact_def rocks_get_def
        slice_get_def Let_def split: sum.splits option.splits)
qed (simp_all add: rocks_kv_def rocks_size_of_value_def default_size_of_value_def rocks_get_def
    default_exists_def rocks_read_zerofill_def default_read_zerofill_def
    Let_def split: sum.splits option.splits)

lemma kv_get_rocks [simp]: "kv_get (rocks_kv R) = rocks_get R"
  by (simp add: rocks_kv_def)

section \<open>The commit and the memory store\<close>

text \<open>
  The batch that \<open>_populate_batch\<close> builds does to the tables what the in-memory database does
  directly, and both find the same conflicts.
\<close>

lemma apply_batch_Nil [simp]: "apply_batch [] c t = t"
  by (simp add: apply_batch_def)

lemma apply_batch_Cons [simp]: "apply_batch (e # b) c t = apply_batch b c (apply_entry e c t)"
  by (simp add: apply_batch_def)

lemma apply_batch_append [simp]: "apply_batch (a @ b) c t = apply_batch b c (apply_batch a c t)"
  by (simp add: apply_batch_def)

lemma apply_entry_ok: "bt_ok t \<Longrightarrow> bt_ok (apply_entry e c t)"
  by (cases e) auto

lemma apply_batch_ok: "bt_ok t \<Longrightarrow> bt_ok (apply_batch b c t)"
  by (induction b arbitrary: t) (auto simp: apply_entry_ok)

lemma populate_ops_simulates:
  "populate_ops column ops cf batch = (cf', batch', r) \<Longrightarrow>
   \<exists>new. batch' = batch @ new \<and> (\<forall>c t. c \<noteq> column \<longrightarrow> apply_batch new c t = t) \<and>
     (\<forall>t. insert_entries column ops cf t = (cf', apply_batch new column t, r))"
proof (induction column ops cf batch rule: populate_ops.induct)
  case (2 column key x rest cf batch)
  define e where "e = (case x of Insert val \<Rightarrow> Put_cf column key val | Remove \<Rightarrow> Delete_cf column key)"
  show ?case
  proof (cases "(column, key) \<in> set cf")
    case True
    with 2(2) show ?thesis by (intro exI[of _ "[]"]) auto
  next
    case False
    have b: "(case x of Insert val \<Rightarrow> batch @ [Put_cf column key val]
        | Remove \<Rightarrow> batch @ [Delete_cf column key]) = batch @ [e]"
      by (simp add: e_def split: write_operation.splits)
    obtain new where new: "batch' = (batch @ [e]) @ new"
      "\<forall>c t. c \<noteq> column \<longrightarrow> apply_batch new c t = t"
      "\<forall>t. insert_entries column rest ((column, key) # cf) t = (cf', apply_batch new column t, r)"
      using 2(1)[OF False] 2(2) False by (auto simp: b)
    have "apply_entry e c t = t" if "c \<noteq> column" for c t
      using that by (simp add: e_def split: write_operation.splits)
    moreover have "apply_entry e column t =
        (case x of Insert val \<Rightarrow> bt_insert key val t | Remove \<Rightarrow> bt_remove key t)" for t
      by (simp add: e_def split: write_operation.splits)
    ultimately show ?thesis using new False by (intro exI[of _ "e # new"]) simp
  qed
qed simp

definition agrees :: "(u32 \<Rightarrow> (bytes, bytes) btree) \<Rightarrow> memory_store \<Rightarrow> bool" where
  "agrees tb s = (\<forall>c. table s c = Inr (tb c))"

lemma agrees_update:
  assumes "agrees tb s"
  shows "agrees (tb(c := t)) (s\<lparr>inner := (inner s)[unat c := t]\<rparr>)"
proof -
  have "unat c < length (inner s)"
    using assms by (auto simp: agrees_def table_def split: if_splits)
  with assms show ?thesis by (simp add: agrees_def table_update)
qed

lemma populate_batch_simulates:
  "populate_batch ch cf batch = (cf', batch', r) \<Longrightarrow> agrees tb s \<Longrightarrow>
   \<exists>new s'. batch' = batch @ new \<and> insert_changes ch cf s = (cf', s', r) \<and>
     agrees (\<lambda>c. apply_batch new c (tb c)) s'"
proof (induction ch cf batch arbitrary: s tb rule: populate_batch.induct)
  case (2 column ops rest cf batch)
  obtain cf1 b1 r1 where p: "populate_ops column ops cf batch = (cf1, b1, r1)" by (metis prod_cases3)
  obtain new1 where n1: "b1 = batch @ new1" "\<forall>c t. c \<noteq> column \<longrightarrow> apply_batch new1 c t = t"
    "\<forall>t. insert_entries column ops cf t = (cf1, apply_batch new1 column t, r1)"
    using populate_ops_simulates[OF p] by auto
  let ?t = "apply_batch new1 column (tb column)"
  let ?s = "s\<lparr>inner := (inner s)[unat column := ?t]\<rparr>"
  have tb: "tb(column := ?t) = (\<lambda>c. apply_batch new1 c (tb c))" using n1(2) by auto
  have ag: "agrees (\<lambda>c. apply_batch new1 c (tb c)) ?s"
    using agrees_update[OF 2(3), of column ?t] by (simp add: tb)
  have tab: "table s column = Inr (tb column)" using 2(3) by (simp add: agrees_def)
  show ?case
  proof (cases r1)
    case (Inl e)
    with 2(2) p n1 tab ag show ?thesis by (auto simp: Let_def intro!: exI[of _ new1])
  next
    case (Inr u)
    have "populate_batch rest cf1 b1 = (cf', batch', r)" using 2(2) p Inr by simp
    from 2(1)[OF p[symmetric] refl Inr this ag] obtain new s' where
      "batch' = b1 @ new" "insert_changes rest cf1 ?s = (cf', s', r)"
      "agrees (\<lambda>c. apply_batch new c (apply_batch new1 c (tb c))) s'" by blast
    with n1 tab Inr show ?thesis by (intro exI[of _ "new1 @ new"] exI[of _ s']) (simp add: Let_def)
  qed
qed auto

lemma populate_list_simulates:
  "populate_list chs cf batch = (cf', batch', r) \<Longrightarrow> agrees tb s \<Longrightarrow>
   \<exists>new s'. batch' = batch @ new \<and> insert_changes_list chs cf s = (s', r) \<and>
     agrees (\<lambda>c. apply_batch new c (tb c)) s'"
proof (induction chs cf batch arbitrary: s tb rule: populate_list.induct)
  case (2 ch rest cf batch)
  obtain cf1 b1 r1 where p: "populate_batch ch cf batch = (cf1, b1, r1)" by (metis prod_cases3)
  obtain new1 s1 where n1: "b1 = batch @ new1" "insert_changes ch cf s = (cf1, s1, r1)"
    "agrees (\<lambda>c. apply_batch new1 c (tb c)) s1"
    using populate_batch_simulates[OF p 2(3)] by blast
  show ?case
  proof (cases r1)
    case (Inl e)
    with 2(2) p n1 show ?thesis by auto
  next
    case (Inr u)
    have "populate_list rest cf1 b1 = (cf', batch', r)" using 2(2) p Inr by simp
    from 2(1)[OF p[symmetric] refl Inr this n1(3)] obtain new s' where
      "batch' = b1 @ new" "insert_changes_list rest cf1 s1 = (s', r)"
      "agrees (\<lambda>c. apply_batch new c (apply_batch new1 c (tb c))) s'" by blast
    with n1 Inr show ?thesis by (intro exI[of _ "new1 @ new"] exI[of _ s']) simp
  qed
qed auto

text \<open>The memory store with the same tables, for every column number.\<close>

definition memory_of :: "(u32 \<Rightarrow> (bytes, bytes) btree) \<Rightarrow> memory_store" where
  "memory_of tb = \<lparr>inner = map (\<lambda>i. tb (of_nat i)) [0 ..< 2 ^ LENGTH(32)]\<rparr>"

lemma agrees_memory_of: "agrees tb (memory_of tb)"
proof -
  have "unat c < 2 ^ LENGTH(32)" for c :: u32 by (rule unsigned_less)
  then show ?thesis by (simp add: agrees_def table_def memory_of_def del: upt.simps)
qed

lemma length_memory_of: "length (inner (memory_of tb)) = 2 ^ LENGTH(32)"
  by (simp add: memory_of_def)

lemma agrees_unique:
  assumes "agrees tb s" "length (inner s) = 2 ^ LENGTH(32)"
  shows "s = memory_of tb"
proof -
  have "inner s ! i = tb (of_nat i)" if "i < 2 ^ LENGTH(32)" for i
  proof -
    have u: "unat (of_nat i :: u32) = i"
      using that by (simp add: unsigned_of_nat take_bit_nat_eq_self)
    have "table s (of_nat i) = Inr (tb (of_nat i))" using assms(1) by (simp add: agrees_def)
    then show ?thesis using that assms(2) by (simp add: table_def u)
  qed
  then have "inner s = inner (memory_of tb)"
    using assms(2) by (intro nth_equalityI) (simp_all add: memory_of_def)
  then show ?thesis by simp
qed

lemma memory_get_memory_of [simp]: "memory_get (memory_of tb) k c = Inr (map_of (tb c) k)"
  using agrees_memory_of[of tb] by (simp add: memory_get_def agrees_def)

lemma memory_of_ok: "(\<And>c. bt_ok (tb c)) \<Longrightarrow> memory_ok (memory_of tb)"
  by (auto simp: memory_ok_def memory_of_def)

definition rocks_batch :: "'db rocksdb_api \<Rightarrow> 'db \<Rightarrow> changes \<Rightarrow> 'db \<times> unit storage_result" where
  "rocks_batch R db ch = rocks_commit_changes R db (Changes ch)"

lemma memory_commit_length:
  "memory_ok s \<Longrightarrow> memory_commit_changes s sc = (s', r) \<Longrightarrow> length (inner s') = length (inner s)"
proof (cases sc)
  case (ChangesList chs)
  have "memory_ok s \<Longrightarrow> insert_changes_list chs cf s = (s', r) \<Longrightarrow>
      length (inner s') = length (inner s)" for cf chs
  proof (induction chs cf s rule: insert_changes_list.induct)
    case (2 ch rest cf s)
    obtain cf1 s1 r1 where i: "insert_changes ch cf s = (cf1, s1, r1)" by (metis prod_cases3)
    with 2 insert_changes_ok[OF 2(2) i] show ?case by (cases r1) auto
  qed simp
  with ChangesList show "memory_ok s \<Longrightarrow> memory_commit_changes s sc = (s', r) \<Longrightarrow>
      length (inner s') = length (inner s)" by simp
qed (use insert_changes_ok in \<open>fastforce split: prod.splits\<close>)

context rocksdb_ordered
begin

abbreviation "abs_store db \<equiv> memory_of (tbl db)"

lemma abs_ok: "memory_ok (abs_store db)"
  by (rule memory_of_ok) (rule tbl_ok)

lemma commit_refines:
  assumes "rocks_commit_changes R db sc = (db', r)"
  shows "r = Inr () \<Longrightarrow> memory_commit_changes (abs_store db) sc = (abs_store db', Inr ())"
    and "r \<noteq> Inr () \<Longrightarrow> tbl db' = tbl db"
    and "memory_commit_changes (abs_store db) sc = (s, Inl e) \<Longrightarrow> r = Inl e"
proof -
  define p where "p = (case sc of Changes ch \<Rightarrow> populate_batch ch [] []
      | ChangesList chs \<Rightarrow> populate_list chs [] [])"
  obtain cf batch pr where p_eq: "p = (cf, batch, pr)" by (metis prod_cases3)
  have "\<exists>s'. memory_commit_changes (abs_store db) sc = (s', pr) \<and>
      agrees (\<lambda>c. apply_batch batch c (tbl db c)) s'"
  proof (cases sc)
    case (Changes ch)
    then have "populate_batch ch [] [] = (cf, batch, pr)" using p_eq p_def by simp
    from populate_batch_simulates[OF this agrees_memory_of[of "tbl db"]] Changes show ?thesis by auto
  next
    case (ChangesList chs)
    then have "populate_list chs [] [] = (cf, batch, pr)" using p_eq p_def by simp
    from populate_list_simulates[OF this agrees_memory_of[of "tbl db"]] ChangesList show ?thesis
      by auto
  qed
  then obtain s' where s': "memory_commit_changes (abs_store db) sc = (s', pr)"
    "agrees (\<lambda>c. apply_batch batch c (tbl db c)) s'" by blast
  have len: "length (inner s') = 2 ^ LENGTH(32)"
    using memory_commit_length[OF abs_ok s'(1)] by (simp add: length_memory_of)
  have commit: "(case pr of Inl e \<Rightarrow> (db, Inl e) | Inr _ \<Rightarrow> write_db R db batch) = (db', r)"
    using assms p_eq by (simp add: rocks_commit_changes_def p_def)
  show "memory_commit_changes (abs_store db) sc = (abs_store db', Inr ())" if "r = Inr ()"
  proof -
    have pr: "pr = Inr ()" "write_db R db batch = (db', Inr ())"
      using commit that by (auto split: sum.splits)
    have "(\<lambda>c. apply_batch batch c (tbl db c)) = tbl db'" using write_law[OF pr(2)] by auto
    with agrees_unique[OF s'(2) len] s'(1) pr(1) show ?thesis by simp
  qed
  show "r = Inl e" if "memory_commit_changes (abs_store db) sc = (s, Inl e)"
    using that s'(1) commit by auto
  show "tbl db' = tbl db" if r: "r \<noteq> Inr ()"
  proof (cases pr)
    case (Inl e)
    with commit show ?thesis by simp
  next
    case (Inr u)
    with commit r obtain e where "write_db R db batch = (db', Inl e)" by (cases r) auto
    from write_atomic_law[OF this] show ?thesis by auto
  qed
qed

lemma get_abs: "rocks_get R db k c = memory_get (abs_store db) k c"
  by (simp add: rocks_get_def get_law)

lemma commit_batch_total:
  assumes "changes_ok ch" "\<And>b. \<exists>db'. write_db R db b = (db', Inr ())"
  shows "\<exists>db'. rocks_commit_changes R db (Changes ch) = (db', Inr ())"
proof -
  obtain cf batch pr where p: "populate_batch ch [] [] = (cf, batch, pr)" by (metis prod_cases3)
  obtain s' where s': "insert_changes ch [] (abs_store db) = (cf, s', pr)"
    using populate_batch_simulates[OF p agrees_memory_of[of "tbl db"]] by blast
  have "unat c < 2 ^ LENGTH(32)" for c :: u32 by (rule unsigned_less)
  then have "pr = Inr ()"
    using insert_changes_succeeds[OF abs_ok[of db] assms(1), of "[]"] s'
    by (simp add: length_memory_of)
  with p assms(2) show ?thesis by (simp add: rocks_commit_changes_def)
qed

end

sublocale rocksdb_ordered < store: modifiable_store "rocks_kv R" "rocks_batch R" "\<lambda>_. True"
proof -
  have "modifiable_store_axioms (rocks_kv R) (rocks_batch R) (\<lambda>_. True)"
  proof unfold_locales
    fix s ch s' k c
    assume ch: "changes_ok ch" and c: "rocks_batch R s ch = (s', Inr ())"
    have "commit_batch (abs_store s) ch = (abs_store s', Inr ())"
      using commit_refines(1)[OF c[unfolded rocks_batch_def]] by (simp add: commit_batch_def)
    from memory.commit_get[OF abs_ok ch this, of k c]
    show "kv_get (rocks_kv R) s' k c = overlay ch k c (kv_get (rocks_kv R) s k c)"
      by (simp add: get_abs)
  qed simp
  then show "modifiable_store (rocks_kv R) (rocks_batch R) (\<lambda>_. True)"
    by (rule modifiable_store.intro[OF rocks.kv_inspect_laws_axioms])
qed

section \<open>Iteration and the in-memory iterator\<close>

lemma takeWhile_weaken:
  assumes "takeWhile P xs = takeWhile P ys" "\<And>x. Q x \<Longrightarrow> P x"
  shows "takeWhile Q xs = takeWhile Q ys"
proof -
  have "takeWhile Q xs = takeWhile Q (takeWhile P xs)" for xs
    using assms(2) by (induction xs) auto
  with assms(1) show ?thesis by metis
qed

lemma takeWhile_item_in_prefix:
  "takeWhile (item_in_prefix p) (map Inr xs) = map Inr (takeWhile (\<lambda>(k, _). starts_with k p) xs)"
  by (simp add: takeWhile_map comp_def item_in_prefix_def)

lemma next_prefix_rev_Some:
  "next_prefix_rev r behind = Some np \<Longrightarrow>
   \<exists>r1 b r2. r = r1 @ b # r2 \<and> unat b + 1 < 2 ^ 8 \<and> np = rev r2 @ (b + 1) # rev r1 @ behind"
proof (induction r behind rule: next_prefix_rev.induct)
  case (2 byte rest behind)
  show ?case
  proof (cases "checked_add byte 1")
    case None
    with 2 obtain r1 b r2 where "rest = r1 @ b # r2" "unat b + 1 < 2 ^ 8"
      "np = rev r2 @ (b + 1) # rev r1 @ byte # behind" by auto
    then show ?thesis by (intro exI[of _ "byte # r1"] exI[of _ b] exI[of _ r2]) simp
  next
    case (Some x)
    with 2(2) show ?thesis
      by (intro exI[of _ "[]"] exI[of _ byte] exI[of _ rest])
        (auto simp: checked_add_def split: if_splits)
  qed
qed simp

lemma next_prefix_Some:
  assumes "next_prefix p = Some np"
  obtains q b s where "p = q @ b # s" "unat b + 1 < 2 ^ 8" "np = q @ (b + 1) # s"
proof -
  obtain r1 b r2 where "rev p = r1 @ b # r2" "unat b + 1 < 2 ^ 8" "np = rev r2 @ (b + 1) # rev r1"
    using next_prefix_rev_Some[of "rev p" "[]" np] assms by (auto simp: next_prefix_def)
  then have "p = rev r2 @ b # rev r1" by (simp add: rev_swap)
  then show ?thesis
    using that \<open>unat b + 1 < 2 ^ 8\<close> \<open>np = rev r2 @ (b + 1) # rev r1\<close> by blast
qed

lemma next_prefix_rev_None: "next_prefix_rev r behind = None \<Longrightarrow> b \<in> set r \<Longrightarrow> b = 255"
proof (induction r behind rule: next_prefix_rev.induct)
  case (2 byte rest behind)
  then have "\<not> unat byte + 1 < 2 ^ 8" by (auto simp: checked_add_def split: if_splits)
  then have "unat byte = unat (255 :: u8)" using unat_less_pow[of byte] by simp
  then have "byte = 255" by (simp only: word_unat_eq_iff)
  with 2 show ?case by (auto split: option.splits)
qed simp

lemma next_prefix_None: "next_prefix p = None \<Longrightarrow> b \<in> set p \<Longrightarrow> b = 255"
  using next_prefix_rev_None[of "rev p" "[]"] by (simp add: next_prefix_def)

lemma all_max_prefix: "(\<And>b. b \<in> set p \<Longrightarrow> b = (255 :: u8)) \<Longrightarrow> p \<le> k \<Longrightarrow> starts_with k p"
proof (induction p arbitrary: k)
  case (Cons a p)
  have a: "a = 255" using Cons.prems(1) by simp
  have max: "x \<le> 255" for x :: u8 using unat_less_pow[of x] by (simp add: word_le_nat_alt)
  obtain x xs where k: "k = x # xs" using Cons.prems(2) by (cases k) auto
  have "x = a \<and> p \<le> xs" using Cons.prems(2) max[of x] by (simp add: k a not_less[symmetric])
  with Cons k show ?case by simp
qed simp

lemma append_less_cancel: "q @ x < q @ y \<longleftrightarrow> x < (y :: 'a::linorder list)"
  by (induction q) auto

lemma append_le_cancel: "q @ x \<le> q @ y \<longleftrightarrow> x \<le> (y :: 'a::linorder list)"
  by (induction q) auto

lemma starts_with_append: "starts_with (q @ x) (q @ y) \<longleftrightarrow> starts_with x y"
  by (induction q) auto

lemma starts_with_split: "starts_with k p \<Longrightarrow> k = p @ drop (length p) k"
  unfolding starts_with_def by (metis append_take_drop_id)

lemma next_prefix_less:
  assumes "next_prefix p = Some np" "starts_with k p"
  shows "k < np"
proof -
  obtain q b s where p: "p = q @ b # s" "unat b + 1 < 2 ^ 8" "np = q @ (b + 1) # s"
    using assms(1) by (rule next_prefix_Some)
  have "b < b + 1" using p(2) by (simp add: word_less_nat_alt unat_word_ariths)
  moreover have "k = q @ b # (s @ drop (length p) k)"
    using starts_with_split[OF assms(2)] p(1) by simp
  ultimately show ?thesis by (metis p(3) append_less_cancel Cons_less_Cons)
qed

lemma starts_with_take: "starts_with s p \<Longrightarrow> starts_with k p \<Longrightarrow> n \<le> length p \<Longrightarrow> starts_with k (take n s)"
  unfolding starts_with_def by (metis take_take length_take min.absorb1 min.absorb2 nat_le_linear take_all)

text \<open>
  What the iteration of the store relies on when the column family has a prefix extractor of a size: a
  forward iteration stays in the section of its prefix, a reverse one over a prefix has a next prefix, from
  which it starts in total order, and no iteration covers the whole column or goes backward from a start
  key within a prefix.
\<close>

definition relied_on :: "nat option \<Rightarrow> bytes option \<Rightarrow> bytes option \<Rightarrow> iter_direction \<Rightarrow> bool" where
  "relied_on extracted prefix start d =
     (case extracted of
        None \<Rightarrow> True
      | Some n \<Rightarrow>
          (case (prefix, start) of
             (None, None) \<Rightarrow> False
           | (None, Some s) \<Rightarrow> True
           | (Some p, None) \<Rightarrow> (if d = Forward then n \<le> length p else next_prefix p \<noteq> None)
           | (Some p, Some s) \<Rightarrow> d = Forward \<and> n \<le> length p))"

text \<open>No key lies behind the section of the prefix and up to the key that \<open>next_prefix\<close> computes.\<close>

definition next_prefix_clean :: "bytes \<Rightarrow> bytes list \<Rightarrow> bool" where
  "next_prefix_clean p keys =
     (case next_prefix p of
        None \<Rightarrow> True
      | Some np \<Rightarrow> \<forall>k\<in>set keys. p \<le> k \<and> k \<le> np \<longrightarrow> starts_with k p)"

lemma behind_prefix: "p \<le> k \<Longrightarrow> \<not> starts_with k p \<Longrightarrow> starts_with k' p \<Longrightarrow> k' < (k :: bytes)"
  using starts_with_between[of k' p k] by (meson not_le)

lemma takeWhile_reverse:
  assumes "bt_ok t"
  shows "takeWhile (\<lambda>(k, _). starts_with k p)
      (case next_prefix p of Some np \<Rightarrow> rev (bt_upto np t) | None \<Rightarrow> rev t) =
    (if next_prefix_clean p (map fst t) then rev (filter (\<lambda>e. starts_with (fst e) p) t) else [])"
proof -
  define u where "u = (case next_prefix p of Some np \<Rightarrow> bt_upto np t | None \<Rightarrow> t)"
  have u: "(case next_prefix p of Some np \<Rightarrow> rev (bt_upto np t) | None \<Rightarrow> rev t) = rev u"
    by (simp add: u_def split: option.splits)
  have "bt_ok u" using assms(1) by (simp add: u_def bt_upto_def split: option.splits)
  then have desc: "sorted_wrt (\<lambda>x y. fst y < fst x) (rev u)"
    by (simp add: sorted_wrt_rev bt_ok_sorted_wrt)
  show ?thesis
  proof (cases "next_prefix_clean p (map fst t)")
    case True
    have pre: "starts_with (fst x) p" if "x \<in> set u" "p \<le> fst x" for x
      using that True next_prefix_None all_max_prefix[of p "fst x"]
      by (auto simp: u_def bt_upto_def next_prefix_clean_def split: option.splits)
    have "sorted_wrt (\<lambda>x y. (\<lambda>(k, _). starts_with k p) y \<longrightarrow> (\<lambda>(k, _). starts_with k p) x) (rev u)"
      using desc
    proof (rule sorted_wrt_mono_rel[rotated])
      fix x y assume "x \<in> set (rev u)" "fst y < fst x"
      then show "(\<lambda>(k, _). starts_with k p) y \<longrightarrow> (\<lambda>(k, _). starts_with k p) x"
        using pre[of x] starts_with_ge[of "fst y" p] by (auto simp: case_prod_unfold dest: order.trans)
    qed
    from takeWhile_filter_sorted[OF this]
    have "takeWhile (\<lambda>(k, _). starts_with k p) (rev u) = rev (filter (\<lambda>e. starts_with (fst e) p) u)"
      by (simp add: case_prod_unfold rev_filter)
    moreover have "filter (\<lambda>e. starts_with (fst e) p) u = filter (\<lambda>e. starts_with (fst e) p) t"
    proof (cases "next_prefix p")
      case (Some np)
      then have "fst e \<le> np \<and> starts_with (fst e) p \<longleftrightarrow> starts_with (fst e) p" for e :: "bytes \<times> 'a"
        using next_prefix_less[OF Some, of "fst e"] by auto
      with Some show ?thesis by (simp add: u_def bt_upto_def)
    qed (simp add: u_def)
    ultimately show ?thesis using True by (simp add: u)
  next
    case False
    then obtain x where x: "x \<in> set u" "p \<le> fst x" "\<not> starts_with (fst x) p"
      by (auto simp: next_prefix_clean_def u_def bt_upto_def split: option.splits)
    obtain y ys where y: "rev u = y # ys" using x(1) by (cases "rev u") auto
    have "\<not> starts_with (fst y) p"
    proof
      assume "starts_with (fst y) p"
      from behind_prefix[OF x(2,3) this] have "fst y < fst x" .
      moreover have "fst x \<le> fst y" using x(1) y desc by (metis set_rev set_ConsD sorted_wrt.simps(2) less_imp_le order_refl)
      ultimately show False by simp
    qed
    with False y show ?thesis by (simp add: u case_prod_unfold)
  qed
qed

context rocksdb_ordered
begin

lemma prefix_items:
  assumes "case cf_prefix R c of None \<Rightarrow> True | Some n \<Rightarrow> d = Forward \<and> n \<le> length p" "starts_with start p"
  shows "takeWhile (item_in_prefix p) (iterator_cf R db c opts (From_key start d)) =
    map Inr (takeWhile (\<lambda>(k, _). starts_with k p) (mode_items (From_key start d) (tbl db c)))"
proof (cases "cf_prefix R c")
  case None
  then show ?thesis by (simp add: iter_plain_law takeWhile_item_in_prefix)
next
  case (Some n)
  then have n: "d = Forward" "n \<le> length p" "n \<le> length start"
    using assms starts_with_split[OF assms(2)] by (auto dest: arg_cong[of _ _ length])
  have "item_in_prefix (take n start) x" if "item_in_prefix p x" for x
    using that starts_with_take[OF assms(2) _ n(2)] by (auto simp: item_in_prefix_def split: sum.splits)
  from takeWhile_weaken[OF iter_section_law[OF Some n(3), of db opts] this] n(1)
  show ?thesis by (simp add: takeWhile_item_in_prefix mode_items_def)
qed

lemma reverse_prefix_items:
  assumes "relied_on (cf_prefix R c) (Some p) None Reverse"
  shows "rocks_iter_store R db c (Some p) None Reverse =
    (if next_prefix_clean p (map fst (tbl db c))
     then map Inr (rev (filter (\<lambda>e. starts_with (fst e) p) (tbl db c))) else [])"
proof -
  have "rocks_iter_store R db c (Some p) None Reverse = map Inr (takeWhile (\<lambda>(k, _). starts_with k p)
      (case next_prefix p of Some np \<Rightarrow> rev (bt_upto np (tbl db c)) | None \<Rightarrow> rev (tbl db c)))"
    using assms by (auto simp: reverse_prefix_iter_def iter_total_law iter_plain_law mode_items_def relied_on_def
        takeWhile_item_in_prefix split: option.splits)
  then show ?thesis by (simp add: takeWhile_reverse[OF tbl_ok])
qed

lemma iter_store_agrees:
  assumes "start_has_prefix prefix start" "relied_on (cf_prefix R c) prefix start d"
    and "\<And>p. prefix = Some p \<Longrightarrow> start = None \<Longrightarrow> d = Reverse \<Longrightarrow>
      next_prefix_clean p (map fst (tbl db c))"
  shows "rocks_iter_store R db c prefix start d = map Inr (iterator (tbl db c) prefix start d)"
proof (cases prefix; cases start)
  fix p assume [simp]: "prefix = Some p" "start = None"
  show ?thesis
  proof (cases d)
    case Forward
    then show ?thesis
      using prefix_items[where c = c and d = Forward and p = p and start = p and opts = Prefix_same_as_start] assms(2)
      by (simp add: relied_on_def mode_items_def split: option.splits)
  next
    case Reverse
    then show ?thesis
      using reverse_prefix_items[of c p db] assms(2,3) iterator_selects[OF tbl_ok assms(1), of db c d]
      by (simp add: selected_def in_direction_def)
  qed
next
  fix p s assume [simp]: "prefix = Some p" "start = Some s"
  have "starts_with s p" using assms(1) by (simp add: start_has_prefix_def)
  then show ?thesis
    using prefix_items[where c = c and d = d and p = p and start = s and opts = Default_options] assms(2)
    by (cases d) (auto simp: relied_on_def mode_items_def split: option.splits)
qed (cases d; use assms(2) in \<open>simp add: relied_on_def iter_plain_law iter_total_law mode_items_def split: option.splits\<close>)+

end

lemma next_prefix_last:
  "checked_add b 1 = Some b' \<Longrightarrow> next_prefix (q @ [b]) = Some (q @ [b'])"
  by (simp add: next_prefix_def)

lemma next_prefix_skip:
  assumes "checked_add b 1 = Some b'"
  shows "next_prefix (q @ b # replicate n 255) = Some (q @ b' # replicate n 255)"
proof -
  have "next_prefix_rev (replicate n 255 @ r) behind = next_prefix_rev r (replicate n 255 @ behind)" for r behind
    by (induction n arbitrary: behind) (simp_all add: checked_add_def replicate_app_Cons_same)
  with assms show ?thesis by (simp add: next_prefix_def)
qed

lemma between_prefixes:
  assumes "unat b + 1 < 2 ^ 8" "q @ [b] \<le> k" "k \<le> q @ [b + 1]"
  shows "starts_with k (q @ [b :: u8]) \<or> k = q @ [b + 1]"
  using assms(2,3)
proof (induction q arbitrary: k)
  case Nil
  then obtain x xs where k: "k = x # xs" by (cases k) auto
  have "x = b" if "b \<le> x" "x < b + 1"
    using that assms(1)
    by (simp add: word_le_nat_alt word_less_nat_alt unat_word_ariths word_unat_eq_iff)
  then show ?case using Nil by (auto simp: k less_imp_le)
next
  case (Cons a q)
  then show ?case by (cases k) auto
qed

lemma next_prefix_clean_long_keys:
  assumes "p \<noteq> [] \<Longrightarrow> last p \<noteq> 255" "\<And>k. k \<in> set keys \<Longrightarrow> length p < length k"
  shows "next_prefix_clean p keys"
proof (cases p rule: rev_cases)
  case Nil
  then show ?thesis by (simp add: next_prefix_clean_def next_prefix_def)
next
  case (snoc q b)
  have b: "unat b + 1 < 2 ^ 8"
  proof -
    have "b \<noteq> 255" using assms(1) snoc by simp
    then have "unat b \<noteq> unat (255 :: u8)" by (simp only: word_unat_eq_iff) simp
    then show ?thesis using unat_less_pow[of b] by simp
  qed
  have "next_prefix p = Some (q @ [b + 1])"
    using b by (simp add: snoc next_prefix_last checked_add_def)
  moreover have "starts_with k p" if k: "k \<in> set keys" "p \<le> k" "k \<le> q @ [b + 1]" for k
    using between_prefixes[OF b, of q k] k assms(2)[OF k(1)] snoc by auto
  ultimately show ?thesis by (simp add: next_prefix_clean_def)
qed

section \<open>A reference implementation\<close>

typedef ordered_table = "{t :: (bytes, bytes) btree. bt_ok t}" morphisms entries Ordered
  by (intro exI[of _ "[]"]) simp

setup_lifting type_definition_ordered_table

lift_definition empty_table :: ordered_table is "[]" by simp

lift_definition table_apply :: "batch_entry \<Rightarrow> u32 \<Rightarrow> ordered_table \<Rightarrow> ordered_table" is apply_entry
  by (rule apply_entry_ok)

lemma entries_ok [simp]: "bt_ok (entries t)"
  using entries[of t] by simp

text \<open>The prefixes of the on-chain columns: \<open>ContractsState\<close> is column 2, \<open>ContractsAssets\<close> column 4.\<close>

definition on_chain_prefix :: "u32 \<Rightarrow> nat option" where
  "on_chain_prefix c = (if c = 4 \<or> c = 2 then Some 32 else None)"

text \<open>Without a total order, the iterators yield the section of the start key only, and nothing backward.\<close>

definition reference_rocksdb :: "(u32 \<Rightarrow> nat option) \<Rightarrow> (u32 \<Rightarrow> ordered_table) rocksdb_api" where
  "reference_rocksdb sizes =
     \<lparr>cf_prefix = sizes,
      get_cf = (\<lambda>db c k. Inr (map_of (entries (db c)) k)),
      iterator_cf = (\<lambda>db c opts mode. map Inr
        (case sizes c of
           None \<Rightarrow> mode_items mode (entries (db c))
         | Some n \<Rightarrow>
             if opts = Total_order_seek then mode_items mode (entries (db c))
             else (case mode of
                 From_key k Forward \<Rightarrow> takeWhile (\<lambda>(k', _). starts_with k' (take n k)) (bt_from k (entries (db c)))
               | _ \<Rightarrow> []))),
      write_db = (\<lambda>db batch. (\<lambda>c. fold (\<lambda>e. table_apply e c) batch (db c), Inr ())),
      drop_cf = (\<lambda>db c. (db(c := empty_table), Inr ())),
      create_cf = (\<lambda>db c. (db, Inr ()))\<rparr>"

definition reference_table :: "(u32 \<Rightarrow> ordered_table) \<Rightarrow> u32 \<Rightarrow> (bytes, bytes) btree" where
  "reference_table db c = entries (db c)"

lemma entries_fold_apply:
  "entries (fold (\<lambda>e. table_apply e c) batch t) = apply_batch batch c (entries t)"
  by (induction batch arbitrary: t) (simp_all add: table_apply.rep_eq)

interpretation reference: rocksdb_ordered "reference_rocksdb sizes" reference_table for sizes
  by unfold_locales
    (auto simp: reference_rocksdb_def reference_table_def mode_items_def entries_fold_apply
      takeWhile_item_in_prefix empty_table.rep_eq split: option.splits)

abbreviation on_chain_rocksdb :: "(u32 \<Rightarrow> ordered_table) rocksdb_api" where
  "on_chain_rocksdb \<equiv> reference_rocksdb on_chain_prefix"

section \<open>Properties\<close>

text \<open>
  C12. The commit of the persistent store refines the commit of the in-memory database.  When it
  succeeds, the tables are those of an in-memory database after the same commit; a conflict that
  the in-memory database reports is reported here with the same error; and, unlike there, a commit
  that does not succeed leaves every table as it was.
\<close>

theorem rocks_commit_refines_memory:
  assumes "rocksdb_ordered R tbl" "rocks_commit_changes R db sc = (db', r)"
  shows "(r = Inr () \<longrightarrow>
      memory_commit_changes (memory_of (tbl db)) sc = (memory_of (tbl db'), Inr ())) \<and>
    (r \<noteq> Inr () \<longrightarrow> tbl db' = tbl db) \<and>
    (\<forall>s e. memory_commit_changes (memory_of (tbl db)) sc = (s, Inl e) \<longrightarrow> r = Inl e)"
  using rocksdb_ordered.commit_refines[OF assms(1,2)] by blast

definition sample_db :: "u32 \<Rightarrow> ordered_table" where
  "sample_db c = (if c = 0 then Ordered [([1, 255, 0], [5]), ([2, 0, 0], [6])] else empty_table)"

lemma sample_db_table: "entries (sample_db 0) = [([1, 255, 0], [5]), ([2, 0, 0], [6])]"
proof -
  have "bt_ok [([1, 255, 0] :: bytes, [5] :: bytes), ([2, 0, 0], [6])]" by (simp add: bt_ok_def)
  then show ?thesis by (simp add: sample_db_def Ordered_inverse)
qed

theorem rocks_commit_refines_memory_witness:
  "rocksdb_ordered on_chain_rocksdb reference_table \<and>
   (let ch = [(0, [([2, 0, 0], Remove)])] in
    memory_commit_changes (memory_of (reference_table sample_db)) (Changes ch) =
      (memory_of (reference_table (fst (rocks_commit_changes on_chain_rocksdb sample_db (Changes ch)))),
       Inr ()) \<and>
    reference_table (fst (rocks_commit_changes on_chain_rocksdb sample_db (ChangesList [ch, ch]))) =
      reference_table sample_db)"
proof -
  have R: "rocksdb_ordered on_chain_rocksdb reference_table"
    by (rule reference.rocksdb_ordered_axioms)
  let ?ch = "[(0, [([2, 0, 0], Remove)])] :: changes"
  have 1: "snd (rocks_commit_changes on_chain_rocksdb sample_db (Changes ?ch)) = Inr ()"
    by (simp add: rocks_commit_changes_def reference_rocksdb_def)
  have 2: "snd (rocks_commit_changes on_chain_rocksdb sample_db (ChangesList [?ch, ?ch])) \<noteq> Inr ()"
    by (simp add: rocks_commit_changes_def)
  note main = rocks_commit_refines_memory[OF R surjective_pairing]
  show ?thesis
    using R main[of sample_db "Changes ?ch"] main[of sample_db "ChangesList [?ch, ?ch]"]
    unfolding Let_def by (simp only: 1 2 simp_thms)
qed

text \<open>
  C30. Iteration over the persistent store yields what iteration over an in-memory table with the
  same entries yields, for every prefix, start key and direction in which a start key has the prefix, under
  these conditions.  For the reverse iteration over a prefix, the prefix does not end in the byte 255 and is
  shorter than the keys of the column.  On a column with a prefix extractor, the iteration stays in one
  section: it has a prefix at least as long as the extracted one and goes forward, or it starts in total
  order, behind a prefix or at a start key without a prefix.
\<close>

theorem rocks_iteration_agrees:
  assumes "rocksdb_ordered R tbl" "start_has_prefix prefix start" "relied_on (cf_prefix R c) prefix start d"
    and "\<And>p. prefix = Some p \<Longrightarrow> start = None \<Longrightarrow> d = Reverse \<Longrightarrow>
      (p \<noteq> [] \<longrightarrow> last p \<noteq> 255) \<and> (\<forall>k\<in>set (map fst (tbl db c)). length p < length k)"
  shows "rocks_iter_store R db c prefix start d = map Inr (iterator (tbl db c) prefix start d)"
proof (rule rocksdb_ordered.iter_store_agrees[OF assms(1-3)])
  fix p assume "prefix = Some p" "start = None" "d = Reverse"
  from assms(4)[OF this] show "next_prefix_clean p (map fst (tbl db c))"
    by (intro next_prefix_clean_long_keys) auto
qed

definition contract_db :: "u32 \<Rightarrow> ordered_table" where
  "contract_db c = (if c = 2 then Ordered [(replicate 32 1 @ [9], [5]), (replicate 32 2 @ [0], [6])] else empty_table)"

lemma contract_db_table: "entries (contract_db 2) = [(replicate 32 1 @ [9], [5]), (replicate 32 2 @ [0], [6])]"
proof -
  have "bt_ok [(replicate 32 1 @ [9] :: bytes, [5] :: bytes), (replicate 32 2 @ [0], [6])]"
    by (simp add: bt_ok_def numeral_eq_Suc)
  then show ?thesis by (simp add: contract_db_def Ordered_inverse)
qed

theorem rocks_iteration_agrees_witness:
  "rocksdb_ordered on_chain_rocksdb reference_table \<and> cf_prefix on_chain_rocksdb 2 = Some 32
   \<and> rocks_iter_store on_chain_rocksdb contract_db 2 (Some (replicate 32 1)) None Reverse = [Inr (replicate 32 1 @ [9], [5])]"
proof -
  let ?p = "replicate 32 1 :: bytes"
  have R: "rocksdb_ordered on_chain_rocksdb reference_table"
    by (rule reference.rocksdb_ordered_axioms)
  have size: "cf_prefix on_chain_rocksdb 2 = Some 32" by (simp add: reference_rocksdb_def on_chain_prefix_def)
  have s: "start_has_prefix (Some ?p) None" by (simp add: start_has_prefix_def)
  have "relied_on (cf_prefix on_chain_rocksdb 2) (Some ?p) None Reverse"
    by (simp add: relied_on_def next_prefix_def size checked_add_def numeral_eq_Suc)
  with R s have "rocks_iter_store on_chain_rocksdb contract_db 2 (Some ?p) None Reverse =
      map Inr (iterator (reference_table contract_db 2) (Some ?p) None Reverse)"
    by (rule rocks_iteration_agrees) (auto simp: reference_table_def contract_db_table)
  also have "\<dots> = [Inr (?p @ [9], [5])]"
    by (simp add: reference_table_def contract_db_table bt_from_def numeral_eq_Suc)
  finally show ?thesis using R size by blast
qed

text \<open>
  C34. The reverse iteration over a prefix yields all entries of the prefix, or none at all.  It yields
  none as soon as the column has a key behind the section of the prefix and up to the key that \<open>next_prefix\<close>
  computes.  Such keys exist for a prefix that ends in the byte 255, because \<open>next_prefix\<close> adds one to the
  last byte that can be increased and keeps the bytes 255 behind it: every key that starts with the
  increased bytes and goes on with a smaller byte lies in between.
\<close>

theorem reverse_prefix_iteration_all_or_none:
  assumes "rocksdb_ordered R tbl" "relied_on (cf_prefix R c) (Some p) None Reverse"
  shows "rocks_iter_store R db c (Some p) None Reverse =
      (if next_prefix_clean p (map fst (tbl db c))
       then map Inr (rev (filter (\<lambda>e. starts_with (fst e) p) (tbl db c))) else [])
    \<and> (\<forall>q b n x k. p = q @ b # replicate (Suc n) 255 \<and> b < 255 \<and> x < 255 \<and> q @ (b + 1) # x # k \<in> fst ` set (tbl db c) \<longrightarrow>
        \<not> next_prefix_clean p (map fst (tbl db c)))"
proof (intro conjI allI impI)
  show "rocks_iter_store R db c (Some p) None Reverse =
      (if next_prefix_clean p (map fst (tbl db c))
       then map Inr (rev (filter (\<lambda>e. starts_with (fst e) p) (tbl db c))) else [])"
    by (rule rocksdb_ordered.reverse_prefix_items[OF assms])
  fix q b n x k
  assume a: "p = q @ b # replicate (Suc n) 255 \<and> b < 255 \<and> x < 255 \<and> q @ (b + 1) # x # k \<in> fst ` set (tbl db c)"
  have b: "b < b + 1" "\<not> b + 1 \<le> b" "checked_add b 1 = Some (b + 1)"
    using a by (auto simp: word_less_nat_alt word_le_nat_alt unat_word_ariths checked_add_def)
  have "next_prefix p = Some (q @ (b + 1) # replicate (Suc n) 255)"
    using a next_prefix_skip[OF b(3)] by blast
  moreover have "p \<le> q @ (b + 1) # x # k" "q @ (b + 1) # x # k \<le> q @ (b + 1) # replicate (Suc n) 255"
    "\<not> starts_with (q @ (b + 1) # x # k) p"
    using a b by (auto simp: append_le_cancel starts_with_append)
  ultimately show "\<not> next_prefix_clean p (map fst (tbl db c))"
    using a by (simp add: next_prefix_clean_def) force
qed

theorem reverse_prefix_iteration_all_or_none_witness:
  "rocks_iter_store on_chain_rocksdb sample_db 0 (Some [1]) None Reverse = [Inr ([1, 255, 0], [5])]
   \<and> rocks_iter_store on_chain_rocksdb sample_db 0 (Some [1, 255]) None Reverse = []"
proof -
  have R: "rocksdb_ordered on_chain_rocksdb reference_table" by (rule reference.rocksdb_ordered_axioms)
  have r: "relied_on (cf_prefix on_chain_rocksdb 0) (Some p) None Reverse" for p
    by (simp add: relied_on_def reference_rocksdb_def on_chain_prefix_def)
  have t: "reference_table sample_db 0 = [([1, 255, 0], [5]), ([2, 0, 0], [6])]"
    by (simp add: reference_table_def sample_db_table)
  have "next_prefix_clean [1] (map fst (reference_table sample_db 0))"
    by (simp add: t next_prefix_clean_def next_prefix_def checked_add_def)
  moreover have "\<not> next_prefix_clean [1, 255] (map fst (reference_table sample_db 0))"
    using reverse_prefix_iteration_all_or_none[OF R r[of "[1, 255]"], of sample_db] t
    by (fastforce dest: spec[of _ "[]"] spec[of _ 1] spec[of _ 0])
  ultimately show ?thesis
    using reverse_prefix_iteration_all_or_none[OF R r[of "[1]"], of sample_db]
      reverse_prefix_iteration_all_or_none[OF R r[of "[1, 255]"], of sample_db]
    by (simp add: t)
qed

end
