(* ===== verification/Historical_Db.thy ===== *)
theory Historical_Db
  imports Rocks_Db "HOL-Library.Countable"
begin

text \<open>
  The database with history, \<open>crates/fuel-core/src/state/historical_rocksdb.rs\<close> with
  \<open>description.rs\<close>, \<open>modifications_history.rs\<close> and \<open>view_at_height.rs\<close>: every commit at a height also
  stores the changes that undo it, so that a block can be rolled back and old states can be read.

  The library \<open>rocksdb\<close> is the argument \<open>R\<close>, as in \<open>Rocks_Db\<close>.  The serialisation by \<open>postcard\<close> is
  the argument \<open>C\<close>, with the round trips that the code relies on in the locale \<open>history_codec_laws\<close>.
  The views that the code creates from snapshots are values, since a snapshot is immutable.
\<close>

section \<open>Codec and heights\<close>

record history_codec =
  serialize_op :: "write_operation \<Rightarrow> bytes storage_result"
  deserialize_op :: "bytes \<Rightarrow> write_operation storage_result"
  encode_changes :: "changes \<Rightarrow> bytes"
  decode_changes :: "bytes \<Rightarrow> changes storage_result"
  encode_v1_key :: "u64 \<Rightarrow> bytes"

definition to_be_bytes :: "u64 \<Rightarrow> bytes" where
  "to_be_bytes h = word_bytes h"

definition height_key :: "bytes \<Rightarrow> u64 \<Rightarrow> bytes" where
  "height_key key height = key @ to_be_bytes height"

section \<open>description.rs\<close>

definition HISTORY_COLUMN_ID :: u32 where
  "HISTORY_COLUMN_ID = u_max div 2"

definition HISTORY_V2_COLUMN_ID :: u32 where
  "HISTORY_V2_COLUMN_ID = HISTORY_COLUMN_ID + 1"

definition historical_duplicate_column_id :: "u32 \<Rightarrow> u32" where
  "historical_duplicate_column_id column = sat_sub (sat_sub HISTORY_COLUMN_ID 1) column"

section \<open>historical_rocksdb.rs\<close>

datatype state_rewind_policy = NoRewind | RewindFullRange | RewindRange u64

record 'db historical_rocksdb =
  state_rewind_policy :: state_rewind_policy
  db :: 'db
  has_v1_history :: bool

datatype history_error = Storage storage_error | NoHistoryForRequestedHeight u64 | NotFound

type_synonym 'a history_result = "(history_error, 'a) result"

fun lift_result :: "'a storage_result \<Rightarrow> 'a history_result" where
  "lift_result (Inl e) = Inl (Storage e)"
| "lift_result (Inr a) = Inr a"

text \<open>\<open>reverse_history_changes\<close>: the loop over the entries of a column and the loop over columns.\<close>

fun reverse_entries :: "bytes option list \<Rightarrow> (bytes \<times> write_operation) list \<Rightarrow> op_tree \<Rightarrow> op_tree" where
  "reverse_entries (was # ws) ((key, became) # es) entry =
     reverse_entries ws es
       (case (was, became) of
          (None, Remove) \<Rightarrow> entry
        | (None, Insert _) \<Rightarrow> bt_insert key Remove entry
        | (Some old_value, Remove) \<Rightarrow> bt_insert key (Insert old_value) entry
        | (Some old_value, Insert new_value) \<Rightarrow>
            if old_value \<noteq> new_value then bt_insert key (Insert old_value) entry else entry)"
| "reverse_entries _ _ entry = entry"

fun reverse_columns ::
    "'db rocksdb_api \<Rightarrow> 'db \<Rightarrow> changes \<Rightarrow> changes \<Rightarrow> changes storage_result" where
  "reverse_columns R d [] reverse_changes = Inr reverse_changes"
| "reverse_columns R d ((column, column_changes) # rest) reverse_changes =
     (case multi_get R d column (map fst column_changes) of
        Inl e \<Rightarrow> Inl e
      | Inr results \<Rightarrow>
          reverse_columns R d rest
            (hm_insert column
              (reverse_entries results column_changes (hm_get_or column [] reverse_changes))
              reverse_changes))"

definition reverse_history_changes ::
    "'db rocksdb_api \<Rightarrow> 'db historical_rocksdb \<Rightarrow> changes \<Rightarrow> changes storage_result" where
  "reverse_history_changes R H ch = reverse_columns R (db H) ch []"

text \<open>
  The tables \<open>ModificationsHistoryV1\<close> and \<open>ModificationsHistoryV2\<close> use the plain blueprint: the key
  and the value are encoded and written to the column of the table.
\<close>

fun decode_old :: "history_codec \<Rightarrow> bytes option storage_result \<Rightarrow> changes option storage_result" where
  "decode_old C (Inl e) = Inl e"
| "decode_old C (Inr None) = Inr None"
| "decode_old C (Inr (Some val)) =
     (case decode_changes C val of Inl e \<Rightarrow> Inl e | Inr ch \<Rightarrow> Inr (Some ch))"

definition history_v2_replace ::
    "'db rocksdb_api \<Rightarrow> history_codec \<Rightarrow> 'db in_memory_transaction \<Rightarrow> u64 \<Rightarrow> changes
     \<Rightarrow> 'db in_memory_transaction \<times> changes option storage_result" where
  "history_v2_replace R C tx height ch =
     (case tx_replace (rocks_kv R) tx (to_be_bytes height) HISTORY_V2_COLUMN_ID (encode_changes C ch) of
        (tx', r) \<Rightarrow> (tx', decode_old C r))"

definition history_v2_take ::
    "'db rocksdb_api \<Rightarrow> history_codec \<Rightarrow> 'db in_memory_transaction \<Rightarrow> u64
     \<Rightarrow> 'db in_memory_transaction \<times> changes option storage_result" where
  "history_v2_take R C tx height =
     (case tx_take (rocks_kv R) tx (to_be_bytes height) HISTORY_V2_COLUMN_ID of
        (tx', r) \<Rightarrow> (tx', decode_old C r))"

definition history_v1_take ::
    "'db rocksdb_api \<Rightarrow> history_codec \<Rightarrow> 'db in_memory_transaction \<Rightarrow> u64
     \<Rightarrow> 'db in_memory_transaction \<times> changes option storage_result" where
  "history_v1_take R C tx height =
     (case tx_take (rocks_kv R) tx (encode_v1_key C height) HISTORY_COLUMN_ID of
        (tx', r) \<Rightarrow> (tx', decode_old C r))"

definition multiversion_contains ::
    "'db rocksdb_api \<Rightarrow> history_codec \<Rightarrow> 'db in_memory_transaction \<Rightarrow> u64 \<Rightarrow> bool \<Rightarrow> bool storage_result" where
  "multiversion_contains R C tx height has_v1 =
     (case tx_exists (rocks_kv R) tx (to_be_bytes height) HISTORY_V2_COLUMN_ID of
        Inl e \<Rightarrow> Inl e
      | Inr contains_v2 \<Rightarrow>
          if \<not> contains_v2 \<and> has_v1
          then tx_exists (rocks_kv R) tx (encode_v1_key C height) HISTORY_COLUMN_ID
          else Inr contains_v2)"

definition multiversion_take ::
    "'db rocksdb_api \<Rightarrow> history_codec \<Rightarrow> 'db in_memory_transaction \<Rightarrow> u64 \<Rightarrow> bool
     \<Rightarrow> 'db in_memory_transaction \<times> changes option storage_result" where
  "multiversion_take R C tx height has_v1 =
     (case history_v2_take R C tx height of
        (tx', Inl e) \<Rightarrow> (tx', Inl e)
      | (tx', Inr v2_last_changes) \<Rightarrow>
          if v2_last_changes = None \<and> has_v1 then history_v1_take R C tx' height
          else (tx', Inr v2_last_changes))"

text \<open>\<open>remove_historical_modifications\<close>\<close>

definition removals :: "u64 \<Rightarrow> changes \<Rightarrow> changes" where
  "removals old_height reverse_changes =
     fold (\<lambda>(column, column_changes).
         hm_insert (historical_duplicate_column_id column)
           (fold (\<lambda>(key, _). bt_insert (height_key key old_height) Remove) column_changes []))
       reverse_changes []"

definition remove_historical_modifications ::
    "u64 \<Rightarrow> 'db in_memory_transaction \<Rightarrow> changes \<Rightarrow> 'db in_memory_transaction \<times> unit storage_result" where
  "remove_historical_modifications old_height tx reverse_changes =
     tx_commit tx_commit_changes (transaction tx Overwrite (removals old_height reverse_changes))"

text \<open>
  \<open>remove_v1_entries\<close> clears the table of the old history directly in the database, to which the
  transaction holds a reference.
\<close>

definition remove_v1_entries ::
    "'db rocksdb_api \<Rightarrow> 'db historical_rocksdb \<Rightarrow> 'db historical_rocksdb \<times> unit storage_result" where
  "remove_v1_entries R H =
     (if \<not> has_v1_history H then (H, Inr ())
      else (case clear_table R (db H) HISTORY_COLUMN_ID of
              (d', Inl e) \<Rightarrow> (H\<lparr>db := d'\<rparr>, Inl e)
            | (d', Inr _) \<Rightarrow> (H\<lparr>db := d', has_v1_history := False\<rparr>, Inr ())))"

definition cleanup_old_changes ::
    "'db rocksdb_api \<Rightarrow> history_codec \<Rightarrow> 'db historical_rocksdb \<Rightarrow> u64 \<Rightarrow> 'db in_memory_transaction
     \<Rightarrow> 'db historical_rocksdb \<times> 'db in_memory_transaction \<times> unit storage_result" where
  "cleanup_old_changes R C H height tx =
     (case state_rewind_policy H of
        NoRewind \<Rightarrow> (H, tx, Inr ())
      | RewindFullRange \<Rightarrow> (H, tx, Inr ())
      | RewindRange sz \<Rightarrow>
          let old_height = sat_sub height sz in
          (case history_v2_take R C tx old_height of
             (tx1, Inl e) \<Rightarrow> (H, tx1, Inl e)
           | (tx1, Inr None) \<Rightarrow> (H, tx1, Inr ())
           | (tx1, Inr (Some old_changes)) \<Rightarrow>
               (case remove_historical_modifications old_height tx1 old_changes of
                  (tx2, Inl e) \<Rightarrow> (H, tx2, Inl e)
                | (tx2, Inr _) \<Rightarrow>
                    (case remove_v1_entries R H of
                       (H', r) \<Rightarrow> (H', tx2\<lparr>storage := db H'\<rparr>, r)))))"

text \<open>The changes of the duplicate columns: the reverse operations under keys with the height.\<close>

fun historical_entries ::
    "history_codec \<Rightarrow> u64 \<Rightarrow> (bytes \<times> write_operation) list \<Rightarrow> op_tree \<Rightarrow> op_tree storage_result" where
  "historical_entries C height [] acc = Inr acc"
| "historical_entries C height ((key, reverse_operation) # es) acc =
     (case serialize_op C reverse_operation of
        Inl e \<Rightarrow> Inl e
      | Inr val \<Rightarrow> historical_entries C height es (bt_insert (height_key key height) (Insert val) acc))"

fun historical_changes :: "history_codec \<Rightarrow> u64 \<Rightarrow> changes \<Rightarrow> changes \<Rightarrow> changes storage_result" where
  "historical_changes C height [] acc = Inr acc"
| "historical_changes C height ((column, reverse_column_changes) # rest) acc =
     (case historical_entries C height reverse_column_changes [] of
        Inl e \<Rightarrow> Inl e
      | Inr t \<Rightarrow>
          historical_changes C height rest (hm_insert (historical_duplicate_column_id column) t acc))"

definition store_modifications_history ::
    "'db rocksdb_api \<Rightarrow> history_codec \<Rightarrow> 'db historical_rocksdb \<Rightarrow> 'db in_memory_transaction \<Rightarrow> u64
     \<Rightarrow> 'db historical_rocksdb \<times> 'db in_memory_transaction \<times> unit storage_result" where
  "store_modifications_history R C H tx height =
     (if state_rewind_policy H = NoRewind then (H, tx, Inr ())
      else
        case reverse_history_changes R H (changes tx) of
          Inl e \<Rightarrow> (H, tx, Inl e)
        | Inr reverse_changes \<Rightarrow>
            (case cleanup_old_changes R C H height tx of
               (H1, tx1, Inl e) \<Rightarrow> (H1, tx1, Inl e)
             | (H1, tx1, Inr _) \<Rightarrow>
                 (case history_v2_replace R C tx1 height reverse_changes of
                    (tx2, Inl e) \<Rightarrow> (H1, tx2, Inl e)
                  | (tx2, Inr old_changes) \<Rightarrow>
                      (case (case old_changes of
                               None \<Rightarrow> (tx2, Inr ())
                             | Some old \<Rightarrow> remove_historical_modifications height tx2 old) of
                         (tx3, Inl e) \<Rightarrow> (H1, tx3, Inl e)
                       | (tx3, Inr _) \<Rightarrow>
                           (case historical_changes C height reverse_changes [] of
                              Inl e \<Rightarrow> (H1, tx3, Inl e)
                            | Inr hist \<Rightarrow>
                                (case tx_commit tx_commit_changes (transaction tx3 Overwrite hist) of
                                   (tx4, r) \<Rightarrow> (H1, tx4, r)))))))"

text \<open>
  \<open>commit_changes\<close> with a height.  A list of changes is flattened into one map from columns to
  trees by collecting the pairs of column and tree.
\<close>

definition flatten_collect :: "changes list \<Rightarrow> changes" where
  "flatten_collect chs = fold (\<lambda>(column, t). hm_insert column t) (concat chs) []"

definition historical_commit_changes ::
    "'db rocksdb_api \<Rightarrow> history_codec \<Rightarrow> 'db historical_rocksdb \<Rightarrow> u64 option \<Rightarrow> storage_changes
     \<Rightarrow> 'db historical_rocksdb \<times> unit storage_result" where
  "historical_commit_changes R C H height sc =
     (case (case height of
              Some h \<Rightarrow>
                if state_rewind_policy H \<noteq> NoRewind then
                  let all_changes =
                        (case sc of Changes ch \<Rightarrow> ch | ChangesList chs \<Rightarrow> flatten_collect chs) in
                  (case store_modifications_history R C H (transaction (db H) Overwrite all_changes) h of
                     (H', tx, Inl e) \<Rightarrow> (H', Inl e)
                   | (H', tx, Inr _) \<Rightarrow> (H', Inr (Changes (changes tx))))
                else (H, Inr sc)
            | None \<Rightarrow> (H, Inr sc)) of
        (H', Inl e) \<Rightarrow> (H', Inl e)
      | (H', Inr sc') \<Rightarrow>
          (case rocks_commit_changes R (db H') sc' of
             (d, r) \<Rightarrow> (H'\<lparr>db := d\<rparr>, r)))"

definition rollback_block_to ::
    "'db rocksdb_api \<Rightarrow> history_codec \<Rightarrow> 'db historical_rocksdb \<Rightarrow> u64
     \<Rightarrow> 'db historical_rocksdb \<times> unit history_result" where
  "rollback_block_to R C H height_to_rollback =
     (let tx = write_transaction (db H) in
      case multiversion_take R C tx height_to_rollback (has_v1_history H) of
        (_, Inl e) \<Rightarrow> (H, Inl (Storage e))
      | (_, Inr None) \<Rightarrow> (H, Inl NotFound)
      | (tx1, Inr (Some last_changes)) \<Rightarrow>
          (case remove_historical_modifications height_to_rollback tx1 last_changes of
             (_, Inl e) \<Rightarrow> (H, Inl (Storage e))
           | (tx2, Inr _) \<Rightarrow>
               (case tx_commit tx_commit_changes (transaction tx2 Overwrite last_changes) of
                  (_, Inl e) \<Rightarrow> (H, Inl (Storage e))
                | (tx3, Inr _) \<Rightarrow>
                    (case rocks_commit_changes R (db H) (Changes (changes tx3)) of
                       (d, r) \<Rightarrow> (H\<lparr>db := d\<rparr>, lift_result r)))))"

section \<open>view_at_height.rs\<close>

record 'db view_at_height =
  view_height :: u64
  read_db :: 'db

definition create_view_at ::
    "'db rocksdb_api \<Rightarrow> history_codec \<Rightarrow> 'db historical_rocksdb \<Rightarrow> u64 \<Rightarrow> 'db view_at_height history_result" where
  "create_view_at R C H height =
     (let rollback_height = sat_add height 1;
          tx = write_transaction (db H) in
      case multiversion_contains R C tx rollback_height (has_v1_history H) of
        Inl e \<Rightarrow> Inl (Storage e)
      | Inr contains \<Rightarrow>
          (case (if contains then Inr True
                 else multiversion_contains R C tx height (has_v1_history H)) of
             Inl e \<Rightarrow> Inl (Storage e)
           | Inr False \<Rightarrow> Inl (NoHistoryForRequestedHeight height)
           | Inr True \<Rightarrow> Inr \<lparr>view_height = rollback_height, read_db = db H\<rparr>))"

text \<open>
  Reading through a view: the nearest reverse operation at or above the height, or the current
  value.  The slice \<open>found_key[..key.len()]\<close> panics when the found key is shorter.
\<close>

definition view_at_get ::
    "'db rocksdb_api \<Rightarrow> history_codec \<Rightarrow> 'db view_at_height \<Rightarrow> bytes \<Rightarrow> u32 \<Rightarrow> bytes option storage_result" where
  "view_at_get R C v key column =
     (case iterator_cf R (read_db v) (historical_duplicate_column_id column) Total_order_seek
             (From_key (height_key key (view_height v)) Forward) of
        Inl e # _ \<Rightarrow> Inl e
      | Inr (found_key, val) # _ \<Rightarrow>
          if length found_key < length key then Inl (Index_out_of_bounds column)
          else if take (length key) found_key = key then
            (case deserialize_op C val of
               Inl e \<Rightarrow> Inl e
             | Inr (Insert old) \<Rightarrow> Inr (Some old)
             | Inr Remove \<Rightarrow> Inr None)
          else rocks_get R (read_db v) key column
      | [] \<Rightarrow> rocks_get R (read_db v) key column)"

text \<open>The prefixes of the column families of a database with history, over those of the described one.\<close>

definition historical_prefix :: "(u32 \<Rightarrow> nat option) \<Rightarrow> u32 \<Rightarrow> nat option" where
  "historical_prefix described c =
     (if c = HISTORY_COLUMN_ID \<or> c = HISTORY_V2_COLUMN_ID then Some 8
      else if 2 ^ 16 \<le> unat c
        then Some ((case described (historical_duplicate_column_id c) of None \<Rightarrow> 0 | Some n \<Rightarrow> n) + 8)
      else described c)"

section \<open>Columns\<close>

text \<open>
  The columns of the described databases are small enumerations, far below the identifiers of the
  columns that the history adds.
\<close>

definition original_column :: "u32 \<Rightarrow> bool" where
  "original_column c = (unat c < 2 ^ 16)"

definition original_columns :: "changes \<Rightarrow> bool" where
  "original_columns ch = (\<forall>c\<in>fst ` set ch. original_column c)"

lemma unat_history_column: "unat HISTORY_COLUMN_ID = 2 ^ 31 - 1"
  by (simp add: HISTORY_COLUMN_ID_def u_max_def unat_div)

lemma unat_history_v2_column: "unat HISTORY_V2_COLUMN_ID = 2 ^ 31"
  by (simp add: HISTORY_V2_COLUMN_ID_def HISTORY_COLUMN_ID_def u_max_def)

lemma unat_duplicate:
  "original_column c \<Longrightarrow> unat (historical_duplicate_column_id c) + unat c = 2 ^ 31 - 2"
  by (simp add: historical_duplicate_column_id_def sat_simps unat_history_column original_column_def)

lemma history_column_not_original [simp]:
  "\<not> original_column HISTORY_V2_COLUMN_ID" "\<not> original_column HISTORY_COLUMN_ID"
  "HISTORY_V2_COLUMN_ID \<noteq> HISTORY_COLUMN_ID"
  by (simp_all add: original_column_def unat_history_v2_column unat_history_column word_unat_eq_iff)

lemma duplicate_not_original [simp]:
  assumes "original_column c"
  shows "\<not> original_column (historical_duplicate_column_id c)"
    "historical_duplicate_column_id c \<noteq> HISTORY_V2_COLUMN_ID"
    "historical_duplicate_column_id c \<noteq> HISTORY_COLUMN_ID"
  using assms unat_duplicate[OF assms]
  by (simp_all add: original_column_def unat_history_v2_column unat_history_column word_unat_eq_iff)

lemma duplicate_inj:
  "original_column c \<Longrightarrow> original_column c' \<Longrightarrow>
   historical_duplicate_column_id c = historical_duplicate_column_id c' \<longleftrightarrow> c = c'"
  using unat_duplicate[of c] unat_duplicate[of c'] by (auto simp: word_unat_eq_iff)

lemma original_columns_at:
  "original_columns ch \<Longrightarrow> changes_at ch k c = Some x \<Longrightarrow> original_column c"
  using changes_at_notin[of c ch k] by (auto simp: original_columns_def)

section \<open>Transactions with the overwriting policy\<close>

definition merged :: "changes \<Rightarrow> changes \<Rightarrow> bytes \<Rightarrow> u32 \<Rightarrow> write_operation option" where
  "merged new old k c = (case changes_at new k c of Some x \<Rightarrow> Some x | None \<Rightarrow> changes_at old k c)"

lemma overwrite_commit:
  assumes "tx_ok tx" "policy tx = Overwrite" "changes_ok ch"
  obtains tx' where "tx_commit tx_commit_changes (transaction tx Overwrite ch) = (tx', Inr ())"
    "tx_ok tx'" "policy tx' = Overwrite" "storage tx' = storage tx"
    "\<And>k c. changes_at (changes tx') k c = merged ch (changes tx) k c"
proof -
  obtain ch' where ch': "commit_columns Overwrite ch (changes tx) = (ch', Inr ())"
    using commit_columns_Overwrite by (metis prod.collapse)
  let ?tx = "tx\<lparr>changes := ch'\<rparr>"
  have c: "tx_commit_changes tx ch = (?tx, Inr ())"
    using ch' assms(2) by (simp add: tx_commit_changes_def)
  show ?thesis
  proof (rule that[of ?tx])
    show "tx_ok ?tx" using tx_commit_changes_ok[OF assms(1,3) c] .
    show "changes_at (changes ?tx) k c = merged ch (changes tx) k c" for k c
      using commit_columns_Inr[OF _ assms(3) ch'] assms(1) by (simp add: merged_def tx_ok_def)
  qed (use assms c in \<open>simp_all add: tx_commit_def transaction_def\<close>)
qed

lemma fold_hm_insert_ok:
  "changes_ok acc \<Longrightarrow> (\<And>e. e \<in> set xs \<Longrightarrow> bt_ok (g e)) \<Longrightarrow>
   changes_ok (fold (\<lambda>e. hm_insert (f e) (g e)) xs acc)"
  by (induction xs arbitrary: acc) auto

lemma fold_hm_insert_columns:
  "fst ` set (fold (\<lambda>e. hm_insert (f e) (g e)) xs acc) = f ` set xs \<union> fst ` set acc"
  by (induction xs arbitrary: acc) (auto simp: keys_hm_insert)

lemma fold_bt_insert_ok: "bt_ok t \<Longrightarrow> bt_ok (fold (\<lambda>(k, _). bt_insert (f k) v) es t)"
  by (induction es arbitrary: t) auto

lemma removals_eq:
  "removals h rc = fold (\<lambda>e. hm_insert (historical_duplicate_column_id (fst e))
     (fold (\<lambda>(key, _). bt_insert (height_key key h) Remove) (snd e) [])) rc []"
  by (simp add: removals_def case_prod_unfold)

lemma removals_ok [simp]: "changes_ok (removals h rc)"
  unfolding removals_eq by (rule fold_hm_insert_ok) (simp_all add: fold_bt_insert_ok)

lemma removals_columns:
  "fst ` set (removals h rc) = historical_duplicate_column_id ` fst ` set rc"
  by (simp add: removals_eq fold_hm_insert_columns image_image)

lemma changes_at_duplicates:
  assumes "fst ` set new \<subseteq> historical_duplicate_column_id ` fst ` set ch" "original_columns ch"
    and "original_column c \<or> c = HISTORY_V2_COLUMN_ID \<or> c = HISTORY_COLUMN_ID"
  shows "changes_at new k c = None"
proof (rule changes_at_notin)
  show "c \<notin> fst ` set new"
  proof
    assume "c \<in> fst ` set new"
    then obtain c' where c': "c' \<in> fst ` set ch" "c = historical_duplicate_column_id c'"
      using assms(1) by blast
    then have "original_column c'" using assms(2) unfolding original_columns_def by blast
    from duplicate_not_original[OF this] c'(2) assms(3) show False by metis
  qed
qed

lemma historical_entries_ok:
  "bt_ok acc \<Longrightarrow> historical_entries C h es acc = Inr t \<Longrightarrow> bt_ok t"
  by (induction C h es acc rule: historical_entries.induct) (auto split: sum.splits)

lemma historical_changes_ok:
  "changes_ok acc \<Longrightarrow> historical_changes C h rc acc = Inr hist \<Longrightarrow>
   changes_ok hist \<and>
   fst ` set hist = historical_duplicate_column_id ` fst ` set rc \<union> fst ` set acc"
proof (induction C h rc acc rule: historical_changes.induct)
  case (2 C h c es rest acc)
  then show ?case
    by (auto simp: keys_hm_insert historical_entries_ok[OF bt_ok_Nil] split: sum.splits)
qed simp

section \<open>Reverse changes\<close>

definition op_of :: "bytes option \<Rightarrow> write_operation" where
  "op_of v = (case v of None \<Rightarrow> Remove | Some val \<Rightarrow> Insert val)"

lemma op_value_op_of [simp]: "op_value (op_of v) = v"
  by (simp add: op_value_def op_of_def split: option.splits)

lemma reverse_entry_eq:
  "(case (was, became) of
      (None, Remove) \<Rightarrow> entry
    | (None, Insert _) \<Rightarrow> bt_insert key Remove entry
    | (Some old_value, Remove) \<Rightarrow> bt_insert key (Insert old_value) entry
    | (Some old_value, Insert new_value) \<Rightarrow>
        if old_value \<noteq> new_value then bt_insert key (Insert old_value) entry else entry) =
   (if op_value became = was then entry else bt_insert key (op_of was) entry)"
  by (auto simp: op_value_def op_of_def split: option.splits write_operation.splits)

lemma reverse_entries_spec:
  "bt_ok entry \<Longrightarrow> distinct (map fst es) \<Longrightarrow>
   bt_ok (reverse_entries (map f (map fst es)) es entry) \<and>
   map_of (reverse_entries (map f (map fst es)) es entry) k =
     (case map_of es k of
        None \<Rightarrow> map_of entry k
      | Some x \<Rightarrow> if op_value x = f k then map_of entry k else Some (op_of (f k)))"
proof (induction es arbitrary: entry)
  case (Cons e es)
  obtain key x where e: "e = (key, x)" by (cases e)
  let ?entry = "if op_value x = f key then entry else bt_insert key (op_of (f key)) entry"
  have step: "reverse_entries (map f (map fst (e # es))) (e # es) entry =
      reverse_entries (map f (map fst es)) es ?entry"
    by (simp only: e list.map fst_conv reverse_entries.simps(1) reverse_entry_eq)
  have ok: "bt_ok ?entry" using Cons.prems(1) by simp
  have nin: "map_of es key = None"
    using Cons.prems(2) e by (simp add: map_of_eq_None_iff[THEN iffD2])
  show ?case
    unfolding step using Cons.IH[OF ok] Cons.prems nin by (auto simp: e split: option.splits)
qed simp

context rocksdb_ordered
begin

lemma multi_get_eq: "multi_get R d c ks = Inr (map (map_of (tbl d c)) ks)"
  by (induction ks) (simp_all add: get_law)

lemma reverse_columns_spec:
  "changes_ok ch \<Longrightarrow> changes_ok acc \<Longrightarrow> fst ` set ch \<inter> fst ` set acc = {} \<Longrightarrow>
   \<exists>rc. reverse_columns R d ch acc = Inr rc \<and> changes_ok rc \<and>
     fst ` set rc = fst ` set ch \<union> fst ` set acc \<and>
     (\<forall>k c. changes_at rc k c =
       (case changes_at ch k c of
          None \<Rightarrow> changes_at acc k c
        | Some x \<Rightarrow> if op_value x = map_of (tbl d c) k then None
            else Some (op_of (map_of (tbl d c) k))))"
proof (induction ch arbitrary: acc)
  case (Cons e ch)
  obtain c0 es where e: "e = (c0, es)" by (cases e)
  have es: "bt_ok es" and ch: "changes_ok ch" and c0: "c0 \<notin> fst ` set ch"
    using Cons.prems(1) by (auto simp: e changes_ok_Cons)
  have c0a: "c0 \<notin> fst ` set acc" using Cons.prems(3) by (auto simp: e)
  define t where "t = reverse_entries (map (map_of (tbl d c0)) (map fst es)) es []"
  have t: "bt_ok t" "map_of t k = (case map_of es k of None \<Rightarrow> None
      | Some x \<Rightarrow> if op_value x = map_of (tbl d c0) k then None
          else Some (op_of (map_of (tbl d c0) k)))" for k
    using reverse_entries_spec[OF bt_ok_Nil bt_ok_distinct[OF es], of "map_of (tbl d c0)" k]
    by (auto simp: t_def split: option.splits)
  have "hm_get_or c0 [] acc = []"
    using c0a by (simp add: hm_get_or_def map_of_eq_None_iff[THEN iffD2])
  then have step: "reverse_columns R d (e # ch) acc = reverse_columns R d ch (hm_insert c0 t acc)"
    by (simp add: e multi_get_eq t_def)
  obtain rc where rc: "reverse_columns R d ch (hm_insert c0 t acc) = Inr rc" "changes_ok rc"
    "fst ` set rc = fst ` set ch \<union> fst ` set (hm_insert c0 t acc)"
    "\<forall>k c. changes_at rc k c = (case changes_at ch k c of
        None \<Rightarrow> changes_at (hm_insert c0 t acc) k c
      | Some x \<Rightarrow> if op_value x = map_of (tbl d c) k then None
          else Some (op_of (map_of (tbl d c) k)))"
    using Cons.IH[OF ch, of "hm_insert c0 t acc"] Cons.prems(2,3) t(1) c0
    by (auto simp: keys_hm_insert e)
  have "changes_at rc k c = (case changes_at (e # ch) k c of None \<Rightarrow> changes_at acc k c
      | Some x \<Rightarrow> if op_value x = map_of (tbl d c) k then None
          else Some (op_of (map_of (tbl d c) k)))" for k c
    using rc(4) t(2)[of k] changes_at_notin[OF c0, of k] changes_at_notin[OF c0a, of k]
    by (auto simp: e changes_at_Cons[OF c0] changes_at_hm_insert split: option.splits)
  with rc step show ?case by (auto simp: keys_hm_insert e)
qed simp

end

section \<open>Big-endian bytes\<close>

lemma length_to_be_bytes [simp]: "length (to_be_bytes h) = 8"
  by (simp add: to_be_bytes_def)

lemma to_be_bytes_less: "to_be_bytes a < to_be_bytes b \<longleftrightarrow> a < b"
  by (simp add: to_be_bytes_def word_bytes_less)

lemma to_be_bytes_inj [simp]: "to_be_bytes a = to_be_bytes b \<longleftrightarrow> a = b"
  by (metis linorder_neqE order.irrefl to_be_bytes_less)

lemma to_be_bytes_le: "to_be_bytes a \<le> to_be_bytes b \<longleftrightarrow> a \<le> b"
  by (auto simp: order.order_iff_strict to_be_bytes_less)

section \<open>Storing the history of a commit\<close>

text \<open>Every stored history entry decodes to changes of original columns.\<close>

definition history_wf :: "history_codec \<Rightarrow> (u32 \<Rightarrow> (bytes, bytes) btree) \<Rightarrow> bool" where
  "history_wf C tb =
     (\<forall>h val. map_of (tb HISTORY_V2_COLUMN_ID) (to_be_bytes h) = Some val \<longrightarrow>
        (\<exists>ch. decode_changes C val = Inr ch \<and> changes_ok ch \<and> original_columns ch))"

definition plain_column :: "u32 \<Rightarrow> bool" where
  "plain_column c = (original_column c \<or> c = HISTORY_V2_COLUMN_ID \<or> c = HISTORY_COLUMN_ID)"

lemma remove_historical_modifications_ok:
  assumes "tx_ok tx" "policy tx = Overwrite" "original_columns rc"
  obtains tx' where "remove_historical_modifications h tx rc = (tx', Inr ())"
    "tx_ok tx'" "policy tx' = Overwrite" "storage tx' = storage tx"
    "\<And>k c. plain_column c \<Longrightarrow> changes_at (changes tx') k c = changes_at (changes tx) k c"
proof -
  obtain tx' where tx': "tx_commit tx_commit_changes (transaction tx Overwrite (removals h rc)) =
      (tx', Inr ())" "tx_ok tx'" "policy tx' = Overwrite" "storage tx' = storage tx"
    "\<And>k c. changes_at (changes tx') k c = merged (removals h rc) (changes tx) k c"
    using overwrite_commit[OF assms(1,2) removals_ok] by blast
  show ?thesis
  proof (rule that[of tx'])
    show "remove_historical_modifications h tx rc = (tx', Inr ())"
      using tx'(1) by (simp add: remove_historical_modifications_def)
    show "changes_at (changes tx') k c = changes_at (changes tx) k c" if "plain_column c" for k c
      using that changes_at_duplicates[of "removals h rc" rc c k] assms(3) tx'(5)
      by (simp add: removals_columns merged_def plain_column_def)
  qed (use tx' in simp_all)
qed

lemma remove_old_history:
  assumes "tx_ok tx" "policy tx = Overwrite" "old = None \<or> (\<exists>rc. old = Some rc \<and> original_columns rc)"
  obtains tx' where
    "(case old of None \<Rightarrow> (tx, Inr ()) | Some rc \<Rightarrow> remove_historical_modifications h tx rc) = (tx', Inr ())"
    "tx_ok tx'" "policy tx' = Overwrite" "storage tx' = storage tx"
    "\<And>k c. plain_column c \<Longrightarrow> changes_at (changes tx') k c = changes_at (changes tx) k c"
    "old = None \<Longrightarrow> tx' = tx"
proof (cases old)
  case (Some rc)
  with assms(3) have "original_columns rc" by simp
  from remove_historical_modifications_ok[OF assms(1,2) this, of h] Some that show ?thesis by auto
qed (use assms that in simp)

locale history = rocksdb_ordered R tbl for R :: "'db rocksdb_api" and tbl +
  fixes C :: history_codec
  assumes serialize_law: "\<exists>b. serialize_op C x = Inr b \<and> deserialize_op C b = Inr x"
    and decode_law: "changes_ok ch \<Longrightarrow>
      \<exists>ch'. decode_changes C (encode_changes C ch) = Inr ch' \<and> changes_ok ch' \<and> map_of ch' = map_of ch"
begin

lemma v2_take_eq:
  "history_v2_take R C tx h =
    (tx\<lparr>changes := insert_op (to_be_bytes h) HISTORY_V2_COLUMN_ID Remove (changes tx)\<rparr>,
     decode_old C (tx_get (rocks_kv R) tx (to_be_bytes h) HISTORY_V2_COLUMN_ID))"
  by (simp add: history_v2_take_def tx_take_def swap_op_eq)

lemma v2_replace_eq:
  "history_v2_replace R C tx h ch =
    (tx\<lparr>changes := insert_op (to_be_bytes h) HISTORY_V2_COLUMN_ID (Insert (encode_changes C ch))
       (changes tx)\<rparr>,
     decode_old C (tx_get (rocks_kv R) tx (to_be_bytes h) HISTORY_V2_COLUMN_ID))"
  by (simp add: history_v2_replace_def tx_replace_def swap_op_eq)

lemma v2_read:
  assumes "history_wf C (tbl (storage tx))"
    and "changes_at (changes tx) (to_be_bytes h) HISTORY_V2_COLUMN_ID \<in> {None, Some Remove}"
  obtains "decode_old C (tx_get (rocks_kv R) tx (to_be_bytes h) HISTORY_V2_COLUMN_ID) = Inr None"
  | old where
    "decode_old C (tx_get (rocks_kv R) tx (to_be_bytes h) HISTORY_V2_COLUMN_ID) = Inr (Some old)"
    "changes_ok old" "original_columns old"
    "map_of (tbl (storage tx) HISTORY_V2_COLUMN_ID) (to_be_bytes h) \<noteq> None"
proof (cases "changes_at (changes tx) (to_be_bytes h) HISTORY_V2_COLUMN_ID")
  case None
  then have get: "tx_get (rocks_kv R) tx (to_be_bytes h) HISTORY_V2_COLUMN_ID =
      Inr (map_of (tbl (storage tx) HISTORY_V2_COLUMN_ID) (to_be_bytes h))"
    by (simp add: tx_get_overlay overlay_def rocks_get_def get_law)
  show ?thesis
  proof (cases "map_of (tbl (storage tx) HISTORY_V2_COLUMN_ID) (to_be_bytes h)")
    case (Some val)
    with assms(1) obtain ch where "decode_changes C val = Inr ch" "changes_ok ch" "original_columns ch"
      unfolding history_wf_def by blast
    with Some get show ?thesis by (intro that(2)[of ch]) simp_all
  qed (use get that(1) in simp)
next
  case (Some x)
  with assms(2) show ?thesis by (intro that(1)) (simp add: tx_get_overlay overlay_def op_value_def)
qed

lemma remove_v1_entries_tables:
  assumes "remove_v1_entries R H = (H', Inr ())"
  shows "c \<noteq> HISTORY_COLUMN_ID \<Longrightarrow> tbl (db H') c = tbl (db H) c"
    and "state_rewind_policy H' = state_rewind_policy H"
  using assms clear_law[of "db H" HISTORY_COLUMN_ID _ "db H'" c]
  by (auto simp: remove_v1_entries_def clear_table_def split: if_splits prod.splits sum.splits)

definition stored :: "'db historical_rocksdb \<Rightarrow> 'db in_memory_transaction \<Rightarrow>
    'db historical_rocksdb \<Rightarrow> 'db in_memory_transaction \<Rightarrow> bool" where
  "stored H tx H' tx' \<longleftrightarrow>
     tx_ok tx' \<and> policy tx' = Overwrite \<and> storage tx' = db H' \<and>
     state_rewind_policy H' = state_rewind_policy H \<and>
     (\<forall>c. c \<noteq> HISTORY_COLUMN_ID \<longrightarrow> tbl (db H') c = tbl (db H) c) \<and>
     (\<forall>k c. original_column c \<longrightarrow> changes_at (changes tx') k c = changes_at (changes tx) k c)"

lemma cleanup_stored:
  assumes "tx_ok tx" "policy tx = Overwrite" "storage tx = db H" "history_wf C (tbl (db H))"
    and none: "\<And>k. changes_at (changes tx) k HISTORY_V2_COLUMN_ID = None"
    and run: "cleanup_old_changes R C H h tx = (H', tx', Inr ())"
  shows "stored H tx H' tx' \<and>
    (\<forall>k. changes_at (changes tx') k HISTORY_V2_COLUMN_ID \<in> {None, Some Remove}) \<and>
    (state_rewind_policy H = RewindFullRange \<longrightarrow> tx' = tx \<and> H' = H)"
proof (cases "state_rewind_policy H")
  case (RewindRange sz)
  define g where "g = sat_sub h sz"
  let ?tx1 = "tx\<lparr>changes := insert_op (to_be_bytes g) HISTORY_V2_COLUMN_ID Remove (changes tx)\<rparr>"
  have ok1: "tx_ok ?tx1" using assms(1) by (simp add: tx_ok_def)
  have at1: "changes_at (changes ?tx1) k c = (if k = to_be_bytes g \<and> c = HISTORY_V2_COLUMN_ID
      then Some Remove else changes_at (changes tx) k c)" for k c
    using assms(1) by (simp add: tx_ok_def)
  have orig1: "original_column c \<Longrightarrow> c \<noteq> HISTORY_V2_COLUMN_ID" for c
    using history_column_not_original(1) by blast
  have wf: "history_wf C (tbl (storage tx))" using assms(3,4) by simp
  note run1 = run[unfolded cleanup_old_changes_def RewindRange, simplified, folded g_def,
      unfolded v2_take_eq Let_def]
  have m: "changes_at (changes tx) (to_be_bytes g) HISTORY_V2_COLUMN_ID \<in> {None, Some Remove}"
    by (simp add: none)
  from v2_read[OF wf m] show ?thesis
  proof cases
    case 1
    with run1 have "H' = H" "tx' = ?tx1" by (simp_all add: Let_def)
    with ok1 at1 assms(2,3) none RewindRange orig1 show ?thesis by (auto simp: stored_def)
  next
    case (2 old)
    obtain tx2 where tx2: "remove_historical_modifications g ?tx1 old = (tx2, Inr ())"
      "tx_ok tx2" "policy tx2 = Overwrite" "storage tx2 = storage ?tx1"
      "\<And>k c. plain_column c \<Longrightarrow> changes_at (changes tx2) k c = changes_at (changes ?tx1) k c"
      using remove_historical_modifications_ok[OF ok1 _ 2(3)] assms(2) by auto
    obtain H1 where v1: "remove_v1_entries R H = (H1, Inr ())" "H' = H1"
      "tx' = tx2\<lparr>storage := db H1\<rparr>"
      using run1 2(1) tx2(1) by (auto simp: Let_def split: prod.splits)
    show ?thesis
      using tx2 v1 at1 remove_v1_entries_tables[OF v1(1)] RewindRange none orig1
      by (auto simp: stored_def tx_ok_def plain_column_def)
  qed
qed (use assms in \<open>auto simp: cleanup_old_changes_def stored_def\<close>)

definition reverses :: "'db \<Rightarrow> changes \<Rightarrow> changes \<Rightarrow> bool" where
  "reverses d ch rc \<longleftrightarrow> changes_ok rc \<and> fst ` set rc = fst ` set ch \<and>
     (\<forall>k c. changes_at rc k c =
       (case changes_at ch k c of
          None \<Rightarrow> None
        | Some x \<Rightarrow> if op_value x = map_of (tbl d c) k then None
            else Some (op_of (map_of (tbl d c) k))))"

lemma historical_entries_total: "\<exists>t. historical_entries C h es acc = Inr t"
proof (induction es arbitrary: acc)
  case (Cons e es)
  then show ?case using serialize_law[of "snd e"] by (cases e) auto
qed simp

lemma historical_changes_total: "\<exists>hist. historical_changes C h rc acc = Inr hist"
proof (induction rc arbitrary: acc)
  case (Cons e rc)
  then show ?case using historical_entries_total[of h "snd e" "[]"] by (cases e) auto
qed simp

lemma store_history:
  assumes "changes_ok ch" "original_columns ch" "state_rewind_policy H \<noteq> NoRewind"
    and "history_wf C (tbl (db H))"
    and run: "store_modifications_history R C H (transaction (db H) Overwrite ch) h = (H', tx, Inr ())"
  obtains rc hist where "reverses (db H) ch rc" "historical_changes C h rc [] = Inr hist"
    "stored H (transaction (db H) Overwrite ch) H' tx"
    "changes_at (changes tx) (to_be_bytes h) HISTORY_V2_COLUMN_ID = Some (Insert (encode_changes C rc))"
    "\<And>g. g \<noteq> h \<Longrightarrow>
      changes_at (changes tx) (to_be_bytes g) HISTORY_V2_COLUMN_ID \<in> {None, Some Remove}"
    "state_rewind_policy H = RewindFullRange \<Longrightarrow>
      map_of (tbl (db H) HISTORY_V2_COLUMN_ID) (to_be_bytes h) = None \<Longrightarrow>
      (\<forall>k c. original_column c \<longrightarrow> changes_at (changes tx) k (historical_duplicate_column_id c) =
        changes_at hist k (historical_duplicate_column_id c)) \<and>
      (\<forall>g. g \<noteq> h \<longrightarrow> changes_at (changes tx) (to_be_bytes g) HISTORY_V2_COLUMN_ID = None) \<and> H' = H"
proof -
  let ?tx0 = "transaction (db H) Overwrite ch"
  have tx0: "tx_ok ?tx0" "policy ?tx0 = Overwrite" "storage ?tx0 = db H" "changes ?tx0 = ch"
    using assms(1) by (simp_all add: transaction_def tx_ok_def)
  obtain rc where rc0: "reverse_columns R (db H) ch [] = Inr rc" and rc: "reverses (db H) ch rc"
    using reverse_columns_spec[OF assms(1) changes_ok_Nil, of "db H"]
    by (auto simp: reverses_def cong: option.case_cong)
  have rev: "reverse_history_changes R H ch = Inr rc" using rc0 by (simp add: reverse_history_changes_def)
  have rc_orig: "original_columns rc" and rc_ok: "changes_ok rc"
    using rc assms(2) by (simp_all add: reverses_def original_columns_def)
  obtain H1 tx1 where cl: "cleanup_old_changes R C H h ?tx0 = (H1, tx1, Inr ())"
    using run assms(3) rev tx0(4)
    by (auto simp: store_modifications_history_def split: prod.splits sum.splits)
  have none0: "changes_at (changes ?tx0) k c = None" if "\<not> original_column c" for k c
    using original_columns_at[OF assms(2)] that tx0(4) by (cases "changes_at ch k c") auto
  note st1 = cleanup_stored[OF tx0(1-3) assms(4) none0 cl, simplified]
  have wf1: "history_wf C (tbl (storage tx1))"
    using st1 assms(4) by (simp add: stored_def history_wf_def)
  let ?tx2 = "tx1\<lparr>changes := insert_op (to_be_bytes h) HISTORY_V2_COLUMN_ID
      (Insert (encode_changes C rc)) (changes tx1)\<rparr>"
  have ok2: "tx_ok ?tx2" "policy ?tx2 = Overwrite" using st1 by (auto simp: stored_def tx_ok_def)
  have at2: "changes_at (changes ?tx2) k c = (if k = to_be_bytes h \<and> c = HISTORY_V2_COLUMN_ID
      then Some (Insert (encode_changes C rc)) else changes_at (changes tx1) k c)" for k c
    using st1 by (auto simp: stored_def tx_ok_def)
  have m1: "changes_at (changes tx1) (to_be_bytes h) HISTORY_V2_COLUMN_ID \<in> {None, Some Remove}"
    using st1 by simp
  obtain old where old: "decode_old C (tx_get (rocks_kv R) tx1 (to_be_bytes h) HISTORY_V2_COLUMN_ID) =
      Inr old" "old = None \<or> (\<exists>o1. old = Some o1 \<and> original_columns o1)"
    "map_of (tbl (storage tx1) HISTORY_V2_COLUMN_ID) (to_be_bytes h) = None \<Longrightarrow> old = None"
    using v2_read[OF wf1 m1] by metis
  obtain tx3 where tx3: "(case old of None \<Rightarrow> (?tx2, Inr ())
      | Some rc \<Rightarrow> remove_historical_modifications h ?tx2 rc) = (tx3, Inr ())"
    "tx_ok tx3" "policy tx3 = Overwrite" "storage tx3 = storage ?tx2"
    "\<And>k c. plain_column c \<Longrightarrow> changes_at (changes tx3) k c = changes_at (changes ?tx2) k c"
    "old = None \<Longrightarrow> tx3 = ?tx2"
    using remove_old_history[OF ok2 old(2)] by blast
  obtain hist where hist: "historical_changes C h rc [] = Inr hist"
    using historical_changes_total by blast
  have hist_ok: "changes_ok hist" "fst ` set hist \<subseteq> historical_duplicate_column_id ` fst ` set rc"
    using historical_changes_ok[OF changes_ok_Nil hist] by auto
  obtain tx4 where tx4: "tx_commit tx_commit_changes (transaction tx3 Overwrite hist) = (tx4, Inr ())"
    "tx_ok tx4" "policy tx4 = Overwrite" "storage tx4 = storage tx3"
    "\<And>k c. changes_at (changes tx4) k c = merged hist (changes tx3) k c"
    using overwrite_commit[OF tx3(2,3) hist_ok(1)] by blast
  have fin: "H' = H1" "tx = tx4"
    using run assms(3) by (simp_all add: store_modifications_history_def rev tx0(4) cl v2_replace_eq
        old(1) tx3(1) hist tx4(1))
  have at4: "changes_at (changes tx4) k c = changes_at (changes ?tx2) k c" if "plain_column c" for k c
    using changes_at_duplicates[OF hist_ok(2) rc_orig, of c k] that tx4(5) tx3(5)
    by (auto simp: merged_def plain_column_def)
  show ?thesis
  proof (rule that[of rc hist])
    show "stored H ?tx0 H' tx"
      using st1 tx4 tx3 fin at4 at2 history_column_not_original
      by (auto simp: stored_def plain_column_def)
    show "changes_at (changes tx) (to_be_bytes h) HISTORY_V2_COLUMN_ID =
        Some (Insert (encode_changes C rc))"
      using at4 at2 fin by (simp add: plain_column_def)
    show "changes_at (changes tx) (to_be_bytes g) HISTORY_V2_COLUMN_ID \<in> {None, Some Remove}"
      if "g \<noteq> h" for g
      using that at4 at2 fin st1 by (simp add: plain_column_def)
    assume full: "state_rewind_policy H = RewindFullRange"
      "map_of (tbl (db H) HISTORY_V2_COLUMN_ID) (to_be_bytes h) = None"
    have "tx1 = ?tx0" "H1 = H" using st1 full(1) by auto
    moreover have "tx3 = ?tx2" using tx3(6) old(3) full(2) tx0(3) calculation(1) by simp
    ultimately show "(\<forall>k c. original_column c \<longrightarrow>
        changes_at (changes tx) k (historical_duplicate_column_id c) =
          changes_at hist k (historical_duplicate_column_id c)) \<and>
      (\<forall>g. g \<noteq> h \<longrightarrow> changes_at (changes tx) (to_be_bytes g) HISTORY_V2_COLUMN_ID = None) \<and> H' = H"
      using tx4(5) fin none0 at2 at4
      by (auto simp: merged_def plain_column_def split: option.splits)
  qed (use rc hist in simp_all)
qed

lemma rocks_batch_reads:
  assumes "changes_ok ch" "rocks_commit_changes R d (Changes ch) = (d', Inr ())"
  shows "map_of (tbl d' c) k =
    (case changes_at ch k c of Some x \<Rightarrow> op_value x | None \<Rightarrow> map_of (tbl d c) k)"
  using store.commit_get[OF TrueI assms(1), of d d' k c] assms(2)
  by (simp add: rocks_batch_def rocks_get_def get_law overlay_def split: option.splits)

lemma commit_history:
  assumes "changes_ok ch" "original_columns ch" "state_rewind_policy H \<noteq> NoRewind"
    and "history_wf C (tbl (db H))"
    and run: "historical_commit_changes R C H (Some h) (Changes ch) = (H2, Inr ())"
  obtains rc hist where "reverses (db H) ch rc" "historical_changes C h rc [] = Inr hist"
    "state_rewind_policy H2 = state_rewind_policy H"
    "\<And>k c. original_column c \<Longrightarrow> map_of (tbl (db H2) c) k =
      (case changes_at ch k c of Some x \<Rightarrow> op_value x | None \<Rightarrow> map_of (tbl (db H) c) k)"
    "map_of (tbl (db H2) HISTORY_V2_COLUMN_ID) (to_be_bytes h) = Some (encode_changes C rc)"
    "\<And>g. g \<noteq> h \<Longrightarrow> map_of (tbl (db H2) HISTORY_V2_COLUMN_ID) (to_be_bytes g) \<in>
      {None, map_of (tbl (db H) HISTORY_V2_COLUMN_ID) (to_be_bytes g)}"
    "state_rewind_policy H = RewindFullRange \<Longrightarrow>
      map_of (tbl (db H) HISTORY_V2_COLUMN_ID) (to_be_bytes h) = None \<Longrightarrow>
      (\<forall>k c. original_column c \<longrightarrow> map_of (tbl (db H2) (historical_duplicate_column_id c)) k =
        (case changes_at hist k (historical_duplicate_column_id c) of
           Some x \<Rightarrow> op_value x
         | None \<Rightarrow> map_of (tbl (db H) (historical_duplicate_column_id c)) k)) \<and>
      (\<forall>g. g \<noteq> h \<longrightarrow> map_of (tbl (db H2) HISTORY_V2_COLUMN_ID) (to_be_bytes g) =
        map_of (tbl (db H) HISTORY_V2_COLUMN_ID) (to_be_bytes g))"
proof -
  let ?tx0 = "transaction (db H) Overwrite ch"
  obtain H1 tx d where st: "store_modifications_history R C H ?tx0 h = (H1, tx, Inr ())"
    and commit: "rocks_commit_changes R (db H1) (Changes (changes tx)) = (d, Inr ())"
    and H2: "H2 = H1\<lparr>db := d\<rparr>"
    using run assms(3)
    by (auto simp: historical_commit_changes_def Let_def split: prod.splits sum.splits)
  obtain rc hist where rc: "reverses (db H) ch rc" "historical_changes C h rc [] = Inr hist"
    and stored: "stored H ?tx0 H1 tx"
    and v2: "changes_at (changes tx) (to_be_bytes h) HISTORY_V2_COLUMN_ID =
      Some (Insert (encode_changes C rc))"
    and v2': "\<And>g. g \<noteq> h \<Longrightarrow>
      changes_at (changes tx) (to_be_bytes g) HISTORY_V2_COLUMN_ID \<in> {None, Some Remove}"
    and full: "state_rewind_policy H = RewindFullRange \<Longrightarrow>
      map_of (tbl (db H) HISTORY_V2_COLUMN_ID) (to_be_bytes h) = None \<Longrightarrow>
      (\<forall>k c. original_column c \<longrightarrow> changes_at (changes tx) k (historical_duplicate_column_id c) =
        changes_at hist k (historical_duplicate_column_id c)) \<and>
      (\<forall>g. g \<noteq> h \<longrightarrow> changes_at (changes tx) (to_be_bytes g) HISTORY_V2_COLUMN_ID = None) \<and> H1 = H"
    using store_history[OF assms(1-4) st] by blast
  have ok: "changes_ok (changes tx)" and tbl: "c \<noteq> HISTORY_COLUMN_ID \<Longrightarrow> tbl (db H1) c = tbl (db H) c"
    and orig: "original_column c \<Longrightarrow> changes_at (changes tx) k c = changes_at ch k c" for c k
    using stored by (auto simp: stored_def tx_ok_def transaction_def)
  note reads = rocks_batch_reads[OF ok commit]
  show ?thesis
  proof (rule that[OF rc])
    show "map_of (tbl (db H2) c) k =
        (case changes_at ch k c of Some x \<Rightarrow> op_value x | None \<Rightarrow> map_of (tbl (db H) c) k)"
      if c: "original_column c" for k c
    proof -
      have "c \<noteq> HISTORY_COLUMN_ID" using c history_column_not_original(2) by blast
      with reads[of c k] orig[OF c, of k] tbl[of c] H2 show ?thesis by (simp split: option.splits)
    qed
    show "map_of (tbl (db H2) HISTORY_V2_COLUMN_ID) (to_be_bytes h) = Some (encode_changes C rc)"
      using reads v2 H2 by (simp add: op_value_def)
    show "map_of (tbl (db H2) HISTORY_V2_COLUMN_ID) (to_be_bytes g) \<in>
        {None, map_of (tbl (db H) HISTORY_V2_COLUMN_ID) (to_be_bytes g)}" if "g \<noteq> h" for g
      using reads[of HISTORY_V2_COLUMN_ID "to_be_bytes g"] v2'[OF that] H2 tbl
      by (auto simp: op_value_def)
    show "state_rewind_policy H2 = state_rewind_policy H" using stored H2 by (simp add: stored_def)
  qed (use full reads H2 tbl in \<open>auto split: option.splits\<close>)
qed

lemma history_wf_after_commit:
  assumes "history_wf C (tbl (db H))" "original_columns ch" "reverses (db H) ch rc"
    and "map_of (tb HISTORY_V2_COLUMN_ID) (to_be_bytes h) = Some (encode_changes C rc)"
    and "\<And>g. g \<noteq> h \<Longrightarrow> map_of (tb HISTORY_V2_COLUMN_ID) (to_be_bytes g) \<in>
      {None, map_of (tbl (db H) HISTORY_V2_COLUMN_ID) (to_be_bytes g)}"
  shows "history_wf C tb"
  unfolding history_wf_def
proof (intro allI impI)
  fix g val assume val: "map_of (tb HISTORY_V2_COLUMN_ID) (to_be_bytes g) = Some val"
  show "\<exists>ch. decode_changes C val = Inr ch \<and> changes_ok ch \<and> original_columns ch"
  proof (cases "g = h")
    case True
    obtain ch' where ch': "decode_changes C (encode_changes C rc) = Inr ch'" "changes_ok ch'"
      "map_of ch' = map_of rc"
      using decode_law[of rc] assms(3) by (auto simp: reverses_def)
    have cols: "fst ` set ch' = fst ` set ch"
      using assms(3) by (metis ch'(3) dom_map_of_conv_image_fst reverses_def)
    have "original_columns ch'" using assms(2) unfolding original_columns_def cols .
    with ch' val assms(4) True show ?thesis by auto
  next
    case False
    with assms(5)[OF False] val assms(1) show ?thesis by (auto simp: history_wf_def)
  qed
qed

lemma rollback_restores:
  assumes "changes_ok ch" "original_columns ch" "reverses (db H) ch rc"
    and now: "\<And>k c. original_column c \<Longrightarrow> map_of (tbl (db H1) c) k =
      (case changes_at ch k c of Some x \<Rightarrow> op_value x | None \<Rightarrow> map_of (tbl (db H) c) k)"
    and v2: "map_of (tbl (db H1) HISTORY_V2_COLUMN_ID) (to_be_bytes h) = Some (encode_changes C rc)"
    and total: "\<And>d b. \<exists>d'. write_db R d b = (d', Inr ())"
  shows "\<exists>H2. rollback_block_to R C H1 h = (H2, Inr ()) \<and>
    (\<forall>k c. original_column c \<longrightarrow> map_of (tbl (db H2) c) k = map_of (tbl (db H) c) k)"
proof -
  let ?tx = "write_transaction (db H1)"
  have tx: "tx_ok ?tx" "policy ?tx = Overwrite" "storage ?tx = db H1" "changes ?tx = []"
    by (simp_all add: write_transaction_def transaction_def tx_ok_def)
  obtain last where last: "decode_changes C (encode_changes C rc) = Inr last" "changes_ok last"
    "map_of last = map_of rc"
    using decode_law[of rc] assms(3) by (auto simp: reverses_def)
  have at: "changes_at last k c = changes_at rc k c" for k c by (simp add: changes_at_def last(3))
  have cols: "fst ` set last = fst ` set ch"
    using assms(3) by (metis last(3) dom_map_of_conv_image_fst reverses_def)
  have last_orig: "original_columns last" using assms(2) unfolding original_columns_def cols .
  let ?tx1 = "?tx\<lparr>changes := insert_op (to_be_bytes h) HISTORY_V2_COLUMN_ID Remove (changes ?tx)\<rparr>"
  have take: "multiversion_take R C ?tx h (has_v1_history H1) = (?tx1, Inr (Some last))"
    by (simp add: multiversion_take_def v2_take_eq tx_get_overlay overlay_def tx(3,4) rocks_get_def
        get_law v2 last(1))
  have tx1: "tx_ok ?tx1" "policy ?tx1 = Overwrite" using tx by (simp_all add: tx_ok_def)
  obtain tx2 where tx2: "remove_historical_modifications h ?tx1 last = (tx2, Inr ())"
    "tx_ok tx2" "policy tx2 = Overwrite" "storage tx2 = storage ?tx1"
    "\<And>k c. plain_column c \<Longrightarrow> changes_at (changes tx2) k c = changes_at (changes ?tx1) k c"
    using remove_historical_modifications_ok[OF tx1 last_orig] by blast
  obtain tx3 where tx3: "tx_commit tx_commit_changes (transaction tx2 Overwrite last) = (tx3, Inr ())"
    "tx_ok tx3" "\<And>k c. changes_at (changes tx3) k c = merged last (changes tx2) k c"
    using overwrite_commit[OF tx2(2,3) last(2)] by blast
  have ok3: "changes_ok (changes tx3)" using tx3(2) by (simp add: tx_ok_def)
  obtain d where d: "rocks_commit_changes R (db H1) (Changes (changes tx3)) = (d, Inr ())"
    using commit_batch_total[OF ok3] total by blast
  have "map_of (tbl d c) k = map_of (tbl (db H) c) k" if c: "original_column c" for k c
  proof -
    have "changes_at (changes tx2) k c = None"
      using tx2(5)[of c k] tx(4) c history_column_not_original(1)
      by (auto simp: plain_column_def)
    then have "map_of (tbl d c) k =
        (case changes_at rc k c of Some x \<Rightarrow> op_value x | None \<Rightarrow> map_of (tbl (db H1) c) k)"
      using rocks_batch_reads[OF ok3 d, of c k] tx3(3)[of k c] at[of k c]
      by (simp add: merged_def split: option.splits)
    with now[OF c, of k] assms(3) show ?thesis
      by (auto simp: reverses_def split: option.splits if_splits)
  qed
  with take tx2(1) tx3(1) d show ?thesis
    by (intro exI[of _ "H1\<lparr>db := d\<rparr>"]) (simp add: rollback_block_to_def Let_def)
qed

end

context history
begin

text \<open>With the full history a commit only fails when the write to the database fails.\<close>

lemma store_total:
  assumes "changes_ok ch" "original_columns ch" "state_rewind_policy H = RewindFullRange"
    and "history_wf C (tbl (db H))"
  shows "\<exists>tx. store_modifications_history R C H (transaction (db H) Overwrite ch) h = (H, tx, Inr ()) \<and>
    tx_ok tx"
proof -
  let ?tx0 = "transaction (db H) Overwrite ch"
  have tx0: "tx_ok ?tx0" "policy ?tx0 = Overwrite" "storage ?tx0 = db H" "changes ?tx0 = ch"
    using assms(1) by (simp_all add: transaction_def tx_ok_def)
  obtain rc where rc: "reverse_columns R (db H) ch [] = Inr rc" "changes_ok rc"
    using reverse_columns_spec[OF assms(1) changes_ok_Nil, of "db H"] by auto
  have none: "changes_at (changes ?tx0) (to_be_bytes h) HISTORY_V2_COLUMN_ID \<in> {None, Some Remove}"
    using original_columns_at[OF assms(2), of "to_be_bytes h" HISTORY_V2_COLUMN_ID] tx0(4)
    by (cases "changes_at ch (to_be_bytes h) HISTORY_V2_COLUMN_ID") auto
  have wf: "history_wf C (tbl (storage ?tx0))" using assms(4) tx0(3) by simp
  obtain old where old: "decode_old C (tx_get (rocks_kv R) ?tx0 (to_be_bytes h) HISTORY_V2_COLUMN_ID) =
      Inr old" "old = None \<or> (\<exists>o1. old = Some o1 \<and> original_columns o1)"
    using v2_read[OF wf none] by metis
  let ?tx2 = "?tx0\<lparr>changes := insert_op (to_be_bytes h) HISTORY_V2_COLUMN_ID
      (Insert (encode_changes C rc)) (changes ?tx0)\<rparr>"
  have ok2: "tx_ok ?tx2" "policy ?tx2 = Overwrite" using tx0 by (simp_all add: tx_ok_def)
  obtain tx3 where tx3: "(case old of None \<Rightarrow> (?tx2, Inr ())
      | Some rc \<Rightarrow> remove_historical_modifications h ?tx2 rc) = (tx3, Inr ())"
    "tx_ok tx3" "policy tx3 = Overwrite"
    using remove_old_history[OF ok2 old(2)] by blast
  obtain hist where hist: "historical_changes C h rc [] = Inr hist"
    using historical_changes_total by blast
  have "changes_ok hist" using historical_changes_ok[OF changes_ok_Nil hist] by simp
  from overwrite_commit[OF tx3(2,3) this] obtain tx4 where
    "tx_commit tx_commit_changes (transaction tx3 Overwrite hist) = (tx4, Inr ())" "tx_ok tx4" by blast
  then show ?thesis
    by (simp add: store_modifications_history_def assms(3) reverse_history_changes_def rc(1) tx0(4)
        cleanup_old_changes_def v2_replace_eq old(1) tx3(1) hist)
qed

lemma commit_total:
  assumes "changes_ok ch" "original_columns ch" "state_rewind_policy H = RewindFullRange"
    and "history_wf C (tbl (db H))" "\<And>d b. \<exists>d'. write_db R d b = (d', Inr ())"
  shows "\<exists>H'. historical_commit_changes R C H (Some h) (Changes ch) = (H', Inr ())"
proof -
  obtain tx where tx: "store_modifications_history R C H (transaction (db H) Overwrite ch) h =
      (H, tx, Inr ())" "tx_ok tx"
    using store_total[OF assms(1-4)] by blast
  obtain d where "rocks_commit_changes R (db H) (Changes (changes tx)) = (d, Inr ())"
    using commit_batch_total[of "changes tx" "db H"] tx(2) assms(5) by (auto simp: tx_ok_def)
  with tx(1) assms(3) show ?thesis by (simp add: historical_commit_changes_def Let_def)
qed

end

section \<open>A codec that satisfies the laws\<close>

text \<open>The column families of a database with history, over those of the on-chain database.\<close>

abbreviation history_rocksdb :: "(u32 \<Rightarrow> ordered_table) rocksdb_api" where
  "history_rocksdb \<equiv> reference_rocksdb (historical_prefix on_chain_prefix)"

instance write_operation :: countable
  by countable_datatype

definition sample_codec :: history_codec where
  "sample_codec =
     \<lparr>serialize_op = (\<lambda>x. Inr (replicate (to_nat x) 0)),
      deserialize_op = (\<lambda>b. Inr (from_nat (length b))),
      encode_changes = (\<lambda>ch. replicate (to_nat ch) 0),
      decode_changes = (\<lambda>b. Inr (from_nat (length b))),
      encode_v1_key = to_be_bytes\<rparr>"

interpretation sample: history history_rocksdb reference_table sample_codec
  by unfold_locales (simp_all add: sample_codec_def)

definition sample_history :: "(u32 \<Rightarrow> ordered_table) historical_rocksdb" where
  "sample_history = \<lparr>state_rewind_policy = RewindFullRange, db = (\<lambda>_. empty_table),
     has_v1_history = False\<rparr>"

lemma sample_history_wf: "history_wf sample_codec (reference_table (db sample_history))"
  by (simp add: history_wf_def sample_history_def reference_table_def empty_table.rep_eq)

lemma reference_write_total: "\<exists>d'. write_db history_rocksdb d b = (d', Inr ())"
  by (simp add: reference_rocksdb_def)

section \<open>Lists of changes\<close>

lemma map_of_collect:
  "map_of (fold (\<lambda>(column, t). hm_insert column t) xs acc) c =
   (case map_of (rev xs) c of None \<Rightarrow> map_of acc c | Some t \<Rightarrow> Some t)"
  by (induction xs arbitrary: acc) (auto simp: map_add_def split: option.splits)

lemma collect_ok:
  "hm_ok acc \<Longrightarrow> hm_ok (fold (\<lambda>(column, t). hm_insert column t) xs acc)"
  "fst ` set (fold (\<lambda>(column, t). hm_insert column t) xs acc) = fst ` set xs \<union> fst ` set acc"
proof -
  show "hm_ok acc \<Longrightarrow> hm_ok (fold (\<lambda>(column, t). hm_insert column t) xs acc)"
    by (induction xs arbitrary: acc) auto
  show "fst ` set (fold (\<lambda>(column, t). hm_insert column t) xs acc) = fst ` set xs \<union> fst ` set acc"
    by (induction xs arbitrary: acc) (simp_all add: keys_hm_insert case_prod_unfold)
qed

text \<open>The last set of changes that has a column.\<close>

definition last_with :: "u32 \<Rightarrow> changes list \<Rightarrow> changes option" where
  "last_with c chs = (let sets = filter (\<lambda>ch. c \<in> fst ` set ch) chs in if sets = [] then None else Some (last sets))"

lemma last_with_Nil [simp]: "last_with c [] = None"
  by (simp add: last_with_def)

lemma last_with_snoc [simp]: "last_with c (chs @ [ch]) = (if c \<in> fst ` set ch then Some ch else last_with c chs)"
  by (simp add: last_with_def)

lemma last_with_in: "last_with c chs = Some ch \<Longrightarrow> ch \<in> set chs"
  by (induction chs rule: rev_induct) (auto split: if_splits)

lemma map_of_flatten_collect:
  assumes "\<forall>ch\<in>set chs. changes_ok ch"
  shows "map_of (flatten_collect chs) c = Option.bind (last_with c chs) (\<lambda>ch. map_of ch c)"
proof -
  have "map_of (rev (concat chs)) c = Option.bind (last_with c chs) (\<lambda>ch. map_of ch c)"
    using assms
  proof (induction chs rule: rev_induct)
    case (snoc ch chs)
    have ch: "map_of (rev ch) = map_of ch"
      using snoc.prems
      by (intro map_of_inject_set[THEN iffD2]) (simp_all add: changes_ok_def hm_ok_def rev_map[symmetric])
    show ?case
    proof (cases "c \<in> fst ` set ch")
      case True
      then obtain t where "map_of ch c = Some t" by (metis map_of_eq_None_iff not_None_eq)
      with True ch show ?thesis by (simp add: map_add_def)
    next
      case False
      then have "map_of ch c = None" by (simp add: map_of_eq_None_iff)
      with False ch snoc show ?thesis by (simp add: map_add_def)
    qed
  qed simp
  then show ?thesis by (simp add: flatten_collect_def map_of_collect split: option.splits)
qed

lemma changes_at_flatten_collect:
  "\<forall>ch\<in>set chs. changes_ok ch \<and> original_columns ch \<Longrightarrow>
   changes_at (flatten_collect chs) k c = Option.bind (last_with c chs) (\<lambda>ch. changes_at ch k c)"
  using map_of_flatten_collect[of chs c] by (cases "last_with c chs") (simp_all add: changes_at_def)

lemma flatten_collect_ok:
  assumes "\<forall>ch\<in>set chs. changes_ok ch \<and> original_columns ch"
  shows "changes_ok (flatten_collect chs)" "original_columns (flatten_collect chs)"
proof -
  have ok: "hm_ok (flatten_collect chs)" by (simp add: flatten_collect_def collect_ok(1))
  have "bt_ok t" if e: "(c, t) \<in> set (flatten_collect chs)" for c t
  proof -
    have "map_of (flatten_collect chs) c = Some t" using ok e by (simp add: hm_ok_def)
    then obtain ch where "ch \<in> set chs" "map_of ch c = Some t"
      using map_of_flatten_collect[of chs c] assms by (auto simp: bind_eq_Some_conv dest: last_with_in)
    with assms changes_ok_tree show ?thesis by blast
  qed
  then show "changes_ok (flatten_collect chs)" using ok by (auto simp: changes_ok_def)
  show "original_columns (flatten_collect chs)"
    using assms by (fastforce simp: original_columns_def flatten_collect_def collect_ok(2))
qed

context rocksdb_ordered
begin

lemma commit_list_get:
  assumes "\<forall>ch\<in>set chs. changes_ok ch" "rocks_commit_changes R d (ChangesList chs) = (d', Inr ())"
  shows "rocks_get R d' k c = fold (\<lambda>ch. overlay ch k c) chs (rocks_get R d k c)"
proof -
  have "memory_commit_changes (abs_store d) (ChangesList chs) = (abs_store d', Inr ())"
    by (rule commit_refines(1)[OF assms(2) refl])
  then show ?thesis
    using insert_changes_list_Inr[OF abs_ok assms(1), of "[]" d "abs_store d'"] by (simp add: get_abs)
qed

end

section \<open>Properties\<close>

text \<open>
  C11. Rolling back a block undoes its commit.  For a database with history that is not corrupted,
  with any policy that stores history, commit changes of the described columns at a height: rolling
  back that height succeeds, unless the write to the database fails, and every key of every
  described column then reads as before the commit.
\<close>

theorem rollback_undoes_commit:
  assumes "history R tbl C" "history_wf C (tbl (db H))" "state_rewind_policy H \<noteq> NoRewind"
    and "changes_ok ch" "original_columns ch"
    and "historical_commit_changes R C H (Some h) (Changes ch) = (H1, Inr ())"
    and "\<And>d b. \<exists>d'. write_db R d b = (d', Inr ())"
  shows "\<exists>H2. rollback_block_to R C H1 h = (H2, Inr ()) \<and>
    (\<forall>k c. original_column c \<longrightarrow> rocks_get R (db H2) k c = rocks_get R (db H) k c)"
proof -
  have get: "rocks_get R d k c = Inr (map_of (tbl d c) k)" for d k c
    using rocksdb_ordered.get_law[OF history.axioms(1)[OF assms(1)]] by (simp add: rocks_get_def)
  obtain rc where rc: "history.reverses tbl (db H) ch rc"
    and reads: "\<And>k c. original_column c \<Longrightarrow> map_of (tbl (db H1) c) k =
      (case changes_at ch k c of Some x \<Rightarrow> op_value x | None \<Rightarrow> map_of (tbl (db H) c) k)"
    and v2: "map_of (tbl (db H1) HISTORY_V2_COLUMN_ID) (to_be_bytes h) = Some (encode_changes C rc)"
    by (rule history.commit_history[OF assms(1,4,5,3,2,6)]) (rule that; assumption)
  show ?thesis
    using history.rollback_restores[OF assms(1,4,5) rc reads v2 assms(7)] by (simp add: get)
qed

theorem rollback_undoes_commit_witness:
  "let ch = [(3, [([1], Insert [7])])];
       H1 = fst (historical_commit_changes history_rocksdb sample_codec sample_history (Some 1)
              (Changes ch)) in
   history history_rocksdb reference_table sample_codec \<and> changes_ok ch \<and> original_columns ch \<and>
   rocks_get history_rocksdb (db H1) [1] 3 = Inr (Some [7]) \<and>
   (\<exists>H2. rollback_block_to history_rocksdb sample_codec H1 1 = (H2, Inr ()) \<and>
     rocks_get history_rocksdb (db H2) [1] 3 = Inr None)"
proof -
  let ?ch = "[(3, [([1], Insert [7])])] :: changes"
  have ok: "changes_ok ?ch" "original_columns ?ch"
    by (simp_all add: changes_ok_def hm_ok_def bt_ok_def original_columns_def original_column_def)
  have wf: "history_wf sample_codec (reference_table (db sample_history))"
    by (rule sample_history_wf)
  have pol: "state_rewind_policy sample_history = RewindFullRange" by (simp add: sample_history_def)
  obtain H1 where H1: "historical_commit_changes history_rocksdb sample_codec sample_history
      (Some 1) (Changes ?ch) = (H1, Inr ())"
    using sample.commit_total[OF ok pol wf reference_write_total] by blast
  have nr: "state_rewind_policy sample_history \<noteq> NoRewind" using pol by simp
  have col: "original_column 3" by (simp add: original_column_def)
  have "map_of (reference_table (db H1) 3) [1] = Some [7]"
    by (rule sample.commit_history[OF ok nr wf H1]) (simp add: col changes_at_def op_value_def)
  then have now: "rocks_get history_rocksdb (db H1) [1] 3 = Inr (Some [7])"
    by (simp add: rocks_get_def reference_rocksdb_def reference_table_def)
  have old: "rocks_get history_rocksdb (db sample_history) [1] 3 = Inr None"
    by (simp add: rocks_get_def reference_rocksdb_def sample_history_def empty_table.rep_eq)
  obtain H2 where "rollback_block_to history_rocksdb sample_codec H1 1 = (H2, Inr ())"
    "rocks_get history_rocksdb (db H2) [1] 3 = Inr None"
    using rollback_undoes_commit[OF sample.history_axioms wf nr ok H1 reference_write_total] col old
    by auto
  with sample.history_axioms ok now H1 show ?thesis unfolding Let_def by auto
qed

text \<open>
  C35. What a list of sets of changes does.  Without history, a successful commit applies every set of the
  list to a key.  With history, the list is flattened by collecting the pairs of column and tree into one
  map, so that only the last set that has the column of the key is applied: what the earlier sets write to
  another key of the column is lost, although the commit reports success.
\<close>

theorem list_commit_reads:
  assumes "history R tbl C" "history_wf C (tbl (db H))" "\<forall>ch\<in>set chs. changes_ok ch \<and> original_columns ch"
    and "historical_commit_changes R C H (Some h) (ChangesList chs) = (H1, Inr ())" "original_column c"
  shows "rocks_get R (db H1) k c =
    (if state_rewind_policy H = NoRewind then fold (\<lambda>ch. overlay ch k c) chs (rocks_get R (db H) k c)
     else case last_with c chs of
         None \<Rightarrow> rocks_get R (db H) k c
       | Some ch \<Rightarrow> overlay ch k c (rocks_get R (db H) k c))"
proof -
  have R: "rocksdb_ordered R tbl" using assms(1) by (rule history.axioms)
  have get: "rocks_get R d k c = Inr (map_of (tbl d c) k)" for d k c
    using rocksdb_ordered.get_law[OF R] by (simp add: rocks_get_def)
  show ?thesis
  proof (cases "state_rewind_policy H = NoRewind")
    case True
    then have "rocks_commit_changes R (db H) (ChangesList chs) = (db H1, Inr ())"
      using assms(4) by (auto simp: historical_commit_changes_def split: prod.splits)
    with True show ?thesis using rocksdb_ordered.commit_list_get[OF R] assms(3) by simp
  next
    case False
    let ?all = "flatten_collect chs"
    have ok: "changes_ok ?all" "original_columns ?all" using flatten_collect_ok assms(3) by auto
    have "historical_commit_changes R C H (Some h) (Changes ?all) = (H1, Inr ())"
      using assms(4) False by (simp add: historical_commit_changes_def Let_def)
    from history.commit_history[OF assms(1) ok False assms(2) this] assms(5)
    have "map_of (tbl (db H1) c) k = (case changes_at ?all k c of Some x \<Rightarrow> op_value x | None \<Rightarrow> map_of (tbl (db H) c) k)"
      by metis
    moreover have "changes_at ?all k c = Option.bind (last_with c chs) (\<lambda>ch. changes_at ch k c)"
      using changes_at_flatten_collect assms(3) by blast
    ultimately show ?thesis using False
      by (cases "last_with c chs") (simp_all add: get overlay_def split: option.splits)
  qed
qed

theorem list_commit_reads_witness:
  "let chs = [[(3, [([1], Insert [7])])], [(3, [([2], Insert [8])])]] in
   \<exists>H1 H2. historical_commit_changes history_rocksdb sample_codec sample_history (Some 1) (ChangesList chs) = (H1, Inr ())
     \<and> historical_commit_changes history_rocksdb sample_codec (sample_history\<lparr>state_rewind_policy := NoRewind\<rparr>) (Some 1)
         (ChangesList chs) = (H2, Inr ())
     \<and> rocks_get history_rocksdb (db H1) [1] 3 = Inr None \<and> rocks_get history_rocksdb (db H1) [2] 3 = Inr (Some [8])
     \<and> rocks_get history_rocksdb (db H2) [1] 3 = Inr (Some [7]) \<and> rocks_get history_rocksdb (db H2) [2] 3 = Inr (Some [8])"
proof -
  let ?chs = "[[(3, [([1], Insert [7])])], [(3, [([2], Insert [8])])]] :: changes list"
  let ?H = "sample_history\<lparr>state_rewind_policy := NoRewind\<rparr>"
  have ok: "\<forall>ch\<in>set ?chs. changes_ok ch \<and> original_columns ch"
    by (simp add: changes_ok_def hm_ok_def bt_ok_def original_columns_def original_column_def)
  then have flat: "changes_ok (flatten_collect ?chs)" "original_columns (flatten_collect ?chs)"
    using flatten_collect_ok by blast+
  have pol: "state_rewind_policy sample_history = RewindFullRange" "db ?H = db sample_history" "state_rewind_policy ?H = NoRewind"
    by (simp_all add: sample_history_def)
  have wf: "history_wf sample_codec (reference_table (db ?H))" using sample_history_wf pol(2) by simp
  obtain H1 where H1: "historical_commit_changes history_rocksdb sample_codec sample_history (Some 1) (ChangesList ?chs) = (H1, Inr ())"
    using sample.commit_total[OF flat pol(1) sample_history_wf reference_write_total, of 1] pol(1)
    by (auto simp: historical_commit_changes_def Let_def)
  obtain H2 where H2: "historical_commit_changes history_rocksdb sample_codec ?H (Some 1) (ChangesList ?chs) = (H2, Inr ())"
    by (simp add: historical_commit_changes_def rocks_commit_changes_def reference_rocksdb_def)
  have col: "original_column 3" by (simp add: original_column_def)
  have old: "rocks_get history_rocksdb (db sample_history) k 3 = Inr None" for k
    by (simp add: rocks_get_def reference_rocksdb_def sample_history_def empty_table.rep_eq)
  note with_history = list_commit_reads[OF sample.history_axioms sample_history_wf ok H1 col]
  note without = list_commit_reads[OF sample.history_axioms wf ok H2 col]
  have "rocks_get history_rocksdb (db H1) [1] 3 = Inr None" "rocks_get history_rocksdb (db H1) [2] 3 = Inr (Some [8])"
    using with_history[of "[1]"] with_history[of "[2]"] by (simp_all add: pol old overlay_def changes_at_def op_value_def last_with_def)
  moreover have "rocks_get history_rocksdb (db H2) [1] 3 = Inr (Some [7])" "rocks_get history_rocksdb (db H2) [2] 3 = Inr (Some [8])"
    using without[of "[1]"] without[of "[2]"] by (simp_all add: pol old overlay_def changes_at_def op_value_def)
  ultimately show ?thesis using H1 H2 by (simp only: Let_def) blast
qed

end
