(* ===== verification/History_Views.thy ===== *)
theory History_Views
  imports Historical_Db
begin

text \<open>
  Old states of the database with history, \<open>view_at_height.rs\<close> and \<open>create_view_at\<close>: after blocks
  have been committed at consecutive heights, a view at one of these heights reads every key as it
  was after that block.  The model of the views is in \<open>Historical_Db\<close>.
\<close>

section \<open>Old views\<close>

text \<open>
  The keys of a column: none is a proper prefix of another one, so that a key followed by a height is never
  mistaken for another key, and none is longer than another one by more than the eight bytes of a height, so that
  the slice of a found key never panics.  Keys of one length are such keys, and so are those of the metadata of a
  merklized table, \<open>Primary\<close> with a height and \<open>Latest\<close>.
\<close>

definition separate_keys :: "bytes set \<Rightarrow> bool" where
  "separate_keys K = (\<forall>k\<in>K. \<forall>k'\<in>K. (starts_with k' k \<longrightarrow> k' = k) \<and> length k \<le> length k' + 8)"

lemma append_le_iff:
  "\<not> starts_with k k' \<Longrightarrow> \<not> starts_with k' k \<Longrightarrow> k @ x \<le> k' @ y \<longleftrightarrow> k < (k' :: 'a::linorder list)"
proof (induction k arbitrary: k')
  case (Cons a k)
  then show ?case by (cases k') auto
qed simp

lemma height_key_le:
  assumes "separate_keys K" "k \<in> K" "k' \<in> K"
  shows "height_key k g \<le> height_key k' g' \<longleftrightarrow> k < k' \<or> k = k' \<and> g \<le> g'"
proof (cases "k = k'")
  case True
  then show ?thesis by (simp add: height_key_def append_le_cancel to_be_bytes_le)
next
  case False
  with assms have "\<not> starts_with k k'" "\<not> starts_with k' k" by (auto simp: separate_keys_def)
  with False show ?thesis by (simp add: height_key_def append_le_iff)
qed

lemma height_key_inj [simp]: "height_key k g = height_key k' g' \<longleftrightarrow> k = k' \<and> g = g'"
  by (simp add: height_key_def append_eq_append_conv)

lemma length_height_key [simp]: "length (height_key k g) = length k + 8"
  by (simp add: height_key_def)

lemma take_height_key: "take (length k) (height_key k g) = k"
  by (simp add: height_key_def)

lemma take_height_key_iff:
  assumes "separate_keys K" "k \<in> K" "k' \<in> K"
  shows "take (length k) (height_key k' g) = k \<longleftrightarrow> k' = k"
proof
  assume t: "take (length k) (height_key k' g) = k"
  show "k' = k"
  proof (cases "length k \<le> length k'")
    case True
    with t have "starts_with k' k" by (simp add: height_key_def starts_with_def)
    with assms show ?thesis by (simp add: separate_keys_def)
  next
    case False
    with t have "starts_with k k'" by (simp add: height_key_def starts_with_def) (metis append_eq_conv_conj)
    with assms show ?thesis by (auto simp: separate_keys_def)
  qed
qed (simp add: take_height_key)

text \<open>Keys of the duplicate column: keys of the column with a height that is at most \<open>n\<close>.\<close>

definition keys_up_to :: "bytes set \<Rightarrow> u64 \<Rightarrow> (bytes, bytes) btree \<Rightarrow> bool" where
  "keys_up_to K n t = (\<forall>hk\<in>fst ` set t. \<exists>k g. hk = height_key k g \<and> k \<in> K \<and> g \<le> n)"

definition seek :: "(bytes, bytes) btree \<Rightarrow> bytes \<Rightarrow> u64 \<Rightarrow> bytes option" where
  "seek t k g =
     (case bt_from (height_key k g) t of
        [] \<Rightarrow> None
      | (found, val) # _ \<Rightarrow> if take (length k) found = k then Some val else None)"

definition nearest :: "(bytes, bytes) btree \<Rightarrow> bytes \<Rightarrow> u64 \<Rightarrow> bytes option \<Rightarrow> bool" where
  "nearest t k g r \<longleftrightarrow>
     (case r of
        None \<Rightarrow> \<forall>g'\<ge>g. map_of t (height_key k g') = None
      | Some val \<Rightarrow> \<exists>g0\<ge>g. map_of t (height_key k g0) = Some val \<and>
          (\<forall>g'. g \<le> g' \<and> g' < g0 \<longrightarrow> map_of t (height_key k g') = None))"

lemma nearest_unique:
  assumes "nearest t k g r" "nearest t k g r'"
  shows "r = r'"
proof (cases r; cases r')
  fix v v' assume [simp]: "r = Some v" "r' = Some v'"
  obtain g0 g1 where g0: "g \<le> g0" "map_of t (height_key k g0) = Some v"
    "\<forall>g'. g \<le> g' \<and> g' < g0 \<longrightarrow> map_of t (height_key k g') = None"
    and g1: "g \<le> g1" "map_of t (height_key k g1) = Some v'"
    "\<forall>g'. g \<le> g' \<and> g' < g1 \<longrightarrow> map_of t (height_key k g') = None"
    using assms by (auto simp: nearest_def)
  have "g0 = g1" by (metis g0 g1 linorder_neqE option.distinct(1))
  with g0(2) g1(2) show ?thesis by simp
qed (use assms in \<open>auto simp: nearest_def\<close>)

lemma seek_nearest:
  assumes "bt_ok t" "keys_up_to K n t" "separate_keys K" "k \<in> K"
  shows "nearest t k g (seek t k g)"
proof -
  let ?u = "bt_from (height_key k g) t"
  have u: "bt_ok ?u" using assms(1) by (simp add: bt_from_def)
  note le = height_key_le[OF assms(3)]
  have key: "\<exists>k' g'. fk = height_key k' g' \<and> k' \<in> K" if "(fk, v) \<in> set ?u" for fk v
    using that assms(2) by (force simp: keys_up_to_def bt_from_def)
  have in_u: "(height_key k g', v) \<in> set ?u"
    if "g \<le> g'" "map_of t (height_key k g') = Some v" for g' v
    using that by (auto simp: bt_from_def le[OF assms(4) assms(4)] dest: map_of_SomeD)
  show ?thesis
  proof (cases ?u)
    case Nil
    have "map_of t (height_key k g') = None" if "g \<le> g'" for g'
      using in_u[OF that] Nil by (cases "map_of t (height_key k g')") auto
    with Nil show ?thesis by (simp add: seek_def nearest_def)
  next
    case (Cons e rest)
    obtain fk v where e: "e = (fk, v)" by (cases e)
    have fk_in: "(fk, v) \<in> set ?u" using Cons e by simp
    obtain k1 g1 where k1: "fk = height_key k1 g1" "k1 \<in> K" using key[OF fk_in] by blast
    have ge: "height_key k g \<le> fk" and fk_t: "(fk, v) \<in> set t"
      using fk_in by (auto simp: bt_from_def)
    have least: "fk \<le> hk" if "(hk, x) \<in> set ?u" for hk x
      using that u Cons e by (auto simp: bt_ok_Cons)
    show ?thesis
    proof (cases "k1 = k")
      case True
      have g1: "g \<le> g1" using ge k1 True by (simp add: le[OF assms(4) assms(4)])
      have v: "map_of t (height_key k g1) = Some v"
        using fk_t k1 True bt_ok_map_of_iff[OF assms(1)] by simp
      have "map_of t (height_key k g') = None" if "g \<le> g'" "g' < g1" for g'
      proof (cases "map_of t (height_key k g')")
        case (Some x)
        from least[OF in_u[OF that(1) Some]] that(2) k1 True show ?thesis
          by (simp add: le[OF assms(4) assms(4)])
      qed
      with g1 v Cons e k1 True show ?thesis by (auto simp: seek_def nearest_def take_height_key)
    next
      case False
      have "map_of t (height_key k g') = None" if "g \<le> g'" for g'
      proof (cases "map_of t (height_key k g')")
        case (Some x)
        have "fk \<le> height_key k g'" using least in_u[OF that Some] by blast
        with ge k1 False have "k < k1" "k1 < k" by (auto simp: le[OF assms(4) k1(2)] le[OF k1(2) assms(4)])
        then show ?thesis by simp
      qed
      with Cons e k1 False take_height_key_iff[OF assms(3,4) k1(2)] show ?thesis by (simp add: seek_def nearest_def)
    qed
  qed
qed

lemma nearest_above: "keys_up_to K n t \<Longrightarrow> n < g \<Longrightarrow> nearest t k g None"
  unfolding nearest_def keys_up_to_def
  by (auto simp: map_of_eq_None_iff)

section \<open>The duplicate columns after a commit\<close>

definition serialized :: "history_codec \<Rightarrow> write_operation \<Rightarrow> bytes" where
  "serialized C x = (case serialize_op C x of Inr b \<Rightarrow> b | Inl _ \<Rightarrow> [])"

lemma historical_entries_at:
  "bt_ok acc \<Longrightarrow> distinct (map fst es) \<Longrightarrow> historical_entries C h es acc = Inr t \<Longrightarrow>
   map_of t (height_key k g) =
     (case map_of es k of
        Some x \<Rightarrow> if g = h then Some (Insert (serialized C x)) else map_of acc (height_key k g)
      | None \<Rightarrow> map_of acc (height_key k g)) \<and>
   fst ` set t = (\<lambda>k. height_key k h) ` fst ` set es \<union> fst ` set acc"
proof (induction C h es acc rule: historical_entries.induct)
  case (2 C h key x es acc)
  obtain b where b: "serialize_op C x = Inr b"
    and rec: "historical_entries C h es (bt_insert (height_key key h) (Insert b) acc) = Inr t"
    using 2(4) by (auto split: sum.splits)
  have nin: "map_of es key = None" using 2(3) by (simp add: map_of_eq_None_iff[THEN iffD2])
  have "map_of (bt_insert (height_key key h) (Insert b) acc) (height_key k g) =
      (if k = key \<and> g = h then Some (Insert b) else map_of acc (height_key k g))"
    using 2(2) by simp
  with 2(1)[OF b _ _ rec] 2(2,3) nin b show ?case
    by (auto simp: serialized_def split: option.splits)
qed simp

lemma historical_changes_at:
  "changes_ok acc \<Longrightarrow> changes_ok rc \<Longrightarrow> original_columns rc \<Longrightarrow> original_column c \<Longrightarrow>
   historical_changes C h rc acc = Inr hist \<Longrightarrow>
   (map_of rc c = None \<longrightarrow> map_of hist (historical_duplicate_column_id c) =
      map_of acc (historical_duplicate_column_id c)) \<and>
   (\<forall>es. map_of rc c = Some es \<longrightarrow>
      (\<exists>t. historical_entries C h es [] = Inr t \<and> map_of hist (historical_duplicate_column_id c) = Some t))"
proof (induction C h rc acc rule: historical_changes.induct)
  case (2 C h c0 es rest acc)
  obtain t where t: "historical_entries C h es [] = Inr t"
    and rec: "historical_changes C h rest (hm_insert (historical_duplicate_column_id c0) t acc) = Inr hist"
    using 2(6) by (auto split: sum.splits)
  have c0: "c0 \<notin> fst ` set rest" "changes_ok rest" using 2(3) by (auto simp: changes_ok_Cons)
  have orig: "original_column c0" "original_columns rest" using 2(4) by (auto simp: original_columns_def)
  have "map_of rest c0 = None" using c0(1) by (simp add: map_of_eq_None_iff[THEN iffD2])
  moreover have "bt_ok t" using historical_entries_ok[OF bt_ok_Nil t] .
  ultimately show ?case
    using 2(1)[OF t _ c0(2) orig(2) 2(5) rec] 2(2) t duplicate_inj[OF 2(5) orig(1)]
    by (auto split: option.splits)
qed simp

lemma historical_at:
  assumes "changes_ok rc" "original_columns rc" "original_column c"
    and "historical_changes C h rc [] = Inr hist"
  shows "changes_at hist (height_key k g) (historical_duplicate_column_id c) =
      (if g = h then map_option (\<lambda>x. Insert (serialized C x)) (changes_at rc k c) else None)"
    and "changes_at hist hk (historical_duplicate_column_id c) = Some y \<Longrightarrow>
      \<exists>k x. hk = height_key k h \<and> changes_at rc k c = Some x"
proof -
  note m = historical_changes_at[OF changes_ok_Nil assms(1-3) assms(4)]
  show "changes_at hist (height_key k g) (historical_duplicate_column_id c) =
      (if g = h then map_option (\<lambda>x. Insert (serialized C x)) (changes_at rc k c) else None)"
  proof (cases "map_of rc c")
    case (Some es)
    have es: "distinct (map fst es)" using changes_ok_tree[OF assms(1) Some] by (rule bt_ok_distinct)
    obtain t where t: "historical_entries C h es [] = Inr t"
      "map_of hist (historical_duplicate_column_id c) = Some t"
      using m Some by blast
    with historical_entries_at[OF bt_ok_Nil es t(1), of k g] Some show ?thesis
      by (auto simp: changes_at_def split: option.splits)
  qed (use m in \<open>simp add: changes_at_def\<close>)
  show "\<exists>k x. hk = height_key k h \<and> changes_at rc k c = Some x"
    if y: "changes_at hist hk (historical_duplicate_column_id c) = Some y"
  proof (cases "map_of rc c")
    case (Some es)
    have es: "bt_ok es" using changes_ok_tree[OF assms(1) Some] .
    obtain t where t: "historical_entries C h es [] = Inr t"
      "map_of hist (historical_duplicate_column_id c) = Some t"
      using m Some by blast
    have "hk \<in> fst ` set t" using y t(2) by (force simp: changes_at_def dest: map_of_SomeD)
    then obtain k where k: "k \<in> fst ` set es" "hk = height_key k h"
      using historical_entries_at[OF bt_ok_Nil bt_ok_distinct[OF es] t(1)] by auto
    then show ?thesis
      using Some bt_ok_map_of_iff[OF es] by (auto simp: changes_at_def)
  qed (use m y in \<open>simp add: changes_at_def\<close>)
qed

section \<open>Runs of commits\<close>

definition history_inv ::
    "history_codec \<Rightarrow> (u32 \<Rightarrow> bytes set) \<Rightarrow> (u32 \<Rightarrow> (bytes, bytes) btree) \<Rightarrow> u64 \<Rightarrow> bool" where
  "history_inv C K tb n \<longleftrightarrow> history_wf C tb \<and>
     (\<forall>c. original_column c \<longrightarrow> separate_keys (K c) \<and> keys_up_to (K c) n (tb (historical_duplicate_column_id c))) \<and>
     (\<forall>g>n. map_of (tb HISTORY_V2_COLUMN_ID) (to_be_bytes g) = None)"

text \<open>Changes of one block: original columns, with keys of each column.\<close>

definition block_changes :: "(u32 \<Rightarrow> bytes set) \<Rightarrow> changes \<Rightarrow> bool" where
  "block_changes K ch \<longleftrightarrow> changes_ok ch \<and> original_columns ch \<and>
     (\<forall>(c, t)\<in>set ch. \<forall>(k, x)\<in>set t. k \<in> K c)"

lemma block_changes_key:
  "block_changes K ch \<Longrightarrow> changes_at ch k c = Some x \<Longrightarrow> k \<in> K c"
  by (fastforce simp: block_changes_def changes_at_def split: option.splits dest: map_of_SomeD)

context history
begin

lemma view_at_get_eq:
  assumes "keys_up_to Kc n (tbl d (historical_duplicate_column_id c))" "separate_keys Kc" "k \<in> Kc"
  shows "view_at_get R C \<lparr>view_height = g, read_db = d\<rparr> k c =
    (case seek (tbl d (historical_duplicate_column_id c)) k g of
       Some val \<Rightarrow> (case deserialize_op C val of Inl e \<Rightarrow> Inl e | Inr x \<Rightarrow> Inr (op_value x))
     | None \<Rightarrow> Inr (map_of (tbl d c) k))"
proof (cases "bt_from (height_key k g) (tbl d (historical_duplicate_column_id c))")
  case Nil
  then show ?thesis
    by (simp add: view_at_get_def iter_total_law mode_items_def seek_def rocks_get_def get_law)
next
  case (Cons e rest)
  obtain fk val where e: "e = (fk, val)" by (cases e)
  have "(fk, val) \<in> set (bt_from (height_key k g) (tbl d (historical_duplicate_column_id c)))"
    using Cons e by simp
  then have "\<not> length fk < length k"
    using assms by (force simp: keys_up_to_def bt_from_def separate_keys_def)
  with Cons e show ?thesis
    by (auto simp: view_at_get_def iter_total_law mode_items_def seek_def rocks_get_def get_law
        op_value_def split: sum.splits write_operation.splits)
qed

lemma deserialize_serialized: "deserialize_op C (serialized C x) = Inr x"
  using serialize_law[of x] by (auto simp: serialized_def)

lemma nearest_after_commit:
  assumes rc: "changes_ok rc" "original_columns rc" "original_column c"
    and hist: "historical_changes C h rc [] = Inr hist"
    and keys: "keys_up_to Kc n t" "n < h" "g \<le> h"
    and upd: "\<And>k. map_of t' k = (case changes_at hist k (historical_duplicate_column_id c) of
      Some x \<Rightarrow> op_value x | None \<Rightarrow> map_of t k)"
    and r: "nearest t k g r"
  shows "nearest t' k g
    (case r of Some val \<Rightarrow> Some val | None \<Rightarrow> map_option (serialized C) (changes_at rc k c))"
proof -
  have at: "map_of t' (height_key k g') =
      (if g' = h \<and> changes_at rc k c \<noteq> None then map_option (serialized C) (changes_at rc k c)
       else map_of t (height_key k g'))" for g'
    using upd[of "height_key k g'"] historical_at(1)[OF rc hist, of k g']
    by (auto simp: op_value_def split: option.splits)
  have top: "map_of t (height_key k g') = None" if "n < g'" for g'
    using nearest_above[OF keys(1) that, of k] by (simp add: nearest_def)
  show ?thesis
  proof (cases r)
    case None
    then have none: "g \<le> g' \<Longrightarrow> map_of t (height_key k g') = None" for g'
      using r by (simp add: nearest_def)
    show ?thesis
    proof (cases "changes_at rc k c")
      case (Some x)
      then show ?thesis using None none at keys(3) unfolding nearest_def
        by (auto intro!: exI[of _ h])
    qed (use None none at in \<open>simp add: nearest_def\<close>)
  next
    case (Some val)
    then obtain g0 where g0: "g \<le> g0" "map_of t (height_key k g0) = Some val"
      "\<forall>g'. g \<le> g' \<and> g' < g0 \<longrightarrow> map_of t (height_key k g') = None"
      using r by (auto simp: nearest_def)
    have "g0 < h" using top[of g0] g0(2) keys(2) by fastforce
    with g0 Some show ?thesis by (auto simp: nearest_def at intro!: exI[of _ g0])
  qed
qed

lemma keys_after_commit:
  assumes ch: "block_changes K ch" and rc: "reverses d ch rc" "original_columns rc" "original_column c"
    and hist: "historical_changes C h rc [] = Inr hist"
    and keys: "keys_up_to (K c) n t" "n < h"
    and upd: "\<And>k. map_of t' k = (case changes_at hist k (historical_duplicate_column_id c) of
      Some x \<Rightarrow> op_value x | None \<Rightarrow> map_of t k)"
  shows "keys_up_to (K c) h t'"
  unfolding keys_up_to_def
proof
  fix hk assume "hk \<in> fst ` set t'"
  then have "map_of t' hk \<noteq> None" by (simp add: map_of_eq_None_iff)
  then consider y where "changes_at hist hk (historical_duplicate_column_id c) = Some y"
    | "map_of t hk \<noteq> None"
    using upd[of hk] by (auto split: option.splits)
  then show "\<exists>k g. hk = height_key k g \<and> k \<in> K c \<and> g \<le> h"
  proof cases
    case 1
    have "changes_ok rc" using rc(1) by (simp add: reverses_def)
    from historical_at(2)[OF this rc(2,3) hist 1] obtain k x where
      k: "hk = height_key k h" "changes_at rc k c = Some x" by blast
    with rc(1) obtain x' where "changes_at ch k c = Some x'"
      by (auto simp: reverses_def split: option.splits)
    from block_changes_key[OF ch this] k(1) show ?thesis by blast
  next
    case 2
    then have "hk \<in> fst ` set t" by (simp add: map_of_eq_None_iff)
    then obtain k g where "hk = height_key k g" "k \<in> K c" "g \<le> n"
      using keys(1) unfolding keys_up_to_def by blast
    with keys(2) show ?thesis by (intro exI[of _ k] exI[of _ g]) auto
  qed
qed

lemma view_after_commit:
  assumes rc: "reverses (db H) ch rc" "original_columns rc" "original_column c"
    and hist: "historical_changes C h rc [] = Inr hist"
    and keys: "keys_up_to Kc n (tbl (db H) (historical_duplicate_column_id c))" "n < h" "g \<le> h"
      "keys_up_to Kc h (tbl (db H2) (historical_duplicate_column_id c))" "separate_keys Kc" "k \<in> Kc"
    and reads: "map_of (tbl (db H2) c) k =
      (case changes_at ch k c of Some x \<Rightarrow> op_value x | None \<Rightarrow> map_of (tbl (db H) c) k)"
    and upd: "\<And>k. map_of (tbl (db H2) (historical_duplicate_column_id c)) k =
      (case changes_at hist k (historical_duplicate_column_id c) of
         Some x \<Rightarrow> op_value x | None \<Rightarrow> map_of (tbl (db H) (historical_duplicate_column_id c)) k)"
  shows "view_at_get R C \<lparr>view_height = g, read_db = db H2\<rparr> k c =
    view_at_get R C \<lparr>view_height = g, read_db = db H\<rparr> k c"
proof -
  let ?t = "tbl (db H) (historical_duplicate_column_id c)"
  let ?t2 = "tbl (db H2) (historical_duplicate_column_id c)"
  have ok: "changes_ok rc" using rc(1) by (simp add: reverses_def)
  have near: "nearest ?t2 k g (case seek ?t k g of Some val \<Rightarrow> Some val
      | None \<Rightarrow> map_option (serialized C) (changes_at rc k c))"
    using nearest_after_commit[OF ok rc(2,3) hist keys(1-3) upd
        seek_nearest[OF tbl_ok keys(1,5,6)]] .
  have seek2: "seek ?t2 k g = (case seek ?t k g of Some val \<Rightarrow> Some val
      | None \<Rightarrow> map_option (serialized C) (changes_at rc k c))"
    using nearest_unique[OF seek_nearest[OF tbl_ok keys(4-6)] near] .
  have at: "changes_at rc k c = (case changes_at ch k c of None \<Rightarrow> None
      | Some x \<Rightarrow> if op_value x = map_of (tbl (db H) c) k then None
          else Some (op_of (map_of (tbl (db H) c) k)))"
    using rc(1) by (simp add: reverses_def)
  show ?thesis
    unfolding view_at_get_eq[OF keys(1,5,6)] view_at_get_eq[OF keys(4-6)] seek2 reads at
    by (simp add: deserialize_serialized split: option.splits)
qed

lemma commit_step:
  assumes ch: "block_changes K ch" and full: "state_rewind_policy H = RewindFullRange"
    and inv: "history_inv C K (tbl (db H)) n" and h: "n < h"
    and run: "historical_commit_changes R C H (Some h) (Changes ch) = (H2, Inr ())"
  shows "history_inv C K (tbl (db H2)) h" "state_rewind_policy H2 = RewindFullRange"
    and "original_column c \<Longrightarrow> map_of (tbl (db H2) c) k =
      (case changes_at ch k c of Some x \<Rightarrow> op_value x | None \<Rightarrow> map_of (tbl (db H) c) k)"
    and "map_of (tbl (db H2) HISTORY_V2_COLUMN_ID) (to_be_bytes g) \<noteq> None \<longleftrightarrow>
      g = h \<or> map_of (tbl (db H) HISTORY_V2_COLUMN_ID) (to_be_bytes g) \<noteq> None"
    and "g \<le> h \<Longrightarrow> original_column c \<Longrightarrow> k \<in> K c \<Longrightarrow>
      view_at_get R C \<lparr>view_height = g, read_db = db H2\<rparr> k c =
      view_at_get R C \<lparr>view_height = g, read_db = db H\<rparr> k c"
proof -
  have ok: "changes_ok ch" "original_columns ch" using ch by (simp_all add: block_changes_def)
  have nr: "state_rewind_policy H \<noteq> NoRewind" using full by simp
  have wf: "history_wf C (tbl (db H))"
    and none: "map_of (tbl (db H) HISTORY_V2_COLUMN_ID) (to_be_bytes h) = None"
    and keys: "\<And>c. original_column c \<Longrightarrow>
      keys_up_to (K c) n (tbl (db H) (historical_duplicate_column_id c))"
    and sep: "\<And>c. original_column c \<Longrightarrow> separate_keys (K c)"
    using inv h by (simp_all add: history_inv_def)
  obtain rc hist where rc: "reverses (db H) ch rc" and hist: "historical_changes C h rc [] = Inr hist"
    and pol: "state_rewind_policy H2 = state_rewind_policy H"
    and reads: "\<And>k c. original_column c \<Longrightarrow> map_of (tbl (db H2) c) k =
      (case changes_at ch k c of Some x \<Rightarrow> op_value x | None \<Rightarrow> map_of (tbl (db H) c) k)"
    and v2: "map_of (tbl (db H2) HISTORY_V2_COLUMN_ID) (to_be_bytes h) = Some (encode_changes C rc)"
    and more: "state_rewind_policy H = RewindFullRange \<Longrightarrow>
      map_of (tbl (db H) HISTORY_V2_COLUMN_ID) (to_be_bytes h) = None \<Longrightarrow>
      (\<forall>k c. original_column c \<longrightarrow> map_of (tbl (db H2) (historical_duplicate_column_id c)) k =
        (case changes_at hist k (historical_duplicate_column_id c) of
           Some x \<Rightarrow> op_value x
         | None \<Rightarrow> map_of (tbl (db H) (historical_duplicate_column_id c)) k)) \<and>
      (\<forall>g. g \<noteq> h \<longrightarrow> map_of (tbl (db H2) HISTORY_V2_COLUMN_ID) (to_be_bytes g) =
        map_of (tbl (db H) HISTORY_V2_COLUMN_ID) (to_be_bytes g))"
    by (rule commit_history[OF ok nr wf run]) (rule that; assumption)
  note dups = more[OF full none, THEN conjunct1, rule_format]
  note v2s = more[OF full none, THEN conjunct2, rule_format]
  have rc_orig: "original_columns rc"
    using rc ok(2) by (simp add: reverses_def original_columns_def)
  note keys2 = keys_after_commit[OF ch rc rc_orig _ hist keys h dups]
  show "history_inv C K (tbl (db H2)) h"
    unfolding history_inv_def
  proof (intro conjI allI impI)
    show "history_wf C (tbl (db H2))"
      by (rule history_wf_after_commit[where h = h, OF wf ok(2) rc]) (use v2 in \<open>simp_all add: v2s\<close>)
    show "map_of (tbl (db H2) HISTORY_V2_COLUMN_ID) (to_be_bytes g) = None" if "g > h" for g
      using that v2s[of g] inv h by (auto simp: history_inv_def)
  qed (use keys2 sep in auto)
  show "state_rewind_policy H2 = RewindFullRange" using pol full by simp
  show "map_of (tbl (db H2) HISTORY_V2_COLUMN_ID) (to_be_bytes g) \<noteq> None \<longleftrightarrow>
      g = h \<or> map_of (tbl (db H) HISTORY_V2_COLUMN_ID) (to_be_bytes g) \<noteq> None"
    using v2 v2s[of g] by (cases "g = h") auto
  show "view_at_get R C \<lparr>view_height = g, read_db = db H2\<rparr> k c =
      view_at_get R C \<lparr>view_height = g, read_db = db H\<rparr> k c"
    if "g \<le> h" and c: "original_column c" and k: "k \<in> K c"
    using view_after_commit[OF rc rc_orig c hist keys[OF c] h that(1) keys2[OF c c c] sep[OF c] k reads[OF c] dups[OF c]] .
  show "original_column c \<Longrightarrow> map_of (tbl (db H2) c) k =
      (case changes_at ch k c of Some x \<Rightarrow> op_value x | None \<Rightarrow> map_of (tbl (db H) c) k)"
    by (rule reads)
qed

end

text \<open>Blocks committed one after the other at consecutive heights.\<close>

fun commit_blocks ::
    "'db rocksdb_api \<Rightarrow> history_codec \<Rightarrow> 'db historical_rocksdb \<Rightarrow> u64 \<Rightarrow> changes list
     \<Rightarrow> 'db historical_rocksdb \<times> unit storage_result" where
  "commit_blocks R C H h [] = (H, Inr ())"
| "commit_blocks R C H h (ch # chs) =
     (case historical_commit_changes R C H (Some h) (Changes ch) of
        (H', Inl e) \<Rightarrow> (H', Inl e)
      | (H', Inr _) \<Rightarrow> commit_blocks R C H' (h + 1) chs)"

text \<open>The value of a key after some blocks.\<close>

definition after_blocks :: "changes list \<Rightarrow> bytes \<Rightarrow> u32 \<Rightarrow> bytes option \<Rightarrow> bytes option" where
  "after_blocks chs k c v =
     fold (\<lambda>ch v. case changes_at ch k c of Some x \<Rightarrow> op_value x | None \<Rightarrow> v) chs v"

context history
begin

lemma view_latest:
  assumes "history_inv C K (tbl d) n" "n < g" "original_column c" "k \<in> K c"
  shows "view_at_get R C \<lparr>view_height = g, read_db = d\<rparr> k c = Inr (map_of (tbl d c) k)"
proof -
  have keys: "keys_up_to (K c) n (tbl d (historical_duplicate_column_id c))" "separate_keys (K c)"
    using assms by (simp_all add: history_inv_def)
  have "seek (tbl d (historical_duplicate_column_id c)) k g = None"
    using nearest_unique[OF seek_nearest[OF tbl_ok keys assms(4)] nearest_above[OF keys(1) assms(2)]] .
  then show ?thesis by (simp add: view_at_get_eq[OF keys assms(4)])
qed

lemma unat_height: "unat n + i < 2 ^ 64 \<Longrightarrow> unat (n + of_nat i :: u64) = unat n + i"
  by (simp add: unat_word_ariths unsigned_of_nat take_bit_nat_eq_self)

lemma commit_blocks_views:
  assumes "\<forall>ch\<in>set chs. block_changes K ch" "state_rewind_policy H = RewindFullRange"
    and "history_inv C K (tbl (db H)) n" "unat n + length chs + 1 < 2 ^ 64"
    and "commit_blocks R C H (n + 1) chs = (H', Inr ())"
  shows "history_inv C K (tbl (db H')) (n + of_nat (length chs)) \<and>
    (\<forall>g\<le>n + 1. \<forall>k c. original_column c \<longrightarrow> k \<in> K c \<longrightarrow>
      view_at_get R C \<lparr>view_height = g, read_db = db H'\<rparr> k c =
      view_at_get R C \<lparr>view_height = g, read_db = db H\<rparr> k c) \<and>
    (\<forall>i\<le>length chs. \<forall>k c. original_column c \<longrightarrow> k \<in> K c \<longrightarrow>
      view_at_get R C \<lparr>view_height = n + of_nat i + 1, read_db = db H'\<rparr> k c =
      Inr (after_blocks (take i chs) k c (map_of (tbl (db H) c) k))) \<and>
    (\<forall>i. 0 < i \<and> i \<le> length chs \<longrightarrow>
      map_of (tbl (db H') HISTORY_V2_COLUMN_ID) (to_be_bytes (n + of_nat i)) \<noteq> None) \<and>
    (\<forall>g. map_of (tbl (db H) HISTORY_V2_COLUMN_ID) (to_be_bytes g) \<noteq> None \<longrightarrow>
      map_of (tbl (db H') HISTORY_V2_COLUMN_ID) (to_be_bytes g) \<noteq> None)"
  using assms
proof (induction chs arbitrary: H n)
  case Nil
  have "n < n + 1" using Nil.prems(4) by (simp add: word_less_nat_alt unat_word_ariths)
  with view_latest[OF Nil.prems(3)] Nil.prems show ?case by (simp add: after_blocks_def)
next
  case (Cons ch chs)
  obtain H1 where c: "historical_commit_changes R C H (Some (n + 1)) (Changes ch) = (H1, Inr ())"
    and rec: "commit_blocks R C H1 (n + 1 + 1) chs = (H', Inr ())"
    using Cons.prems(5) by (auto split: prod.splits sum.splits)
  have n1: "n < n + 1" "unat (n + 1) = unat n + 1"
    using Cons.prems(4) by (simp_all add: word_less_nat_alt unat_word_ariths)
  have n2: "n + 1 \<le> n + 1 + 1"
    using Cons.prems(4) n1 by (simp add: word_le_nat_alt unat_word_ariths)
  have ch: "block_changes K ch" using Cons.prems(1) by simp
  note step = commit_step[OF ch Cons.prems(2,3) n1(1) c]
  have len: "unat (n + 1) + length chs + 1 < 2 ^ 64" using Cons.prems(4) n1(2) by simp
  have chs: "\<forall>ch\<in>set chs. block_changes K ch" using Cons.prems(1) by simp
  note IH = Cons.IH[OF chs step(2,1) len rec]
  have views: "view_at_get R C \<lparr>view_height = g, read_db = db H'\<rparr> k c =
      view_at_get R C \<lparr>view_height = g, read_db = db H\<rparr> k c"
    if "g \<le> n + 1" "original_column c" "k \<in> K c" for g k c
  proof -
    have "g \<le> n + 1 + 1" using that(1) n2 by (rule order.trans)
    with IH that step(5)[OF that] show ?thesis by simp
  qed
  have later: "view_at_get R C \<lparr>view_height = n + of_nat i + 1, read_db = db H'\<rparr> k c =
      Inr (after_blocks (take i (ch # chs)) k c (map_of (tbl (db H) c) k))"
    if i: "i \<le> length (ch # chs)" and c: "original_column c" "k \<in> K c" for i k c
  proof (cases i)
    case 0
    show ?thesis
      using views[of "n + 1" c k] view_latest[OF Cons.prems(3) n1(1) c] c 0
      by (simp add: after_blocks_def)
  next
    case (Suc j)
    have "view_at_get R C \<lparr>view_height = n + 1 + of_nat j + 1, read_db = db H'\<rparr> k c =
        Inr (after_blocks (take j chs) k c (map_of (tbl (db H1) c) k))"
      using IH i Suc c by simp
    with step(3)[OF c(1), of k] Suc show ?thesis
      by (simp add: after_blocks_def add.commute add.left_commute split: option.splits)
  qed
  have v2: "map_of (tbl (db H') HISTORY_V2_COLUMN_ID) (to_be_bytes (n + of_nat i)) \<noteq> None"
    if "0 < i" "i \<le> length (ch # chs)" for i
  proof (cases "i = 1")
    case True
    then show ?thesis using IH step(4)[of "n + 1"] by simp
  next
    case False
    with that obtain j where "i = Suc j" "0 < j" "j \<le> length chs" by (cases i) auto
    then show ?thesis using IH by (simp add: add.commute add.left_commute)
  qed
  show ?case
    using IH views later v2 step(4) by (simp add: add.commute add.left_commute add.assoc)
qed

lemma commit_blocks_total:
  assumes "\<forall>ch\<in>set chs. block_changes K ch" "state_rewind_policy H = RewindFullRange"
    and "history_inv C K (tbl (db H)) n" "unat n + length chs + 1 < 2 ^ 64"
    and total: "\<And>d b. \<exists>d'. write_db R d b = (d', Inr ())"
  shows "\<exists>H'. commit_blocks R C H (n + 1) chs = (H', Inr ())"
  using assms(1-4)
proof (induction chs arbitrary: H n)
  case (Cons ch chs)
  have ch: "block_changes K ch" using Cons.prems(1) by simp
  obtain H1 where H1: "historical_commit_changes R C H (Some (n + 1)) (Changes ch) = (H1, Inr ())"
    using commit_total[OF _ _ Cons.prems(2) _ total] ch Cons.prems(3)
    unfolding block_changes_def history_inv_def by blast
  have n1: "n < n + 1" "unat (n + 1) = unat n + 1"
    using Cons.prems(4) by (simp_all add: word_less_nat_alt unat_word_ariths)
  note step = commit_step[OF ch Cons.prems(2,3) n1(1) H1]
  have "\<exists>H'. commit_blocks R C H1 (n + 1 + 1) chs = (H', Inr ())"
    using Cons.IH[OF _ step(2,1)] Cons.prems(1,4) n1(2) by simp
  with H1 show ?case by simp
qed simp

end

section \<open>Properties\<close>

lemma sample_history_inv:
  "(\<And>c. separate_keys (K c)) \<Longrightarrow> history_inv sample_codec K (reference_table (db sample_history)) 0"
  by (simp add: history_inv_def history_wf_def keys_up_to_def sample_history_def reference_table_def
      empty_table.rep_eq)

text \<open>The keys of the metadata of a merklized table: \<open>Primary\<close> with a height, and \<open>Latest\<close>.\<close>

definition metadata_keys :: "bytes set" where
  "metadata_keys = insert [1] (range (\<lambda>h :: u32. 0 # word_bytes h))"

lemma metadata_keys_separate: "separate_keys metadata_keys"
  by (auto simp: separate_keys_def metadata_keys_def starts_with_def)

lemma multiversion_contains_total:
  assumes "rocksdb_ordered R tbl"
  obtains b where "multiversion_contains R C (write_transaction d) g v1 = Inr b"
    "map_of (tbl d HISTORY_V2_COLUMN_ID) (to_be_bytes g) \<noteq> None \<Longrightarrow> b"
proof -
  have ex: "tx_exists (rocks_kv R) (write_transaction d) k c = Inr (map_of (tbl d c) k \<noteq> None)" for k c
    using rocksdb_ordered.get_law[OF assms]
    by (simp add: tx_exists_def get_from_changes_def write_transaction_def transaction_def
        rocks_kv_def default_exists_def rocks_size_of_value_def)
  show ?thesis
    by (rule that[of "map_of (tbl d HISTORY_V2_COLUMN_ID) (to_be_bytes g) \<noteq> None \<or>
        v1 \<and> map_of (tbl d HISTORY_COLUMN_ID) (encode_v1_key C g) \<noteq> None"])
      (simp_all add: multiversion_contains_def ex)
qed

lemma create_view_at_ok:
  assumes "rocksdb_ordered R tbl" "unat g + 1 < 2 ^ 64"
    and "map_of (tbl (db H) HISTORY_V2_COLUMN_ID) (to_be_bytes g) \<noteq> None \<or>
      map_of (tbl (db H) HISTORY_V2_COLUMN_ID) (to_be_bytes (g + 1)) \<noteq> None"
  shows "create_view_at R C H g = Inr \<lparr>view_height = g + 1, read_db = db H\<rparr>"
proof -
  have add: "sat_add g 1 = g + 1" using assms(2) by (simp add: sat_add_def)
  obtain b1 where b1: "multiversion_contains R C (write_transaction (db H)) (g + 1) (has_v1_history H) = Inr b1"
    "map_of (tbl (db H) HISTORY_V2_COLUMN_ID) (to_be_bytes (g + 1)) \<noteq> None \<Longrightarrow> b1"
    by (rule multiversion_contains_total[OF assms(1), of C "db H" "g + 1"]) (rule that)
  obtain b2 where b2: "multiversion_contains R C (write_transaction (db H)) g (has_v1_history H) = Inr b2"
    "map_of (tbl (db H) HISTORY_V2_COLUMN_ID) (to_be_bytes g) \<noteq> None \<Longrightarrow> b2"
    by (rule multiversion_contains_total[OF assms(1), of C "db H" g]) (rule that)
  have "b1 \<or> b2" using assms(3) b1(2) b2(2) by blast
  then show ?thesis by (auto simp: create_view_at_def Let_def add b1(1) b2(1) split: bool.splits)
qed

text \<open>
  C6. Reading old states.  Commit blocks one after the other at consecutive heights to a database
  that keeps the full history, where no key of a column is a proper prefix of another one or longer than
  another one by more than eight bytes: all commits succeed, if no write to the database fails; a view can
  then be created at every height from the one before the first block to the last one, and it reads every
  such key of a column as it was after the block of that height.
\<close>

theorem views_read_old_states:
  assumes "history R tbl C" "state_rewind_policy H = RewindFullRange" "history_inv C K (tbl (db H)) n"
    and "\<forall>ch\<in>set chs. block_changes K ch" "chs \<noteq> []" "unat n + length chs + 1 < 2 ^ 64"
    and "\<And>d b. \<exists>d'. write_db R d b = (d', Inr ())"
  shows "\<exists>H'. commit_blocks R C H (n + 1) chs = (H', Inr ()) \<and>
    (\<forall>i\<le>length chs. \<exists>v. create_view_at R C H' (n + of_nat i) = Inr v \<and>
      (\<forall>k c. original_column c \<longrightarrow> k \<in> K c \<longrightarrow>
        view_at_get R C v k c = Inr (after_blocks (take i chs) k c (map_of (tbl (db H) c) k))))"
proof -
  have R: "rocksdb_ordered R tbl" using assms(1) by (rule history.axioms)
  obtain H' where H': "commit_blocks R C H (n + 1) chs = (H', Inr ())"
    using history.commit_blocks_total[OF assms(1,4,2,3,6,7)] by blast
  note views = history.commit_blocks_views[OF assms(1,4,2,3,6) H']
  have v2: "map_of (tbl (db H') HISTORY_V2_COLUMN_ID) (to_be_bytes (n + of_nat i)) \<noteq> None"
    if "0 < i" "i \<le> length chs" for i
    using views[THEN conjunct2, THEN conjunct2, THEN conjunct2, THEN conjunct1] that by simp
  have create: "create_view_at R C H' (n + of_nat i) = Inr \<lparr>view_height = n + of_nat i + 1, read_db = db H'\<rparr>"
    if i: "i \<le> length chs" for i
  proof (rule create_view_at_ok[OF R])
    show "unat (n + of_nat i) + 1 < 2 ^ 64"
      using history.unat_height[OF assms(1), of n i] i assms(6) by simp
    show "map_of (tbl (db H') HISTORY_V2_COLUMN_ID) (to_be_bytes (n + of_nat i)) \<noteq> None \<or>
        map_of (tbl (db H') HISTORY_V2_COLUMN_ID) (to_be_bytes (n + of_nat i + 1)) \<noteq> None"
      using v2[of i] v2[of "Suc i"] i assms(5) by (cases i; cases chs) (auto simp: add.commute add.left_commute)
  qed
  have reads: "view_at_get R C \<lparr>view_height = n + of_nat i + 1, read_db = db H'\<rparr> k c =
      Inr (after_blocks (take i chs) k c (map_of (tbl (db H) c) k))"
    if "i \<le> length chs" "original_column c" "k \<in> K c" for i k c
    using views[THEN conjunct2, THEN conjunct2, THEN conjunct1] that by simp
  show ?thesis
  proof (intro exI[of _ H'] conjI allI impI)
    fix i assume i: "i \<le> length chs"
    show "\<exists>v. create_view_at R C H' (n + of_nat i) = Inr v \<and>
        (\<forall>k c. original_column c \<longrightarrow> k \<in> K c \<longrightarrow>
          view_at_get R C v k c = Inr (after_blocks (take i chs) k c (map_of (tbl (db H) c) k)))"
      using create[OF i] reads[OF i] by blast
  qed (rule H')
qed

theorem views_read_old_states_witness:
  "let block = \<lambda>h x. [(3, [([0, 0, 0, 0, h], Insert [x]), ([1], Insert [x])])]; chs = [block 1 7, block 2 8] in
   (\<forall>ch\<in>set chs. block_changes (\<lambda>_. metadata_keys) ch) \<and>
   (\<exists>H'. commit_blocks history_rocksdb sample_codec sample_history 1 chs = (H', Inr ()) \<and>
     (\<exists>v. create_view_at history_rocksdb sample_codec H' 1 = Inr v \<and>
       view_at_get history_rocksdb sample_codec v [1] 3 = Inr (Some [7]) \<and>
       view_at_get history_rocksdb sample_codec v [0, 0, 0, 0, 2] 3 = Inr None) \<and>
     (\<exists>v. create_view_at history_rocksdb sample_codec H' 2 = Inr v \<and>
       view_at_get history_rocksdb sample_codec v [1] 3 = Inr (Some [8])))"
proof -
  let ?chs = "[[(3, [([0, 0, 0, 0, 1], Insert [7]), ([1], Insert [7])])],
    [(3, [([0, 0, 0, 0, 2], Insert [8]), ([1], Insert [8])])]] :: changes list"
  have keys: "[1] \<in> metadata_keys" "[0, 0, 0, 0, 1] \<in> metadata_keys" "[0, 0, 0, 0, 2] \<in> metadata_keys"
    by (auto simp: metadata_keys_def word_bytes_def image_iff intro: exI[of _ 1] exI[of _ 2])
  then have ok: "\<forall>ch\<in>set ?chs. block_changes (\<lambda>_. metadata_keys) ch"
    by (simp add: block_changes_def changes_ok_def hm_ok_def bt_ok_def original_columns_def original_column_def)
  have inv: "history_inv sample_codec (\<lambda>_. metadata_keys) (reference_table (db sample_history)) 0"
    by (rule sample_history_inv) (rule metadata_keys_separate)
  have pol: "state_rewind_policy sample_history = RewindFullRange" by (simp add: sample_history_def)
  have len: "unat (0 :: u64) + length ?chs + 1 < 2 ^ 64" and ne: "?chs \<noteq> []" by simp_all
  obtain H' where H': "commit_blocks history_rocksdb sample_codec sample_history (0 + 1) ?chs = (H', Inr ())"
    and v: "\<And>i. i \<le> length ?chs \<Longrightarrow> \<exists>v. create_view_at history_rocksdb sample_codec H' (0 + of_nat i) = Inr v \<and>
      (\<forall>k c. original_column c \<longrightarrow> k \<in> metadata_keys \<longrightarrow>
        view_at_get history_rocksdb sample_codec v k c =
        Inr (after_blocks (take i ?chs) k c (map_of (reference_table (db sample_history) c) k)))"
    using views_read_old_states[OF sample.history_axioms pol inv ok ne len reference_write_total] by blast
  have col: "original_column 3" by (simp add: original_column_def)
  have none: "map_of (reference_table (db sample_history) 3) k = None" for k
    by (simp add: reference_table_def sample_history_def empty_table.rep_eq)
  obtain v1 where v1: "create_view_at history_rocksdb sample_codec H' 1 = Inr v1"
    "view_at_get history_rocksdb sample_codec v1 [1] 3 = Inr (Some [7])"
    "view_at_get history_rocksdb sample_codec v1 [0, 0, 0, 0, 2] 3 = Inr None"
    using v[of 1] col keys none by (auto simp: after_blocks_def changes_at_def op_value_def)
  obtain v2 where v2: "create_view_at history_rocksdb sample_codec H' 2 = Inr v2"
    "view_at_get history_rocksdb sample_codec v2 [1] 3 = Inr (Some [8])"
    using v[of 2] col keys by (auto simp: after_blocks_def changes_at_def op_value_def)
  show ?thesis using ok H' v1 v2 unfolding Let_def by (simp only: add_0) blast
qed

end
