(* ===== verification/Sync_State.thy ===== *)
theory Sync_State
  imports Rust_Prelude
begin

text \<open>
  The state of the block synchronisation (\<^verbatim>\<open>src/crates/services/sync/src/state.rs\<close> and \<^verbatim>\<open>sync.rs\<close>).  The
  service collects evidence, heights that were observed on the network and heights that were committed, and
  derives from it the range of heights that is to be imported.  The state is shown to refine a pair of
  numbers, the next height to import and the first height behind the target, without the case distinctions
  and the special treatment of the ends of the 32 bit range.
\<close>

section \<open>Inclusive ranges\<close>

type_synonym range_inclusive = "u32 \<times> u32"

definition range_is_empty :: "range_inclusive \<Rightarrow> bool" where
  "range_is_empty r = (\<not> fst r \<le> snd r)"

definition range_contains :: "range_inclusive \<Rightarrow> u32 \<Rightarrow> bool" where
  "range_contains r h = (fst r \<le> h \<and> h \<le> snd r)"

section \<open>state.rs\<close>

datatype status =
    Uninitialized
  | Processing range_inclusive
  | Committed u32

fun state_new :: "u32 option \<Rightarrow> u32 option \<Rightarrow> status" where
  "state_new (Some committed) (Some observed) =
     (case checked_add committed 1 of
        None \<Rightarrow> Committed committed
      | Some next_height \<Rightarrow>
          (let rng = (next_height, observed) in
           if range_is_empty rng then Committed committed else Processing rng))"
| "state_new (Some committed) None = Committed committed"
| "state_new None (Some observed) = Processing (0, observed)"
| "state_new None None = Uninitialized"

fun process_range :: "status \<Rightarrow> range_inclusive option" where
  "process_range (Processing rng) = Some rng"
| "process_range _ = None"

fun apply_status :: "status \<Rightarrow> status option \<Rightarrow> status" where
  "apply_status s (Some s') = s'"
| "apply_status s None = s"

definition state_commit :: "u32 \<Rightarrow> status \<Rightarrow> status" where
  "state_commit height s =
     apply_status s
       (case s of
          Processing rng \<Rightarrow>
            if height < fst rng then None
            else if height < snd rng then Some (Processing (sat_add height 1, snd rng))
            else Some (Committed height)
        | Uninitialized \<Rightarrow> Some (Committed height)
        | Committed existing \<Rightarrow> if height \<le> existing then None else Some (Committed height))"

definition observed_status :: "u32 \<Rightarrow> status \<Rightarrow> status option" where
  "observed_status height s =
     (case s of
        Uninitialized \<Rightarrow> Some (Processing (0, height))
      | Processing rng \<Rightarrow> if snd rng < height then Some (Processing (fst rng, height)) else None
      | Committed committed \<Rightarrow>
          (case checked_add committed 1 of
             None \<Rightarrow> None
           | Some next_height \<Rightarrow>
               (let r = (next_height, height) in if range_is_empty r then None else Some (Processing r))))"

definition state_observe :: "u32 \<Rightarrow> status \<Rightarrow> status \<times> bool" where
  "state_observe height s =
     (let new_status = observed_status height s in (apply_status s new_status, new_status \<noteq> None))"

text \<open>The last height before a height, or none.\<close>

definition reverted :: "u32 \<Rightarrow> status" where
  "reverted start = (case checked_sub start 1 of None \<Rightarrow> Uninitialized | Some prev \<Rightarrow> Committed prev)"

fun failed_status :: "range_inclusive \<Rightarrow> status \<Rightarrow> status option" where
  "failed_status rng (Processing processing) =
     (if range_contains rng (fst processing) then Some (reverted (fst processing))
      else if range_contains rng (snd processing) \<or> range_contains processing (fst rng)
      then Some (case checked_sub (fst rng) 1 of
                   None \<Rightarrow> Uninitialized
                 | Some prev \<Rightarrow> Processing (fst processing, prev))
      else if range_contains processing (snd rng) then Some (reverted (fst processing))
      else None)"
| "failed_status rng _ = None"

definition failed_to_process :: "range_inclusive \<Rightarrow> status \<Rightarrow> status" where
  "failed_to_process rng s = apply_status s (if range_is_empty rng then None else failed_status rng s)"

section \<open>sync.rs\<close>

datatype incoming_height = IncomingObserved u32 | IncomingCommitted u32

text \<open>One element of the height stream: the new state and whether the import task is notified.\<close>

fun sync_height :: "incoming_height \<Rightarrow> status \<Rightarrow> status \<times> bool" where
  "sync_height (IncomingCommitted height) s = (state_commit height s, False)"
| "sync_height (IncomingObserved height) s = state_observe height s"

text \<open>What happens to the shared state: heights arrive and the import reports failures.\<close>

datatype sync_event = Height incoming_height | Failed range_inclusive

fun state_event :: "status \<Rightarrow> sync_event \<Rightarrow> status" where
  "state_event s (Height h) = fst (sync_height h s)"
| "state_event s (Failed rng) = failed_to_process rng s"

section \<open>The abstract state\<close>

text \<open>The next height to import and the first height that is not wanted yet.  Nothing is left to do when
  they are equal.\<close>

type_synonym progress = "nat \<times> nat"

fun progress_of :: "status \<Rightarrow> progress" where
  "progress_of Uninitialized = (0, 0)"
| "progress_of (Processing rng) = (unat (fst rng), unat (snd rng) + 1)"
| "progress_of (Committed h) = (unat h + 1, unat h + 1)"

fun abs_event :: "progress \<Rightarrow> sync_event \<Rightarrow> progress" where
  "abs_event (n, t) (Height (IncomingObserved h)) = (n, max t (unat h + 1))"
| "abs_event (n, t) (Height (IncomingCommitted h)) = (max n (unat h + 1), max t (unat h + 1))"
| "abs_event (n, t) (Failed (a, b)) =
     (if unat a \<le> unat b \<and> n < t \<and> unat a < t \<and> n \<le> unat b then (n, max n (unat a)) else (n, t))"

fun status_ok :: "status \<Rightarrow> bool" where
  "status_ok (Processing rng) = (\<not> range_is_empty rng)"
| "status_ok _ = True"

section \<open>Refinement\<close>

text \<open>The operations read as arithmetic on natural numbers.\<close>

lemmas sync_simps = range_is_empty_def range_contains_def word_le_nat_alt word_less_nat_alt not_le not_less

lemma unat_next: "h < k \<Longrightarrow> unat (sat_add h 1) = unat h + 1" for h k :: u32
  using unat_less_pow[of k] by (simp add: sat_simps word_less_nat_alt)

lemma progress_commit:
  assumes "status_ok s"
  shows "progress_of (state_commit h s) = abs_event (progress_of s) (Height (IncomingCommitted h))
    \<and> status_ok (state_commit h s)"
  using assms unat_next[of h]
  by (cases s) (auto simp: state_commit_def sync_simps)

lemma checked_add_None: "checked_add h 1 = None \<longleftrightarrow> unat h + 1 = 2 ^ 32" for h :: u32
  using unat_less_pow[of h] by (auto simp: checked_add_def)

lemma progress_observe:
  assumes "status_ok s"
  shows "progress_of (fst (state_observe h s)) = abs_event (progress_of s) (Height (IncomingObserved h))
    \<and> status_ok (fst (state_observe h s))
    \<and> (snd (state_observe h s) \<longleftrightarrow> snd (progress_of s) \<le> unat h)"
proof (cases s)
  case (Committed c)
  then show ?thesis
  proof (cases "checked_add c 1")
    case None
    then have "unat h \<le> unat c" using unat_less_pow[of h] by (simp add: checked_add_None)
    with Committed None show ?thesis by (simp add: state_observe_def observed_status_def)
  next
    case (Some n)
    then have "unat n = unat c + 1" by (simp add: sat_simps)
    with Some show ?thesis
      using Committed by (auto simp: state_observe_def observed_status_def sync_simps Let_def)
  qed
qed (use assms in \<open>auto simp: state_observe_def observed_status_def sync_simps\<close>)

lemma unat_pos: "h \<noteq> 0 \<Longrightarrow> unat h = Suc (unat (h - 1)) \<and> 1 \<le> h" for h :: u32
  using unat_minus_one[of h] unat_eq_zero[of h] by (auto simp: word_le_nat_alt simp del: unat_eq_zero)

lemma progress_reverted: "progress_of (reverted start) = (unat start, unat start) \<and> status_ok (reverted start)"
  using unat_pos[of start] by (cases "start = 0") (auto simp: reverted_def checked_sub_def)

lemma progress_failed:
  assumes "status_ok s"
  shows "progress_of (failed_to_process (a, b) s) = abs_event (progress_of s) (Failed (a, b))
    \<and> status_ok (failed_to_process (a, b) s)"
proof (cases s)
  case (Processing rng)
  obtain x y where r: "rng = (x, y)" by fastforce
  have xy: "unat x \<le> unat y" using assms Processing r by (simp add: sync_simps)
  show ?thesis
  proof (cases "unat x < unat a")
    case True
    then have "a \<noteq> 0" by auto
    note pos = unat_pos[OF this]
    with True xy show ?thesis
      by (auto simp: failed_to_process_def Processing r sync_simps checked_sub_def)
  next
    case False
    with xy show ?thesis
      by (auto simp: failed_to_process_def Processing r sync_simps progress_reverted)
  qed
qed (simp_all add: failed_to_process_def)

lemma progress_event:
  "status_ok s \<Longrightarrow> progress_of (state_event s e) = abs_event (progress_of s) e \<and> status_ok (state_event s e)"
proof (cases e)
  case (Height h)
  then show "status_ok s \<Longrightarrow> ?thesis"
    using progress_commit progress_observe by (cases h) auto
next
  case (Failed rng)
  then show "status_ok s \<Longrightarrow> ?thesis"
    using progress_failed by (cases rng) simp
qed

fun abs_new :: "u32 option \<Rightarrow> u32 option \<Rightarrow> progress" where
  "abs_new None None = (0, 0)"
| "abs_new None (Some observed) = (0, unat observed + 1)"
| "abs_new (Some committed) None = (unat committed + 1, unat committed + 1)"
| "abs_new (Some committed) (Some observed) = (unat committed + 1, max (unat committed + 1) (unat observed + 1))"

lemma progress_new: "progress_of (state_new c ob) = abs_new c ob \<and> status_ok (state_new c ob)"
proof (cases "(c, ob)" rule: state_new.cases)
  case (1 committed observed)
  then show ?thesis
  proof (cases "checked_add committed 1")
    case None
    then have "unat observed \<le> unat committed" using unat_less_pow[of observed] by (simp add: checked_add_None)
    with 1 None show ?thesis by simp
  next
    case (Some n)
    then have "unat n = unat committed + 1" by (simp add: sat_simps)
    with 1 Some show ?thesis by (auto simp: sync_simps Let_def)
  qed
qed (auto simp: sync_simps)

lemma progress_run:
  "status_ok s \<Longrightarrow> progress_of (foldl state_event s es) = foldl abs_event (progress_of s) es
    \<and> status_ok (foldl state_event s es)"
  by (induction es arbitrary: s) (auto simp: progress_event)

lemma process_range_progress:
  assumes "status_ok s"
  shows "case process_range s of
      None \<Rightarrow> fst (progress_of s) = snd (progress_of s)
    | Some (a, b) \<Rightarrow> a \<le> b \<and> unat a = fst (progress_of s) \<and> unat b + 1 = snd (progress_of s)"
  using assms by (cases s) (auto simp: sync_simps)

text \<open>C25. The state of the synchronisation is a pair of heights.  After any sequence of observed and committed
  heights and of failures, from any initial evidence, the state is the pair computed by plain maxima and
  minima: a commit moves both heights behind it, an observation the target, and a failure within the wanted
  range cuts the target down to its start.  The range that is offered for import is never empty and is exactly
  the heights between the two, and an observation notifies the import exactly when it is behind the target.\<close>

theorem sync_state_refines:
  "let s = foldl state_event (state_new committed observed) es;
       p = foldl abs_event (abs_new committed observed) es in
   progress_of s = p
   \<and> (case process_range s of
        None \<Rightarrow> fst p = snd p
      | Some (a, b) \<Rightarrow> a \<le> b \<and> unat a = fst p \<and> unat b + 1 = snd p)
   \<and> (\<forall>h. snd (state_observe h s) \<longleftrightarrow> snd p \<le> unat h)"
proof -
  let ?s = "foldl state_event (state_new committed observed) es"
  have s: "progress_of ?s = foldl abs_event (abs_new committed observed) es" "status_ok ?s"
    using progress_new[of committed observed] progress_run[of "state_new committed observed" es] by simp_all
  show ?thesis
    using process_range_progress[OF s(2)] progress_observe[OF s(2)] unfolding Let_def s(1) by simp
qed

end
