(* ===== verification/Blocks.thy ===== *)
theory Blocks
  imports Ordered_Map
begin

text \<open>
  Blocks, headers and consensus data (\<open>crates/types/src/blockchain\<close>) and the checks that the block
  verifier makes on them (\<open>crates/services/consensus_module/src/block_verifier.rs\<close>,
  \<open>poa/src/verifier.rs\<close> and the signing keys of \<open>crates/chain-config/src/config/consensus.rs\<close>), for the
  default build, in which the \<open>fault-proving\<close> feature is off and the only header version is \<open>V1\<close>.

  The transaction type, four functions of the Fuel libraries and a constant are parameters, collected in
  the record \<open>fuel_lib\<close>: the digest of \<open>fuel_crypto::Hasher\<close> on the concatenated inputs, the root of
  \<open>fuel_merkle\<close>'s binary Merkle tree over pushed leaves, the canonical bytes of a transaction, its
  identifier for a chain, and the \<open>Tai64\<close> label of the Unix epoch.  A \<open>Bytes32\<close> is a word of 256 bits.

  The lemmas show that a generated header carries the hashes and counts that the verifier recomputes, that
  the conversions between full, partial and compressed blocks are inverse to each other, that the two hashed
  byte strings determine the header, and what an accepted block says about its parent.
\<close>

section \<open>Header and block types\<close>

type_synonym bytes32 = "256 word"
type_synonym block_id = bytes32
type_synonym block_height = u32
type_synonym da_block_height = u64
type_synonym tai64 = u64

record 'tx fuel_lib =
  hasher_digest :: "bytes \<Rightarrow> bytes32"
  merkle_root :: "bytes list \<Rightarrow> bytes32"
  tx_to_bytes :: "'tx \<Rightarrow> bytes"
  tx_id :: "u64 \<Rightarrow> 'tx \<Rightarrow> bytes32"
  UNIX_EPOCH :: tai64

record 'g application_header =
  da_height :: da_block_height
  consensus_parameters_version :: u32
  state_transition_bytecode_version :: u32
  app_generated :: 'g

record generated_application_fields =
  transactions_count :: u16
  message_receipt_count :: u32
  transactions_root :: bytes32
  message_outbox_root :: bytes32
  event_inbox_root :: bytes32

record 'g consensus_header =
  prev_root :: bytes32
  height :: block_height
  time :: tai64
  con_generated :: 'g

record generated_consensus_fields =
  application_hash :: bytes32

record block_header_v1 =
  application :: "generated_application_fields application_header"
  con_header :: "generated_consensus_fields consensus_header"
  metadata :: "block_id option"

datatype block_header = HeaderV1 block_header_v1

record partial_block_header =
  p_application :: "unit application_header"
  p_consensus :: "unit consensus_header"

datatype block_header_error = TooManyTransactions | TooManyMessages

record 'tx block_v1 =
  header :: block_header
  transactions :: "'tx list"

datatype 'tx block = BlockV1 "'tx block_v1"

type_synonym compressed_block = "bytes32 block"

record 'tx partial_fuel_block =
  p_header :: partial_block_header
  p_transactions :: "'tx list"

record genesis =
  chain_config_hash :: bytes32
  coins_root :: bytes32
  contracts_root :: bytes32
  messages_root :: bytes32
  genesis_transactions_root :: bytes32

record 'sig poa_consensus =
  signature :: 'sig

datatype 'sig consensus = Genesis genesis | PoA "'sig poa_consensus"

record ('e, 'sig) sealed =
  entity :: 'e
  seal :: "'sig consensus"

section \<open>Accessors\<close>

fun hdr_application :: "block_header \<Rightarrow> generated_application_fields application_header" where
  "hdr_application (HeaderV1 h) = application h"

fun hdr_consensus :: "block_header \<Rightarrow> generated_consensus_fields consensus_header" where
  "hdr_consensus (HeaderV1 h) = con_header h"

definition hdr_da_height :: "block_header \<Rightarrow> da_block_height" where
  "hdr_da_height h = da_height (hdr_application h)"

definition hdr_prev_root :: "block_header \<Rightarrow> bytes32" where
  "hdr_prev_root h = prev_root (hdr_consensus h)"

definition hdr_height :: "block_header \<Rightarrow> block_height" where
  "hdr_height h = height (hdr_consensus h)"

definition hdr_time :: "block_header \<Rightarrow> tai64" where
  "hdr_time h = time (hdr_consensus h)"

definition hdr_application_hash :: "block_header \<Rightarrow> bytes32" where
  "hdr_application_hash h = application_hash (con_generated (hdr_consensus h))"

fun blk_header :: "'tx block \<Rightarrow> block_header" where
  "blk_header (BlockV1 b) = header b"

fun blk_transactions :: "'tx block \<Rightarrow> 'tx list" where
  "blk_transactions (BlockV1 b) = transactions b"

fun block_into_inner :: "'tx block \<Rightarrow> block_header \<times> 'tx list" where
  "block_into_inner (BlockV1 b) = (header b, transactions b)"

lemmas hdr_defs = hdr_da_height_def hdr_prev_root_def hdr_height_def hdr_time_def hdr_application_hash_def

section \<open>Hashes\<close>

text \<open>The bytes that \<open>ApplicationHeader::hash\<close> and \<open>ConsensusHeader::hash\<close> feed to the hasher, in order.\<close>

definition application_bytes :: "generated_application_fields application_header \<Rightarrow> bytes" where
  "application_bytes a =
     word_bytes (da_height a)
     @ word_bytes (consensus_parameters_version a)
     @ word_bytes (state_transition_bytecode_version a)
     @ word_bytes (transactions_count (app_generated a))
     @ word_bytes (message_receipt_count (app_generated a))
     @ word_bytes (transactions_root (app_generated a))
     @ word_bytes (message_outbox_root (app_generated a))
     @ word_bytes (event_inbox_root (app_generated a))"

definition application_header_hash ::
    "'tx fuel_lib \<Rightarrow> generated_application_fields application_header \<Rightarrow> bytes32" where
  "application_header_hash L a = hasher_digest L (application_bytes a)"

definition consensus_bytes :: "generated_consensus_fields consensus_header \<Rightarrow> bytes" where
  "consensus_bytes c =
     word_bytes (prev_root c)
     @ word_bytes (height c)
     @ word_bytes (time c)
     @ word_bytes (application_hash (con_generated c))"

definition consensus_header_hash ::
    "'tx fuel_lib \<Rightarrow> generated_consensus_fields consensus_header \<Rightarrow> block_id" where
  "consensus_header_hash L c = hasher_digest L (consensus_bytes c)"

definition header_v1_hash :: "'tx fuel_lib \<Rightarrow> block_header_v1 \<Rightarrow> block_id" where
  "header_v1_hash L h = consensus_header_hash L (con_header h)"

definition recalculate_metadata :: "'tx fuel_lib \<Rightarrow> block_header_v1 \<Rightarrow> block_header_v1" where
  "recalculate_metadata L h =
     (let c = con_header h;
          h' = h\<lparr>con_header := c\<lparr>con_generated :=
            (con_generated c)\<lparr>application_hash := application_header_hash L (application h)\<rparr>\<rparr>\<rparr>
      in h'\<lparr>metadata := Some (header_v1_hash L h')\<rparr>)"

fun header_id :: "'tx fuel_lib \<Rightarrow> block_header \<Rightarrow> block_id" where
  "header_id L (HeaderV1 h) =
     (case metadata h of Some i \<Rightarrow> i | None \<Rightarrow> header_v1_hash L h)"

definition generate_txns_root :: "'tx fuel_lib \<Rightarrow> 'tx list \<Rightarrow> bytes32" where
  "generate_txns_root L txs = merkle_root L (map (tx_to_bytes L) txs)"

definition validate_transactions :: "'tx fuel_lib \<Rightarrow> block_header \<Rightarrow> 'tx list \<Rightarrow> bool" where
  "validate_transactions L h txs =
     (let g = app_generated (hdr_application h)
      in generate_txns_root L txs = transactions_root g
         \<and> length txs = unat (transactions_count g))"

section \<open>Blocks\<close>

definition header_generate ::
    "'tx fuel_lib \<Rightarrow> partial_block_header \<Rightarrow> 'tx list \<Rightarrow> bytes32 list \<Rightarrow> bytes32 \<Rightarrow>
     (block_header_error, block_header) result" where
  "header_generate L p txs outbox_message_ids inbox_root =
     (if length txs \<ge> 2 ^ 16 then Inl TooManyTransactions
      else if length outbox_message_ids \<ge> 2 ^ 32 then Inl TooManyMessages
      else Inr (HeaderV1 (recalculate_metadata L
        \<lparr>application =
           \<lparr>da_height = da_height (p_application p),
            consensus_parameters_version = consensus_parameters_version (p_application p),
            state_transition_bytecode_version = state_transition_bytecode_version (p_application p),
            app_generated =
              \<lparr>transactions_count = of_nat (length txs),
               message_receipt_count = of_nat (length outbox_message_ids),
               transactions_root = generate_txns_root L txs,
               message_outbox_root = merkle_root L (map word_bytes outbox_message_ids),
               event_inbox_root = inbox_root\<rparr>\<rparr>,
         con_header =
           \<lparr>prev_root = prev_root (p_consensus p),
            height = height (p_consensus p),
            time = time (p_consensus p),
            con_generated = \<lparr>application_hash = 0\<rparr>\<rparr>,
         metadata = None\<rparr>)))"

definition block_new ::
    "'tx fuel_lib \<Rightarrow> partial_block_header \<Rightarrow> 'tx list \<Rightarrow> bytes32 list \<Rightarrow> bytes32 \<Rightarrow>
     (block_header_error, 'tx block) result" where
  "block_new L p txs outbox_message_ids inbox_root =
     (case header_generate L p txs outbox_message_ids inbox_root of
        Inl e \<Rightarrow> Inl e
      | Inr h \<Rightarrow> Inr (BlockV1 \<lparr>header = h, transactions = txs\<rparr>))"

definition try_from_executed :: "'tx fuel_lib \<Rightarrow> block_header \<Rightarrow> 'tx list \<Rightarrow> 'tx block option" where
  "try_from_executed L h txs =
     (if validate_transactions L h txs then Some (BlockV1 \<lparr>header = h, transactions = txs\<rparr>) else None)"

fun compress :: "'tx fuel_lib \<Rightarrow> u64 \<Rightarrow> 'tx block \<Rightarrow> compressed_block" where
  "compress L chain_id (BlockV1 b) =
     BlockV1 \<lparr>header = header b, transactions = map (tx_id L chain_id) (transactions b)\<rparr>"

fun uncompress :: "compressed_block \<Rightarrow> 'tx list \<Rightarrow> 'tx block" where
  "uncompress (BlockV1 b) txs = BlockV1 \<lparr>header = header b, transactions = txs\<rparr>"

definition block_id_of :: "'tx fuel_lib \<Rightarrow> 't block \<Rightarrow> block_id" where
  "block_id_of L b = header_id L (blk_header b)"

text \<open>The two conversions that drop the generated fields, from a header and from a block.\<close>

definition partial_of_header :: "block_header \<Rightarrow> partial_block_header" where
  "partial_of_header h =
     \<lparr>p_application =
        \<lparr>da_height = da_height (hdr_application h),
         consensus_parameters_version = consensus_parameters_version (hdr_application h),
         state_transition_bytecode_version = state_transition_bytecode_version (hdr_application h),
         app_generated = ()\<rparr>,
      p_consensus =
        \<lparr>prev_root = prev_root (hdr_consensus h), height = height (hdr_consensus h),
         time = time (hdr_consensus h), con_generated = ()\<rparr>\<rparr>"

definition partial_of_block :: "'tx block \<Rightarrow> 'tx partial_fuel_block" where
  "partial_of_block b =
     \<lparr>p_header = partial_of_header (blk_header b), p_transactions = blk_transactions b\<rparr>"

definition partial_block_generate ::
    "'tx fuel_lib \<Rightarrow> 'tx partial_fuel_block \<Rightarrow> bytes32 list \<Rightarrow> bytes32 \<Rightarrow>
     (block_header_error, 'tx block) result" where
  "partial_block_generate L p outbox_message_ids inbox_root =
     block_new L (p_header p) (p_transactions p) outbox_message_ids inbox_root"

section \<open>Block verifier\<close>

record poa_v2 =
  genesis_signing_key :: bytes32
  signing_key_overrides :: "(block_height, bytes32) btree"

datatype consensus_config = ConfigPoA bytes32 | ConfigPoAV2 poa_v2

definition address_for_height :: "poa_v2 \<Rightarrow> block_height \<Rightarrow> bytes32" where
  "address_for_height poa h =
     (if signing_key_overrides poa = [] then genesis_signing_key poa
      else case rev (bt_upto h (signing_key_overrides poa)) of
             [] \<Rightarrow> genesis_signing_key poa
           | (_, key) # _ \<Rightarrow> key)"

definition latest_address :: "poa_v2 \<Rightarrow> bytes32" where
  "latest_address poa =
     (case rev (signing_key_overrides poa) of
        [] \<Rightarrow> genesis_signing_key poa
      | (_, key) # _ \<Rightarrow> key)"

text \<open>\<open>Signature::recover\<close> of \<open>fuel_crypto\<close> followed by \<open>Input::owner\<close> is the parameter \<open>recover\<close>: the
  address that signed a message, or \<open>None\<close> when no key can be recovered.\<close>

type_synonym 'sig recover = "'sig \<Rightarrow> bytes32 \<Rightarrow> bytes32 option"

fun poa_verify_consensus ::
    "'tx fuel_lib \<Rightarrow> 'sig recover \<Rightarrow> consensus_config \<Rightarrow> block_header \<Rightarrow> 'sig poa_consensus \<Rightarrow> bool" where
  "poa_verify_consensus L recover (ConfigPoA signing_key) h c =
     (case recover (signature c) (header_id L h) of
        None \<Rightarrow> False
      | Some owner \<Rightarrow> owner = signing_key)"
| "poa_verify_consensus L recover (ConfigPoAV2 poa) h c =
     (case recover (signature c) (header_id L h) of
        None \<Rightarrow> False
      | Some owner \<Rightarrow> owner = address_for_height poa (hdr_height h))"

datatype verify_error =
    ZeroHeight | DatabaseError | PrevRootMismatch | DaHeightLower | TimeLower
  | ApplicationHashMismatch | TransactionsMismatch
  | GenesisPrevRoot | GenesisTime | GenesisDaHeight | GenesisHeight

text \<open>The view of the database that the verifier reads: the port \<open>Database\<close> of the PoA crate.\<close>

record poa_database =
  block_header_merkle_root :: "block_height \<Rightarrow> (unit, bytes32) result"
  db_block_header :: "block_height \<Rightarrow> (unit, block_header) result"

definition poa_verify_block_fields ::
    "'tx fuel_lib \<Rightarrow> poa_database \<Rightarrow> 'tx block \<Rightarrow> (verify_error, unit) result" where
  "poa_verify_block_fields L D b =
     (let h = blk_header b in
      if hdr_height h = 0 then Inl ZeroHeight
      else let prev_height = hdr_height h - 1 in
        case block_header_merkle_root D prev_height of
          Inl _ \<Rightarrow> Inl DatabaseError
        | Inr root \<Rightarrow>
            if hdr_prev_root h \<noteq> root then Inl PrevRootMismatch
            else (case db_block_header D prev_height of
                Inl _ \<Rightarrow> Inl DatabaseError
              | Inr prev_header \<Rightarrow>
                  if hdr_da_height h < hdr_da_height prev_header then Inl DaHeightLower
                  else if hdr_time h < hdr_time prev_header then Inl TimeLower
                  else if hdr_application_hash h \<noteq> application_header_hash L (hdr_application h)
                    then Inl ApplicationHashMismatch
                  else if \<not> validate_transactions L h (blk_transactions b) then Inl TransactionsMismatch
                  else Inr ()))"

definition verify_genesis_block_fields ::
    "'tx fuel_lib \<Rightarrow> block_height \<Rightarrow> da_block_height \<Rightarrow> block_header \<Rightarrow> (verify_error, unit) result" where
  "verify_genesis_block_fields L expected_height expected_da_height h =
     (if hdr_prev_root h \<noteq> 0 then Inl GenesisPrevRoot
      else if hdr_time h \<noteq> UNIX_EPOCH L then Inl GenesisTime
      else if hdr_da_height h \<noteq> expected_da_height then Inl GenesisDaHeight
      else if expected_height \<noteq> hdr_height h then Inl GenesisHeight
      else Inr ())"

record verifier_config =
  config_consensus :: consensus_config
  config_block_height :: block_height
  config_da_block_height :: da_block_height

text \<open>\<open>latest_view\<close> of the view provider is the first argument; it may fail.\<close>

fun verify_block_fields ::
    "'tx fuel_lib \<Rightarrow> verifier_config \<Rightarrow> (unit, poa_database) result \<Rightarrow> 'sig consensus \<Rightarrow> 'tx block \<Rightarrow>
     (verify_error, unit) result" where
  "verify_block_fields L cfg view (Genesis _) b =
     verify_genesis_block_fields L (config_block_height cfg) (config_da_block_height cfg) (blk_header b)"
| "verify_block_fields L cfg view (PoA _) b =
     (case view of Inl _ \<Rightarrow> Inl DatabaseError | Inr D \<Rightarrow> poa_verify_block_fields L D b)"

definition verify_consensus ::
    "'tx fuel_lib \<Rightarrow> 'sig recover \<Rightarrow> verifier_config \<Rightarrow> (block_header, 'sig) sealed \<Rightarrow> bool" where
  "verify_consensus L recover cfg h =
     (case seal h of
        Genesis _ \<Rightarrow> True
      | PoA c \<Rightarrow> poa_verify_consensus L recover (config_consensus cfg) (entity h) c)"

section \<open>Generated headers\<close>

text \<open>What the code asserts about a header: the application hash is that of the application part, and a
  cached identifier is the hash of the consensus part.\<close>

fun header_ok :: "'tx fuel_lib \<Rightarrow> block_header \<Rightarrow> bool" where
  "header_ok L (HeaderV1 h) =
     (application_hash (con_generated (con_header h)) = application_header_hash L (application h)
      \<and> (metadata h = None \<or> metadata h = Some (header_v1_hash L h)))"

lemma header_ok_id:
  "header_ok L h \<Longrightarrow> header_id L h = consensus_header_hash L (hdr_consensus h)"
  by (cases h) (auto simp: header_v1_hash_def)

lemma header_ok_recalculate: "header_ok L (HeaderV1 (recalculate_metadata L h))"
  by (simp add: recalculate_metadata_def header_v1_hash_def Let_def)

lemma recalculate_metadata_parts [simp]:
  "application (recalculate_metadata L h) = application h"
  "prev_root (con_header (recalculate_metadata L h)) = prev_root (con_header h)"
  "height (con_header (recalculate_metadata L h)) = height (con_header h)"
  "time (con_header (recalculate_metadata L h)) = time (con_header h)"
  by (simp_all add: recalculate_metadata_def Let_def)

lemma header_generate_ok:
  "header_generate L p txs msgs root = Inr h \<Longrightarrow> header_ok L h"
  by (auto simp: header_generate_def header_ok_recalculate simp del: header_ok.simps split: if_splits)

lemma header_generate_parts:
  assumes "header_generate L p txs msgs root = Inr h"
  shows "validate_transactions L h txs" "partial_of_header h = p"
    "length txs < 2 ^ 16" "length msgs < 2 ^ 32"
  using assms
  by (auto simp: header_generate_def validate_transactions_def partial_of_header_def
      unsigned_of_nat take_bit_nat_eq_self split: if_splits)

lemma block_new_iff:
  "block_new L p txs msgs root = Inr b \<longleftrightarrow>
   (\<exists>h. header_generate L p txs msgs root = Inr h \<and> b = BlockV1 \<lparr>header = h, transactions = txs\<rparr>)"
  by (auto simp: block_new_def split: sum.splits)

text \<open>C32. The conversions of blocks are inverse to each other.  A block made from a partial header, its
  transactions, the outgoing message identifiers and the event root has a header that accepts the
  transactions, so rebuilding it from header and transactions, as the sync service does with data of peers,
  gives the block back; compressing and uncompressing gives it back; and dropping the generated fields gives
  the partial block from which the same block is generated again.\<close>

theorem block_conversions_round_trip:
  assumes "block_new L p txs msgs root = Inr b"
  shows "try_from_executed L (blk_header b) (blk_transactions b) = Some b
    \<and> uncompress (compress L chain_id b) txs = b
    \<and> partial_of_block b = \<lparr>p_header = p, p_transactions = txs\<rparr>
    \<and> partial_block_generate L (partial_of_block b) msgs root = Inr b
    \<and> block_into_inner b = (blk_header b, txs)"
proof -
  obtain h where h: "header_generate L p txs msgs root = Inr h"
    and b: "b = BlockV1 \<lparr>header = h, transactions = txs\<rparr>"
    using assms by (auto simp: block_new_iff)
  have part: "partial_of_block b = \<lparr>p_header = p, p_transactions = txs\<rparr>"
    using header_generate_parts(2)[OF h] by (simp add: b partial_of_block_def)
  show ?thesis
    using header_generate_parts(1)[OF h] assms part
    by (simp add: partial_block_generate_def try_from_executed_def b)
qed

definition sample_lib :: "u64 fuel_lib" where
  "sample_lib = \<lparr>hasher_digest = (\<lambda>bs. of_nat (bytes_value bs)), merkle_root = (\<lambda>ls. of_nat (length ls)),
     tx_to_bytes = word_bytes, tx_id = (\<lambda>c tx. ucast tx), UNIX_EPOCH = 7\<rparr>"

definition sample_partial :: partial_block_header where
  "sample_partial = \<lparr>p_application = \<lparr>da_height = 3, consensus_parameters_version = 1,
      state_transition_bytecode_version = 34, app_generated = ()\<rparr>,
     p_consensus = \<lparr>prev_root = 5, height = 2, time = 9, con_generated = ()\<rparr>\<rparr>"

theorem block_conversions_round_trip_witness:
  "\<exists>b. block_new sample_lib sample_partial [4, 5] [] 0 = Inr b
     \<and> uncompress (compress sample_lib 0 b) [4, 5] = b
     \<and> partial_block_generate sample_lib (partial_of_block b) [] 0 = Inr b"
proof -
  obtain b where b: "block_new sample_lib sample_partial [4, 5] [] 0 = Inr b"
    by (simp add: block_new_def header_generate_def)
  from block_conversions_round_trip[OF b] b show ?thesis by blast
qed

text \<open>The two hashed byte strings are sequences of fields of fixed width, so each determines its header.\<close>

lemma application_bytes_inj:
  "application_bytes a = application_bytes b \<Longrightarrow> a = b"
  unfolding application_bytes_def
  by (cases a; cases b; cases "app_generated a"; cases "app_generated b")
    (simp add: word_bytes_inj_iff)

lemma consensus_bytes_inj:
  "consensus_bytes a = consensus_bytes b \<Longrightarrow> a = b"
  unfolding consensus_bytes_def
  by (cases a; cases b; cases "con_generated a"; cases "con_generated b")
    (simp add: word_bytes_inj_iff)

text \<open>C27. The identifier of a block binds its contents.  For two headers that carry their own hashes, equal
  identifiers mean equal application and consensus parts, unless the hash function collides on one of the
  four byte strings hashed for them; and if the transactions match the headers, the transactions are equal
  unless the Merkle root collides on the two sequences of leaves or two transactions share their bytes.\<close>

theorem block_id_binds_contents:
  assumes "header_ok L (blk_header b1)" "header_ok L (blk_header b2)"
    and "block_id_of L b1 = block_id_of L b2"
    and "inj_on (hasher_digest L)
      {consensus_bytes (hdr_consensus (blk_header b1)), consensus_bytes (hdr_consensus (blk_header b2)),
       application_bytes (hdr_application (blk_header b1)),
       application_bytes (hdr_application (blk_header b2))}"
    and "validate_transactions L (blk_header b1) (blk_transactions b1)"
    and "validate_transactions L (blk_header b2) (blk_transactions b2)"
    and "inj_on (merkle_root L)
      {map (tx_to_bytes L) (blk_transactions b1), map (tx_to_bytes L) (blk_transactions b2)}"
    and "inj_on (tx_to_bytes L) (set (blk_transactions b1) \<union> set (blk_transactions b2))"
  shows "hdr_application (blk_header b1) = hdr_application (blk_header b2)
    \<and> hdr_consensus (blk_header b1) = hdr_consensus (blk_header b2)
    \<and> blk_transactions b1 = blk_transactions b2"
proof -
  let ?h1 = "blk_header b1" and ?h2 = "blk_header b2"
  have "hasher_digest L (consensus_bytes (hdr_consensus ?h1)) =
      hasher_digest L (consensus_bytes (hdr_consensus ?h2))"
    using assms(1-3) by (simp add: block_id_of_def header_ok_id consensus_header_hash_def)
  from inj_onD[OF assms(4) this] have con: "hdr_consensus ?h1 = hdr_consensus ?h2"
    by (intro consensus_bytes_inj) simp
  have hash: "hdr_application_hash h = hasher_digest L (application_bytes (hdr_application h))"
    if "header_ok L h" for h
    using that by (cases h) (simp add: hdr_application_hash_def application_header_hash_def)
  have "hasher_digest L (application_bytes (hdr_application ?h1)) =
      hasher_digest L (application_bytes (hdr_application ?h2))"
    using con hash[OF assms(1)] hash[OF assms(2)] by (simp add: hdr_application_hash_def)
  from inj_onD[OF assms(4) this] have app: "hdr_application ?h1 = hdr_application ?h2"
    by (intro application_bytes_inj) simp
  have "merkle_root L (map (tx_to_bytes L) (blk_transactions b1)) =
      merkle_root L (map (tx_to_bytes L) (blk_transactions b2))"
    using assms(5,6) app by (simp add: validate_transactions_def generate_txns_root_def Let_def)
  from inj_onD[OF assms(7) this]
  have "map (tx_to_bytes L) (blk_transactions b1) = map (tx_to_bytes L) (blk_transactions b2)"
    by simp
  then have "blk_transactions b1 = blk_transactions b2"
    using assms(8) by (rule map_inj_on)
  with con app show ?thesis by simp
qed

definition sample_block :: "u64 block" where
  "sample_block = BlockV1 \<lparr>header =
     (case header_generate sample_lib sample_partial [4, 5] [] 0 of Inr h \<Rightarrow> h), transactions = [4, 5]\<rparr>"

theorem block_id_binds_contents_witness:
  "hdr_application (blk_header sample_block) =
   hdr_application (blk_header (uncompress (compress sample_lib 0 sample_block) [4, 5]))"
proof -
  let ?b2 = "uncompress (compress sample_lib 0 sample_block) [4, 5]"
  obtain h where h: "header_generate sample_lib sample_partial [4, 5] [] 0 = Inr h"
    by (simp add: header_generate_def)
  have b: "blk_header sample_block = h" "blk_transactions sample_block = [4, 5]"
    and b2: "blk_header ?b2 = h" "blk_transactions ?b2 = [4, 5]"
    by (simp_all add: sample_block_def h)
  have bytes: "inj_on (tx_to_bytes sample_lib) {4, 5}"
    by (simp add: sample_lib_def word_bytes_inj_iff)
  show ?thesis
    using block_id_binds_contents[of sample_lib sample_block ?b2]
      header_generate_ok[OF h] header_generate_parts(1)[OF h] bytes
    by (simp add: b b2 block_id_of_def insert_commute)
qed

section \<open>Verified chains\<close>

lemma poa_verify_block_fields_parent:
  assumes "poa_verify_block_fields L D b = Inr ()"
  obtains prev where "hdr_height (blk_header b) \<noteq> 0"
    "db_block_header D (hdr_height (blk_header b) - 1) = Inr prev"
    "block_header_merkle_root D (hdr_height (blk_header b) - 1) = Inr (hdr_prev_root (blk_header b))"
    "hdr_da_height prev \<le> hdr_da_height (blk_header b)" "hdr_time prev \<le> hdr_time (blk_header b)"
    "hdr_application_hash (blk_header b) = application_header_hash L (hdr_application (blk_header b))"
    "validate_transactions L (blk_header b) (blk_transactions b)"
  using assms that
  by (auto simp: poa_verify_block_fields_def Let_def not_less split: if_splits sum.splits)

text \<open>C18. In a database whose blocks above some height were each accepted by the verifier, the layer one
  height and the block time never decrease along the chain, between any two heights, and every block commits
  to the root of all headers before it and to its own transactions.\<close>

theorem verified_chain_monotone:
  assumes stored: "\<And>h. g < h \<Longrightarrow> h \<le> n \<Longrightarrow> \<exists>b. db_block_header D h = Inr (blk_header b)
      \<and> hdr_height (blk_header b) = h \<and> verify_block_fields L cfg (Inr D) (PoA c) b = Inr ()"
    and "g \<le> i" "i \<le> j" "j \<le> n"
    and "db_block_header D i = Inr hi" "db_block_header D j = Inr hj"
  shows "hdr_da_height hi \<le> hdr_da_height hj \<and> hdr_time hi \<le> hdr_time hj
    \<and> (i < j \<longrightarrow> block_header_merkle_root D (j - 1) = Inr (hdr_prev_root hj))"
  using assms(3-6)
proof (induction "unat j - unat i" arbitrary: j hj)
  case 0
  then have "i = j" by (simp add: word_le_nat_alt word_unat_eq_iff)
  with 0 show ?case by simp
next
  case (Suc k)
  then have less: "i < j" by (simp add: word_less_nat_alt)
  with \<open>g \<le> i\<close> have "g < j" by simp
  from stored[OF this \<open>j \<le> n\<close>] Suc.prems(4) obtain b where b: "hj = blk_header b" "hdr_height hj = j"
    and v: "poa_verify_block_fields L D b = Inr ()" by auto
  from v obtain prev where p: "db_block_header D (j - 1) = Inr prev"
      "block_header_merkle_root D (j - 1) = Inr (hdr_prev_root hj)"
      "hdr_da_height prev \<le> hdr_da_height hj" "hdr_time prev \<le> hdr_time hj"
    using b by (auto elim: poa_verify_block_fields_parent)
  have j1: "unat (j - 1) = unat j - 1"
    using less by (intro unat_minus_one) auto
  have "hdr_da_height hi \<le> hdr_da_height prev \<and> hdr_time hi \<le> hdr_time prev \<and>
      (i < j - 1 \<longrightarrow> block_header_merkle_root D (j - 1 - 1) = Inr (hdr_prev_root prev))"
    using Suc.hyps(2) less Suc.prems
    by (intro Suc.hyps(1)[OF _ _ _ _ p(1)]) (auto simp: j1 word_le_nat_alt word_less_nat_alt)
  with p show ?case by auto
qed

definition sample_parent_header :: block_header where
  "sample_parent_header = HeaderV1
     \<lparr>application = \<lparr>da_height = 1, consensus_parameters_version = 1,
        state_transition_bytecode_version = 34,
        app_generated = \<lparr>transactions_count = 0, message_receipt_count = 0, transactions_root = 0,
          message_outbox_root = 0, event_inbox_root = 0\<rparr>\<rparr>,
      con_header = \<lparr>prev_root = 0, height = 1, time = 4, con_generated = \<lparr>application_hash = 0\<rparr>\<rparr>,
      metadata = None\<rparr>"

definition sample_poa_db :: poa_database where
  "sample_poa_db = \<lparr>block_header_merkle_root = (\<lambda>h. if h = 1 then Inr 5 else Inl ()),
     db_block_header = (\<lambda>h. if h = 1 then Inr sample_parent_header
       else if h = 2 then Inr (blk_header sample_block) else Inl ())\<rparr>"

lemma sample_block_header:
  "header_generate sample_lib sample_partial [4, 5] [] 0 = Inr (blk_header sample_block)"
  by (simp add: sample_block_def header_generate_def)

lemma sample_block_fields:
  "hdr_height (blk_header sample_block) = 2" "hdr_prev_root (blk_header sample_block) = 5"
  "hdr_da_height (blk_header sample_block) = 3" "hdr_time (blk_header sample_block) = 9"
  "blk_transactions sample_block = [4, 5]"
  by (simp_all add: sample_block_def header_generate_def hdr_defs sample_partial_def)

lemma sample_block_verified: "poa_verify_block_fields sample_lib sample_poa_db sample_block = Inr ()"
proof -
  note h = sample_block_header
  have "hdr_application_hash (blk_header sample_block) =
      application_header_hash sample_lib (hdr_application (blk_header sample_block))"
    using header_generate_ok[OF h] by (cases "blk_header sample_block") (simp add: hdr_defs)
  moreover have "hdr_da_height sample_parent_header = 1" "hdr_time sample_parent_header = 4"
    by (simp_all add: sample_parent_header_def hdr_defs)
  ultimately show ?thesis
    using header_generate_parts(1)[OF h]
    by (simp add: poa_verify_block_fields_def sample_block_fields sample_poa_db_def Let_def)
qed

theorem verified_chain_monotone_witness:
  "hdr_time sample_parent_header \<le> hdr_time (blk_header sample_block)
   \<and> block_header_merkle_root sample_poa_db 1 = Inr (hdr_prev_root (blk_header sample_block))"
proof -
  have "\<exists>b. db_block_header sample_poa_db h = Inr (blk_header b) \<and> hdr_height (blk_header b) = h
      \<and> verify_block_fields sample_lib cfg (Inr sample_poa_db) (PoA c) b = Inr ()" if "1 < h" "h \<le> 2" for h cfg c
  proof -
    from that have "h = 2" by (auto simp: word_less_nat_alt word_le_nat_alt word_unat_eq_iff)
    then show ?thesis using sample_block_verified sample_block_fields(1)
      by (intro exI[of _ sample_block]) (simp add: sample_poa_db_def)
  qed
  from verified_chain_monotone
    [OF this, where i = 1 and j = 2 and hi = sample_parent_header and hj = "blk_header sample_block"]
  show ?thesis
    by (simp add: sample_poa_db_def)
qed

section \<open>Signing keys\<close>

lemma last_bt_upto:
  assumes "bt_ok t" "rev (bt_upto h t) = (k, v) # rest"
  shows "map_of t k = Some v" "k \<le> h" "\<And>k'. k < k' \<Longrightarrow> k' \<le> h \<Longrightarrow> map_of t k' = None"
proof -
  have split: "bt_upto h t = rev rest @ [(k, v)]" using assms(2) by (metis rev.simps(2) rev_rev_ident)
  have mem: "(k, v) \<in> set (bt_upto h t)" by (simp add: split)
  then show "map_of t k = Some v" "k \<le> h"
    using assms(1) by (auto simp: bt_upto_def bt_ok_map_of_iff)
  have ok: "bt_ok (bt_upto h t)" using assms(1) by (simp add: bt_upto_def)
  fix k' assume k': "k < k'" "k' \<le> h"
  show "map_of t k' = None"
  proof (rule ccontr)
    assume "map_of t k' \<noteq> None"
    then obtain v' where "(k', v') \<in> set t" using assms(1) by (auto simp: bt_ok_map_of_iff)
    with k' have "(k', v') \<in> set (bt_upto h t)" by (simp add: bt_upto_def)
    with k' have "(k', v') \<in> set rest" by (auto simp: split)
    with ok have "k' < k" by (auto simp: split bt_ok_def sorted_wrt_append)
    with k' show False by simp
  qed
qed

lemma bt_upto_Nil_iff: "bt_ok t \<Longrightarrow> bt_upto h t = [] \<longleftrightarrow> (\<forall>k\<le>h. map_of t k = None)"
  by (force simp: bt_upto_def filter_empty_conv map_of_eq_None_iff)

text \<open>The key in force at a height, as a relation: the override at the greatest configured height that is
  not above it, or the genesis key when there is none.\<close>

definition key_in_force :: "poa_v2 \<Rightarrow> block_height \<Rightarrow> bytes32 \<Rightarrow> bool" where
  "key_in_force poa h key =
     (if \<forall>k\<le>h. map_of (signing_key_overrides poa) k = None then key = genesis_signing_key poa
      else \<exists>k\<le>h. map_of (signing_key_overrides poa) k = Some key
             \<and> (\<forall>k'. k < k' \<and> k' \<le> h \<longrightarrow> map_of (signing_key_overrides poa) k' = None))"

lemma address_in_force:
  assumes "bt_ok (signing_key_overrides poa)"
  shows "key_in_force poa h (address_for_height poa h)"
proof (cases "rev (bt_upto h (signing_key_overrides poa))")
  case Nil
  then have "\<forall>k\<le>h. map_of (signing_key_overrides poa) k = None"
    using bt_upto_Nil_iff[OF assms] by simp
  with Nil show ?thesis by (simp add: key_in_force_def address_for_height_def)
next
  case (Cons e rest)
  obtain k v where e: "e = (k, v)" by force
  note last = last_bt_upto[OF assms Cons[unfolded e]]
  have "signing_key_overrides poa \<noteq> []" using last(1) by auto
  then have "address_for_height poa h = v" by (simp add: address_for_height_def Cons e)
  with last show ?thesis by (auto simp: key_in_force_def)
qed

lemma key_in_force_unique: "key_in_force poa h a \<Longrightarrow> key_in_force poa h b \<Longrightarrow> a = b"
  by (auto simp: key_in_force_def split: if_splits) (metis linorder_neqE option.inject option.simps(3))

text \<open>C28. With the configuration of changing keys, the verifier accepts the seal of a header exactly when
  the signature over the identifier recovers to the key in force at the height of the header; above the last
  configured change this is the latest key.\<close>

theorem verify_consensus_key_in_force:
  assumes "bt_ok (signing_key_overrides poa)"
    and "config_consensus cfg = ConfigPoAV2 poa" and "seal h = PoA c"
  shows "(verify_consensus L recover cfg h \<longleftrightarrow>
      (\<exists>key. recover (signature c) (header_id L (entity h)) = Some key
        \<and> key_in_force poa (hdr_height (entity h)) key))
    \<and> latest_address poa = address_for_height poa u_max"
proof -
  have "key_in_force poa n key \<longleftrightarrow> key = address_for_height poa n" for n key
    using address_in_force[OF assms(1)] key_in_force_unique by blast
  moreover have "bt_upto u_max t = t" for t :: "(block_height, bytes32) btree"
    by (simp add: bt_upto_def word_le_nat_alt sat_simps unat_le_pow[where 'a = 32, simplified])
  ultimately show ?thesis
    using assms(2,3)
    by (auto simp: verify_consensus_def latest_address_def address_for_height_def split: option.splits)
qed

theorem verify_consensus_key_in_force_witness:
  "verify_consensus sample_lib (\<lambda>s m. Some s)
     \<lparr>config_consensus = ConfigPoAV2 \<lparr>genesis_signing_key = 1, signing_key_overrides = [(2, 8)]\<rparr>,
      config_block_height = 0, config_da_block_height = 0\<rparr>
     \<lparr>entity = blk_header sample_block, seal = PoA \<lparr>signature = 8\<rparr>\<rparr>"
proof -
  let ?poa = "\<lparr>genesis_signing_key = 1, signing_key_overrides = [(2, 8)]\<rparr>"
  have "key_in_force ?poa 2 8"
    by (auto simp: key_in_force_def)
  then show ?thesis
    using verify_consensus_key_in_force[of ?poa
        "\<lparr>config_consensus = ConfigPoAV2 ?poa, config_block_height = 0, config_da_block_height = 0\<rparr>"
        "\<lparr>entity = blk_header sample_block, seal = PoA \<lparr>signature = 8\<rparr>\<rparr>" "\<lparr>signature = 8\<rparr>"
        sample_lib "\<lambda>s m. Some s"]
    by (simp add: sample_block_fields bt_ok_def)
qed

end
