(* ===== verification/Tables.thy ===== *)
theory Tables
  imports Memory_Store Blocks
begin

text \<open>
  Typed tables on top of the key value stores: the codec of fixed-size values
  (\<open>crates/storage/src/codec/primitive.rs\<close>), the plain blueprint (\<open>blueprint/plain.rs\<close>, with the reads of
  \<open>blueprint.rs\<close>), which encodes keys and values, and the merklized blueprint
  (\<open>blueprint/merklized.rs\<close>), which in addition keeps a binary Merkle tree of all values and the root after
  each of them.  The storage of a blueprint is a storage transaction of \<open>Kv_Store\<close>.

  A table is a record of its column and codecs.  The binary Merkle tree of \<open>fuel_merkle\<close> is a parameter,
  \<open>tree_push\<close>: load the tree with the given number of leaves from the table of nodes, push a leaf, write the
  nodes, and return the new number of leaves and the root.  What the code relies on is the locale
  \<open>merkle_tree\<close>.

  The lemmas show that the codec is a round trip that keeps the order, that a plain table behaves as a map of
  decoded values, that the entries of a merklized table can be neither removed nor replaced, and that the root
  stored for a key is the root of all values up to that key.
\<close>

section \<open>codec/primitive.rs\<close>

definition primitive_encode :: "'a::len word \<Rightarrow> bytes" where
  "primitive_encode t = word_bytes t"

definition primitive_decode :: "bytes \<Rightarrow> 'a::len word option" where
  "primitive_decode bs = (if length bs = LENGTH('a) div 8 then Some (word_of_bytes bs) else None)"

record utxo_id =
  utxo_tx_id :: bytes32
  output_index :: u16

definition utxo_id_to_bytes :: "utxo_id \<Rightarrow> bytes" where
  "utxo_id_to_bytes u = word_bytes (utxo_tx_id u) @ word_bytes (output_index u)"

definition utxo_id_decode :: "bytes \<Rightarrow> utxo_id option" where
  "utxo_id_decode bs =
     (if length bs = 34
      then Some \<lparr>utxo_tx_id = word_of_bytes (take 32 bs), output_index = word_of_bytes (drop 32 bs)\<rparr>
      else None)"

section \<open>blueprint.rs, blueprint/plain.rs\<close>

record ('k, 'v) table =
  tcolumn :: u32
  encode_key :: "'k \<Rightarrow> bytes"
  encode_value :: "'v \<Rightarrow> bytes"
  decode_value :: "bytes \<Rightarrow> 'v option"

definition codec_error :: storage_error where
  "codec_error = Other ''Codec''"

fun decode_stored :: "('k, 'v) table \<Rightarrow> bytes option storage_result \<Rightarrow> 'v option storage_result" where
  "decode_stored T (Inl e) = Inl e"
| "decode_stored T (Inr None) = Inr None"
| "decode_stored T (Inr (Some val)) =
     (case decode_value T val of None \<Rightarrow> Inl codec_error | Some v \<Rightarrow> Inr (Some v))"

definition plain_get ::
    "'s kv_inspect \<Rightarrow> ('k, 'v) table \<Rightarrow> 's in_memory_transaction \<Rightarrow> 'k \<Rightarrow> 'v option storage_result" where
  "plain_get S T tx key = decode_stored T (tx_get S tx (encode_key T key) (tcolumn T))"

definition plain_put ::
    "('k, 'v) table \<Rightarrow> 's in_memory_transaction \<Rightarrow> 'k \<Rightarrow> 'v
     \<Rightarrow> 's in_memory_transaction \<times> unit storage_result" where
  "plain_put T tx key v = tx_put tx (encode_key T key) (tcolumn T) (encode_value T v)"

definition plain_replace ::
    "'s kv_inspect \<Rightarrow> ('k, 'v) table \<Rightarrow> 's in_memory_transaction \<Rightarrow> 'k \<Rightarrow> 'v
     \<Rightarrow> 's in_memory_transaction \<times> 'v option storage_result" where
  "plain_replace S T tx key v =
     apsnd (decode_stored T) (tx_replace S tx (encode_key T key) (tcolumn T) (encode_value T v))"

definition plain_take ::
    "'s kv_inspect \<Rightarrow> ('k, 'v) table \<Rightarrow> 's in_memory_transaction \<Rightarrow> 'k
     \<Rightarrow> 's in_memory_transaction \<times> 'v option storage_result" where
  "plain_take S T tx key = apsnd (decode_stored T) (tx_take S tx (encode_key T key) (tcolumn T))"

definition plain_delete ::
    "('k, 'v) table \<Rightarrow> 's in_memory_transaction \<Rightarrow> 'k \<Rightarrow> 's in_memory_transaction \<times> unit storage_result" where
  "plain_delete T tx key = tx_delete tx (encode_key T key) (tcolumn T)"

definition plain_batch_insert ::
    "('k, 'v) table \<Rightarrow> 's in_memory_transaction \<Rightarrow> ('k \<times> 'v) list
     \<Rightarrow> 's in_memory_transaction \<times> unit storage_result" where
  "plain_batch_insert T tx entries =
     batch_write tx (tcolumn T) (map (\<lambda>(k, v). (encode_key T k, Insert (encode_value T v))) entries)"

definition plain_batch_remove ::
    "('k, 'v) table \<Rightarrow> 's in_memory_transaction \<Rightarrow> 'k list
     \<Rightarrow> 's in_memory_transaction \<times> unit storage_result" where
  "plain_batch_remove T tx keys = batch_write tx (tcolumn T) (map (\<lambda>k. (encode_key T k, Remove)) keys)"

section \<open>blueprint/merklized.rs\<close>

datatype 'k dense_metadata_key = Primary 'k | Latest

record dense_merkle_metadata =
  merkle_version :: u64
  merkle_metadata_root :: bytes32

text \<open>\<open>DenseMerkleMetadata::default\<close>: an empty tree, whose root is a constant of \<open>fuel_merkle\<close>.\<close>

record 's merkle_lib =
  empty_root :: bytes32
  tree_push :: "'s in_memory_transaction \<Rightarrow> u64 \<Rightarrow> bytes
    \<Rightarrow> 's in_memory_transaction \<times> (u64 \<times> bytes32) storage_result"

record ('k, 'v, 's) merklized_table =
  values_table :: "('k, 'v) table"
  metadata_table :: "('k dense_metadata_key, dense_merkle_metadata) table"
  leaf_encoder :: "'v \<Rightarrow> bytes"
  merkle :: "'s merkle_lib"

definition insert_into_tree ::
    "'s kv_inspect \<Rightarrow> ('k, 'v, 's) merklized_table \<Rightarrow> 's in_memory_transaction \<Rightarrow> 'k \<Rightarrow> 'v
     \<Rightarrow> 's in_memory_transaction \<times> unit storage_result" where
  "insert_into_tree S M tx key v =
     (case plain_get S (metadata_table M) tx Latest of
        Inl e \<Rightarrow> (tx, Inl e)
      | Inr prev_metadata \<Rightarrow>
          (let previous_version = (case prev_metadata of None \<Rightarrow> 0 | Some m \<Rightarrow> merkle_version m) in
           case tree_push (merkle M) tx previous_version (leaf_encoder M v) of
             (tx1, Inl e) \<Rightarrow> (tx1, Inl e)
           | (tx1, Inr (version, root)) \<Rightarrow>
               (let m = \<lparr>merkle_version = version, merkle_metadata_root = root\<rparr> in
                case plain_put (metadata_table M) tx1 (Primary key) m of
                  (tx2, Inl e) \<Rightarrow> (tx2, Inl e)
                | (tx2, Inr _) \<Rightarrow> plain_put (metadata_table M) tx2 Latest m)))"

definition override_error :: storage_error where
  "override_error = Other ''It is not allowed to remove or override entries in the merklelized table''"

definition merklized_remove ::
    "'s kv_inspect \<Rightarrow> 's in_memory_transaction \<Rightarrow> bytes \<Rightarrow> u32 \<Rightarrow> unit storage_result" where
  "merklized_remove S tx key column =
     (case tx_exists S tx key column of
        Inl e \<Rightarrow> Inl e
      | Inr True \<Rightarrow> Inl override_error
      | Inr False \<Rightarrow> Inr ())"

definition merklized_put ::
    "'s kv_inspect \<Rightarrow> ('k, 'v, 's) merklized_table \<Rightarrow> 's in_memory_transaction \<Rightarrow> 'k \<Rightarrow> 'v
     \<Rightarrow> 's in_memory_transaction \<times> unit storage_result" where
  "merklized_put S M tx key v =
     (case plain_put (values_table M) tx key v of
        (tx1, Inl e) \<Rightarrow> (tx1, Inl e)
      | (tx1, Inr _) \<Rightarrow> insert_into_tree S M tx1 key v)"

definition merklized_replace ::
    "'s kv_inspect \<Rightarrow> ('k, 'v, 's) merklized_table \<Rightarrow> 's in_memory_transaction \<Rightarrow> 'k \<Rightarrow> 'v
     \<Rightarrow> 's in_memory_transaction \<times> 'v option storage_result" where
  "merklized_replace S M tx key v =
     (let T = values_table M in
      case plain_replace S T tx key v of
        (tx1, Inl e) \<Rightarrow> (tx1, Inl e)
      | (tx1, Inr prev) \<Rightarrow>
          (case if prev = None then Inr () else merklized_remove S tx1 (encode_key T key) (tcolumn T) of
             Inl e \<Rightarrow> (tx1, Inl e)
           | Inr _ \<Rightarrow>
               (case insert_into_tree S M tx1 key v of
                  (tx2, Inl e) \<Rightarrow> (tx2, Inl e)
                | (tx2, Inr _) \<Rightarrow> (tx2, Inr prev))))"

definition merklized_take ::
    "'s kv_inspect \<Rightarrow> ('k, 'v, 's) merklized_table \<Rightarrow> 's in_memory_transaction \<Rightarrow> 'k
     \<Rightarrow> 's in_memory_transaction \<times> 'v option storage_result" where
  "merklized_take S M tx key =
     (let T = values_table M in
      case merklized_remove S tx (encode_key T key) (tcolumn T) of
        Inl e \<Rightarrow> (tx, Inl e)
      | Inr _ \<Rightarrow> plain_take S T tx key)"

definition merklized_delete ::
    "'s kv_inspect \<Rightarrow> ('k, 'v, 's) merklized_table \<Rightarrow> 's in_memory_transaction \<Rightarrow> 'k \<Rightarrow> unit storage_result" where
  "merklized_delete S M tx key =
     merklized_remove S tx (encode_key (values_table M) key) (tcolumn (values_table M))"

definition merklized_root ::
    "'s kv_inspect \<Rightarrow> ('k, 'v, 's) merklized_table \<Rightarrow> 's in_memory_transaction \<Rightarrow> 'k \<Rightarrow> bytes32 storage_result" where
  "merklized_root S M tx key =
     (case plain_get S (metadata_table M) tx (Primary key) of
        Inl e \<Rightarrow> Inl e
      | Inr None \<Rightarrow> Inl (Other ''NotFound'')
      | Inr (Some m) \<Rightarrow> Inr (merkle_metadata_root m))"

fun merklized_batch_insert ::
    "'s kv_inspect \<Rightarrow> ('k, 'v, 's) merklized_table \<Rightarrow> 's in_memory_transaction \<Rightarrow> ('k \<times> 'v) list
     \<Rightarrow> 's in_memory_transaction \<times> unit storage_result" where
  "merklized_batch_insert S M tx [] = (tx, Inr ())"
| "merklized_batch_insert S M tx ((k, v) # entries) =
     (case merklized_replace S M tx k v of
        (tx1, Inl e) \<Rightarrow> (tx1, Inl e)
      | (tx1, Inr _) \<Rightarrow> merklized_batch_insert S M tx1 entries)"

fun merklized_batch_remove ::
    "'s kv_inspect \<Rightarrow> ('k, 'v, 's) merklized_table \<Rightarrow> 's in_memory_transaction \<Rightarrow> 'k list \<Rightarrow> unit storage_result" where
  "merklized_batch_remove S M tx [] = Inr ()"
| "merklized_batch_remove S M tx (k # keys) =
     (case merklized_delete S M tx k of Inl e \<Rightarrow> Inl e | Inr _ \<Rightarrow> merklized_batch_remove S M tx keys)"

section \<open>The codec of fixed-size values\<close>

lemma primitive_decode_encode [simp]:
  "LENGTH('a) mod 8 = 0 \<Longrightarrow> primitive_decode (primitive_encode w) = Some (w :: 'a::len word)"
  by (simp add: primitive_decode_def primitive_encode_def word_of_bytes_word_bytes)

lemma primitive_decode_Some:
  "LENGTH('a) mod 8 = 0 \<Longrightarrow> primitive_decode bs = Some (w :: 'a::len word) \<longleftrightarrow> bs = primitive_encode w"
  by (auto simp: primitive_decode_def primitive_encode_def word_bytes_word_of_bytes
      word_of_bytes_word_bytes)

lemma primitive_encode_inj:
  "LENGTH('a) mod 8 = 0 \<Longrightarrow> primitive_encode v = primitive_encode w \<longleftrightarrow> v = (w :: 'a::len word)"
  by (simp add: primitive_encode_def word_bytes_inj_iff)

lemma utxo_id_decode_Some: "utxo_id_decode bs = Some u \<longleftrightarrow> bs = utxo_id_to_bytes u"
proof
  assume "utxo_id_decode bs = Some u"
  then have "length bs = 34"
    and u: "u = \<lparr>utxo_tx_id = word_of_bytes (take 32 bs), output_index = word_of_bytes (drop 32 bs)\<rparr>"
    by (auto simp: utxo_id_decode_def split: if_splits)
  then show "bs = utxo_id_to_bytes u"
    by (simp add: utxo_id_to_bytes_def word_bytes_word_of_bytes)
qed (simp add: utxo_id_decode_def utxo_id_to_bytes_def word_of_bytes_word_bytes)

lemma append_less_iff:
  "length k = length k' \<Longrightarrow> k @ x < k' @ y \<longleftrightarrow> k < k' \<or> k = k' \<and> x < (y :: 'a::linorder list)"
  by (induction k k' rule: list_induct2) auto

lemma utxo_id_to_bytes_less:
  "utxo_id_to_bytes u < utxo_id_to_bytes u' \<longleftrightarrow>
   utxo_tx_id u < utxo_tx_id u' \<or> utxo_tx_id u = utxo_tx_id u' \<and> output_index u < output_index u'"
  by (simp add: utxo_id_to_bytes_def append_less_iff word_bytes_less word_bytes_inj_iff)

text \<open>C33. The codec of fixed-size values is a round trip in both directions: decoding returns a value
  exactly for the bytes that encode it, for machine integers of a whole number of bytes and for the
  identifiers of transaction outputs.  It keeps the order of integers, so that the reverse iteration over a
  table with such keys starts at the greatest key; and the keys of outputs are ordered by the transaction
  first and by the index of the output then.\<close>

theorem primitive_codec_round_trip:
  assumes "LENGTH('a) mod 8 = 0"
  shows "(primitive_decode bs = Some (w :: 'a::len word) \<longleftrightarrow> bs = primitive_encode w)
    \<and> (primitive_encode v < primitive_encode w \<longleftrightarrow> v < w)
    \<and> (utxo_id_decode cs = Some u \<longleftrightarrow> cs = utxo_id_to_bytes u)
    \<and> (utxo_id_to_bytes u < utxo_id_to_bytes u' \<longleftrightarrow>
        utxo_tx_id u < utxo_tx_id u' \<or> utxo_tx_id u = utxo_tx_id u' \<and> output_index u < output_index u')"
  using assms
  by (simp add: primitive_decode_Some utxo_id_decode_Some primitive_encode_def word_bytes_less utxo_id_to_bytes_less)

theorem primitive_codec_round_trip_witness:
  "primitive_decode [0, 0, 1, 2] = Some (258 :: u32)
   \<and> utxo_id_to_bytes \<lparr>utxo_tx_id = 1, output_index = 9\<rparr> < utxo_id_to_bytes \<lparr>utxo_tx_id = 2, output_index = 0\<rparr>"
proof -
  have "primitive_encode (258 :: u32) = [0, 0, 1, 2]"
    by (simp add: primitive_encode_def word_bytes_def)
  then show ?thesis
    using primitive_codec_round_trip[where 'a = 32 and bs = "[0, 0, 1, 2]" and w = 258
        and u = "\<lparr>utxo_tx_id = 1, output_index = 9\<rparr>" and u' = "\<lparr>utxo_tx_id = 2, output_index = 0\<rparr>"] by simp
qed

section \<open>Plain tables\<close>

text \<open>The law of the codecs of a table: the decoder inverts the encoder up to \<open>norm\<close>, the fields that are not
  stored (the cached identifier of a header is skipped by the serializer), and keys have different encodings.\<close>

locale lawful_table =
  fixes T :: "('k, 'v) table" and norm :: "'v \<Rightarrow> 'v"
  assumes decode_encode: "decode_value T (encode_value T v) = Some (norm v)"
    and key_inj: "encode_key T k = encode_key T k' \<Longrightarrow> k = k'"

lemma tx_put_get:
  assumes "tx_ok tx" "tx_put tx key column val = (tx', r)"
  shows "r = Inr ()" "tx_ok tx'" "storage tx' = storage tx"
    "tx_get S tx' = map_set key column (Some val) (tx_get S tx)"
proof -
  have e: "exec_mutation S (Put key column val) tx = (tx', Done r)" using assms(2) by simp
  show "tx_ok tx'" by (rule exec_mutation_ok[OF assms(1) e])
  show "storage tx' = storage tx" by (rule exec_mutation_storage[OF e])
  show "r = Inr ()" "tx_get S tx' = map_set key column (Some val) (tx_get S tx)"
    using exec_mutation_refines[OF assms(1) e] by auto
qed

lemma tx_swap_get:
  assumes "tx_ok tx" "swap_op S tx key column operation = (tx', r)"
  shows "r = tx_get S tx key column" "tx_ok tx'" "storage tx' = storage tx"
    "tx_get S tx' = map_set key column (op_value operation) (tx_get S tx)"
  using assms tx_get_insert_op[OF assms(1), of S key column operation]
  by (auto simp: swap_op_eq tx_ok_def)

lemmas plain_defs = plain_get_def plain_put_def plain_replace_def plain_take_def plain_delete_def
  tx_replace_def tx_take_def

context lawful_table
begin

lemma get_map_set:
  assumes "tx_get S tx' = map_set (encode_key T k) (tcolumn T) v (tx_get S tx)"
  shows "plain_get S T tx' k' = (if k' = k then decode_stored T (Inr v) else plain_get S T tx k')"
  using assms key_inj by (auto simp: plain_get_def map_set_def)

lemma put:
  assumes "tx_ok tx"
  obtains tx' where "plain_put T tx k v = (tx', Inr ())" "tx_ok tx'" "storage tx' = storage tx"
    "tx_get S tx' = map_set (encode_key T k) (tcolumn T) (Some (encode_value T v)) (tx_get S tx)"
proof -
  obtain tx' r where e: "tx_put tx (encode_key T k) (tcolumn T) (encode_value T v) = (tx', r)"
    by fastforce
  from tx_put_get[OF assms e] that[of tx'] e show ?thesis by (simp add: plain_put_def)
qed

lemma replace:
  assumes "tx_ok tx"
  obtains tx' where "plain_replace S T tx k v = (tx', plain_get S T tx k)" "tx_ok tx'"
    "storage tx' = storage tx"
    "tx_get S tx' = map_set (encode_key T k) (tcolumn T) (Some (encode_value T v)) (tx_get S tx)"
proof -
  obtain tx' r where e: "swap_op S tx (encode_key T k) (tcolumn T) (Insert (encode_value T v)) = (tx', r)"
    by fastforce
  from tx_swap_get[OF assms e] that[of tx'] e show ?thesis by (simp add: plain_defs op_value_def)
qed

lemma remove:
  assumes "tx_ok tx"
  obtains tx' where "plain_take S T tx k = (tx', plain_get S T tx k)"
    "plain_delete T tx k = (tx', Inr ())" "tx_ok tx'" "storage tx' = storage tx"
    "tx_get S tx' = map_set (encode_key T k) (tcolumn T) None (tx_get S tx)"
proof -
  obtain tx' r where e: "swap_op S tx (encode_key T k) (tcolumn T) Remove = (tx', r)"
    by fastforce
  then have "plain_delete T tx k = (tx', Inr ())"
    by (simp add: swap_op_eq plain_delete_def tx_delete_def)
  with tx_swap_get[OF assms e] that[of tx'] e show ?thesis by (simp add: plain_defs op_value_def)
qed

end

text \<open>A plain table behaves as a map of decoded values.  For codecs whose decoder inverts the encoder
  and whose keys have different encodings, writing a key makes it read as the written value, removing it
  makes it read as absent, replacing and taking return what was read before, and no other key of the table
  changes.\<close>

theorem plain_table_is_map:
  assumes "tx_ok tx" and "\<And>v. decode_value T (encode_value T v) = Some v" and "inj (encode_key T)"
  shows "(\<exists>tx'. plain_put T tx k v = (tx', Inr ()) \<and> plain_replace S T tx k v = (tx', plain_get S T tx k)
      \<and> tx_ok tx' \<and> (\<forall>k'. plain_get S T tx' k' = (if k' = k then Inr (Some v) else plain_get S T tx k')))
    \<and> (\<exists>tx'. plain_delete T tx k = (tx', Inr ()) \<and> plain_take S T tx k = (tx', plain_get S T tx k)
      \<and> tx_ok tx' \<and> (\<forall>k'. plain_get S T tx' k' = (if k' = k then Inr None else plain_get S T tx k')))"
proof -
  have law: "lawful_table T id"
    using assms(2,3) by unfold_locales (auto dest: injD)
  have same: "plain_put T tx k v = (fst (plain_replace S T tx k v), Inr ())"
    by (simp add: plain_defs swap_op_eq tx_put_def insert_op_def)
  obtain tx1 where 1: "plain_replace S T tx k v = (tx1, plain_get S T tx k)" "tx_ok tx1"
    "tx_get S tx1 = map_set (encode_key T k) (tcolumn T) (Some (encode_value T v)) (tx_get S tx)"
    using lawful_table.replace[OF law assms(1)] by blast
  obtain tx2 where 2: "plain_take S T tx k = (tx2, plain_get S T tx k)"
    "plain_delete T tx k = (tx2, Inr ())" "tx_ok tx2"
    "tx_get S tx2 = map_set (encode_key T k) (tcolumn T) None (tx_get S tx)"
    using lawful_table.remove[OF law assms(1)] by blast
  show ?thesis
    using 1 2 same lawful_table.get_map_set[OF law 1(3)] lawful_table.get_map_set[OF law 2(4)]
    by (simp add: assms(2))
qed

text \<open>The table of the off-chain database from block identifiers to heights: raw keys, primitive values.\<close>

definition FuelBlockIdsToHeights :: "u32 \<Rightarrow> (bytes32, u32) table" where
  "FuelBlockIdsToHeights column =
     \<lparr>tcolumn = column, encode_key = word_bytes, encode_value = primitive_encode,
      decode_value = primitive_decode\<rparr>"

interpretation block_ids: lawful_table "FuelBlockIdsToHeights column" id for column
  by unfold_locales (auto simp: FuelBlockIdsToHeights_def word_bytes_inj_iff)

theorem plain_table_is_map_witness:
  "\<exists>tx'. plain_put (FuelBlockIdsToHeights 1) (write_transaction sample_memory) 9 4 = (tx', Inr ())
     \<and> plain_get memory_kv (FuelBlockIdsToHeights 1) tx' 9 = Inr (Some 4)"
proof -
  have "tx_ok (write_transaction sample_memory)"
    by (simp add: tx_ok_def write_transaction_def transaction_def changes_ok_def)
  from plain_table_is_map[OF this, of "FuelBlockIdsToHeights 1" 9 4 memory_kv] show ?thesis
    using block_ids.decode_encode[of 1] block_ids.key_inj[of 1] by (auto simp: inj_def)
qed

section \<open>Merklized tables\<close>

text \<open>What the code relies on of the Merkle tree library.  \<open>holds tx leaves\<close> says that the table of nodes in
  \<open>tx\<close> is the tree of the leaves; \<open>root_of\<close> is the root that the library defines for a list of leaves.\<close>

locale merkle_tree = kv_inspect_laws S + vals: lawful_table "values_table M" norm +
    meta: lawful_table "metadata_table M" id
  for S :: "'s kv_inspect" and M :: "('k, 'v, 's) merklized_table" and norm :: "'v \<Rightarrow> 'v" +
  fixes root_of :: "bytes list \<Rightarrow> bytes32" and holds :: "'s in_memory_transaction \<Rightarrow> bytes list \<Rightarrow> bool"
    and nodes :: u32
  assumes holds_frame: "(\<And>k. tx_get S tx' k nodes = tx_get S tx k nodes) \<Longrightarrow> holds tx leaves \<Longrightarrow>
      holds tx' leaves"
    and push: "tx_ok tx \<Longrightarrow> holds tx leaves \<Longrightarrow> length leaves < 2 ^ 64 - 1 \<Longrightarrow>
      \<exists>tx'. tree_push (merkle M) tx (of_nat (length leaves)) leaf =
          (tx', Inr (of_nat (length leaves + 1), root_of (leaves @ [leaf])))
        \<and> tx_ok tx' \<and> storage tx' = storage tx \<and> holds tx' (leaves @ [leaf])
        \<and> (\<forall>k c. c \<noteq> nodes \<longrightarrow> tx_get S tx' k c = tx_get S tx k c)"
    and columns: "distinct [nodes, tcolumn (values_table M), tcolumn (metadata_table M)]"

text \<open>The state of a merklized table after the given entries, in order.\<close>

definition merkle_meta :: "(bytes list \<Rightarrow> bytes32) \<Rightarrow> bytes list \<Rightarrow> dense_merkle_metadata" where
  "merkle_meta root_of leaves =
     \<lparr>merkle_version = of_nat (length leaves), merkle_metadata_root = root_of leaves\<rparr>"

definition merklized_inv ::
    "'s kv_inspect \<Rightarrow> ('k, 'v, 's) merklized_table \<Rightarrow> ('v \<Rightarrow> 'v) \<Rightarrow> (bytes list \<Rightarrow> bytes32)
     \<Rightarrow> ('s in_memory_transaction \<Rightarrow> bytes list \<Rightarrow> bool) \<Rightarrow> ('k \<times> 'v) list \<Rightarrow> 's in_memory_transaction \<Rightarrow> bool" where
  "merklized_inv S M norm root_of holds es tx =
     (let leaves = map (leaf_encoder M \<circ> snd) es in
      tx_ok tx \<and> holds tx leaves
      \<and> (\<forall>k. plain_get S (values_table M) tx k = Inr (map_option norm (map_of es k)))
      \<and> plain_get S (metadata_table M) tx Latest =
          Inr (if es = [] then None else Some (merkle_meta root_of leaves))
      \<and> (\<forall>i<length es. plain_get S (metadata_table M) tx (Primary (fst (es ! i))) =
          Inr (Some (merkle_meta root_of (take (Suc i) leaves)))))"

context merkle_tree
begin

abbreviation inv where "inv \<equiv> merklized_inv S M norm root_of holds"
abbreviation leaves where "leaves es \<equiv> map (leaf_encoder M \<circ> snd) es"

lemma insert_into_tree:
  assumes "tx_ok tx" "holds tx ls" "length ls < 2 ^ 64 - 1"
    and latest: "plain_get S (metadata_table M) tx Latest =
      Inr (if ls = [] then None else Some (merkle_meta root_of ls))"
  obtains tx' where "insert_into_tree S M tx k v = (tx', Inr ())" "tx_ok tx'" "storage tx' = storage tx"
    "holds tx' (ls @ [leaf_encoder M v])"
    "\<And>k'. plain_get S (values_table M) tx' k' = plain_get S (values_table M) tx k'"
    "\<And>k'. plain_get S (metadata_table M) tx' k' =
       (if k' = Primary k \<or> k' = Latest then Inr (Some (merkle_meta root_of (ls @ [leaf_encoder M v])))
        else plain_get S (metadata_table M) tx k')"
proof -
  let ?leaf = "leaf_encoder M v" and ?T = "metadata_table M"
  let ?m = "merkle_meta root_of (ls @ [?leaf])"
  obtain tx1 where 1: "tree_push (merkle M) tx (of_nat (length ls)) ?leaf =
      (tx1, Inr (of_nat (length ls + 1), root_of (ls @ [?leaf])))" "tx_ok tx1" "storage tx1 = storage tx"
      "holds tx1 (ls @ [?leaf])" "\<And>k c. c \<noteq> nodes \<Longrightarrow> tx_get S tx1 k c = tx_get S tx k c"
    using push[OF assms(1-3)] by blast
  obtain tx2 where 2: "plain_put ?T tx1 (Primary k) ?m = (tx2, Inr ())" "tx_ok tx2"
      "storage tx2 = storage tx1"
      "tx_get S tx2 = map_set (encode_key ?T (Primary k)) (tcolumn ?T) (Some (encode_value ?T ?m)) (tx_get S tx1)"
    using meta.put[OF 1(2)] by blast
  obtain tx3 where 3: "plain_put ?T tx2 Latest ?m = (tx3, Inr ())" "tx_ok tx3"
      "storage tx3 = storage tx2"
      "tx_get S tx3 = map_set (encode_key ?T Latest) (tcolumn ?T) (Some (encode_value ?T ?m)) (tx_get S tx2)"
    using meta.put[OF 2(2)] by blast
  have version: "(case if ls = [] then None else Some (merkle_meta root_of ls) of
      None \<Rightarrow> 0 | Some m \<Rightarrow> merkle_version m) = of_nat (length ls)"
    by (simp add: merkle_meta_def)
  have "insert_into_tree S M tx k v = (tx3, Inr ())"
    using 1(1) 2(1) 3(1) unfolding insert_into_tree_def latest sum.case Let_def version
    by (simp add: merkle_meta_def)
  moreover have other: "tx_get S tx3 k c = tx_get S tx1 k c" if "c \<noteq> tcolumn ?T" for k c
    using that by (simp add: 2(4) 3(4) map_set_def)
  have "holds tx3 (ls @ [?leaf])"
    using columns by (intro holds_frame[OF other 1(4)]) auto
  moreover have "plain_get S (values_table M) tx3 k' = plain_get S (values_table M) tx k'" for k'
    using columns by (auto simp: plain_get_def other 1(5))
  moreover have "plain_get S ?T tx1 k' = plain_get S ?T tx k'" for k'
    using columns by (auto simp: plain_get_def 1(5))
  then have "plain_get S ?T tx3 k' = (if k' = Primary k \<or> k' = Latest then Inr (Some ?m)
      else plain_get S ?T tx k')" for k'
    using meta.get_map_set[OF 3(4)] meta.get_map_set[OF 2(4)] by (simp add: meta.decode_encode)
  ultimately show ?thesis
    using that 1(3) 2(3) 3(2,3) by simp
qed

lemma exists_iff:
  assumes "tx_get S tx key column = Inr r"
  shows "merklized_remove S tx key column = (if r = None then Inr () else Inl override_error)"
  using assms by (cases r)
    (simp_all add: merklized_remove_def tx_exists_default default_exists_def default_size_of_value_def)

lemma replace_new:
  assumes "inv es tx" "k \<notin> fst ` set es" "length es < 2 ^ 64 - 1"
  obtains tx' where "merklized_replace S M tx k v = (tx', Inr None)" "inv (es @ [(k, v)]) tx'"
    "storage tx' = storage tx"
proof -
  let ?T = "values_table M"
  have I: "tx_ok tx" "holds tx (leaves es)" "\<And>k. plain_get S ?T tx k = Inr (map_option norm (map_of es k))"
      "plain_get S (metadata_table M) tx Latest =
        Inr (if leaves es = [] then None else Some (merkle_meta root_of (leaves es)))"
      "\<And>i. i < length es \<Longrightarrow> plain_get S (metadata_table M) tx (Primary (fst (es ! i))) =
        Inr (Some (merkle_meta root_of (take (Suc i) (leaves es))))"
    using assms(1) by (simp_all add: merklized_inv_def Let_def)
  obtain tx1 where 1: "plain_replace S ?T tx k v = (tx1, plain_get S ?T tx k)" "tx_ok tx1"
      "storage tx1 = storage tx"
      "tx_get S tx1 = map_set (encode_key ?T k) (tcolumn ?T) (Some (encode_value ?T v)) (tx_get S tx)"
    using vals.replace[OF I(1)] by blast
  have none: "map_of es k = None" using assms(2) by (simp add: map_of_eq_None_iff[THEN iffD2])
  have frame: "tx_get S tx1 k' c = tx_get S tx k' c" if "c \<noteq> tcolumn ?T" for k' c
    using that by (simp add: 1(4) map_set_def)
  have meta1: "plain_get S (metadata_table M) tx1 k' = plain_get S (metadata_table M) tx k'" for k'
    using columns by (auto simp: plain_get_def frame)
  have vals1: "plain_get S ?T tx1 k' = (if k' = k then Inr (Some (norm v)) else plain_get S ?T tx k')" for k'
    using vals.get_map_set[OF 1(4)] by (simp add: vals.decode_encode)
  have h1: "holds tx1 (leaves es)"
    using columns by (intro holds_frame[OF frame I(2)]) auto
  obtain tx2 where 2: "insert_into_tree S M tx1 k v = (tx2, Inr ())" "tx_ok tx2" "storage tx2 = storage tx1"
      "holds tx2 (leaves es @ [leaf_encoder M v])"
      "\<And>k'. plain_get S ?T tx2 k' = plain_get S ?T tx1 k'"
      "\<And>k'. plain_get S (metadata_table M) tx2 k' = (if k' = Primary k \<or> k' = Latest
         then Inr (Some (merkle_meta root_of (leaves es @ [leaf_encoder M v])))
         else plain_get S (metadata_table M) tx1 k')"
    using insert_into_tree[OF 1(2) h1] assms(3) I(4) meta1 by auto
  have "merklized_replace S M tx k v = (tx2, Inr None)"
    using 1(1) 2(1) by (simp add: merklized_replace_def I(3) none)
  moreover have "inv (es @ [(k, v)]) tx2"
  proof -
    have "es ! i \<in> set es" if "i < length es" for i using that by simp
    then have "fst (es ! i) \<noteq> k" if "i < length es" for i
      using that assms(2) by force
    then show ?thesis
      using 2 meta1 vals1 I(3,5) none
      by (auto simp: merklized_inv_def Let_def nth_append map_add_def less_Suc_eq split: option.splits)
  qed
  ultimately show ?thesis using that 1(3) 2(3) by simp
qed

lemma replace_old:
  assumes "inv es tx" "k \<in> fst ` set es"
  shows "snd (merklized_replace S M tx k v) = Inl override_error"
    "merklized_take S M tx k = (tx, Inl override_error)" "merklized_delete S M tx k = Inl override_error"
proof -
  let ?T = "values_table M"
  have ok: "tx_ok tx" and get: "plain_get S ?T tx k = Inr (map_option norm (map_of es k))" and "map_of es k \<noteq> None"
    using assms by (auto simp: merklized_inv_def Let_def map_of_eq_None_iff)
  then obtain old where old: "plain_get S ?T tx k = Inr (Some old)" by auto
  then obtain b where b: "tx_get S tx (encode_key ?T k) (tcolumn ?T) = Inr (Some b)"
    by (auto simp: plain_get_def elim: decode_stored.elims)
  show "merklized_take S M tx k = (tx, Inl override_error)" "merklized_delete S M tx k = Inl override_error"
    using exists_iff[OF b] by (simp_all add: merklized_take_def merklized_delete_def)
  obtain tx1 where 1: "plain_replace S ?T tx k v = (tx1, plain_get S ?T tx k)"
      "tx_get S tx1 = map_set (encode_key ?T k) (tcolumn ?T) (Some (encode_value ?T v)) (tx_get S tx)"
    using vals.replace[OF ok] by blast
  have "tx_get S tx1 (encode_key ?T k) (tcolumn ?T) = Inr (Some (encode_value ?T v))"
    by (simp add: 1(2) map_set_def)
  from exists_iff[OF this] show "snd (merklized_replace S M tx k v) = Inl override_error"
    by (simp add: merklized_replace_def 1(1) old)
qed

lemma batch_insert:
  assumes "inv es tx" "distinct (map fst (es @ new))" "length (es @ new) < 2 ^ 64"
  shows "\<exists>tx'. merklized_batch_insert S M tx new = (tx', Inr ()) \<and> inv (es @ new) tx' \<and> storage tx' = storage tx"
  using assms
proof (induction new arbitrary: es tx)
  case (Cons e new)
  obtain k v where e: "e = (k, v)" by force
  have "k \<notin> fst ` set es" "length es < 2 ^ 64 - 1" using Cons.prems e by auto
  then obtain tx1 where 1: "merklized_replace S M tx k v = (tx1, Inr None)" "inv (es @ [(k, v)]) tx1"
      "storage tx1 = storage tx"
    using replace_new[OF Cons.prems(1)] by blast
  with Cons.IH[OF 1(2)] Cons.prems show ?case by (simp add: e)
qed simp

lemma root_at:
  "inv es tx \<Longrightarrow> i < length es \<Longrightarrow>
   merklized_root S M tx (fst (es ! i)) = Inr (root_of (take (Suc i) (leaves es)))"
  by (simp add: merklized_inv_def Let_def merklized_root_def merkle_meta_def)

end

text \<open>A tree over the table of nodes that keeps every leaf under its index, for any root function.\<close>

fun read_leaves :: "'s kv_inspect \<Rightarrow> u32 \<Rightarrow> 's in_memory_transaction \<Rightarrow> nat \<Rightarrow> bytes list" where
  "read_leaves S nodes tx 0 = []"
| "read_leaves S nodes tx (Suc n) = read_leaves S nodes tx n @
     (case tx_get S tx (word_bytes (of_nat n :: u64)) nodes of Inr (Some leaf) \<Rightarrow> [leaf] | _ \<Rightarrow> [])"

definition leaf_tree :: "'s kv_inspect \<Rightarrow> u32 \<Rightarrow> (bytes list \<Rightarrow> bytes32) \<Rightarrow> 's merkle_lib" where
  "leaf_tree S nodes root_of =
     \<lparr>empty_root = root_of [],
      tree_push = (\<lambda>tx version leaf.
        (case tx_put tx (word_bytes version) nodes leaf of
           (tx', _) \<Rightarrow> (tx', Inr (version + 1, root_of (read_leaves S nodes tx' (unat version + 1))))))\<rparr>"

definition leaf_tree_holds :: "'s kv_inspect \<Rightarrow> u32 \<Rightarrow> 's in_memory_transaction \<Rightarrow> bytes list \<Rightarrow> bool" where
  "leaf_tree_holds S nodes tx leaves =
     (\<forall>i<length leaves. tx_get S tx (word_bytes (of_nat i :: u64)) nodes = Inr (Some (leaves ! i)))"

lemma read_leaves_eq:
  "leaf_tree_holds S nodes tx leaves \<Longrightarrow> n \<le> length leaves \<Longrightarrow> read_leaves S nodes tx n = take n leaves"
  by (induction n) (simp_all add: leaf_tree_holds_def take_Suc_conv_app_nth)

lemma leaf_tree_push:
  assumes "tx_ok tx" "leaf_tree_holds S nodes tx leaves" "length leaves < 2 ^ 64 - 1"
  shows "\<exists>tx'. tree_push (leaf_tree S nodes root_of) tx (of_nat (length leaves)) leaf =
      (tx', Inr (of_nat (length leaves + 1), root_of (leaves @ [leaf])))
    \<and> tx_ok tx' \<and> storage tx' = storage tx \<and> leaf_tree_holds S nodes tx' (leaves @ [leaf])
    \<and> (\<forall>k c. c \<noteq> nodes \<longrightarrow> tx_get S tx' k c = tx_get S tx k c)"
proof -
  let ?n = "of_nat (length leaves) :: u64"
  obtain tx' r where e: "tx_put tx (word_bytes ?n) nodes leaf = (tx', r)" by fastforce
  note put = tx_put_get[OF assms(1) e]
  have n: "unat ?n = length leaves"
    using assms(3) by (simp add: unsigned_of_nat take_bit_nat_eq_self)
  have key: "word_bytes (of_nat i :: u64) = word_bytes ?n \<longleftrightarrow> i = length leaves" if "i \<le> length leaves" for i
    using that assms(3) n by (auto simp: word_bytes_inj_iff word_unat_eq_iff unsigned_of_nat take_bit_nat_eq_self)
  have h: "leaf_tree_holds S nodes tx' (leaves @ [leaf])"
    using assms(2) key by (auto simp: leaf_tree_holds_def put(4) map_set_def nth_append less_Suc_eq)
  then have "read_leaves S nodes tx' (unat ?n + 1) = leaves @ [leaf]"
    using read_leaves_eq[OF h, of "unat ?n + 1"] n by simp
  with e h put show ?thesis by (simp add: leaf_tree_def map_set_def)
qed

text \<open>The tables of blocks, their consensus data and their transactions, with the columns of
  \<open>column.rs\<close>.  The postcard codec is a parameter.\<close>

record ('tx, 'sig) postcard =
  block_codec :: "(compressed_block \<Rightarrow> bytes) \<times> (bytes \<Rightarrow> compressed_block option)"
  seal_codec :: "('sig consensus \<Rightarrow> bytes) \<times> (bytes \<Rightarrow> 'sig consensus option)"
  tx_codec :: "('tx \<Rightarrow> bytes) \<times> (bytes \<Rightarrow> 'tx option)"
  metadata_key_codec :: "block_height dense_metadata_key \<Rightarrow> bytes"
  metadata_codec :: "(dense_merkle_metadata \<Rightarrow> bytes) \<times> (bytes \<Rightarrow> dense_merkle_metadata option)"

definition FuelBlocks_column :: u32 where "FuelBlocks_column = 7"
definition FuelBlockMerkleData_column :: u32 where "FuelBlockMerkleData_column = 8"
definition FuelBlockMerkleMetadata_column :: u32 where "FuelBlockMerkleMetadata_column = 9"
definition FuelBlockConsensus_column :: u32 where "FuelBlockConsensus_column = 16"
definition Transactions_column :: u32 where "Transactions_column = 6"
definition Metadata_column :: u32 where "Metadata_column = 0"

lemmas column_defs = FuelBlocks_column_def FuelBlockMerkleData_column_def FuelBlockMerkleMetadata_column_def
  FuelBlockConsensus_column_def Transactions_column_def Metadata_column_def

definition FuelBlockMerkleMetadata ::
    "('tx, 'sig) postcard \<Rightarrow> (block_height dense_metadata_key, dense_merkle_metadata) table" where
  "FuelBlockMerkleMetadata P =
     \<lparr>tcolumn = FuelBlockMerkleMetadata_column, encode_key = metadata_key_codec P,
      encode_value = fst (metadata_codec P), decode_value = snd (metadata_codec P)\<rparr>"

definition FuelBlocks ::
    "'tx fuel_lib \<Rightarrow> ('tx, 'sig) postcard \<Rightarrow> 's merkle_lib
     \<Rightarrow> (block_height, compressed_block, 's) merklized_table" where
  "FuelBlocks L P T =
     \<lparr>values_table = \<lparr>tcolumn = FuelBlocks_column, encode_key = primitive_encode,
        encode_value = fst (block_codec P), decode_value = snd (block_codec P)\<rparr>,
      metadata_table = FuelBlockMerkleMetadata P,
      leaf_encoder = (\<lambda>b. word_bytes (block_id_of L b)),
      merkle = T\<rparr>"

definition SealedBlockConsensus :: "('tx, 'sig) postcard \<Rightarrow> (block_height, 'sig consensus) table" where
  "SealedBlockConsensus P =
     \<lparr>tcolumn = FuelBlockConsensus_column, encode_key = primitive_encode,
      encode_value = fst (seal_codec P), decode_value = snd (seal_codec P)\<rparr>"

definition Transactions :: "('tx, 'sig) postcard \<Rightarrow> (bytes32, 'tx) table" where
  "Transactions P =
     \<lparr>tcolumn = Transactions_column, encode_key = word_bytes,
      encode_value = fst (tx_codec P), decode_value = snd (tx_codec P)\<rparr>"

text \<open>What the code relies on of the postcard codec: a decoder inverts its encoder, except for the cached
  identifier of a header, and keys have different encodings.\<close>

fun strip_header :: "block_header \<Rightarrow> block_header" where
  "strip_header (HeaderV1 h) = HeaderV1 (h\<lparr>metadata := None\<rparr>)"

fun strip_block :: "'tx block \<Rightarrow> 'tx block" where
  "strip_block (BlockV1 b) = BlockV1 (b\<lparr>header := strip_header (header b)\<rparr>)"

definition postcard_ok :: "('tx, 'sig) postcard \<Rightarrow> bool" where
  "postcard_ok P =
     ((\<forall>b. snd (block_codec P) (fst (block_codec P) b) = Some (strip_block b))
      \<and> (\<forall>c. snd (seal_codec P) (fst (seal_codec P) c) = Some c)
      \<and> (\<forall>t. snd (tx_codec P) (fst (tx_codec P) t) = Some t)
      \<and> (\<forall>m. snd (metadata_codec P) (fst (metadata_codec P) m) = Some m)
      \<and> inj (metadata_key_codec P))"

lemma block_tables_lawful:
  assumes "postcard_ok P"
  shows "lawful_table (values_table (FuelBlocks L P T)) strip_block"
    "lawful_table (FuelBlockMerkleMetadata P) id"
    "lawful_table (SealedBlockConsensus P) id" "lawful_table (Transactions P) id"
  using assms
  by (unfold_locales; auto simp: postcard_ok_def FuelBlocks_def FuelBlockMerkleMetadata_def
      SealedBlockConsensus_def Transactions_def primitive_encode_def word_bytes_inj_iff dest: injD)+

lemma block_tree:
  assumes "kv_inspect_laws S" "postcard_ok P"
  shows "merkle_tree S (FuelBlocks L P (leaf_tree S FuelBlockMerkleData_column root_of)) strip_block root_of
    (leaf_tree_holds S FuelBlockMerkleData_column) FuelBlockMerkleData_column"
proof -
  let ?M = "FuelBlocks L P (leaf_tree S FuelBlockMerkleData_column root_of)"
  have "merkle_tree_axioms S ?M root_of (leaf_tree_holds S FuelBlockMerkleData_column)
      FuelBlockMerkleData_column"
    using leaf_tree_push[of _ S FuelBlockMerkleData_column _ root_of]
    by unfold_locales (auto simp: FuelBlocks_def FuelBlockMerkleMetadata_def column_defs leaf_tree_holds_def)
  with assms block_tables_lawful[OF assms(2)] show ?thesis
    by (intro merkle_tree.intro) (simp_all add: FuelBlocks_def)
qed

text \<open>C17. The merklized table of blocks.  Start from a table without entries and insert blocks at different
  heights through \<open>replace\<close>, over any tree library that satisfies the law of \<open>merkle_tree\<close>.  All insertions
  succeed; the root stored for a height is the root over the identifiers of all blocks inserted up to it; and
  no inserted block can be replaced, taken or deleted: each of these returns the error.\<close>

theorem block_roots_cover_all_ids:
  assumes "merkle_tree S (FuelBlocks L P T) strip_block root_of holds nodes"
    and "merklized_inv S (FuelBlocks L P T) strip_block root_of holds [] tx"
    and "distinct (map fst blocks)" "length blocks < 2 ^ 64"
  shows "\<exists>tx'. merklized_batch_insert S (FuelBlocks L P T) tx blocks = (tx', Inr ())
    \<and> (\<forall>i<length blocks. merklized_root S (FuelBlocks L P T) tx' (fst (blocks ! i)) =
        Inr (root_of (map (\<lambda>b. word_bytes (block_id_of L (snd b))) (take (Suc i) blocks))))
    \<and> (\<forall>h\<in>fst ` set blocks. \<forall>b. snd (merklized_replace S (FuelBlocks L P T) tx' h b) = Inl override_error
        \<and> merklized_take S (FuelBlocks L P T) tx' h = (tx', Inl override_error)
        \<and> merklized_delete S (FuelBlocks L P T) tx' h = Inl override_error)"
proof -
  let ?M = "FuelBlocks L P T"
  obtain tx' where tx': "merklized_batch_insert S ?M tx blocks = (tx', Inr ())"
    and inv: "merklized_inv S ?M strip_block root_of holds blocks tx'"
    using merkle_tree.batch_insert[OF assms(1,2)] assms(3,4) by force
  have "merklized_root S ?M tx' (fst (blocks ! i)) =
      Inr (root_of (map (\<lambda>b. word_bytes (block_id_of L (snd b))) (take (Suc i) blocks)))"
    if "i < length blocks" for i
    using merkle_tree.root_at[OF assms(1) inv that]
    by (simp add: FuelBlocks_def comp_def take_map)
  with tx' merkle_tree.replace_old[OF assms(1) inv] show ?thesis by blast
qed

section \<open>A reference codec\<close>

text \<open>A codec that satisfies the law, with transactions and signatures of eight bytes: fields of fixed width
  one after the other, as the hashed byte strings have them.\<close>

definition slice :: "nat \<Rightarrow> nat \<Rightarrow> bytes \<Rightarrow> 'a::len word" where
  "slice a n bs = word_of_bytes (take n (drop a bs))"

definition encode_ref_header :: "block_header \<Rightarrow> bytes" where
  "encode_ref_header h = application_bytes (hdr_application h) @ consensus_bytes (hdr_consensus h)"

definition decode_ref_header :: "bytes \<Rightarrow> block_header" where
  "decode_ref_header bs = HeaderV1
     \<lparr>application = \<lparr>da_height = slice 0 8 bs, consensus_parameters_version = slice 8 4 bs,
        state_transition_bytecode_version = slice 12 4 bs,
        app_generated = \<lparr>transactions_count = slice 16 2 bs, message_receipt_count = slice 18 4 bs,
          transactions_root = slice 22 32 bs, message_outbox_root = slice 54 32 bs,
          event_inbox_root = slice 86 32 bs\<rparr>\<rparr>,
      con_header = \<lparr>prev_root = slice 118 32 bs, height = slice 150 4 bs, time = slice 154 8 bs,
        con_generated = \<lparr>application_hash = slice 162 32 bs\<rparr>\<rparr>,
      metadata = None\<rparr>"

fun decode_ref_ids :: "nat \<Rightarrow> bytes \<Rightarrow> bytes32 list" where
  "decode_ref_ids 0 bs = []"
| "decode_ref_ids (Suc n) bs = slice 0 32 bs # decode_ref_ids n (drop 32 bs)"

definition encode_ref_block :: "compressed_block \<Rightarrow> bytes" where
  "encode_ref_block b =
     encode_ref_header (blk_header b) @ concat (map word_bytes (blk_transactions b))"

definition decode_ref_block :: "bytes \<Rightarrow> compressed_block option" where
  "decode_ref_block bs =
     (if 194 \<le> length bs
      then Some (BlockV1 \<lparr>header = decode_ref_header (take 194 bs),
        transactions = decode_ref_ids ((length bs - 194) div 32) (drop 194 bs)\<rparr>)
      else None)"

fun encode_ref_seal :: "u64 consensus \<Rightarrow> bytes" where
  "encode_ref_seal (Genesis g) = 0 # word_bytes (chain_config_hash g) @ word_bytes (coins_root g)
     @ word_bytes (contracts_root g) @ word_bytes (messages_root g) @ word_bytes (genesis_transactions_root g)"
| "encode_ref_seal (PoA c) = 1 # word_bytes (signature c)"

definition decode_ref_seal :: "bytes \<Rightarrow> u64 consensus option" where
  "decode_ref_seal bs =
     (case bs of
        [] \<Rightarrow> None
      | b # rest \<Rightarrow>
          Some (if b = 0
            then Genesis \<lparr>chain_config_hash = slice 0 32 rest, coins_root = slice 32 32 rest,
              contracts_root = slice 64 32 rest, messages_root = slice 96 32 rest,
              genesis_transactions_root = slice 128 32 rest\<rparr>
            else PoA \<lparr>signature = slice 0 8 rest\<rparr>))"

fun encode_ref_key :: "block_height dense_metadata_key \<Rightarrow> bytes" where
  "encode_ref_key (Primary h) = 0 # word_bytes h"
| "encode_ref_key Latest = [1]"

definition encode_ref_metadata :: "dense_merkle_metadata \<Rightarrow> bytes" where
  "encode_ref_metadata m = word_bytes (merkle_version m) @ word_bytes (merkle_metadata_root m)"

definition decode_ref_metadata :: "bytes \<Rightarrow> dense_merkle_metadata option" where
  "decode_ref_metadata bs =
     (if length bs = 40 then Some \<lparr>merkle_version = slice 0 8 bs, merkle_metadata_root = slice 8 32 bs\<rparr>
      else None)"

definition reference_postcard :: "(u64, u64) postcard" where
  "reference_postcard =
     \<lparr>block_codec = (encode_ref_block, decode_ref_block), seal_codec = (encode_ref_seal, decode_ref_seal),
      tx_codec = (primitive_encode, primitive_decode), metadata_key_codec = encode_ref_key,
      metadata_codec = (encode_ref_metadata, decode_ref_metadata)\<rparr>"

lemma slice_word:
  "LENGTH('a) mod 8 = 0 \<Longrightarrow> n = LENGTH('a) div 8 \<Longrightarrow> slice 0 n (word_bytes w @ ys) = (w :: 'a::len word)"
  by (simp add: slice_def word_of_bytes_word_bytes)

lemma slice_end:
  "LENGTH('a) mod 8 = 0 \<Longrightarrow> n = LENGTH('a) div 8 \<Longrightarrow> slice 0 n (word_bytes w) = (w :: 'a::len word)"
  using slice_word[of n w "[]"] by simp

lemma slice_shift: "slice a n (xs @ ys) = slice (a - length xs) n ys" if "length xs \<le> a"
  using that by (simp add: slice_def)

lemma slice_drop_word:
  "LENGTH('b) div 8 \<le> a \<Longrightarrow> slice a n (word_bytes (w :: 'b::len word) @ ys) = slice (a - LENGTH('b) div 8) n ys"
  by (simp add: slice_shift)

lemma decode_encode_ref_header:
  "decode_ref_header (encode_ref_header h) = strip_header h" "length (encode_ref_header h) = 194"
proof -
  obtain v where h: "h = HeaderV1 v" by (cases h)
  show "decode_ref_header (encode_ref_header h) = strip_header h"
    unfolding decode_ref_header_def encode_ref_header_def application_bytes_def consensus_bytes_def
      append_assoc
    by (simp add: h slice_word slice_drop_word slice_end)
  show "length (encode_ref_header h) = 194"
    by (simp add: encode_ref_header_def application_bytes_def consensus_bytes_def)
qed

lemma decode_encode_ref_ids:
  "decode_ref_ids (length ids) (concat (map word_bytes ids)) = ids"
  "length (concat (map word_bytes (ids :: bytes32 list))) = 32 * length ids"
  by (induction ids) (simp_all add: slice_word)

lemma reference_postcard_ok: "postcard_ok reference_postcard"
proof -
  have block: "decode_ref_block (encode_ref_block b) = Some (strip_block b)" for b
    by (cases b) (simp add: decode_ref_block_def encode_ref_block_def decode_encode_ref_header
        decode_encode_ref_ids)
  have seal: "decode_ref_seal (encode_ref_seal c) = Some c" for c
    by (cases c rule: encode_ref_seal.cases)
      (simp_all add: decode_ref_seal_def slice_word slice_drop_word slice_end)
  have meta: "decode_ref_metadata (encode_ref_metadata m) = Some m" for m
    by (simp add: decode_ref_metadata_def encode_ref_metadata_def slice_word slice_drop_word slice_end)
  have key: "inj encode_ref_key"
  proof (rule injI)
    fix k k' assume "encode_ref_key k = encode_ref_key k'"
    then show "k = k'" by (cases k; cases k') (auto simp: word_bytes_inj_iff)
  qed
  from block seal meta key show ?thesis by (simp add: postcard_ok_def reference_postcard_def)
qed

interpretation block_table:
  merkle_tree memory_kv
    "FuelBlocks L reference_postcard (leaf_tree memory_kv FuelBlockMerkleData_column root_of)" strip_block
    root_of "leaf_tree_holds memory_kv FuelBlockMerkleData_column" FuelBlockMerkleData_column
  for L :: "u64 fuel_lib" and root_of
  by (rule block_tree[OF memory.kv_inspect_laws_axioms reference_postcard_ok])

definition sample_chain_db :: memory_store where
  "sample_chain_db = memory_default 21"

lemma memory_default_get:
  "c \<le> 21 \<Longrightarrow> memory_get sample_chain_db k c = Inr None"
proof -
  assume "c \<le> 21"
  then have "unat c < 22" by (simp add: word_le_nat_alt)
  then show ?thesis
    by (simp add: memory_get_def Memory_Store.table_def sample_chain_db_def memory_default_def
        map_replicate_trivial map_replicate_const)
qed

lemma sample_chain_fresh:
  "merklized_inv memory_kv
     (FuelBlocks L reference_postcard (leaf_tree memory_kv FuelBlockMerkleData_column root_of)) strip_block
     root_of (leaf_tree_holds memory_kv FuelBlockMerkleData_column) [] (write_transaction sample_chain_db)"
proof -
  have get: "tx_get memory_kv (write_transaction sample_chain_db) k c = Inr None" if "c \<le> 21" for k c
    using memory_default_get[OF that]
    by (simp add: tx_get_overlay write_transaction_def transaction_def overlay_def memory_kv_def
        kv_default_def)
  show ?thesis
    by (simp add: merklized_inv_def leaf_tree_holds_def plain_get_def FuelBlocks_def
        FuelBlockMerkleMetadata_def column_defs get)
      (simp add: tx_ok_def write_transaction_def transaction_def changes_ok_def)
qed

theorem block_roots_cover_all_ids_witness:
  "\<exists>tx'. merklized_batch_insert memory_kv
      (FuelBlocks sample_lib reference_postcard
        (leaf_tree memory_kv FuelBlockMerkleData_column (\<lambda>ls. of_nat (length ls))))
      (write_transaction sample_chain_db)
      [(1, compress sample_lib 0 sample_block), (2, compress sample_lib 0 sample_block)] = (tx', Inr ())
    \<and> merklized_root memory_kv
        (FuelBlocks sample_lib reference_postcard
          (leaf_tree memory_kv FuelBlockMerkleData_column (\<lambda>ls. of_nat (length ls)))) tx' 2 = Inr 2"
proof -
  let ?M = "FuelBlocks sample_lib reference_postcard
      (leaf_tree memory_kv FuelBlockMerkleData_column (\<lambda>ls. of_nat (length ls)))"
  let ?bs = "[(1, compress sample_lib 0 sample_block), (2, compress sample_lib 0 sample_block)]"
  obtain tx' where tx': "merklized_batch_insert memory_kv ?M (write_transaction sample_chain_db) ?bs = (tx', Inr ())"
    and roots: "\<forall>i<length ?bs. merklized_root memory_kv ?M tx' (fst (?bs ! i)) =
      Inr (of_nat (length (map (\<lambda>b. word_bytes (block_id_of sample_lib (snd b))) (take (Suc i) ?bs))))"
    using block_roots_cover_all_ids[OF block_table.merkle_tree_axioms sample_chain_fresh, of ?bs sample_lib
        "\<lambda>ls. of_nat (length ls)"] by auto
  have "merklized_root memory_kv ?M tx' 2 = Inr 2"
    using roots[rule_format, of 1] by simp
  with tx' show ?thesis by blast
qed

text \<open>C37. The operations of a merklized table on an existing entry.  \<open>replace\<close>, \<open>take\<close> and \<open>delete\<close> refuse it
  with the error that entries may not be removed or overridden.  \<open>put\<close>, which the insertion into a table
  calls, does overwrite the entry, and pushes the new value as one more leaf: after it the entry reads as the
  new value and the latest root covers both.\<close>

theorem merklized_put_overwrites:
  assumes "merkle_tree S M norm root_of holds nodes" "merklized_inv S M norm root_of holds es tx"
    and "k \<in> fst ` set es" "length es < 2 ^ 64 - 1"
  shows "snd (merklized_replace S M tx k v) = Inl override_error
    \<and> merklized_take S M tx k = (tx, Inl override_error) \<and> merklized_delete S M tx k = Inl override_error
    \<and> (\<exists>tx'. merklized_put S M tx k v = (tx', Inr ())
      \<and> plain_get S (values_table M) tx' k = Inr (Some (norm v))
      \<and> plain_get S (metadata_table M) tx' Latest =
          Inr (Some (merkle_meta root_of (map (leaf_encoder M \<circ> snd) es @ [leaf_encoder M v]))))"
proof -
  let ?T = "values_table M" and ?ls = "map (leaf_encoder M \<circ> snd) es"
  have vals: "lawful_table ?T norm" and cols: "distinct [nodes, tcolumn ?T, tcolumn (metadata_table M)]"
    using assms(1) by (auto simp: merkle_tree_def merkle_tree_axioms_def)
  have I: "tx_ok tx" "holds tx ?ls" "plain_get S (metadata_table M) tx Latest =
      Inr (if ?ls = [] then None else Some (merkle_meta root_of ?ls))"
    using assms(2) by (simp_all add: merklized_inv_def Let_def)
  obtain tx1 where 1: "plain_put ?T tx k v = (tx1, Inr ())" "tx_ok tx1"
      "tx_get S tx1 = map_set (encode_key ?T k) (tcolumn ?T) (Some (encode_value ?T v)) (tx_get S tx)"
    using lawful_table.put[OF vals I(1)] by blast
  have frame: "tx_get S tx1 k' c = tx_get S tx k' c" if "c \<noteq> tcolumn ?T" for k' c
    using that by (simp add: 1(3) map_set_def)
  have h1: "holds tx1 ?ls"
    using cols by (intro merkle_tree.holds_frame[OF assms(1) frame I(2)]) auto
  have l1: "plain_get S (metadata_table M) tx1 Latest =
      Inr (if ?ls = [] then None else Some (merkle_meta root_of ?ls))"
    using I(3) cols by (auto simp: plain_get_def frame)
  have "length ?ls < 2 ^ 64 - 1" using assms(4) by simp
  then obtain tx2 where 2: "insert_into_tree S M tx1 k v = (tx2, Inr ())"
      "\<And>k'. plain_get S ?T tx2 k' = plain_get S ?T tx1 k'"
      "plain_get S (metadata_table M) tx2 Latest =
        Inr (Some (merkle_meta root_of (?ls @ [leaf_encoder M v])))"
    using merkle_tree.insert_into_tree[OF assms(1) 1(2) h1 _ l1, of k v] by (metis (no_types))
  have "plain_get S ?T tx1 k = Inr (Some (norm v))"
    using lawful_table.get_map_set[OF vals 1(3)] lawful_table.decode_encode[OF vals] by simp
  with 1(1) 2 merkle_tree.replace_old[OF assms(1-3)] show ?thesis by (simp add: merklized_put_def)
qed

theorem merklized_put_overwrites_witness:
  "\<exists>tx tx'. merklized_delete memory_kv
      (FuelBlocks sample_lib reference_postcard
        (leaf_tree memory_kv FuelBlockMerkleData_column (\<lambda>ls. of_nat (length ls)))) tx 1 = Inl override_error
    \<and> merklized_put memory_kv
      (FuelBlocks sample_lib reference_postcard
        (leaf_tree memory_kv FuelBlockMerkleData_column (\<lambda>ls. of_nat (length ls)))) tx 1
      (compress sample_lib 0 sample_block) = (tx', Inr ())
    \<and> plain_get memory_kv (FuelBlockMerkleMetadata reference_postcard) tx' Latest =
        Inr (Some \<lparr>merkle_version = 2, merkle_metadata_root = 2\<rparr>)"
proof -
  let ?M = "FuelBlocks sample_lib reference_postcard
      (leaf_tree memory_kv FuelBlockMerkleData_column (\<lambda>ls. of_nat (length ls)))"
  let ?b = "compress sample_lib 0 sample_block"
  obtain tx where tx: "block_table.inv sample_lib (\<lambda>ls. of_nat (length ls)) [(1, ?b)] tx"
    using block_table.replace_new[OF sample_chain_fresh[of sample_lib "\<lambda>ls. of_nat (length ls)"],
        where k = 1 and v = ?b] by auto
  from merklized_put_overwrites[OF block_table.merkle_tree_axioms tx, where k = 1 and v = ?b] show ?thesis
    by (auto simp: FuelBlocks_def merkle_meta_def)
qed

end
