(* ===== verification/Database.thy ===== *)
theory Database
  imports Tables
begin

text \<open>
  The database of the node: a store together with the height of the last commit
  (\<open>crates/fuel-core/src/database.rs\<close>, \<open>database/database_description.rs\<close> and \<open>database/metadata.rs\<close>).
  A commit finds the heights that its changes introduce, checks that they continue the chain of commits,
  adds the new height to the metadata table and commits everything at once; the height is also cached in
  memory.  The on-chain database takes the heights from the keys of the blocks that the changes insert.
  Heights are block heights, as in the on-chain, off-chain, gas price and compression databases; the
  relayer's database counts layer one heights of 64 bits in the same way.

  The store below is a record of the operations of the trait \<open>TransactableStorage\<close>; its contract is the
  locale \<open>transactable\<close>, interpreted on the in-memory database.  The lemmas show that the cached height, the
  stored height and the greatest stored block always agree and that committed heights are consecutive.
\<close>

section \<open>database_description.rs\<close>

definition as_u64 :: "block_height \<Rightarrow> u64" where
  "as_u64 h = ucast h"

definition advance_height :: "block_height \<Rightarrow> block_height option" where
  "advance_height h = checked_add h 1"

definition rollback_height :: "block_height \<Rightarrow> block_height option" where
  "rollback_height h = checked_sub h 1"

datatype indexation_kind = Balances | CoinsToSpend | AssetMetadata

instantiation indexation_kind :: enum
begin

definition enum_indexation_kind :: "indexation_kind list" where
  "enum_indexation_kind = [Balances, CoinsToSpend, AssetMetadata]"

definition enum_all_indexation_kind :: "(indexation_kind \<Rightarrow> bool) \<Rightarrow> bool" where
  "enum_all_indexation_kind P = (P Balances \<and> P CoinsToSpend \<and> P AssetMetadata)"

definition enum_ex_indexation_kind :: "(indexation_kind \<Rightarrow> bool) \<Rightarrow> bool" where
  "enum_ex_indexation_kind P = (P Balances \<or> P CoinsToSpend \<or> P AssetMetadata)"

instance
proof
  show univ: "(UNIV :: indexation_kind set) = set enum_class.enum"
    by (auto simp: enum_indexation_kind_def intro: indexation_kind.exhaust)
qed (auto simp: enum_indexation_kind_def enum_all_indexation_kind_def enum_ex_indexation_kind_def,
     (metis indexation_kind.exhaust)+)

end

datatype database_metadata =
    MetadataV1 (metadata_version: u32) (metadata_height: block_height)
  | MetadataV2 (metadata_version: u32) (metadata_height: block_height)
      (metadata_availability: "indexation_kind set")

fun indexation_available :: "database_metadata \<Rightarrow> indexation_kind \<Rightarrow> bool" where
  "indexation_available (MetadataV1 _ _) kind = False"
| "indexation_available (MetadataV2 _ _ avail) kind = (kind \<in> avail)"

fun indexation_availability :: "database_metadata option \<Rightarrow> indexation_kind set" where
  "indexation_availability (Some (MetadataV1 _ _)) = {}"
| "indexation_availability (Some (MetadataV2 _ _ avail)) = avail"
| "indexation_availability None = {Balances, CoinsToSpend, AssetMetadata}"

section \<open>database.rs\<close>

record 'db transactable_storage =
  data_kv :: "'db kv_inspect"
  data_commit :: "'db \<Rightarrow> block_height option \<Rightarrow> storage_changes \<Rightarrow> 'db \<times> unit storage_result"
  data_keys :: "'db \<Rightarrow> u32 \<Rightarrow> bytes option \<Rightarrow> bytes option \<Rightarrow> iter_direction \<Rightarrow> bytes list storage_result"
  data_rollback :: "'db \<Rightarrow> block_height \<Rightarrow> 'db \<times> unit storage_result"

record 'db database =
  data :: 'db
  stage_height :: "block_height option"

record description =
  description_version :: u32
  MetadataTable :: "(unit, database_metadata) table"

datatype database_error =
    StoreError storage_error
  | MultipleHeightsInCommit "u64 list"
  | FailedToAdvanceHeight
  | HeightsAreNotLinked u64 u64
  | NewHeightIsNotSet u64
  | NoHeightToRollback

definition latest_height_from_metadata ::
    "'db transactable_storage \<Rightarrow> description \<Rightarrow> 'db \<Rightarrow> block_height option storage_result" where
  "latest_height_from_metadata T D d =
     (case plain_get (data_kv T) (MetadataTable D) (transaction d Overwrite []) () of
        Inl e \<Rightarrow> Inl e
      | Inr m \<Rightarrow> Inr (map_option metadata_height m))"

text \<open>\<open>Database::new\<close>, where an error of the read is a panic, \<open>None\<close> here.\<close>

definition database_new ::
    "'db transactable_storage \<Rightarrow> description \<Rightarrow> 'db \<Rightarrow> 'db database option" where
  "database_new T D d =
     (case latest_height_from_metadata T D d of
        Inl _ \<Rightarrow> None
      | Inr h \<Rightarrow> Some \<lparr>data = d, stage_height = h\<rparr>)"

fun check_heights :: "block_height option \<Rightarrow> block_height option \<Rightarrow> (database_error, unit) result" where
  "check_heights None None = Inr ()"
| "check_heights (Some prev_height) (Some new_height) =
     (case advance_height prev_height of
        None \<Rightarrow> Inl FailedToAdvanceHeight
      | Some next_expected_height \<Rightarrow>
          if next_expected_height \<noteq> new_height
          then Inl (HeightsAreNotLinked (as_u64 prev_height) (as_u64 new_height)) else Inr ())"
| "check_heights None (Some _) = Inr ()"
| "check_heights (Some prev_height) None = Inl (NewHeightIsNotSet (as_u64 prev_height))"

fun update_metadata :: "description \<Rightarrow> database_metadata option \<Rightarrow> block_height \<Rightarrow> database_metadata" where
  "update_metadata D (Some (MetadataV1 _ _)) new_height = MetadataV1 (description_version D) new_height"
| "update_metadata D (Some (MetadataV2 _ _ avail)) new_height =
     MetadataV2 (description_version D) new_height avail"
| "update_metadata D None new_height =
     MetadataV2 (description_version D) new_height (indexation_availability (None :: database_metadata option))"

fun push_changes :: "storage_changes \<Rightarrow> changes \<Rightarrow> storage_changes" where
  "push_changes (Changes c) ch = ChangesList [c, ch]"
| "push_changes (ChangesList list) ch = ChangesList (list @ [ch])"

definition add_metadata ::
    "'db transactable_storage \<Rightarrow> description \<Rightarrow> 'db \<Rightarrow> block_height \<Rightarrow> storage_changes
     \<Rightarrow> storage_changes storage_result" where
  "add_metadata T D d new_height ch =
     (let tx = transaction d Overwrite [] in
      case plain_get (data_kv T) (MetadataTable D) tx () of
        Inl e \<Rightarrow> Inl e
      | Inr current \<Rightarrow>
          (case plain_put (MetadataTable D) tx () (update_metadata D current new_height) of
             (_, Inl e) \<Rightarrow> Inl e
           | (tx', Inr _) \<Rightarrow> Inr (push_changes ch (changes tx'))))"

definition commit_changes_with_height_update ::
    "'db transactable_storage \<Rightarrow> description \<Rightarrow> (storage_changes \<Rightarrow> block_height list storage_result)
     \<Rightarrow> 'db database \<Rightarrow> storage_changes \<Rightarrow> 'db database \<times> (database_error, unit) result" where
  "commit_changes_with_height_update T D heights_lookup db ch =
     (case heights_lookup ch of
        Inl e \<Rightarrow> (db, Inl (StoreError e))
      | Inr new_heights \<Rightarrow>
          if length new_heights > 1 then (db, Inl (MultipleHeightsInCommit (map as_u64 new_heights)))
          else
            (let new_height = (case new_heights of [] \<Rightarrow> None | h # _ \<Rightarrow> Some h) in
             case check_heights (stage_height db) new_height of
               Inl e \<Rightarrow> (db, Inl e)
             | Inr _ \<Rightarrow>
                 (case (case new_height of
                          None \<Rightarrow> Inr ch
                        | Some h \<Rightarrow> add_metadata T D (data db) h ch) of
                    Inl e \<Rightarrow> (db, Inl (StoreError e))
                  | Inr ch' \<Rightarrow>
                      (case data_commit T (data db) new_height ch' of
                         (d, Inl e) \<Rightarrow> (db\<lparr>data := d\<rparr>, Inl (StoreError e))
                       | (d, Inr _) \<Rightarrow>
                           (\<lparr>data = d,
                             stage_height = (case new_height of None \<Rightarrow> stage_height db | Some h \<Rightarrow> Some h)\<rparr>,
                            Inr ())))))"

definition rollback_last_block ::
    "'db transactable_storage \<Rightarrow> 'db database \<Rightarrow> 'db database \<times> (database_error, unit) result" where
  "rollback_last_block T db =
     (case stage_height db of
        None \<Rightarrow> (db, Inl NoHeightToRollback)
      | Some h \<Rightarrow>
          (case data_rollback T (data db) h of
             (d, Inl e) \<Rightarrow> (db\<lparr>data := d\<rparr>, Inl (StoreError e))
           | (d, Inr _) \<Rightarrow> (\<lparr>data = d, stage_height = rollback_height h\<rparr>, Inr ())))"

text \<open>\<open>iter_all_keys::<FuelBlocks>(Some(IterDirection::Reverse))\<close> on a set of changes, collected with
  \<open>try_collect\<close>, and its first element on the store.\<close>

fun decode_keys :: "bytes list \<Rightarrow> block_height list storage_result" where
  "decode_keys [] = Inr []"
| "decode_keys (k # ks) =
     (case primitive_decode k of
        None \<Rightarrow> Inl codec_error
      | Some h \<Rightarrow> (case decode_keys ks of Inl e \<Rightarrow> Inl e | Inr hs \<Rightarrow> Inr (h # hs)))"

definition on_chain_heights :: "storage_changes \<Rightarrow> block_height list storage_result" where
  "on_chain_heights ch = decode_keys (changes_iter_store_keys ch FuelBlocks_column None None Reverse)"

definition on_chain_commit ::
    "'db transactable_storage \<Rightarrow> description \<Rightarrow> 'db database \<Rightarrow> storage_changes
     \<Rightarrow> 'db database \<times> (database_error, unit) result" where
  "on_chain_commit T D = commit_changes_with_height_update T D on_chain_heights"

definition maybe_latest_height ::
    "'db transactable_storage \<Rightarrow> 'db \<Rightarrow> block_height option storage_result" where
  "maybe_latest_height T d =
     (case data_keys T d FuelBlocks_column None None Reverse of
        Inl e \<Rightarrow> Inl e
      | Inr [] \<Rightarrow> Inr None
      | Inr (k # _) \<Rightarrow> (case primitive_decode k of None \<Rightarrow> Inl codec_error | Some h \<Rightarrow> Inr (Some h)))"

text \<open>The in-memory database as a \<open>TransactableStorage\<close>; it has no rollback.\<close>

definition memory_storage :: "memory_store transactable_storage" where
  "memory_storage =
     \<lparr>data_kv = memory_kv, data_commit = (\<lambda>s _ ch. memory_commit_changes s ch),
      data_keys = iter_all_keys,
      data_rollback = (\<lambda>s _. (s, Inl (Other ''The historical view is not implemented for `MemoryStore`'')))\<rparr>"

section \<open>The contract of the store\<close>

locale transactable = kv_inspect_laws "data_kv T" for T :: "'db transactable_storage" +
  fixes ok :: "'db \<Rightarrow> bool"
  assumes commit_ok: "ok d \<Longrightarrow> \<forall>ch\<in>set chs. changes_ok ch \<Longrightarrow>
      data_commit T d h (ChangesList chs) = (d', r) \<Longrightarrow> ok d'"
    and commit_get: "ok d \<Longrightarrow> \<forall>ch\<in>set chs. changes_ok ch \<Longrightarrow>
      data_commit T d h (ChangesList chs) = (d', Inr ()) \<Longrightarrow>
      kv_get (data_kv T) d' k c = fold (\<lambda>ch. overlay ch k c) chs (kv_get (data_kv T) d k c)"
    and commit_disjoint: "ok d \<Longrightarrow> \<forall>ch\<in>set chs. changes_ok ch \<Longrightarrow>
      data_commit T d h (ChangesList chs) = (d', Inr ()) \<Longrightarrow> pairwise_disjoint {} chs"
    and keys_reverse: "ok d \<Longrightarrow> data_keys T d c None None Reverse = Inr ks \<Longrightarrow>
      sorted_wrt (\<lambda>x y. y < x) ks \<and> set ks = {k. \<exists>v. kv_get (data_kv T) d k c = Inr (Some v)}"

interpretation memory_storage: transactable memory_storage memory_ok
proof -
  have get: "kv_get memory_kv = memory_get" by (simp add: memory_kv_def kv_default_def)
  have laws: "kv_inspect_laws (data_kv memory_storage)"
    by (simp add: memory_storage_def memory.kv_inspect_laws_axioms)
  have "transactable_axioms memory_storage memory_ok"
  proof
    fix d h chs d' and r :: "unit storage_result"
    assume "memory_ok d" "\<forall>ch\<in>set chs. changes_ok ch"
      "data_commit memory_storage d h (ChangesList chs) = (d', r)"
    then show "memory_ok d'"
      using insert_changes_list_ok[of d chs "[]" d' r] by (simp add: memory_storage_def)
  next
    fix d h chs d' k c
    assume "memory_ok d" "\<forall>ch\<in>set chs. changes_ok ch"
      "data_commit memory_storage d h (ChangesList chs) = (d', Inr ())"
    then show "kv_get (data_kv memory_storage) d' k c =
        fold (\<lambda>ch. overlay ch k c) chs (kv_get (data_kv memory_storage) d k c)"
      by (simp add: memory_storage_def get insert_changes_list_Inr)
  next
    fix d h chs d'
    assume "memory_ok d" "\<forall>ch\<in>set chs. changes_ok ch"
      "data_commit memory_storage d h (ChangesList chs) = (d', Inr ())"
    then show "pairwise_disjoint {} chs"
      using insert_changes_list_succeeds[of d chs "[]"] by (simp add: memory_storage_def)
  next
    fix d c ks
    assume a: "memory_ok d" "data_keys memory_storage d c None None Reverse = Inr ks"
    then obtain tree where tree: "Memory_Store.table d c = Inr tree" "ks = rev (map fst tree)"
      by (auto simp: memory_storage_def iter_all_keys_def keys_iterator_def split: sum.splits)
    then have ok: "bt_ok tree"
      using a(1) by (auto simp: Memory_Store.table_def memory_ok_def split: if_splits)
    then have "k \<in> set ks \<longleftrightarrow> (\<exists>v. map_of tree k = Some v)" for k
      by (force simp: tree(2) bt_ok_map_of_iff)
    with ok tree show "sorted_wrt (\<lambda>x y. y < x) ks \<and>
        set ks = {k. \<exists>v. kv_get (data_kv memory_storage) d k c = Inr (Some v)}"
      by (auto simp: memory_storage_def get memory_get_def sorted_wrt_rev bt_ok_def)
  qed
  with laws show "transactable memory_storage memory_ok" by (rule transactable.intro)
qed

section \<open>Linked heights\<close>

definition stored_blocks :: "'db transactable_storage \<Rightarrow> 'db \<Rightarrow> block_height set" where
  "stored_blocks T d =
     {h. \<exists>v. kv_get (data_kv T) d (primitive_encode h) FuelBlocks_column = Inr (Some v)}"

text \<open>The blocks in the store are those of an interval of heights, whose end is both the cached and the
  stored height.\<close>

definition chain_inv :: "'db transactable_storage \<Rightarrow> description \<Rightarrow> ('db \<Rightarrow> bool) \<Rightarrow> 'db database \<Rightarrow> bool" where
  "chain_inv T D ok db =
     (ok (data db)
      \<and> (\<forall>k v. kv_get (data_kv T) (data db) k FuelBlocks_column = Inr (Some v) \<longrightarrow> length k = 4)
      \<and> (case stage_height db of
           None \<Rightarrow> stored_blocks T (data db) = {}
         | Some h \<Rightarrow> (\<exists>g\<le>h. stored_blocks T (data db) = {g..h})
             \<and> latest_height_from_metadata T D (data db) = Inr (Some h)))"

definition removes_no_block :: "changes list \<Rightarrow> bool" where
  "removes_no_block chs = (\<forall>ch\<in>set chs. \<forall>k. changes_at ch k FuelBlocks_column \<noteq> Some Remove)"

definition inserted_keys :: "changes list \<Rightarrow> u32 \<Rightarrow> bytes set" where
  "inserted_keys chs c = {k. \<exists>ch\<in>set chs. \<exists>v. changes_at ch k c = Some (Insert v)}"

lemma set_iter_keys:
  assumes "\<forall>ch\<in>set chs. changes_ok ch"
  shows "set (changes_iter_store_keys (ChangesList chs) c None None Reverse) = inserted_keys chs c"
proof -
  have one: "set (changes_iter_store_keys (Changes ch) c None None Reverse) =
      {k. \<exists>v. changes_at ch k c = Some (Insert v)}" if "changes_ok ch" for ch
  proof -
    have "start_has_prefix None None" by (simp add: start_has_prefix_def)
    from changes_iter_store_spec(1)[OF that this, of c Reverse]
    have "set (changes_iter_store_keys (Changes ch) c None None Reverse) =
        {k. \<exists>v. Option.bind (changes_at ch k c) inserted = Some v}"
      unfolding changes_iter_store_keys_eq by (force simp: selected_def)
    moreover have "inserted operation = Some v \<longleftrightarrow> operation = Insert v" for operation v
      by (cases operation) (simp_all add: inserted_def)
    ultimately show ?thesis by (simp add: bind_eq_Some_conv)
  qed
  have "set (changes_iter_store_keys (ChangesList chs) c None None Reverse) =
      (\<Union>ch\<in>set chs. set (changes_iter_store_keys (Changes ch) c None None Reverse))" by simp
  also have "\<dots> = inserted_keys chs c" using assms one by (auto simp: inserted_keys_def)
  finally show ?thesis .
qed

lemma decode_keys_Inr: "decode_keys ks = Inr hs \<Longrightarrow> ks = map primitive_encode hs"
  by (induction ks arbitrary: hs) (auto simp: primitive_decode_Some split: option.splits sum.splits)

lemma fold_overlay_insert:
  assumes "\<forall>ch\<in>set chs. changes_at ch k c \<noteq> Some Remove"
  shows "(\<exists>v. fold (\<lambda>ch. overlay ch k c) chs r = Inr (Some v)) \<longleftrightarrow>
    k \<in> inserted_keys chs c \<or> (\<exists>v. r = Inr (Some v))"
  using assms
proof (induction chs arbitrary: r)
  case (Cons ch chs)
  have "(\<exists>v. overlay ch k c r = Inr (Some v)) \<longleftrightarrow>
      (\<exists>v. changes_at ch k c = Some (Insert v)) \<or> (\<exists>v. r = Inr (Some v))"
    using Cons.prems by (auto simp: overlay_def op_value_def split: option.splits write_operation.splits)
  with Cons.IH[of "overlay ch k c r"] Cons.prems show ?case by (auto simp: inserted_keys_def)
qed (simp add: inserted_keys_def)

lemma add_metadata_Inr:
  assumes "lawful_table (MetadataTable D) id" "add_metadata T D d h (ChangesList chs) = Inr ch'"
  obtains mch m where "ch' = ChangesList (chs @ [mch])" "changes_ok mch" "metadata_height m = h"
    "changes_at mch (encode_key (MetadataTable D) ()) (tcolumn (MetadataTable D)) =
       Some (Insert (encode_value (MetadataTable D) m))"
    "\<And>k c. c \<noteq> tcolumn (MetadataTable D) \<Longrightarrow> changes_at mch k c = None"
    "fst ` set mch = {tcolumn (MetadataTable D)}"
proof -
  let ?M = "MetadataTable D"
  obtain cur where ch': "ch' = ChangesList (chs @ [insert_op (encode_key ?M ()) (tcolumn ?M)
      (Insert (encode_value ?M (update_metadata D cur h))) []])"
    using assms(2)
    by (auto simp: add_metadata_def Let_def plain_put_def tx_put_def transaction_def insert_op_def
        split: sum.splits)
  have "metadata_height (update_metadata D cur h) = h"
    by (cases "(D, cur, h)" rule: update_metadata.cases) simp_all
  moreover have "changes_ok []" by (simp add: changes_ok_def)
  moreover have "fst ` set (insert_op k c operation []) = {c}" for k c operation
    by (simp add: insert_op_def hm_insert_def)
  ultimately show ?thesis using that[OF ch'] by simp
qed

lemma check_heights_Inr:
  "check_heights p n = Inr u \<longleftrightarrow>
   (case (p, n) of (None, _) \<Rightarrow> True
    | (Some prev, Some h) \<Rightarrow> unat h = unat prev + 1
    | (Some _, None) \<Rightarrow> False)"
proof (cases "(p, n)" rule: check_heights.cases)
  case (2 prev h)
  have "unat h < 2 ^ 32" using unat_less_pow[of h] by simp
  then have "advance_height prev = Some h \<longleftrightarrow> unat h = unat prev + 1"
    by (auto simp: advance_height_def checked_add_eq_Some)
  with 2 show ?thesis by (auto split: option.splits)
qed auto

lemma on_chain_commit_Inr:
  assumes "on_chain_commit T D db (ChangesList chs) = (db', Inr ())"
  obtains (no_height) "on_chain_heights (ChangesList chs) = Inr []" "stage_height db = None"
      "data_commit T (data db) None (ChangesList chs) = (data db', Inr ())" "stage_height db' = None"
  | (height) h ch' where "on_chain_heights (ChangesList chs) = Inr [h]"
      "case stage_height db of None \<Rightarrow> True | Some prev \<Rightarrow> unat h = unat prev + 1"
      "add_metadata T D (data db) h (ChangesList chs) = Inr ch'"
      "data_commit T (data db) (Some h) ch' = (data db', Inr ())" "stage_height db' = Some h"
proof -
  obtain hs where hs: "on_chain_heights (ChangesList chs) = Inr hs"
    using assms by (auto simp: on_chain_commit_def commit_changes_with_height_update_def Let_def split: sum.splits)
  have "length hs \<le> 1"
    using assms hs
    by (auto simp: on_chain_commit_def commit_changes_with_height_update_def Let_def not_le split: if_splits)
  then consider "hs = []" | h where "hs = [h]" by (cases hs) auto
  then show ?thesis
  proof cases
    case 1
    with assms hs show ?thesis
      by (intro no_height)
        (auto simp: on_chain_commit_def commit_changes_with_height_update_def Let_def check_heights_Inr
          split: sum.splits prod.splits option.splits)
  next
    case (2 h)
    have "\<exists>u. check_heights (stage_height db) (Some h) = Inr u"
      using assms hs 2 by (auto simp: on_chain_commit_def commit_changes_with_height_update_def Let_def split: sum.splits)
    then have check: "check_heights (stage_height db) (Some h) = Inr ()" by auto
    then have linked: "case stage_height db of None \<Rightarrow> True | Some prev \<Rightarrow> unat h = unat prev + 1"
      by (simp add: check_heights_Inr split: option.splits)
    obtain ch' where ch': "add_metadata T D (data db) h (ChangesList chs) = Inr ch'"
      using assms hs 2 check
      by (auto simp: on_chain_commit_def commit_changes_with_height_update_def Let_def split: sum.splits)
    have "data_commit T (data db) (Some h) ch' = (data db', Inr ())" "stage_height db' = Some h"
      using assms hs 2 check ch'
      by (auto simp: on_chain_commit_def commit_changes_with_height_update_def Let_def split: sum.splits prod.splits)
    with height[OF _ linked ch'] hs 2 show ?thesis by simp
  qed
qed

lemma on_chain_commit_Inl:
  "on_chain_commit T D db ch = (db', Inl e) \<Longrightarrow> stage_height db' = stage_height db"
  by (auto simp: on_chain_commit_def commit_changes_with_height_update_def Let_def
      split: sum.splits prod.splits if_splits)

lemma inserted_heights:
  assumes "\<forall>ch\<in>set chs. changes_ok ch" "on_chain_heights (ChangesList chs) = Inr hs"
  shows "inserted_keys chs FuelBlocks_column = primitive_encode ` set hs"
proof -
  have "changes_iter_store_keys (ChangesList chs) FuelBlocks_column None None Reverse =
      map primitive_encode hs"
    using assms(2) unfolding on_chain_heights_def by (rule decode_keys_Inr)
  with set_iter_keys[OF assms(1), of FuelBlocks_column] show ?thesis by (metis list.set_map)
qed

lemma stored_after_commit:
  assumes "removes_no_block chs"
    and "\<And>k. kv_get S d' k FuelBlocks_column =
      fold (\<lambda>ch. overlay ch k FuelBlocks_column) chs (kv_get S d k FuelBlocks_column)"
  shows "(\<exists>v. kv_get S d' k FuelBlocks_column = Inr (Some v)) \<longleftrightarrow>
    k \<in> inserted_keys chs FuelBlocks_column \<or> (\<exists>v. kv_get S d k FuelBlocks_column = Inr (Some v))"
  using fold_overlay_insert[of chs k FuelBlocks_column] assms by (simp add: removes_no_block_def)

context transactable
begin

text \<open>The effect of a successful commit on the table of blocks.\<close>

lemma commit_blocks:
  assumes "ok d" "\<forall>ch\<in>set chs. changes_ok ch" "removes_no_block chs"
    and "data_commit T d h (ChangesList chs) = (d', Inr ())"
    and "inserted_keys chs FuelBlocks_column = primitive_encode ` hs"
  shows "stored_blocks T d' = stored_blocks T d \<union> hs"
    and "(\<And>k v. kv_get (data_kv T) d k FuelBlocks_column = Inr (Some v) \<Longrightarrow> length k = 4) \<Longrightarrow>
      kv_get (data_kv T) d' k FuelBlocks_column = Inr (Some v) \<Longrightarrow> length k = 4"
proof -
  note stored = stored_after_commit[OF assms(3) commit_get[OF assms(1,2,4)]]
  have "primitive_encode h' \<in> primitive_encode ` hs \<longleftrightarrow> h' \<in> hs" for h' :: block_height
    by (auto simp: primitive_encode_inj)
  then show "stored_blocks T d' = stored_blocks T d \<union> hs"
    using assms(5) by (auto simp: stored_blocks_def stored)
  assume "\<And>k v. kv_get (data_kv T) d k FuelBlocks_column = Inr (Some v) \<Longrightarrow> length k = 4"
    "kv_get (data_kv T) d' k FuelBlocks_column = Inr (Some v)"
  then show "length k = 4"
    using stored[of k] assms(5) by (auto simp: primitive_encode_def)
qed

lemma metadata_after_commit:
  assumes "lawful_table (MetadataTable D) id" "ok d" "\<forall>ch\<in>set (chs @ [mch]). changes_ok ch"
    and "data_commit T d hh (ChangesList (chs @ [mch])) = (d', Inr ())" "metadata_height m = h"
    and "changes_at mch (encode_key (MetadataTable D) ()) (tcolumn (MetadataTable D)) =
       Some (Insert (encode_value (MetadataTable D) m))"
  shows "latest_height_from_metadata T D d' = Inr (Some h)"
proof -
  let ?M = "MetadataTable D"
  have "kv_get (data_kv T) d' (encode_key ?M ()) (tcolumn ?M) = Inr (Some (encode_value ?M m))"
    using commit_get[OF assms(2-4), of "encode_key ?M ()" "tcolumn ?M"] assms(6)
    by (simp add: overlay_def op_value_def)
  then show ?thesis
    using lawful_table.decode_encode[OF assms(1), of m] assms(5)
    by (simp add: latest_height_from_metadata_def plain_get_def tx_get_overlay transaction_def
        overlay_def)
qed

lemma chain_commit:
  assumes D: "lawful_table (MetadataTable D) id" "tcolumn (MetadataTable D) \<noteq> FuelBlocks_column"
    and inv: "chain_inv T D ok db" and chs: "\<forall>ch\<in>set chs. changes_ok ch" "removes_no_block chs"
    and commit: "on_chain_commit T D db (ChangesList chs) = (db', Inr ())"
  shows "chain_inv T D ok db'"
  using commit
proof (cases rule: on_chain_commit_Inr)
  case no_height
  have ok: "ok (data db)" using inv by (simp add: chain_inv_def)
  note blocks = commit_blocks[OF ok chs no_height(3) inserted_heights[OF chs(1) no_height(1), unfolded list.set]]
  show ?thesis
    using inv blocks no_height(2,4) commit_ok[OF ok chs(1) no_height(3)]
    unfolding chain_inv_def by (auto split: option.splits)
next
  case (height h ch')
  have ok: "ok (data db)" using inv by (simp add: chain_inv_def)
  obtain mch m where m: "ch' = ChangesList (chs @ [mch])" "changes_ok mch" "metadata_height m = h"
    "changes_at mch (encode_key (MetadataTable D) ()) (tcolumn (MetadataTable D)) =
       Some (Insert (encode_value (MetadataTable D) m))"
    "\<And>k c. c \<noteq> tcolumn (MetadataTable D) \<Longrightarrow> changes_at mch k c = None"
    using add_metadata_Inr[OF D(1) height(3)] by blast
  have c: "data_commit T (data db) (Some h) (ChangesList (chs @ [mch])) = (data db', Inr ())"
    using height(4) m(1) by simp
  have cok: "\<forall>ch\<in>set (chs @ [mch]). changes_ok ch" using chs(1) m(2) by simp
  have mnone: "changes_at mch k FuelBlocks_column = None" for k using m(5) D(2) by metis
  have no: "removes_no_block (chs @ [mch])"
    using chs(2) mnone by (auto simp: removes_no_block_def)
  have "inserted_keys (chs @ [mch]) FuelBlocks_column = inserted_keys chs FuelBlocks_column"
    using mnone by (auto simp: inserted_keys_def)
  also have "\<dots> = primitive_encode ` {h}"
    using inserted_heights[OF chs(1) height(1)] by simp
  finally have "inserted_keys (chs @ [mch]) FuelBlocks_column = primitive_encode ` {h}" .
  note blocks = commit_blocks[OF ok cok no c this]
  have stored: "\<exists>g\<le>h. stored_blocks T (data db') = {g..h}"
  proof (cases "stage_height db")
    case None
    with inv blocks(1) have "stored_blocks T (data db') = {h..h}" by (simp add: chain_inv_def)
    then show ?thesis by blast
  next
    case (Some prev)
    then obtain g where g: "g \<le> prev" "stored_blocks T (data db) = {g..prev}"
      using inv by (auto simp: chain_inv_def)
    have "unat h = unat prev + 1" using height(2) Some by simp
    with g blocks(1) have "stored_blocks T (data db') = {g..h}" "g \<le> h"
      by (auto simp: word_le_nat_alt word_unat_eq_iff)
    then show ?thesis by blast
  qed
  have "latest_height_from_metadata T D (data db') = Inr (Some h)"
    by (rule metadata_after_commit[OF D(1) ok cok c m(3,4)])
  with stored show ?thesis
    using inv blocks(2) height(5) commit_ok[OF ok cok c] unfolding chain_inv_def by auto
qed

text \<open>Under the invariant, the reverse iteration over the stored blocks starts at the cached height.\<close>

lemma latest_height:
  assumes inv: "chain_inv T D ok db" and keys: "maybe_latest_height T (data db) = Inr r"
  shows "r = stage_height db"
proof -
  obtain ks where ks: "data_keys T (data db) FuelBlocks_column None None Reverse = Inr ks"
    using keys by (auto simp: maybe_latest_height_def split: sum.splits)
  have ok: "ok (data db)" using inv by (simp add: chain_inv_def)
  note sorted = keys_reverse[OF ok ks]
  have len: "length k = 4" if "k \<in> set ks" for k
    using that sorted inv by (auto simp: chain_inv_def)
  have key: "\<exists>h. k = primitive_encode (h :: block_height)" if "k \<in> set ks" for k
    using len[OF that] primitive_decode_Some[where 'a = 32, of k] by (auto simp: primitive_decode_def)
  have mem: "primitive_encode h \<in> set ks \<longleftrightarrow> h \<in> stored_blocks T (data db)" for h
    using sorted by (auto simp: stored_blocks_def)
  show ?thesis
  proof (cases "stage_height db")
    case None
    then have "stored_blocks T (data db) = {}" using inv by (simp add: chain_inv_def)
    with key mem have "ks = []" by (metis empty_iff list.set_intros(1) neq_Nil_conv)
    with keys ks None show ?thesis by (simp add: maybe_latest_height_def)
  next
    case (Some h)
    then obtain g where g: "g \<le> h" "stored_blocks T (data db) = {g..h}"
      using inv by (auto simp: chain_inv_def)
    then have "primitive_encode h \<in> set ks" using mem by simp
    then obtain k rest where c: "ks = k # rest" by (cases ks) auto
    obtain h0 where h0: "k = primitive_encode (h0 :: block_height)" using key c by auto
    have "h0 \<le> h" using mem[of h0] c h0 g by simp
    moreover have "primitive_encode h = k \<or> primitive_encode h < k"
      using \<open>primitive_encode h \<in> set ks\<close> sorted c by auto
    then have "h \<le> h0"
      using h0 by (auto simp: primitive_encode_def word_bytes_inj_iff word_bytes_less)
    ultimately have "h0 = h" by simp
    with keys ks c h0 Some show ?thesis
      by (simp add: maybe_latest_height_def)
  qed
qed

end

section \<open>Commits that succeed\<close>

text \<open>A set of changes that inserts the block of one height only is committed at that height.\<close>

lemma sorted_singleton:
  assumes "sorted_wrt (<) (xs :: bytes list)" "set xs = {x}"
  shows "xs = [x]"
proof (cases xs)
  case (Cons y ys)
  with assms have "y = x" "\<forall>z\<in>set ys. y < z" "set ys \<subseteq> {x}" by auto
  then have "set ys = {}" by (metis all_not_in_conv less_irrefl singletonD subsetD)
  with Cons \<open>y = x\<close> show ?thesis by simp
qed (use assms in simp)

lemma on_chain_heights_single:
  assumes "changes_ok bch" "changes_ok ch"
    and "\<And>k. changes_at bch k FuelBlocks_column = (if k = primitive_encode h then Some (Insert v) else None)"
    and "\<And>k. changes_at ch k FuelBlocks_column = None"
  shows "on_chain_heights (ChangesList [bch, ch]) = Inr [h]"
proof -
  let ?keys = "\<lambda>c. changes_iter_store_keys (Changes c) FuelBlocks_column None None Reverse"
  have keys: "set (?keys c) = inserted_keys [c] FuelBlocks_column" "sorted_wrt (<) (rev (?keys c))"
    if "changes_ok c" for c
  proof -
    show "set (?keys c) = inserted_keys [c] FuelBlocks_column"
      using set_iter_keys[of "[c]"] that by simp
    show "sorted_wrt (<) (rev (?keys c))"
      using changes_iter_store_spec(2)[OF that, of None None Reverse FuelBlocks_column]
      unfolding changes_iter_store_keys_eq by (simp add: start_has_prefix_def in_direction_def)
  qed
  have "rev (?keys bch) = [primitive_encode h]"
    by (rule sorted_singleton) (use assms(3) keys[OF assms(1)] in \<open>auto simp: inserted_keys_def\<close>)
  moreover have "?keys ch = []"
    using assms(4) keys(1)[OF assms(2)] by (simp add: inserted_keys_def)
  ultimately have "changes_iter_store_keys (ChangesList [bch, ch]) FuelBlocks_column None None Reverse =
      [primitive_encode h]" by simp
  then show ?thesis unfolding on_chain_heights_def by (simp add: primitive_decode_encode)
qed

lemma memory_on_chain_commit:
  assumes D: "lawful_table (MetadataTable D) id" and ok: "memory_ok (data db)" "\<forall>ch\<in>set chs. changes_ok ch"
    and heights: "on_chain_heights (ChangesList chs) = Inr [h]" "check_heights (stage_height db) (Some h) = Inr ()"
    and meta: "latest_height_from_metadata memory_storage D (data db) = Inr m"
    and cols: "\<And>ch c. ch \<in> set chs \<Longrightarrow> c \<in> fst ` set ch \<Longrightarrow>
        c \<noteq> tcolumn (MetadataTable D) \<and> unat c < length (inner (data db))"
      "unat (tcolumn (MetadataTable D)) < length (inner (data db))"
    and disj: "pairwise_disjoint {} chs"
  shows "\<exists>d. on_chain_commit memory_storage D db (ChangesList chs) = (\<lparr>data = d, stage_height = Some h\<rparr>, Inr ())
    \<and> length (inner d) = length (inner (data db))"
proof -
  obtain ch' where ch': "add_metadata memory_storage D (data db) h (ChangesList chs) = Inr ch'"
    using meta by (auto simp: latest_height_from_metadata_def add_metadata_def plain_put_def tx_put_def split: sum.splits)
  obtain mch where mch: "ch' = ChangesList (chs @ [mch])" "changes_ok mch"
      "\<And>k c. c \<noteq> tcolumn (MetadataTable D) \<Longrightarrow> changes_at mch k c = None"
      "fst ` set mch = {tcolumn (MetadataTable D)}"
    by (rule add_metadata_Inr[OF D ch']) (rule that; assumption)
  have at: "changes_at ch k (tcolumn (MetadataTable D)) = None" if "ch \<in> set chs" for ch k
  proof -
    have "map_of ch (tcolumn (MetadataTable D)) = None"
      using cols(1)[OF that] by (auto simp: map_of_eq_None_iff)
    then show ?thesis by (simp add: changes_at_def)
  qed
  have "pairwise_disjoint seen (chs @ [mch])"
    if "pairwise_disjoint seen chs" "changes_keys mch \<inter> seen = {}" for seen
    using that at
  proof (induction chs arbitrary: seen)
    case (Cons ch chs)
    have "changes_keys mch \<inter> changes_keys ch = {}"
    proof (rule Int_emptyI, clarify)
      fix c k
      assume "(c, k) \<in> changes_keys mch" "(c, k) \<in> changes_keys ch"
      then show False using Cons.prems(3)[of ch k] mch(3)[of c k]
        by (cases "c = tcolumn (MetadataTable D)") (simp_all add: changes_keys_def)
    qed
    then show ?case using Cons by (simp add: Int_Un_distrib)
  qed simp
  then have "pairwise_disjoint {} (chs @ [mch])" using disj by simp
  moreover have "unat c < length (inner (data db))" if "ch \<in> set (chs @ [mch])" "c \<in> fst ` set ch" for ch c
    using that cols mch(4) by (cases "ch = mch") auto
  ultimately have "snd (insert_changes_list (chs @ [mch]) [] (data db)) = Inr ()"
    using insert_changes_list_succeeds[of "data db" "chs @ [mch]" "[]"] ok mch(2) by simp
  then obtain d where d: "insert_changes_list (chs @ [mch]) [] (data db) = (d, Inr ())"
    by (metis prod.collapse)
  then have "length (inner d) = length (inner (data db))"
    by (rule insert_changes_list_length[OF ok(1)])
  with d show ?thesis
    using ch' mch(1) heights
    by (simp add: on_chain_commit_def commit_changes_with_height_update_def)
      (simp add: memory_storage_def)
qed

text \<open>C7. The heights of an on-chain database are linked.  While the stored blocks are those of an interval of
  heights ending at the cached and at the stored height, every commit whose changes remove no block keeps it
  so: a successful commit introduces at most one block, the one that follows the last, and moves both the
  cached and the stored height to it; once a height is set every commit must bring the next one.  A failed
  commit does not move the cached height.\<close>

theorem on_chain_heights_linked:
  assumes "transactable T ok" "lawful_table (MetadataTable D) id"
    and "tcolumn (MetadataTable D) \<noteq> FuelBlocks_column"
    and "chain_inv T D ok db" "\<forall>ch\<in>set chs. changes_ok ch" "removes_no_block chs"
    and "on_chain_commit T D db (ChangesList chs) = (db', r)"
  shows "if r = Inr ()
    then chain_inv T D ok db' \<and>
      (case (stage_height db, stage_height db') of
         (None, _) \<Rightarrow> True
       | (Some prev, Some h) \<Rightarrow> unat h = unat prev + 1
       | (Some _, None) \<Rightarrow> False)
    else stage_height db' = stage_height db"
proof (cases r)
  case (Inl e)
  with assms(7) on_chain_commit_Inl show ?thesis by auto
next
  case (Inr u)
  then have c: "on_chain_commit T D db (ChangesList chs) = (db', Inr ())" using assms(7) by simp
  from c have "case (stage_height db, stage_height db') of
      (None, _) \<Rightarrow> True
    | (Some prev, Some h) \<Rightarrow> unat h = unat prev + 1
    | (Some _, None) \<Rightarrow> False"
    by (cases rule: on_chain_commit_Inr) (auto split: option.splits)
  with Inr transactable.chain_commit[OF assms(1-6) c] show ?thesis by simp
qed

text \<open>A description with a metadata table, for concrete databases.\<close>

fun encode_ref_db_metadata :: "database_metadata \<Rightarrow> bytes" where
  "encode_ref_db_metadata (MetadataV1 v h) = word_bytes v @ word_bytes h"
| "encode_ref_db_metadata (MetadataV2 v h avail) = word_bytes v @ word_bytes h @
     [of_bool (Balances \<in> avail), of_bool (CoinsToSpend \<in> avail), of_bool (AssetMetadata \<in> avail)]"

definition decode_ref_db_metadata :: "bytes \<Rightarrow> database_metadata option" where
  "decode_ref_db_metadata bs =
     (if length bs = 8 then Some (MetadataV1 (slice 0 4 bs) (slice 4 4 bs))
      else if length bs = 11
      then Some (MetadataV2 (slice 0 4 bs) (slice 4 4 bs)
        {kind. case kind of Balances \<Rightarrow> bs ! 8 = 1 | CoinsToSpend \<Rightarrow> bs ! 9 = 1 | AssetMetadata \<Rightarrow> bs ! 10 = 1})
      else None)"

definition reference_description :: description where
  "reference_description =
     \<lparr>description_version = 0,
      MetadataTable = \<lparr>tcolumn = Metadata_column, encode_key = (\<lambda>_. []),
        encode_value = encode_ref_db_metadata, decode_value = decode_ref_db_metadata\<rparr>\<rparr>"

lemma decode_ref_db_metadata: "decode_ref_db_metadata (encode_ref_db_metadata m) = Some m"
proof (cases m)
  case (MetadataV2 v h avail)
  have "(case kind of Balances \<Rightarrow> Balances \<in> avail | CoinsToSpend \<Rightarrow> CoinsToSpend \<in> avail
      | AssetMetadata \<Rightarrow> AssetMetadata \<in> avail) \<longleftrightarrow> kind \<in> avail" for kind
    by (cases kind) simp_all
  then have "Collect (case_indexation_kind (Balances \<in> avail) (CoinsToSpend \<in> avail)
      (AssetMetadata \<in> avail)) = avail"
    by (simp add: set_eq_iff)
  then show ?thesis
    using MetadataV2
    by (simp add: decode_ref_db_metadata_def slice_word slice_drop_word nth_append)
qed (simp add: decode_ref_db_metadata_def slice_word slice_drop_word slice_end)

interpretation metadata_table: lawful_table "MetadataTable reference_description" id
  by unfold_locales (simp_all add: reference_description_def decode_ref_db_metadata)

definition sample_database :: "memory_store database" where
  "sample_database = \<lparr>data = sample_chain_db, stage_height = None\<rparr>"

lemma sample_database_inv: "chain_inv memory_storage reference_description memory_ok sample_database"
proof -
  have "memory_ok sample_chain_db"
    by (auto simp: memory_ok_def sample_chain_db_def memory_default_def)
  moreover have "kv_get (data_kv memory_storage) sample_chain_db k FuelBlocks_column = Inr None" for k
    using memory_default_get[of FuelBlocks_column k]
    by (simp add: memory_storage_def memory_kv_def kv_default_def FuelBlocks_column_def)
  ultimately show ?thesis
    by (simp add: chain_inv_def sample_database_def stored_blocks_def)
qed

theorem on_chain_heights_linked_witness:
  "\<exists>db'. on_chain_commit memory_storage reference_description sample_database
      (ChangesList [[(7, [([0, 0, 0, 5], Insert [1])])]]) = (db', Inr ())
    \<and> chain_inv memory_storage reference_description memory_ok db' \<and> stage_height db' = Some 5"
proof -
  let ?chs = "[[(7, [([0, 0, 0, 5], Insert [1])])]] :: changes list"
  have ok: "\<forall>ch\<in>set ?chs. changes_ok ch" by (simp add: changes_ok_def hm_ok_def bt_ok_def)
  have no: "removes_no_block ?chs" by (simp add: removes_no_block_def changes_at_def)
  have enc: "primitive_decode [0, 0, 0, 5] = Some (5 :: block_height)"
    by (simp add: primitive_decode_def word_of_bytes_def)
  have heights: "on_chain_heights (ChangesList ?chs) = Inr [5]"
    by (simp add: on_chain_heights_def column_defs iter_column_def filter_insert_keys_def inserted_def
        List.map_filter_def enc)
  have meta: "latest_height_from_metadata memory_storage reference_description sample_chain_db = Inr None"
    using memory_default_get[of Metadata_column "[]"]
    by (simp add: latest_height_from_metadata_def plain_get_def tx_get_overlay transaction_def overlay_def
        reference_description_def memory_storage_def memory_kv_def kv_default_def Metadata_column_def)
  have "memory_ok sample_chain_db" "length (inner sample_chain_db) = 22"
    using sample_database_inv by (simp_all add: chain_inv_def sample_database_def sample_chain_db_def memory_default_def)
  then obtain d where commit: "on_chain_commit memory_storage reference_description sample_database
      (ChangesList ?chs) = (\<lparr>data = d, stage_height = Some 5\<rparr>, Inr ())"
    using memory_on_chain_commit[OF metadata_table.lawful_table_axioms _ ok heights, of sample_database] meta
    by (auto simp: sample_database_def reference_description_def Metadata_column_def)
  from on_chain_heights_linked[OF memory_storage.transactable_axioms
      metadata_table.lawful_table_axioms _ sample_database_inv ok no commit]
  have "chain_inv memory_storage reference_description memory_ok \<lparr>data = d, stage_height = Some 5\<rparr>"
    by (simp add: reference_description_def column_defs)
  with commit show ?thesis by auto
qed

end
