(* ===== verification/Importer.thy ===== *)
theory Importer
  imports Database
begin

text \<open>
  The block importer (\<open>crates/services/importer/src/importer.rs\<close>, its ports in \<open>ports.rs\<close> and their
  implementation by the on-chain database in \<open>crates/fuel-core/src/service/adapters/block_importer.rs\<close>): the
  check of the next height, the storage of a new block in a transaction, the verification and execution of a
  block, the commit of its result, and the two entry points with their guard and their back pressure.

  The executor and the block verifier are ports: functions of the environment record.  The database is the
  model of \<open>Database\<close>.  Each entry point is also split at its awaits into the phases of a task, so that several
  callers can be interleaved (\<open>importer_step\<close>).

  The lemmas show that an import that succeeds extends the chain by exactly the given block, verified and
  executed, with its seal and transactions readable afterwards, and that callers exclude each other, so that a
  block is committed to the database state for which it was prepared.
\<close>

section \<open>Types and ports\<close>

datatype importer_error =
    Semaphore
  | InvalidUnderlyingDatabaseGenesisState
  | InvalidDatabaseStateAfterExecution "bytes32 option" "bytes32 option"
  | Overflow
  | ZeroNonGenericHeight
  | IncorrectBlockHeight block_height block_height
  | BlockIdMismatch block_id block_id
  | FailedVerification verify_error
  | FailedExecution string
  | ExecuteGenesis
  | NotUnique block_height
  | PreviousBlockProcessingNotFinished
  | ImporterStorage database_error

type_synonym 'a importer_result = "(importer_error, 'a) result"

fun lift_storage :: "'a storage_result \<Rightarrow> 'a importer_result" where
  "lift_storage (Inl e) = Inl (ImporterStorage (StoreError e))"
| "lift_storage (Inr a) = Inr a"

type_synonym ('tx, 'sig) sealed_block = "('tx block, 'sig) sealed"

datatype source = Network | Local

record ('tx, 'sig, 'st, 'ev) import_result =
  sealed_block :: "('tx, 'sig) sealed_block"
  tx_status :: "'st list"
  events :: "'ev list"
  source :: source

record ('tx, 'sig, 'st, 'ev) uncommitted_result =
  uncommitted :: "('tx, 'sig, 'st, 'ev) import_result"
  uncommitted_changes :: changes

record ('tx, 'sig, 'st, 'ev) prepare_import_result =
  prepared :: "('tx, 'sig, 'st, 'ev) uncommitted_result"
  block_changes :: changes

datatype ('tx, 'sig, 'st, 'ev) commit_input =
    Uncommitted "('tx, 'sig, 'st, 'ev) uncommitted_result"
  | PrepareImportResult "('tx, 'sig, 'st, 'ev) prepare_import_result"

text \<open>The parts that do not change: the store and its description, the libraries, the chain identifier and
  the two ports.  Blocks are stored through a transaction over a transaction over the store.\<close>

record ('tx, 'sig, 'st, 'ev, 'db) importer_env =
  store :: "'db transactable_storage"
  descr :: description
  lib :: "'tx fuel_lib"
  codecs :: "('tx, 'sig) postcard"
  block_tree :: "'db in_memory_transaction merkle_lib"
  chain_id :: u64
  validate :: "'tx block \<Rightarrow> (string, ('st list \<times> 'ev list) \<times> changes) result"
  verify_fields :: "'sig consensus \<Rightarrow> 'tx block \<Rightarrow> (verify_error, unit) result"

definition new_from_network ::
    "('tx, 'sig) sealed_block \<Rightarrow> 'st list \<Rightarrow> 'ev list \<Rightarrow> ('tx, 'sig, 'st, 'ev) import_result" where
  "new_from_network b st ev = \<lparr>sealed_block = b, tx_status = st, events = ev, source = Network\<rparr>"

definition new_from_local ::
    "('tx, 'sig) sealed_block \<Rightarrow> 'st list \<Rightarrow> 'ev list \<Rightarrow> ('tx, 'sig, 'st, 'ev) import_result" where
  "new_from_local b st ev = \<lparr>sealed_block = b, tx_status = st, events = ev, source = Local\<rparr>"

definition sealed_height :: "('tx, 'sig) sealed_block \<Rightarrow> block_height" where
  "sealed_height b = hdr_height (blk_header (entity b))"

section \<open>ports.rs: storing a block\<close>

definition storage_transaction :: "'db \<Rightarrow> changes \<Rightarrow> 'db in_memory_transaction" where
  "storage_transaction d ch = transaction d Fail ch"

definition latest_block_root ::
    "'s kv_inspect \<Rightarrow> ('tx, 'sig) postcard \<Rightarrow> 's in_memory_transaction \<Rightarrow> bytes32 option storage_result" where
  "latest_block_root S P tx =
     (case plain_get S (FuelBlockMerkleMetadata P) tx Latest of
        Inl e \<Rightarrow> Inl e
      | Inr m \<Rightarrow> Inr (map_option merkle_metadata_root m))"

fun store_transactions ::
    "'s kv_inspect \<Rightarrow> 'tx fuel_lib \<Rightarrow> ('tx, 'sig) postcard \<Rightarrow> u64 \<Rightarrow> 'tx list \<Rightarrow> 's in_memory_transaction \<Rightarrow> bool
     \<Rightarrow> 's in_memory_transaction \<times> bool storage_result" where
  "store_transactions S L P chain [] tx found = (tx, Inr found)"
| "store_transactions S L P chain (t # ts) tx found =
     (case plain_replace S (Transactions P) tx (tx_id L chain t) t of
        (tx', Inl e) \<Rightarrow> (tx', Inl e)
      | (tx', Inr old) \<Rightarrow> store_transactions S L P chain ts tx' (found \<or> old \<noteq> None))"

definition store_new_block ::
    "'s kv_inspect \<Rightarrow> 'tx fuel_lib \<Rightarrow> ('tx, 'sig) postcard \<Rightarrow> 's in_memory_transaction merkle_lib \<Rightarrow> u64
     \<Rightarrow> ('tx, 'sig) sealed_block \<Rightarrow> 's in_memory_transaction \<Rightarrow> 's in_memory_transaction \<times> bool storage_result" where
  "store_new_block S L P tree chain b self =
     (let S' = tx_kv S; h = sealed_height b in
      case merklized_replace S' (FuelBlocks L P tree) (write_transaction self) h (compress L chain (entity b)) of
        (_, Inl e) \<Rightarrow> (self, Inl e)
      | (tx1, Inr old_block) \<Rightarrow>
          (case plain_replace S' (SealedBlockConsensus P) tx1 h (seal b) of
             (_, Inl e) \<Rightarrow> (self, Inl e)
           | (tx2, Inr old_seal) \<Rightarrow>
               (case store_transactions S' L P chain (blk_transactions (entity b)) tx2
                       (old_block \<noteq> None \<or> old_seal \<noteq> None) of
                  (_, Inl e) \<Rightarrow> (self, Inl e)
                | (tx3, Inr found) \<Rightarrow>
                    (case tx_commit tx_commit_changes tx3 of
                       (self', Inl e) \<Rightarrow> (self', Inl e)
                     | (self', Inr _) \<Rightarrow> (self', Inr (\<not> found))))))"

section \<open>importer.rs: preparation\<close>

fun expected_next_height ::
    "('tx, 'sig, 'st, 'ev, 'db) importer_env \<Rightarrow> 'sig consensus \<Rightarrow> block_height \<Rightarrow> 'db
     \<Rightarrow> block_height importer_result" where
  "expected_next_height E (Genesis _) actual d =
     (case lift_storage (maybe_latest_height (store E) d) of
        Inl e \<Rightarrow> Inl e
      | Inr (Some _) \<Rightarrow> Inl InvalidUnderlyingDatabaseGenesisState
      | Inr None \<Rightarrow> Inr actual)"
| "expected_next_height E (PoA _) actual d =
     (if actual = 0 then Inl ZeroNonGenericHeight
      else case lift_storage (maybe_latest_height (store E) d) of
          Inl e \<Rightarrow> Inl e
        | Inr None \<Rightarrow> Inl (ImporterStorage (StoreError (Other ''Latest block height'')))
        | Inr (Some last_db_height) \<Rightarrow> (case checked_add last_db_height 1 of None \<Rightarrow> Inl Overflow | Some h \<Rightarrow> Inr h))"

definition ensure_next_block_height ::
    "('tx, 'sig, 'st, 'ev, 'db) importer_env \<Rightarrow> ('tx, 'sig) sealed_block \<Rightarrow> 'db \<Rightarrow> unit importer_result" where
  "ensure_next_block_height E b d =
     (case expected_next_height E (seal b) (sealed_height b) d of
        Inl e \<Rightarrow> Inl e
      | Inr expected \<Rightarrow>
          if expected \<noteq> sealed_height b then Inl (IncorrectBlockHeight expected (sealed_height b)) else Inr ())"

definition create_block_changes ::
    "('tx, 'sig, 'st, 'ev, 'db) importer_env \<Rightarrow> ('tx, 'sig) sealed_block \<Rightarrow> 'db \<Rightarrow> changes importer_result" where
  "create_block_changes E b d =
     (case ensure_next_block_height E b d of
        Inl e \<Rightarrow> Inl e
      | Inr _ \<Rightarrow>
          (case store_new_block (data_kv (store E)) (lib E) (codecs E) (block_tree E) (chain_id E) b
                  (storage_transaction d []) of
             (_, Inl e) \<Rightarrow> Inl (ImporterStorage (StoreError e))
           | (_, Inr False) \<Rightarrow> Inl (NotUnique (sealed_height b))
           | (tx, Inr True) \<Rightarrow> Inr (changes tx)))"

definition verify_and_execute_block_inner ::
    "('tx, 'sig, 'st, 'ev, 'db) importer_env \<Rightarrow> ('tx, 'sig) sealed_block
     \<Rightarrow> (('st list \<times> 'ev list) \<times> changes) importer_result" where
  "verify_and_execute_block_inner E b =
     (let sealed_block_id = block_id_of (lib E) (entity b) in
      case verify_fields E (seal b) (entity b) of
        Inl e \<Rightarrow> Inl (FailedVerification e)
      | Inr _ \<Rightarrow>
          (case seal b of
             Genesis _ \<Rightarrow> Inl ExecuteGenesis
           | PoA _ \<Rightarrow>
               (case validate E (entity b) of
                  Inl e \<Rightarrow> Inl (FailedExecution e)
                | Inr result \<Rightarrow>
                    (let actual_block_id = block_id_of (lib E) (entity b) in
                     if actual_block_id \<noteq> sealed_block_id
                     then Inl (BlockIdMismatch sealed_block_id actual_block_id)
                     else Inr result))))"

text \<open>The creation of the block changes and the execution run in parallel on the same database; neither
  writes it, so the order of evaluation does not matter.  The error of the execution comes first.\<close>

definition prepare_import_result ::
    "('tx, 'sig, 'st, 'ev, 'db) importer_env \<Rightarrow> 'db database \<Rightarrow> ('tx, 'sig) sealed_block
     \<Rightarrow> ('tx, 'sig, 'st, 'ev) prepare_import_result importer_result" where
  "prepare_import_result E db b =
     (case (case seal b of PoA _ \<Rightarrow> ensure_next_block_height E b (data db) | Genesis _ \<Rightarrow> Inr ()) of
        Inl e \<Rightarrow> Inl e
      | Inr _ \<Rightarrow>
          (let block_changes_result = create_block_changes E b (data db);
               execution_result = verify_and_execute_block_inner E b in
           case execution_result of
             Inl e \<Rightarrow> Inl e
           | Inr ((st, ev), ch) \<Rightarrow>
               (case block_changes_result of
                  Inl e \<Rightarrow> Inl e
                | Inr bch \<Rightarrow>
                    Inr \<lparr>prepared = \<lparr>uncommitted = new_from_network b st ev, uncommitted_changes = ch\<rparr>,
                         block_changes = bch\<rparr>)))"

section \<open>importer.rs: commit\<close>

text \<open>\<open>_commit_result\<close> and \<open>commit_result\<close> of the inner task: the new database and the result that is
  broadcast when the commit succeeds.\<close>

definition commit_prepared ::
    "('tx, 'sig, 'st, 'ev, 'db) importer_env \<Rightarrow> 'db database \<Rightarrow> ('tx, 'sig, 'st, 'ev) prepare_import_result
     \<Rightarrow> 'db database \<times> ('tx, 'sig, 'st, 'ev) import_result importer_result" where
  "commit_prepared E db p =
     (let result = uncommitted (prepared p); ch = uncommitted_changes (prepared p);
          S = data_kv (store E) in
      case latest_block_root S (codecs E) (transaction (data db) Overwrite []) of
        Inl e \<Rightarrow> (db, Inl (ImporterStorage (StoreError e)))
      | Inr expected_block_root \<Rightarrow>
          (let db_after_execution = storage_transaction (data db) ch in
           case latest_block_root S (codecs E) db_after_execution of
             Inl e \<Rightarrow> (db, Inl (ImporterStorage (StoreError e)))
           | Inr actual_block_root \<Rightarrow>
               if actual_block_root \<noteq> expected_block_root
               then (db, Inl (InvalidDatabaseStateAfterExecution expected_block_root actual_block_root))
               else
                 (case on_chain_commit (store E) (descr E) db
                         (ChangesList [block_changes p, changes db_after_execution]) of
                    (db', Inl e) \<Rightarrow> (db', Inl (ImporterStorage e))
                  | (db', Inr _) \<Rightarrow> (db', Inr result))))"

fun inner_commit_result ::
    "('tx, 'sig, 'st, 'ev, 'db) importer_env \<Rightarrow> 'db database \<Rightarrow> ('tx, 'sig, 'st, 'ev) commit_input
     \<Rightarrow> 'db database \<times> ('tx, 'sig, 'st, 'ev) import_result importer_result" where
  "inner_commit_result E db (Uncommitted result) =
     (case create_block_changes E (sealed_block (uncommitted result)) (data db) of
        Inl e \<Rightarrow> (db, Inl e)
      | Inr bch \<Rightarrow> commit_prepared E db \<lparr>prepared = result, block_changes = bch\<rparr>)"
| "inner_commit_result E db (PrepareImportResult p) = commit_prepared E db p"

section \<open>importer.rs: entry points\<close>

text \<open>The state shared by the callers: the database of the inner task, the guard (whether it is free), the
  permits for results that are still being processed, and the results that were broadcast.  \<open>acquired\<close> tells
  whether a permit became available before the timeout.\<close>

record ('tx, 'sig, 'st, 'ev, 'db) importer =
  db :: "'db database"
  guard_free :: bool
  permits :: nat
  broadcast :: "('tx, 'sig, 'st, 'ev) import_result list"

definition run_commit_result ::
    "('tx, 'sig, 'st, 'ev, 'db) importer_env \<Rightarrow> ('tx, 'sig, 'st, 'ev, 'db) importer
     \<Rightarrow> ('tx, 'sig, 'st, 'ev) commit_input \<Rightarrow> ('tx, 'sig, 'st, 'ev, 'db) importer \<times> unit importer_result" where
  "run_commit_result E I input =
     (case inner_commit_result E (db I) input of
        (d, Inl e) \<Rightarrow> (I\<lparr>db := d\<rparr>, Inl e)
      | (d, Inr r) \<Rightarrow> (I\<lparr>db := d, permits := permits I - 1, broadcast := broadcast I @ [r]\<rparr>, Inr ()))"

definition commit_result ::
    "('tx, 'sig, 'st, 'ev, 'db) importer_env \<Rightarrow> ('tx, 'sig, 'st, 'ev, 'db) importer
     \<Rightarrow> ('tx, 'sig, 'st, 'ev) uncommitted_result \<Rightarrow> ('tx, 'sig, 'st, 'ev, 'db) importer \<times> unit importer_result" where
  "commit_result E I result =
     (if \<not> guard_free I then (I, Inl Semaphore)
      else if permits I = 0 then (I, Inl PreviousBlockProcessingNotFinished)
      else run_commit_result E I (Uncommitted result))"

definition execute_and_commit ::
    "('tx, 'sig, 'st, 'ev, 'db) importer_env \<Rightarrow> ('tx, 'sig, 'st, 'ev, 'db) importer \<Rightarrow> ('tx, 'sig) sealed_block
     \<Rightarrow> ('tx, 'sig, 'st, 'ev, 'db) importer \<times> unit importer_result" where
  "execute_and_commit E I b =
     (if \<not> guard_free I then (I, Inl Semaphore)
      else case prepare_import_result E (db I) b of
          Inl e \<Rightarrow> (I, Inl e)
        | Inr p \<Rightarrow>
            if permits I = 0 then (I, Inl PreviousBlockProcessingNotFinished)
            else run_commit_result E I (PrepareImportResult p))"

text \<open>The end of the processing of a broadcast result: its permit is returned.\<close>

definition drop_result ::
    "('tx, 'sig, 'st, 'ev, 'db) importer \<Rightarrow> ('tx, 'sig, 'st, 'ev, 'db) importer" where
  "drop_result I = I\<lparr>permits := permits I + 1\<rparr>"

section \<open>Interleaved callers\<close>

text \<open>The phases of a call, cut at its awaits.  A prepared and a committing task remember, for the statements
  below only, the block and the database for which they were prepared.\<close>

datatype ('tx, 'sig, 'st, 'ev, 'db) phase =
    CallExecute "('tx, 'sig) sealed_block"
  | CallCommit "('tx, 'sig, 'st, 'ev) uncommitted_result"
  | Locked "('tx, 'sig) sealed_block"
  | LockedResult "('tx, 'sig, 'st, 'ev) uncommitted_result"
  | Prepared "('tx, 'sig) sealed_block" "'db database" "('tx, 'sig, 'st, 'ev) prepare_import_result"
  | CommittingExecute "('tx, 'sig) sealed_block" "'db database" "('tx, 'sig, 'st, 'ev) prepare_import_result"
  | CommittingResult "('tx, 'sig, 'st, 'ev) uncommitted_result"
  | Finished "unit importer_result"

record ('tx, 'sig, 'st, 'ev, 'db) importer_system =
  imp :: "('tx, 'sig, 'st, 'ev, 'db) importer"
  tasks :: "('tx, 'sig, 'st, 'ev, 'db) phase list"
  outstanding :: nat

fun holds_guard :: "('tx, 'sig, 'st, 'ev, 'db) phase \<Rightarrow> bool" where
  "holds_guard (CallExecute _) = False"
| "holds_guard (CallCommit _) = False"
| "holds_guard (Finished _) = False"
| "holds_guard _ = True"

fun holds_permit :: "('tx, 'sig, 'st, 'ev, 'db) phase \<Rightarrow> bool" where
  "holds_permit (CommittingExecute _ _ _) = True"
| "holds_permit (CommittingResult _) = True"
| "holds_permit _ = False"

definition set_task ::
    "nat \<Rightarrow> ('tx, 'sig, 'st, 'ev, 'db) phase \<Rightarrow> ('tx, 'sig, 'st, 'ev, 'db) importer_system
     \<Rightarrow> ('tx, 'sig, 'st, 'ev, 'db) importer_system" where
  "set_task i p s = s\<lparr>tasks := (tasks s)[i := p]\<rparr>"

definition finish ::
    "nat \<Rightarrow> unit importer_result \<Rightarrow> ('tx, 'sig, 'st, 'ev, 'db) importer_system
     \<Rightarrow> ('tx, 'sig, 'st, 'ev, 'db) importer_system" where
  "finish i r s = set_task i (Finished r) (s\<lparr>imp := (imp s)\<lparr>guard_free := True\<rparr>\<rparr>)"

definition finish_commit ::
    "('tx, 'sig, 'st, 'ev, 'db) importer_env \<Rightarrow> nat \<Rightarrow> ('tx, 'sig, 'st, 'ev) commit_input
     \<Rightarrow> ('tx, 'sig, 'st, 'ev, 'db) importer_system \<Rightarrow> ('tx, 'sig, 'st, 'ev, 'db) importer_system" where
  "finish_commit E i input s =
     (case inner_commit_result E (db (imp s)) input of
        (d, Inl e) \<Rightarrow>
          finish i (Inl e) (s\<lparr>imp := (imp s)\<lparr>db := d, permits := permits (imp s) + 1\<rparr>\<rparr>)
      | (d, Inr r) \<Rightarrow>
          finish i (Inr ()) (s\<lparr>imp := (imp s)\<lparr>db := d, broadcast := broadcast (imp s) @ [r]\<rparr>,
            outstanding := outstanding s + 1\<rparr>))"

inductive importer_step ::
    "('tx, 'sig, 'st, 'ev, 'db) importer_env \<Rightarrow> ('tx, 'sig, 'st, 'ev, 'db) importer_system
     \<Rightarrow> ('tx, 'sig, 'st, 'ev, 'db) importer_system \<Rightarrow> bool" for E where
  lock_execute: "i < length (tasks s) \<Longrightarrow> tasks s ! i = CallExecute b \<Longrightarrow> guard_free (imp s) \<Longrightarrow>
    importer_step E s (set_task i (Locked b) (s\<lparr>imp := (imp s)\<lparr>guard_free := False\<rparr>\<rparr>))"
| lock_commit: "i < length (tasks s) \<Longrightarrow> tasks s ! i = CallCommit r \<Longrightarrow> guard_free (imp s) \<Longrightarrow>
    importer_step E s (set_task i (LockedResult r) (s\<lparr>imp := (imp s)\<lparr>guard_free := False\<rparr>\<rparr>))"
| lock_fails: "i < length (tasks s) \<Longrightarrow> tasks s ! i = CallExecute b \<or> tasks s ! i = CallCommit r \<Longrightarrow>
    \<not> guard_free (imp s) \<Longrightarrow> importer_step E s (set_task i (Finished (Inl Semaphore)) s)"
| prepare_ok: "i < length (tasks s) \<Longrightarrow> tasks s ! i = Locked b \<Longrightarrow>
    prepare_import_result E (db (imp s)) b = Inr p \<Longrightarrow>
    importer_step E s (set_task i (Prepared b (db (imp s)) p) s)"
| prepare_error: "i < length (tasks s) \<Longrightarrow> tasks s ! i = Locked b \<Longrightarrow>
    prepare_import_result E (db (imp s)) b = Inl e \<Longrightarrow> importer_step E s (finish i (Inl e) s)"
| acquire_execute: "i < length (tasks s) \<Longrightarrow> tasks s ! i = Prepared b d p \<Longrightarrow> 0 < permits (imp s) \<Longrightarrow>
    importer_step E s (set_task i (CommittingExecute b d p)
      (s\<lparr>imp := (imp s)\<lparr>permits := permits (imp s) - 1\<rparr>\<rparr>))"
| acquire_commit: "i < length (tasks s) \<Longrightarrow> tasks s ! i = LockedResult r \<Longrightarrow> 0 < permits (imp s) \<Longrightarrow>
    importer_step E s (set_task i (CommittingResult r)
      (s\<lparr>imp := (imp s)\<lparr>permits := permits (imp s) - 1\<rparr>\<rparr>))"
| acquire_times_out: "i < length (tasks s) \<Longrightarrow> tasks s ! i = Prepared b d p \<or> tasks s ! i = LockedResult r \<Longrightarrow>
    importer_step E s (finish i (Inl PreviousBlockProcessingNotFinished) s)"
| commit_execute: "i < length (tasks s) \<Longrightarrow> tasks s ! i = CommittingExecute b d p \<Longrightarrow>
    importer_step E s (finish_commit E i (PrepareImportResult p) s)"
| commit_given: "i < length (tasks s) \<Longrightarrow> tasks s ! i = CommittingResult r \<Longrightarrow>
    importer_step E s (finish_commit E i (Uncommitted r) s)"
| processed: "0 < outstanding s \<Longrightarrow>
    importer_step E s (s\<lparr>imp := drop_result (imp s), outstanding := outstanding s - 1\<rparr>)"

inductive importer_reachable ::
    "('tx, 'sig, 'st, 'ev, 'db) importer_env \<Rightarrow> ('tx, 'sig, 'st, 'ev, 'db) importer_system
     \<Rightarrow> ('tx, 'sig, 'st, 'ev, 'db) importer_system \<Rightarrow> bool" for E s where
  start: "importer_reachable E s s"
| step: "importer_reachable E s s' \<Longrightarrow> importer_step E s' s'' \<Longrightarrow> importer_reachable E s s''"

text \<open>The initial state of an importer with a number of callers.\<close>

definition importer_initial :: "nat \<Rightarrow> ('tx, 'sig, 'st, 'ev, 'db) importer_system \<Rightarrow> bool" where
  "importer_initial n s =
     (guard_free (imp s) \<and> permits (imp s) = n \<and> outstanding s = 0
      \<and> (\<forall>p\<in>set (tasks s). \<not> holds_guard p))"

definition holders :: "('tx, 'sig, 'st, 'ev, 'db) importer_system \<Rightarrow> nat" where
  "holders s = length (filter holds_guard (tasks s))"

definition permit_holders :: "('tx, 'sig, 'st, 'ev, 'db) importer_system \<Rightarrow> nat" where
  "permit_holders s = length (filter holds_permit (tasks s))"

text \<open>What a phase says about the database: a prepared result was prepared for it.\<close>

fun phase_ok :: "('tx, 'sig, 'st, 'ev, 'db) importer_env \<Rightarrow> 'db database \<Rightarrow> ('tx, 'sig, 'st, 'ev, 'db) phase \<Rightarrow> bool" where
  "phase_ok E d (Prepared b d' p) = (d' = d \<and> prepare_import_result E d b = Inr p)"
| "phase_ok E d (CommittingExecute b d' p) = (d' = d \<and> prepare_import_result E d b = Inr p)"
| "phase_ok E d _ = True"

definition system_inv ::
    "('tx, 'sig, 'st, 'ev, 'db) importer_env \<Rightarrow> nat \<Rightarrow> ('tx, 'sig, 'st, 'ev, 'db) importer_system \<Rightarrow> bool" where
  "system_inv E n s =
     (holders s = (if guard_free (imp s) then 0 else 1)
      \<and> permits (imp s) + permit_holders s + outstanding s = n
      \<and> (\<forall>p\<in>set (tasks s). phase_ok E (db (imp s)) p))"

lemma filter_update:
  "i < length xs \<Longrightarrow>
   length (filter P (xs[i := x])) + (if P (xs ! i) then 1 else 0) = length (filter P xs) + (if P x then 1 else 0)"
proof (induction xs arbitrary: i)
  case (Cons y ys)
  then show ?case by (cases i) auto
qed simp

lemma holders_set_task:
  assumes "i < length (tasks s)"
  shows "holders (set_task i p s) + (if holds_guard (tasks s ! i) then 1 else 0) =
      holders s + (if holds_guard p then 1 else 0)"
    and "permit_holders (set_task i p s) + (if holds_permit (tasks s ! i) then 1 else 0) =
      permit_holders s + (if holds_permit p then 1 else 0)"
  using filter_update[OF assms] by (simp_all add: holders_def permit_holders_def set_task_def)

text \<open>When only one task holds the guard, every other phase is unaffected by a change of the database.\<close>

lemma no_holder_phase_ok: "\<not> holds_guard p \<Longrightarrow> phase_ok E d p"
  by (cases p) auto

lemma single_holder:
  assumes "holders s = 1" "i < length (tasks s)" "holds_guard (tasks s ! i)" "p \<in> set ((tasks s)[i := q])"
    "\<not> holds_guard q"
  shows "\<not> holds_guard p"
proof -
  have "length (filter holds_guard ((tasks s)[i := q])) = 0"
    using filter_update[OF assms(2), of holds_guard q] assms(1,3,5) by (simp add: holders_def)
  then show ?thesis using assms(4) by (auto simp: filter_empty_conv)
qed

lemma system_inv_finish:
  assumes inv: "system_inv E n s" and i: "i < length (tasks s)" "holds_guard (tasks s ! i)"
    and s': "tasks s' = tasks s" "permits (imp s') + permit_holders s' + outstanding s' =
      n + (if holds_permit (tasks s ! i) then 1 else 0)"
  shows "system_inv E n (finish i r s')"
proof -
  have pos: "0 < holders s"
    using i by (auto simp: holders_def filter_empty_conv)
  then have one: "holders s = 1"
    using inv by (simp add: system_inv_def split: if_splits)
  have all: "\<not> holds_guard p" if "p \<in> set ((tasks s)[i := Finished r])" for p
    using single_holder[OF one i that] by simp
  have "holders (finish i r s') = 0"
    using all s'(1) by (auto simp: holders_def finish_def set_task_def filter_empty_conv)
  moreover have "permit_holders (finish i r s') + (if holds_permit (tasks s ! i) then 1 else 0) =
      permit_holders s'"
    using holders_set_task(2)[of i s' "Finished r"] i(1) s'(1)
    by (simp add: permit_holders_def finish_def set_task_def)
  moreover have "phase_ok E d p" if "p \<in> set (tasks (finish i r s'))" for p d
    using all that s'(1) by (intro no_holder_phase_ok) (auto simp: finish_def set_task_def)
  ultimately show ?thesis
    using s'(2) by (auto simp: system_inv_def finish_def set_task_def split: if_splits)
qed

lemma system_inv_finish_same:
  assumes "system_inv E n s" "i < length (tasks s)" "holds_guard (tasks s ! i)" "\<not> holds_permit (tasks s ! i)"
  shows "system_inv E n (finish i r s)"
  using system_inv_finish[OF assms(1-3), of s r] assms(1,4) by (simp add: system_inv_def)

lemma system_inv_finish_commit:
  assumes "system_inv E n s" "i < length (tasks s)" "holds_guard (tasks s ! i)" "holds_permit (tasks s ! i)"
  shows "system_inv E n (finish_commit E i input s)"
proof -
  obtain d r where c: "inner_commit_result E (db (imp s)) input = (d, r)" by fastforce
  have tot: "permits (imp s) + permit_holders s + outstanding s = n"
    using assms(1) by (simp add: system_inv_def)
  show ?thesis
  proof (cases r)
    case (Inl e)
    then show ?thesis
      unfolding finish_commit_def c prod.case Inl sum.case
      by (intro system_inv_finish[OF assms(1-3)]) (use tot assms(4) in \<open>simp_all add: permit_holders_def\<close>)
  next
    case (Inr u)
    then show ?thesis
      unfolding finish_commit_def c prod.case Inr sum.case
      by (intro system_inv_finish[OF assms(1-3)]) (use tot assms(4) in \<open>simp_all add: permit_holders_def\<close>)
  qed
qed

lemma system_inv_step:
  assumes "system_inv E n s" "importer_step E s s'"
  shows "system_inv E n s'"
  using assms(2)
proof cases
  case (lock_execute i b)
  then show ?thesis
    using assms(1) holders_set_task[of i s "Locked b"]
    by (auto simp: system_inv_def holders_def permit_holders_def set_task_def dest!: set_update_subset_insert[THEN subsetD])
next
  case (lock_commit i r)
  then show ?thesis
    using assms(1) holders_set_task[of i s "LockedResult r"]
    by (auto simp: system_inv_def holders_def permit_holders_def set_task_def dest!: set_update_subset_insert[THEN subsetD])
next
  case (lock_fails i b r)
  then show ?thesis
    using assms(1) holders_set_task[of i s "Finished (Inl Semaphore)"]
    by (auto simp: system_inv_def set_task_def dest!: set_update_subset_insert[THEN subsetD])
next
  case (prepare_ok i b p)
  then show ?thesis
    using assms(1) holders_set_task[of i s "Prepared b (db (imp s)) p"]
    by (auto simp: system_inv_def set_task_def dest!: set_update_subset_insert[THEN subsetD])
next
  case (prepare_error i b e)
  then show ?thesis using system_inv_finish_same[OF assms(1), of i] by auto
next
  case (acquire_execute i b d p)
  have "phase_ok E (db (imp s)) (tasks s ! i)"
    using assms(1) acquire_execute(2) by (simp add: system_inv_def)
  then show ?thesis
    using acquire_execute assms(1) holders_set_task[of i s "CommittingExecute b d p"]
    by (auto simp: system_inv_def holders_def permit_holders_def set_task_def dest!: set_update_subset_insert[THEN subsetD])
next
  case (acquire_commit i r)
  then show ?thesis
    using assms(1) holders_set_task[of i s "CommittingResult r"]
    by (auto simp: system_inv_def holders_def permit_holders_def set_task_def dest!: set_update_subset_insert[THEN subsetD])
next
  case (acquire_times_out i b d p r)
  then show ?thesis using system_inv_finish_same[OF assms(1), of i] by auto
next
  case (commit_execute i b d p)
  then show ?thesis using system_inv_finish_commit[OF assms(1), of i] by auto
next
  case (commit_given i r)
  then show ?thesis using system_inv_finish_commit[OF assms(1), of i] by auto
next
  case processed
  then show ?thesis
    using assms(1) by (simp add: system_inv_def drop_result_def holders_def permit_holders_def)
qed

section \<open>What a stored block writes\<close>

text \<open>The tree library writes the table of nodes only.\<close>

definition writes_only :: "u32 \<Rightarrow> 's merkle_lib \<Rightarrow> bool" where
  "writes_only nodes T =
     (\<forall>tx v leaf tx' r. tx_ok tx \<longrightarrow> tree_push T tx v leaf = (tx', r) \<longrightarrow>
        tx_ok tx' \<and> storage tx' = storage tx \<and>
        (\<forall>k c. c \<noteq> nodes \<longrightarrow> changes_at (changes tx') k c = changes_at (changes tx) k c))"

lemma plain_put_changes:
  "plain_put T tx k v = (tx\<lparr>changes := insert_op (encode_key T k) (tcolumn T) (Insert (encode_value T v))
     (changes tx)\<rparr>, Inr ())"
  by (simp add: plain_put_def tx_put_def insert_op_def)

lemma plain_replace_changes:
  "plain_replace S T tx k v = (tx\<lparr>changes := insert_op (encode_key T k) (tcolumn T) (Insert (encode_value T v))
     (changes tx)\<rparr>, plain_get S T tx k)"
  by (simp add: plain_defs swap_op_eq)

lemma insert_into_tree_frame:
  assumes "writes_only nodes (merkle M)" "tx_ok tx" "insert_into_tree S M tx k v = (tx', Inr ())"
  shows "tx_ok tx'" "storage tx' = storage tx"
    "c \<noteq> nodes \<Longrightarrow> c \<noteq> tcolumn (metadata_table M) \<Longrightarrow> changes_at (changes tx') k' c = changes_at (changes tx) k' c"
proof -
  obtain m where m: "plain_get S (metadata_table M) tx Latest = Inr m"
    using assms(3) by (auto simp: insert_into_tree_def split: sum.splits)
  obtain tx1 r where 1: "tree_push (merkle M) tx (case m of None \<Rightarrow> 0 | Some m \<Rightarrow> merkle_version m)
      (leaf_encoder M v) = (tx1, r)" by fastforce
  obtain w root where r: "r = Inr (w, root)"
    using assms(3) 1 m by (cases r) (auto simp: insert_into_tree_def Let_def)
  have w: "tx_ok tx1" "storage tx1 = storage tx"
    "\<And>k c. c \<noteq> nodes \<Longrightarrow> changes_at (changes tx1) k c = changes_at (changes tx) k c"
    using assms(1)[unfolded writes_only_def, rule_format, OF assms(2) 1] by simp_all
  let ?op = "Insert (encode_value (metadata_table M) \<lparr>merkle_version = w, merkle_metadata_root = root\<rparr>)"
  have tx': "storage tx' = storage tx1" "changes tx' =
      insert_op (encode_key (metadata_table M) Latest) (tcolumn (metadata_table M)) ?op
        (insert_op (encode_key (metadata_table M) (Primary k)) (tcolumn (metadata_table M)) ?op (changes tx1))"
    using assms(3) 1 m r by (auto simp: insert_into_tree_def Let_def plain_put_changes)
  then show "tx_ok tx'" "storage tx' = storage tx" using w by (auto simp: tx_ok_def)
  show "changes_at (changes tx') k' c = changes_at (changes tx) k' c"
    if "c \<noteq> nodes" "c \<noteq> tcolumn (metadata_table M)"
    using tx'(2) w that by (auto simp: tx_ok_def)
qed

context kv_inspect_laws
begin

lemma merklized_replace_frame:
  assumes "writes_only nodes (merkle M)" "tx_ok tx" "merklized_replace S M tx k v = (tx', Inr prev)"
    and "distinct [nodes, tcolumn (values_table M), tcolumn (metadata_table M)]"
  shows "prev = None" "plain_get S (values_table M) tx k = Inr None" "tx_ok tx'" "storage tx' = storage tx"
    "changes_at (changes tx') k' (tcolumn (values_table M)) =
      (if k' = encode_key (values_table M) k then Some (Insert (encode_value (values_table M) v))
       else changes_at (changes tx) k' (tcolumn (values_table M)))"
    "c \<notin> {nodes, tcolumn (values_table M), tcolumn (metadata_table M)} \<Longrightarrow>
      changes_at (changes tx') k' c = changes_at (changes tx) k' c"
proof -
  let ?T = "values_table M"
  let ?tx1 = "tx\<lparr>changes := insert_op (encode_key ?T k) (tcolumn ?T) (Insert (encode_value ?T v)) (changes tx)\<rparr>"
  have ok1: "tx_ok ?tx1" using assms(2) by (simp add: tx_ok_def)
  have "tx_get S ?tx1 (encode_key ?T k) (tcolumn ?T) = Inr (Some (encode_value ?T v))"
    using tx_get_insert_op[OF assms(2)] by (simp add: map_set_def op_value_def)
  then have "merklized_remove S ?tx1 (encode_key ?T k) (tcolumn ?T) = Inl override_error"
    by (simp add: merklized_remove_def tx_exists_default default_exists_def default_size_of_value_def)
  then have none: "plain_get S ?T tx k = Inr None" and ins: "insert_into_tree S M ?tx1 k v = (tx', Inr ())"
    and prev: "prev = None"
    using assms(3)
    by (auto simp: merklized_replace_def Let_def plain_replace_changes split: sum.splits prod.splits if_splits)
  note frame = insert_into_tree_frame[OF assms(1) ok1 ins]
  show "prev = None" "plain_get S ?T tx k = Inr None" by (fact prev, fact none)
  show "tx_ok tx'" "storage tx' = storage tx" using frame(1,2) by simp_all
  show "changes_at (changes tx') k' (tcolumn ?T) =
      (if k' = encode_key ?T k then Some (Insert (encode_value ?T v)) else changes_at (changes tx) k' (tcolumn ?T))"
    using frame(3)[of "tcolumn ?T"] assms(2,4) by (auto simp: tx_ok_def)
  show "changes_at (changes tx') k' c = changes_at (changes tx) k' c"
    if "c \<notin> {nodes, tcolumn ?T, tcolumn (metadata_table M)}"
    using frame(3)[of c] that assms(2) by (auto simp: tx_ok_def)
qed

end

definition tx_key :: "'tx fuel_lib \<Rightarrow> ('tx, 'sig) postcard \<Rightarrow> u64 \<Rightarrow> 'tx \<Rightarrow> bytes" where
  "tx_key L P chain t = encode_key (Transactions P) (tx_id L chain t)"

lemma store_transactions_new:
  assumes "tx_ok tx" "store_transactions S L P chain ts tx found = (tx', Inr False)"
  shows "\<not> found \<and> tx_ok tx' \<and> storage tx' = storage tx \<and> distinct (map (tx_key L P chain) ts)
    \<and> (\<forall>t\<in>set ts. changes_at (changes tx') (tx_key L P chain t) Transactions_column =
        Some (Insert (encode_value (Transactions P) t))
      \<and> tx_get S tx (tx_key L P chain t) Transactions_column = Inr None)
    \<and> (\<forall>k c. c \<noteq> Transactions_column \<or> k \<notin> tx_key L P chain ` set ts \<longrightarrow>
        changes_at (changes tx') k c = changes_at (changes tx) k c)"
  using assms
proof (induction ts arbitrary: tx found)
  case (Cons t ts)
  let ?T = "Transactions P" and ?k = "tx_key L P chain t"
  let ?tx1 = "tx\<lparr>changes := insert_op ?k Transactions_column (Insert (encode_value ?T t)) (changes tx)\<rparr>"
  have col: "tcolumn ?T = Transactions_column" by (simp add: Transactions_def)
  obtain old where old: "plain_get S ?T tx (tx_id L chain t) = Inr old"
    and rec: "store_transactions S L P chain ts ?tx1 (found \<or> old \<noteq> None) = (tx', Inr False)"
    using Cons.prems(2) by (auto simp: plain_replace_changes tx_key_def col split: sum.splits)
  have ok1: "tx_ok ?tx1" using Cons.prems(1) by (simp add: tx_ok_def)
  note IH = Cons.IH[OF ok1 rec]
  from IH old have "plain_get S ?T tx (tx_id L chain t) = Inr None" by simp
  then have none: "tx_get S tx ?k Transactions_column = Inr None"
    by (auto simp: plain_get_def tx_key_def col elim: decode_stored.elims split: option.splits)
  have get1: "tx_get S ?tx1 k Transactions_column =
      (if k = ?k then Inr (Some (encode_value ?T t)) else tx_get S tx k Transactions_column)" for k
    using tx_get_insert_op[OF Cons.prems(1), of S] by (simp add: map_set_def op_value_def)
  have notin: "?k \<notin> tx_key L P chain ` set ts"
  proof
    assume "?k \<in> tx_key L P chain ` set ts"
    then obtain t' where t': "t' \<in> set ts" "?k = tx_key L P chain t'" by auto
    from IH t'(1) have "tx_get S ?tx1 (tx_key L P chain t') Transactions_column = Inr None" by blast
    with get1 t'(2) show False by simp
  qed
  have old_get: "tx_get S tx (tx_key L P chain t') Transactions_column = Inr None" if "t' \<in> set ts" for t'
    using IH that get1[of "tx_key L P chain t'"] by (auto split: if_splits)
  have at: "changes_at (changes tx') k c = changes_at (changes ?tx1) k c"
    if "c \<noteq> Transactions_column \<or> k \<notin> tx_key L P chain ` set ts" for k c
    using IH that by blast
  have "changes_at (changes tx') ?k Transactions_column = Some (Insert (encode_value ?T t))"
    using at[of Transactions_column ?k] notin Cons.prems(1) by (simp add: tx_ok_def)
  moreover have "changes_at (changes tx') k c = changes_at (changes tx) k c"
    if "c \<noteq> Transactions_column \<or> k \<notin> tx_key L P chain ` set (t # ts)" for k c
    using at[of c k] that Cons.prems(1) by (auto simp: tx_ok_def)
  ultimately show ?case
    using IH none old_get notin by auto
qed simp

text \<open>The changes of a newly stored block: exactly one block is inserted, with its seal and its transactions, and
  only the tables of blocks change.\<close>

definition block_columns :: "u32 set" where
  "block_columns = {FuelBlocks_column, FuelBlockMerkleData_column, FuelBlockMerkleMetadata_column,
     FuelBlockConsensus_column, Transactions_column}"

definition block_written ::
    "'tx fuel_lib \<Rightarrow> ('tx, 'sig) postcard \<Rightarrow> u64 \<Rightarrow> ('tx, 'sig) sealed_block \<Rightarrow> changes \<Rightarrow> bool" where
  "block_written L P chain b ch =
     (changes_ok ch
      \<and> (\<forall>k. changes_at ch k FuelBlocks_column =
          (if k = primitive_encode (sealed_height b)
           then Some (Insert (fst (block_codec P) (compress L chain (entity b)))) else None))
      \<and> changes_at ch (primitive_encode (sealed_height b)) FuelBlockConsensus_column =
          Some (Insert (fst (seal_codec P) (seal b)))
      \<and> distinct (map (tx_key L P chain) (blk_transactions (entity b)))
      \<and> (\<forall>t\<in>set (blk_transactions (entity b)).
          changes_at ch (tx_key L P chain t) Transactions_column = Some (Insert (fst (tx_codec P) t)))
      \<and> (\<forall>k c. c \<notin> block_columns \<longrightarrow> changes_at ch k c = None))"

lemma FuelBlocks_columns:
  "tcolumn (values_table (FuelBlocks L P tree)) = FuelBlocks_column"
  "tcolumn (metadata_table (FuelBlocks L P tree)) = FuelBlockMerkleMetadata_column"
  "merkle (FuelBlocks L P tree) = tree"
  "encode_key (values_table (FuelBlocks L P tree)) = primitive_encode"
  "encode_value (values_table (FuelBlocks L P tree)) = fst (block_codec P)"
  by (simp_all add: FuelBlocks_def FuelBlockMerkleMetadata_def)

lemma storage_changes_update [simp]: "storage (tx\<lparr>changes := ch\<rparr>) = storage tx"
  by (cases tx) simp

lemma commit_to_empty:
  assumes "tx_ok tx" "storage tx = self" "changes self = []" "tx_commit tx_commit_changes tx = (self', Inr ())"
  shows "changes_ok (changes self')" "changes_at (changes self') k c = changes_at (changes tx) k c"
proof -
  obtain ch' where c: "commit_columns (policy self) (changes tx) (changes self) = (ch', Inr ())"
      "self' = self\<lparr>changes := ch'\<rparr>"
    using assms(2,4) by (auto simp: tx_commit_def tx_commit_changes_def split: prod.splits)
  have ok: "changes_ok (changes self)" "changes_ok (changes tx)"
    using assms(1,3) by (simp_all add: changes_ok_def tx_ok_def)
  show "changes_ok (changes self')" using commit_columns_ok[OF ok, of "policy self"] c by simp
  show "changes_at (changes self') k c = changes_at (changes tx) k c"
    using commit_columns_Inr[OF ok c(1)] c(2) assms(3) by (simp split: option.splits)
qed

lemma store_new_block_True:
  assumes laws: "kv_inspect_laws S" and tree: "writes_only FuelBlockMerkleData_column tree"
    and self: "changes self = []"
    and store: "store_new_block S L P tree chain b self = (self', Inr True)"
  shows "block_written L P chain b (changes self')"
proof -
  let ?S = "tx_kv S" and ?h = "sealed_height b" and ?M = "FuelBlocks L P tree"
  let ?seal = "SealedBlockConsensus P" and ?txs = "blk_transactions (entity b)"
  note laws' = kv_inspect_laws.tx_kv_laws[OF laws]
  have ok0: "tx_ok (write_transaction self)" "changes (write_transaction self) = []"
    by (simp_all add: tx_ok_def write_transaction_def transaction_def changes_ok_def)
  obtain tx1 old1 where 1: "merklized_replace ?S ?M (write_transaction self) ?h (compress L chain (entity b)) =
      (tx1, Inr old1)"
    using store by (auto simp: store_new_block_def Let_def split: prod.splits sum.splits)
  have cols: "distinct [FuelBlockMerkleData_column, tcolumn (values_table ?M), tcolumn (metadata_table ?M)]"
    by (simp add: FuelBlocks_columns column_defs)
  note f1 = kv_inspect_laws.merklized_replace_frame[OF laws' _ ok0(1) 1 cols,
      unfolded FuelBlocks_columns ok0(2), OF tree]
  let ?tx2 = "tx1\<lparr>changes := insert_op (primitive_encode ?h) FuelBlockConsensus_column
      (Insert (fst (seal_codec P) (seal b))) (changes tx1)\<rparr>"
  have seal_cols: "tcolumn ?seal = FuelBlockConsensus_column" "encode_key ?seal = primitive_encode"
    "encode_value ?seal = fst (seal_codec P)" by (simp_all add: SealedBlockConsensus_def)
  obtain old2 where 2: "plain_replace ?S ?seal tx1 ?h (seal b) = (?tx2, Inr old2)"
    using store 1
    by (auto simp: store_new_block_def Let_def plain_replace_changes seal_cols split: sum.splits)
  have ok2: "tx_ok ?tx2" using f1(3) by (simp add: tx_ok_def)
  obtain tx3 found where 3: "store_transactions ?S L P chain ?txs ?tx2 (old1 \<noteq> None \<or> old2 \<noteq> None) =
      (tx3, Inr found)"
    using store 1 2 by (auto simp: store_new_block_def Let_def split: prod.splits sum.splits)
  obtain c where c: "tx_commit tx_commit_changes tx3 = (self', c)" "\<exists>u. c = Inr u" and found: "\<not> found"
    using store 1 2 3 by (auto simp: store_new_block_def Let_def split: prod.splits sum.splits)
  then have c: "tx_commit tx_commit_changes tx3 = (self', Inr ())" by auto
  from found 3 have "store_transactions ?S L P chain ?txs ?tx2 (old1 \<noteq> None \<or> old2 \<noteq> None) = (tx3, Inr False)"
    by simp
  note f3 = store_transactions_new[OF ok2 this]
  have st3: "storage tx3 = self"
    using f3 f1(4) by (simp add: write_transaction_def transaction_def)
  note fc = commit_to_empty[OF _ st3 self c]
  have at: "changes_at (changes self') k c = changes_at (changes ?tx2) k c" if "c \<noteq> Transactions_column" for k c
    using f3 fc(2) that by simp
  have "changes_at (changes self') k FuelBlocks_column = (if k = primitive_encode ?h
      then Some (Insert (fst (block_codec P) (compress L chain (entity b)))) else None)" for k
    using at[of FuelBlocks_column k] f1(3) f1(5)[of k] by (simp add: tx_ok_def column_defs)
  moreover have "changes_at (changes self') (primitive_encode ?h) FuelBlockConsensus_column =
      Some (Insert (fst (seal_codec P) (seal b)))"
    using at[of FuelBlockConsensus_column "primitive_encode ?h"] f1(3) by (simp add: tx_ok_def column_defs)
  moreover have "changes_at (changes self') k c = None" if "c \<notin> block_columns" for k c
    using at[of c k] f1(3) f1(6)[of c k] that by (simp add: tx_ok_def block_columns_def changes_at_def[of "[]"])
  ultimately show ?thesis
    using f3 fc unfolding block_written_def by (simp add: Transactions_def)
qed

lemma create_block_changes_Inr:
  assumes "kv_inspect_laws (data_kv (store E))" "writes_only FuelBlockMerkleData_column (block_tree E)"
    and "create_block_changes E b d = Inr ch"
  shows "ensure_next_block_height E b d = Inr ()" "block_written (lib E) (codecs E) (chain_id E) b ch"
proof -
  obtain tx where tx: "store_new_block (data_kv (store E)) (lib E) (codecs E) (block_tree E) (chain_id E) b
      (storage_transaction d []) = (tx, Inr True)" "ch = changes tx" and e: "ensure_next_block_height E b d = Inr ()"
    using assms(3) by (auto simp: create_block_changes_def split: sum.splits prod.splits bool.splits)
  show "ensure_next_block_height E b d = Inr ()" by (fact e)
  show "block_written (lib E) (codecs E) (chain_id E) b ch"
    using store_new_block_True[OF assms(1,2) _ tx(1)] tx(2)
    by (simp add: storage_transaction_def transaction_def)
qed

section \<open>Imports extend the chain\<close>

definition env_ok :: "('tx, 'sig, 'st, 'ev, 'db) importer_env \<Rightarrow> ('db \<Rightarrow> bool) \<Rightarrow> bool" where
  "env_ok E ok =
     (transactable (store E) ok \<and> lawful_table (MetadataTable (descr E)) id
      \<and> tcolumn (MetadataTable (descr E)) \<noteq> FuelBlocks_column
      \<and> writes_only FuelBlockMerkleData_column (block_tree E))"

text \<open>What the importer relies on of the executor: the changes of an execution are well-formed and do not
  remove blocks.\<close>

definition executor_ok :: "('tx, 'sig, 'st, 'ev, 'db) importer_env \<Rightarrow> 'tx block \<Rightarrow> bool" where
  "executor_ok E b =
     (\<forall>st ev ch. validate E b = Inr ((st, ev), ch) \<longrightarrow> changes_ok ch \<and> removes_no_block [ch])"

text \<open>The block, its seal and its transactions are in the store.\<close>

definition block_stored ::
    "('tx, 'sig, 'st, 'ev, 'db) importer_env \<Rightarrow> 'db \<Rightarrow> ('tx, 'sig) sealed_block \<Rightarrow> bool" where
  "block_stored E d b =
     (let get = kv_get (data_kv (store E)) d; P = codecs E in
      get (primitive_encode (sealed_height b)) FuelBlocks_column =
        Inr (Some (fst (block_codec P) (compress (lib E) (chain_id E) (entity b))))
      \<and> get (primitive_encode (sealed_height b)) FuelBlockConsensus_column =
        Inr (Some (fst (seal_codec P) (seal b)))
      \<and> (\<forall>t\<in>set (blk_transactions (entity b)).
          get (tx_key (lib E) P (chain_id E) t) Transactions_column = Inr (Some (fst (tx_codec P) t))))"

lemma pairwise_disjoint_seen:
  "pairwise_disjoint seen chs \<Longrightarrow> (c, k) \<in> seen \<Longrightarrow> ch \<in> set chs \<Longrightarrow> changes_at ch k c = None"
proof (induction seen chs rule: pairwise_disjoint.induct)
  case (2 seen ch' rest)
  then show ?case by (cases "changes_at ch' k c") (auto simp: changes_keys_def)
qed simp

lemma fold_overlay_none:
  "(\<And>ch. ch \<in> set chs \<Longrightarrow> changes_at ch k c = None) \<Longrightarrow> fold (\<lambda>ch. overlay ch k c) chs r = r"
  by (induction chs arbitrary: r) (simp_all add: overlay_def)

lemma fold_overlay_first:
  assumes "pairwise_disjoint {} (ch # rest)" "changes_at ch k c = Some (Insert v)"
  shows "fold (\<lambda>ch. overlay ch k c) (ch # rest) r = Inr (Some v)"
proof -
  have "pairwise_disjoint (changes_keys ch) rest" "(c, k) \<in> changes_keys ch"
    using assms by (simp_all add: changes_keys_def)
  then have "changes_at ch' k c = None" if "ch' \<in> set rest" for ch'
    using that by (rule pairwise_disjoint_seen)
  then show ?thesis using fold_overlay_none[of rest k c] assms(2) by (simp add: overlay_def op_value_def)
qed

text \<open>The commit of a prepared block.\<close>

lemma commit_block:
  assumes env: "env_ok E ok" and inv: "chain_inv (store E) (descr E) ok d"
    and bch: "block_written (lib E) (codecs E) (chain_id E) b bch"
    and ch: "changes_ok ch" "removes_no_block [ch]"
    and commit: "on_chain_commit (store E) (descr E) d (ChangesList [bch, ch]) = (d', Inr ())"
  shows "chain_inv (store E) (descr E) ok d'" "stage_height d' = Some (sealed_height b)"
    "block_stored E (data d') b"
    "h \<noteq> sealed_height b \<Longrightarrow> kv_get (data_kv (store E)) (data d') (primitive_encode h) FuelBlocks_column =
      kv_get (data_kv (store E)) (data d) (primitive_encode h) FuelBlocks_column"
    "c \<notin> block_columns \<Longrightarrow> c \<noteq> tcolumn (MetadataTable (descr E)) \<Longrightarrow>
      kv_get (data_kv (store E)) (data d') k c = overlay ch k c (kv_get (data_kv (store E)) (data d) k c)"
proof -
  let ?T = "store E" and ?k = "primitive_encode (sealed_height b)"
  have T: "transactable ?T ok" and M: "lawful_table (MetadataTable (descr E)) id"
    "tcolumn (MetadataTable (descr E)) \<noteq> FuelBlocks_column"
    using env by (simp_all add: env_ok_def)
  have chs: "\<forall>c\<in>set [bch, ch]. changes_ok c" "removes_no_block [bch, ch]"
    using bch ch by (simp_all add: block_written_def removes_no_block_def)
  show "chain_inv ?T (descr E) ok d'"
    by (rule transactable.chain_commit[OF T M inv chs commit])
  have key: "?k \<in> inserted_keys [bch, ch] FuelBlocks_column"
    using bch by (auto simp: block_written_def inserted_keys_def)
  obtain hh ch' where height: "on_chain_heights (ChangesList [bch, ch]) = Inr [hh]"
    "add_metadata ?T (descr E) (data d) hh (ChangesList [bch, ch]) = Inr ch'"
    "data_commit ?T (data d) (Some hh) ch' = (data d', Inr ())" "stage_height d' = Some hh"
    using commit
  proof (cases rule: on_chain_commit_Inr)
    case no_height
    with inserted_heights[OF chs(1)] key show ?thesis by fastforce
  next
    case (height hh ch')
    then show ?thesis using that by blast
  qed
  have ins: "inserted_keys [bch, ch] FuelBlocks_column = {primitive_encode hh}"
    using inserted_heights[OF chs(1) height(1)] by simp
  with key have hh: "hh = sealed_height b" by (simp add: primitive_encode_inj)
  then show "stage_height d' = Some (sealed_height b)" using height(4) by simp
  obtain mch where m: "ch' = ChangesList ([bch, ch] @ [mch])" "changes_ok mch"
    "\<And>k c. c \<noteq> tcolumn (MetadataTable (descr E)) \<Longrightarrow> changes_at mch k c = None"
    by (rule add_metadata_Inr[OF M(1) height(2)]) (rule that; assumption)
  have okd: "ok (data d)" using inv by (simp add: chain_inv_def)
  have cok: "\<forall>c\<in>set (bch # [ch, mch]). changes_ok c" using chs(1) m(2) by simp
  have c: "data_commit ?T (data d) (Some hh) (ChangesList (bch # [ch, mch])) = (data d', Inr ())"
    using height(3) m(1) by simp
  note get = transactable.commit_get[OF T okd cok c]
  note disj = transactable.commit_disjoint[OF T okd cok c]
  show "block_stored E (data d') b"
    using bch fold_overlay_first[OF disj] unfolding block_stored_def block_written_def get Let_def by auto
  show "kv_get (data_kv ?T) (data d') k c = overlay ch k c (kv_get (data_kv ?T) (data d) k c)"
    if "c \<notin> block_columns" "c \<noteq> tcolumn (MetadataTable (descr E))"
    using that bch m(3)[of c k] unfolding get by (simp add: block_written_def overlay_def)
  assume other: "h \<noteq> sealed_height b"
  have "changes_at c' (primitive_encode h) FuelBlocks_column = None" if "c' \<in> set (bch # [ch, mch])" for c'
  proof -
    have "primitive_encode h \<notin> inserted_keys [bch, ch] FuelBlocks_column"
      using ins hh other by (simp add: primitive_encode_inj)
    then have "changes_at c' (primitive_encode h) FuelBlocks_column = None" if "c' = bch \<or> c' = ch"
      using that chs(2)
      by (cases "changes_at c' (primitive_encode h) FuelBlocks_column"; cases "the (changes_at c' (primitive_encode h) FuelBlocks_column)")
        (auto simp: inserted_keys_def removes_no_block_def)
    with that m(3) M(2) show ?thesis by fastforce
  qed
  then show "kv_get (data_kv ?T) (data d') (primitive_encode h) FuelBlocks_column =
      kv_get (data_kv ?T) (data d) (primitive_encode h) FuelBlocks_column"
    unfolding get by (rule fold_overlay_none)
qed

lemma commit_prepared_Inr:
  assumes "commit_prepared E d p = (d', Inr r)"
  shows "on_chain_commit (store E) (descr E) d
      (ChangesList [block_changes p, uncommitted_changes (prepared p)]) = (d', Inr ())"
    "r = uncommitted (prepared p)"
  using assms
  by (auto simp: commit_prepared_def Let_def storage_transaction_def transaction_def
      split: sum.splits prod.splits if_splits)

lemma next_height_PoA:
  assumes "env_ok E ok" "chain_inv (store E) (descr E) ok d" "ensure_next_block_height E b (data d) = Inr ()"
    and "seal b = PoA c"
  obtains prev where "stage_height d = Some prev" "unat (sealed_height b) = unat prev + 1"
proof -
  obtain last_height where l: "maybe_latest_height (store E) (data d) = Inr (Some last_height)"
    and n: "checked_add last_height 1 = Some (sealed_height b)"
    using assms(3,4)
    by (cases "maybe_latest_height (store E) (data d)")
      (auto simp: ensure_next_block_height_def split: sum.splits if_splits option.splits)
  have "stage_height d = Some last_height"
    using transactable.latest_height[OF _ assms(2) l] assms(1) by (simp add: env_ok_def)
  with that n show ?thesis by (auto simp: checked_add_eq_Some)
qed

text \<open>A successful import commits the changes of the block and those of the executor.\<close>

lemma import_commits:
  assumes "env_ok E ok" "chain_inv (store E) (descr E) ok (db I)" "executor_ok E (entity b)"
    and "execute_and_commit E I b = (I', Inr ())"
  obtains prev st ev ch bch where "stage_height (db I) = Some prev" "unat (sealed_height b) = unat prev + 1"
    "verify_fields E (seal b) (entity b) = Inr ()" "validate E (entity b) = Inr ((st, ev), ch)"
    "changes_ok ch" "removes_no_block [ch]" "block_written (lib E) (codecs E) (chain_id E) b bch"
    "on_chain_commit (store E) (descr E) (db I) (ChangesList [bch, ch]) = (db I', Inr ())"
    "broadcast I' = broadcast I @ [new_from_network b st ev]"
proof -
  obtain p where p: "prepare_import_result E (db I) b = Inr p"
    and run: "run_commit_result E I (PrepareImportResult p) = (I', Inr ())"
    using assms(4) by (auto simp: execute_and_commit_def split: if_splits sum.splits)
  obtain st ev ch bch where v: "verify_and_execute_block_inner E b = Inr ((st, ev), ch)"
    and bch: "create_block_changes E b (data (db I)) = Inr bch"
    and p': "p = \<lparr>prepared = \<lparr>uncommitted = new_from_network b st ev, uncommitted_changes = ch\<rparr>,
      block_changes = bch\<rparr>"
    using p by (auto simp: prepare_import_result_def Let_def split: sum.splits consensus.splits)
  obtain c where v': "verify_fields E (seal b) (entity b) = Inr ()" "seal b = PoA c"
    "validate E (entity b) = Inr ((st, ev), ch)"
    using v by (auto simp: verify_and_execute_block_inner_def Let_def split: sum.splits consensus.splits)
  obtain d r where d: "commit_prepared E (db I) p = (d, Inr r)" "db I' = d" "broadcast I' = broadcast I @ [r]"
    using run by (auto simp: run_commit_result_def split: prod.splits sum.splits)
  have kv: "kv_inspect_laws (data_kv (store E))" and tree: "writes_only FuelBlockMerkleData_column (block_tree E)"
    using assms(1) by (simp_all add: env_ok_def transactable_def)
  note cb = create_block_changes_Inr[OF kv tree bch]
  obtain prev where prev: "stage_height (db I) = Some prev" "unat (sealed_height b) = unat prev + 1"
    using next_height_PoA[OF assms(1,2) cb(1) v'(2)] by blast
  note com = commit_prepared_Inr[OF d(1)]
  have ch: "changes_ok ch" "removes_no_block [ch]"
    using assms(3) v'(3) by (auto simp: executor_ok_def)
  have "on_chain_commit (store E) (descr E) (db I) (ChangesList [bch, ch]) = (db I', Inr ())"
    "broadcast I' = broadcast I @ [new_from_network b st ev]"
    using com d(2,3) by (simp_all add: p')
  with that prev v'(1,3) ch cb(2) show ?thesis by blast
qed

text \<open>C2. A successful import extends the chain by exactly the given block.  The block follows the last one,
  the verifier accepted it and the executor validated it; afterwards the database has the block, its seal and
  all its transactions, its heights are linked as before, every earlier block reads as before, and the result
  was broadcast.\<close>

theorem import_extends_chain:
  assumes "env_ok E ok" "chain_inv (store E) (descr E) ok (db I)" "executor_ok E (entity b)"
    and "execute_and_commit E I b = (I', Inr ())"
  shows "\<exists>prev st ev ch. stage_height (db I) = Some prev \<and> unat (sealed_height b) = unat prev + 1
    \<and> verify_fields E (seal b) (entity b) = Inr () \<and> validate E (entity b) = Inr ((st, ev), ch)
    \<and> stage_height (db I') = Some (sealed_height b) \<and> chain_inv (store E) (descr E) ok (db I')
    \<and> block_stored E (data (db I')) b
    \<and> (\<forall>h. h \<noteq> sealed_height b \<longrightarrow>
        kv_get (data_kv (store E)) (data (db I')) (primitive_encode h) FuelBlocks_column =
        kv_get (data_kv (store E)) (data (db I)) (primitive_encode h) FuelBlocks_column)
    \<and> broadcast I' = broadcast I @ [new_from_network b st ev]"
proof -
  obtain prev st ev ch bch where p: "stage_height (db I) = Some prev" "unat (sealed_height b) = unat prev + 1"
    "verify_fields E (seal b) (entity b) = Inr ()" "validate E (entity b) = Inr ((st, ev), ch)"
    "changes_ok ch" "removes_no_block [ch]" "block_written (lib E) (codecs E) (chain_id E) b bch"
    "on_chain_commit (store E) (descr E) (db I) (ChangesList [bch, ch]) = (db I', Inr ())"
    "broadcast I' = broadcast I @ [new_from_network b st ev]"
    by (rule import_commits[OF assms])
  from commit_block[OF assms(1,2) p(7,5,6,8)] p show ?thesis by blast
qed

section \<open>Imports that succeed\<close>

text \<open>Liveness needs more of the binary Merkle tree: a push succeeds and only adds the column of the nodes.\<close>

definition tree_total :: "u32 \<Rightarrow> 's merkle_lib \<Rightarrow> bool" where
  "tree_total nodes T =
     (\<forall>tx v leaf. \<exists>tx' r. tree_push T tx v leaf = (tx', Inr r)
        \<and> columns (changes tx') \<subseteq> insert nodes (columns (changes tx)))"

lemma insert_into_tree_total:
  assumes "tree_total nodes (merkle M)" "plain_get S (metadata_table M) tx Latest = Inr m"
  shows "\<exists>tx'. insert_into_tree S M tx k v = (tx', Inr ())
    \<and> columns (changes tx') \<subseteq> {nodes, tcolumn (metadata_table M)} \<union> columns (changes tx)"
proof -
  obtain tx1 w root where 1: "tree_push (merkle M) tx (case m of None \<Rightarrow> 0 | Some m \<Rightarrow> merkle_version m)
      (leaf_encoder M v) = (tx1, Inr (w, root))" "columns (changes tx1) \<subseteq> insert nodes (columns (changes tx))"
    using assms(1) unfolding tree_total_def by (metis surj_pair)
  then show ?thesis
    using assms(2) by (auto simp: insert_into_tree_def Let_def plain_put_changes)
qed

lemma plain_get_other:
  assumes "tx_ok tx" "c \<noteq> tcolumn T"
  shows "plain_get S T (tx\<lparr>changes := insert_op k c operation (changes tx)\<rparr>) k' = plain_get S T tx k'"
  using assms by (simp add: plain_get_def tx_get_overlay overlay_def tx_ok_def)

lemma plain_get_None: "tx_get S tx (encode_key T k) (tcolumn T) = Inr None \<Longrightarrow> plain_get S T tx k = Inr None"
  by (simp add: plain_get_def)

lemma store_transactions_total:
  assumes "tx_ok tx" "distinct (map (tx_key L P chain) ts)"
    and "\<And>t. t \<in> set ts \<Longrightarrow> tx_get S tx (tx_key L P chain t) Transactions_column = Inr None"
  shows "\<exists>tx'. store_transactions S L P chain ts tx False = (tx', Inr False)
    \<and> columns (changes tx') \<subseteq> insert Transactions_column (columns (changes tx))"
  using assms
proof (induction ts arbitrary: tx)
  case (Cons t ts)
  let ?tx1 = "tx\<lparr>changes := insert_op (tx_key L P chain t) Transactions_column
      (Insert (encode_value (Transactions P) t)) (changes tx)\<rparr>"
  have col: "tcolumn (Transactions P) = Transactions_column" by (simp add: Transactions_def)
  have "plain_get S (Transactions P) tx (tx_id L chain t) = Inr None"
    using Cons.prems(3)[of t] by (intro plain_get_None) (simp add: col tx_key_def)
  then have step: "store_transactions S L P chain (t # ts) tx False = store_transactions S L P chain ts ?tx1 False"
    by (simp add: plain_replace_changes tx_key_def col)
  have "tx_ok ?tx1" using Cons.prems(1) by (simp add: tx_ok_def)
  moreover have "tx_get S ?tx1 (tx_key L P chain t') Transactions_column = Inr None" if "t' \<in> set ts" for t'
  proof -
    have "tx_key L P chain t' \<noteq> tx_key L P chain t"
      using Cons.prems(2) that by (metis distinct.simps(2) image_eqI list.set_map list.simps(9))
    then show ?thesis
      using Cons.prems(3)[of t'] that tx_get_insert_op[OF Cons.prems(1), of S] by (simp add: map_set_def)
  qed
  ultimately show ?case
    using Cons.IH[of ?tx1] Cons.prems(2) unfolding step by auto
qed auto

text \<open>A block that is new to the store is stored.\<close>

lemma store_new_block_total:
  assumes laws: "kv_inspect_laws S" and tree: "writes_only FuelBlockMerkleData_column tree"
      "tree_total FuelBlockMerkleData_column tree"
    and meta: "latest_block_root S P self = Inr m" and self: "changes self = []"
    and new: "\<And>c. c \<in> {FuelBlocks_column, FuelBlockConsensus_column} \<Longrightarrow>
        tx_get S self (primitive_encode (sealed_height b)) c = Inr None"
      "\<And>t. t \<in> set (blk_transactions (entity b)) \<Longrightarrow>
        tx_get S self (tx_key L P chain t) Transactions_column = Inr None"
      "distinct (map (tx_key L P chain) (blk_transactions (entity b)))"
  shows "\<exists>self'. store_new_block S L P tree chain b self = (self', Inr True)
    \<and> columns (changes self') \<subseteq> {FuelBlocks_column, FuelBlockMerkleData_column, FuelBlockMerkleMetadata_column,
        FuelBlockConsensus_column, Transactions_column}"
proof -
  let ?S = "tx_kv S" and ?h = "sealed_height b" and ?M = "FuelBlocks L P tree" and ?b = "compress L chain (entity b)"
  let ?seal = "SealedBlockConsensus P" and ?txs = "blk_transactions (entity b)"
  let ?tx0 = "write_transaction self"
  note laws' = kv_inspect_laws.tx_kv_laws[OF laws]
  have ok0: "tx_ok ?tx0" "changes ?tx0 = []" "storage ?tx0 = self"
    by (simp_all add: tx_ok_def write_transaction_def transaction_def changes_ok_def)
  have get0: "tx_get ?S ?tx0 k c = tx_get S self k c" for k c
    using ok0 by (simp add: tx_get_overlay overlay_def tx_kv_def)
  have meta0: "plain_get ?S (metadata_table ?M) ?tx0 Latest \<in> range Inr"
    using meta get0 by (auto simp: latest_block_root_def plain_get_def FuelBlocks_def split: sum.splits)
  let ?tx1 = "?tx0\<lparr>changes := insert_op (primitive_encode ?h) FuelBlocks_column (Insert (fst (block_codec P) ?b)) (changes ?tx0)\<rparr>"
  obtain m' where "plain_get ?S (metadata_table ?M) ?tx1 Latest = Inr m'"
    using meta0 plain_get_other[OF ok0(1), of FuelBlocks_column "metadata_table ?M"]
    by (auto simp: FuelBlocks_columns column_defs)
  from insert_into_tree_total[OF _ this, of FuelBlockMerkleData_column ?h ?b]
  obtain tx2 where tx2: "insert_into_tree ?S ?M ?tx1 ?h ?b = (tx2, Inr ())"
    "columns (changes tx2) \<subseteq> {FuelBlocks_column, FuelBlockMerkleData_column, FuelBlockMerkleMetadata_column}"
    using tree(2) ok0(2) by (auto simp: FuelBlocks_columns)
  have "plain_get ?S (values_table ?M) ?tx0 ?h = Inr None"
    using new(1)[of FuelBlocks_column] by (intro plain_get_None) (simp add: get0 FuelBlocks_columns)
  then have 1: "merklized_replace ?S ?M ?tx0 ?h ?b = (tx2, Inr None)"
    using tx2(1) by (simp add: merklized_replace_def plain_replace_changes FuelBlocks_columns)
  have cols: "distinct [FuelBlockMerkleData_column, tcolumn (values_table ?M), tcolumn (metadata_table ?M)]"
    by (simp add: FuelBlocks_columns column_defs)
  note f1 = kv_inspect_laws.merklized_replace_frame[OF laws' _ ok0(1) 1 cols,
      unfolded FuelBlocks_columns ok0(2), OF tree(1)]
  have get2: "tx_get ?S tx2 k c = tx_get S self k c" if "c \<in> {FuelBlockConsensus_column, Transactions_column}" for k c
    using f1(4) f1(6)[of c k] ok0(3) that by (auto simp: tx_get_overlay overlay_def tx_kv_def column_defs)
  let ?tx3 = "tx2\<lparr>changes := insert_op (primitive_encode ?h) FuelBlockConsensus_column
      (Insert (fst (seal_codec P) (seal b))) (changes tx2)\<rparr>"
  have 2: "plain_replace ?S ?seal tx2 ?h (seal b) = (?tx3, Inr None)"
    using new(1)[of FuelBlockConsensus_column] get2
    by (simp add: plain_replace_changes SealedBlockConsensus_def plain_get_def)
  have ok3: "tx_ok ?tx3" using f1(3) by (simp add: tx_ok_def)
  have "tx_get ?S ?tx3 (tx_key L P chain t) Transactions_column = Inr None" if "t \<in> set ?txs" for t
    using tx_get_insert_op[OF f1(3), of ?S] get2 new(2)[OF that] by (simp add: map_set_def column_defs)
  from store_transactions_total[OF ok3 new(3) this]
  obtain tx4 where 3: "store_transactions ?S L P chain ?txs ?tx3 False = (tx4, Inr False)"
    "columns (changes tx4) \<subseteq> {FuelBlocks_column, FuelBlockMerkleData_column, FuelBlockMerkleMetadata_column,
        FuelBlockConsensus_column, Transactions_column}"
    using tx2(2) by auto
  have st4: "tx_ok tx4" "storage tx4 = self"
    using store_transactions_new[OF ok3 3(1)] f1(4) ok0(3) by simp_all
  obtain ch where ch: "commit_columns (policy self) (changes tx4) [] = (ch, Inr ())"
    using commit_columns_Fail[of "[]" "changes tx4"] commit_columns_Overwrite[of "changes tx4" "[]"] st4(1)
    by (cases "policy self"; cases "commit_columns (policy self) (changes tx4) []") (auto simp: tx_ok_def changes_ok_def)
  have "store_new_block S L P tree chain b self = (self\<lparr>changes := ch\<rparr>, Inr True)"
    using 1 2 3(1) ch st4(2) self
    by (simp add: store_new_block_def Let_def tx_commit_def tx_commit_changes_def)
  then show ?thesis using columns_commit[of "policy self" "changes tx4" "[]"] ch 3(2) by auto
qed

lemma checked_add_next: "unat (h :: u32) = unat prev + 1 \<Longrightarrow> checked_add prev 1 = Some h"
proof -
  have "unat h < 2 ^ 32" by (rule order_less_le_trans[OF unsigned_less]) simp
  then show "unat h = unat prev + 1 \<Longrightarrow> ?thesis" by (simp add: checked_add_eq_Some)
qed

text \<open>The store finds the latest height.\<close>

lemma memory_latest_height:
  assumes "chain_inv memory_storage D memory_ok d" "stage_height d = Some h"
    and "unat FuelBlocks_column < length (inner (data d))"
  shows "maybe_latest_height memory_storage (data d) = Inr (Some h)"
proof -
  obtain ks where ks: "data_keys memory_storage (data d) FuelBlocks_column None None Reverse = Inr ks"
    using assms(3) by (simp add: memory_storage_def iter_all_keys_def Memory_Store.table_def)
  have ok: "memory_ok (data d)" using assms(1) by (simp add: chain_inv_def)
  have set: "set ks = {k. \<exists>v. kv_get (data_kv memory_storage) (data d) k FuelBlocks_column = Inr (Some v)}"
    using memory_storage.keys_reverse[OF ok ks] by simp
  obtain g where "g \<le> h" "stored_blocks memory_storage (data d) = {g..h}"
    using assms(1,2) by (auto simp: chain_inv_def)
  then have "h \<in> stored_blocks memory_storage (data d)" by simp
  then have "primitive_encode h \<in> set ks" unfolding set by (auto simp: stored_blocks_def)
  then obtain k ks' where k: "ks = k # ks'" by (cases ks) auto
  then have "length k = 4" using set assms(1) by (auto simp: chain_inv_def)
  then obtain x :: block_height where "primitive_decode k = Some x" by (auto simp: primitive_decode_def word_of_bytes_def)
  then have l: "maybe_latest_height memory_storage (data d) = Inr (Some x)"
    by (simp add: maybe_latest_height_def ks k)
  from memory_storage.latest_height[OF assms(1) this] assms(2) l show ?thesis by simp
qed

text \<open>The seal and the transactions of the block are not in the store, and no transaction occurs twice.\<close>

definition new_to_store ::
    "('tx, 'sig, 'st, 'ev, 'db) importer_env \<Rightarrow> 'db \<Rightarrow> ('tx, 'sig) sealed_block \<Rightarrow> bool" where
  "new_to_store E d b =
     (let get = kv_get (data_kv (store E)) d; keys = map (tx_key (lib E) (codecs E) (chain_id E)) (blk_transactions (entity b)) in
      get (primitive_encode (sealed_height b)) FuelBlockConsensus_column = Inr None
      \<and> (\<forall>k\<in>set keys. get k Transactions_column = Inr None) \<and> distinct keys)"

lemma create_block_changes_total:
  assumes env: "env_ok E memory_ok" "store E = memory_storage"
    and tree: "tree_total FuelBlockMerkleData_column (block_tree E)"
    and db: "chain_inv memory_storage (descr E) memory_ok d" "stage_height d = Some prev"
      "21 < length (inner (data d))"
    and root: "latest_block_root memory_kv (codecs E) (transaction (data d) Fail []) = Inr root"
    and b: "seal b = PoA c" "unat (sealed_height b) = unat prev + 1" "new_to_store E (data d) b"
  shows "\<exists>bch. ensure_next_block_height E b (data d) = Inr () \<and> create_block_changes E b (data d) = Inr bch
    \<and> columns bch \<subseteq> {FuelBlocks_column, FuelBlockMerkleData_column, FuelBlockMerkleMetadata_column,
        FuelBlockConsensus_column, Transactions_column}"
proof -
  let ?self = "storage_transaction (data d) []"
  have kv: "data_kv (store E) = memory_kv" using env(2) by (simp add: memory_storage_def)
  have laws: "kv_inspect_laws (data_kv (store E))" and w: "writes_only FuelBlockMerkleData_column (block_tree E)"
    using env(1) by (simp_all add: env_ok_def transactable_def)
  have "maybe_latest_height (store E) (data d) = Inr (Some prev)"
    using memory_latest_height[OF db(1,2)] db(3) env(2) by (simp add: FuelBlocks_column_def)
  moreover note checked_add_next[OF b(2)]
  moreover have "sealed_height b \<noteq> 0" using b(2) by auto
  ultimately have e: "ensure_next_block_height E b (data d) = Inr ()"
    using b(1) by (simp add: ensure_next_block_height_def)
  obtain g where g: "stored_blocks memory_storage (data d) = {g..prev}"
    using db(1,2) by (auto simp: chain_inv_def)
  have "sealed_height b \<notin> {g..prev}" using b(2) by (auto simp: word_le_nat_alt)
  then have none: "kv_get memory_kv (data d) (primitive_encode (sealed_height b)) FuelBlocks_column = Inr None"
    using g[symmetric] db(3)
    by (auto simp: stored_blocks_def memory_storage_def memory_kv_def kv_default_def memory_get_def
        Memory_Store.table_def FuelBlocks_column_def)
  have get: "tx_get memory_kv ?self k c = kv_get memory_kv (data d) k c" for k c
    by (simp add: storage_transaction_def transaction_def tx_get_overlay overlay_def)
  obtain self' where "store_new_block (data_kv (store E)) (lib E) (codecs E) (block_tree E) (chain_id E) b ?self =
      (self', Inr True)"
    "columns (changes self') \<subseteq> {FuelBlocks_column, FuelBlockMerkleData_column, FuelBlockMerkleMetadata_column,
        FuelBlockConsensus_column, Transactions_column}"
    using store_new_block_total[OF laws w tree, of "codecs E" ?self root b "lib E" "chain_id E"]
      none b(3) root unfolding kv get new_to_store_def Let_def
    by (auto simp: storage_transaction_def transaction_def)
  with e show ?thesis by (simp add: create_block_changes_def)
qed

lemma columns_None: "c \<notin> columns ch \<Longrightarrow> changes_at ch k c = None"
  unfolding columns_def changes_at_def by (metis map_of_eq_None_iff option.simps(4))

lemma disjoint_columns: "columns a \<inter> columns b = {} \<Longrightarrow> pairwise_disjoint {} [a, b]"
proof (simp, rule Int_emptyI, clarify)
  fix c k
  assume "columns a \<inter> columns b = {}" "(c, k) \<in> changes_keys a" "(c, k) \<in> changes_keys b"
  then show False
    using columns_None[of c a k] columns_None[of c b k]
    by (cases "c \<in> columns a"; cases "c \<in> columns b") (auto simp: changes_keys_def)
qed

lemma new_block_commits:
  assumes D: "lawful_table (MetadataTable D) id" "tcolumn (MetadataTable D) = Metadata_column"
    and db: "chain_inv memory_storage D memory_ok d" "stage_height d = Some prev" "21 < length (inner (data d))"
    and b: "block_written L P chain b bch" "unat (sealed_height b) = unat prev + 1" "columns bch \<subseteq> block_columns"
    and ch: "changes_ok ch" "\<And>c. c \<in> columns ch \<Longrightarrow> unat c \<le> 21 \<and> c \<notin> block_columns \<union> {Metadata_column}"
  shows "\<exists>s. on_chain_commit memory_storage D d (ChangesList [bch, ch]) =
    (\<lparr>data = s, stage_height = Some (sealed_height b)\<rparr>, Inr ()) \<and> length (inner s) = length (inner (data d))"
proof (rule memory_on_chain_commit[OF D(1)])
  show "memory_ok (data d)" using db(1) by (simp add: chain_inv_def)
  show ok: "\<forall>ch\<in>set [bch, ch]. changes_ok ch" using b(1) ch(1) by (simp add: block_written_def)
  have "changes_at ch k FuelBlocks_column = None" for k
    using ch(2)[of FuelBlocks_column] by (intro columns_None) (auto simp: block_columns_def)
  then show "on_chain_heights (ChangesList [bch, ch]) = Inr [sealed_height b]"
    using b(1) ok by (intro on_chain_heights_single) (simp_all add: block_written_def)
  show "check_heights (stage_height d) (Some (sealed_height b)) = Inr ()"
    using db(2) checked_add_next[OF b(2)] by (simp add: advance_height_def)
  show "latest_height_from_metadata memory_storage D (data d) = Inr (Some prev)"
    using db(1,2) by (simp add: chain_inv_def)
  show "pairwise_disjoint {} [bch, ch]" using b(3) ch(2) by (intro disjoint_columns) blast
  show "unat (tcolumn (MetadataTable D)) < length (inner (data d))"
    using D(2) db(3) by (auto simp: Metadata_column_def)
  fix ch' c assume c: "ch' \<in> set [bch, ch]" "c \<in> fst ` set ch'"
  have "c \<noteq> 0 \<and> unat c \<le> 21" if "c \<in> block_columns" using that by (auto simp: block_columns_def column_defs)
  moreover have "c \<in> columns bch \<or> c \<in> columns ch" using c by (auto simp: columns_def)
  ultimately show "c \<noteq> tcolumn (MetadataTable D) \<and> unat c < length (inner (data d))"
    using b(3) ch(2)[of c] db(3) D(2) by (auto simp: Metadata_column_def)
qed

lemma execute_and_commit_succeeds:
  assumes env: "env_ok E memory_ok" "store E = memory_storage"
      "tree_total FuelBlockMerkleData_column (block_tree E)" "tcolumn (MetadataTable (descr E)) = Metadata_column"
    and I: "guard_free I" "0 < permits I"
    and db: "chain_inv memory_storage (descr E) memory_ok (db I)" "stage_height (db I) = Some prev"
      "21 < length (inner (data (db I)))"
      "latest_block_root memory_kv (codecs E) (transaction (data (db I)) Fail []) = Inr root"
    and b: "seal b = PoA c" "unat (sealed_height b) = unat prev + 1" "new_to_store E (data (db I)) b"
    and ports: "verify_fields E (seal b) (entity b) = Inr ()" "validate E (entity b) = Inr ((st, ev), ch)"
      "changes_ok ch" "\<And>c. c \<in> columns ch \<Longrightarrow> unat c \<le> 21 \<and> c \<notin> block_columns \<union> {Metadata_column}"
  shows "\<exists>I'. execute_and_commit E I b = (I', Inr ()) \<and> stage_height (db I') = Some (sealed_height b)
    \<and> broadcast I' = broadcast I @ [new_from_network b st ev]"
proof -
  obtain bch where e: "ensure_next_block_height E b (data (db I)) = Inr ()"
    and bch: "create_block_changes E b (data (db I)) = Inr bch" "columns bch \<subseteq> block_columns"
    using create_block_changes_total[OF env(1-3) db b] unfolding block_columns_def by blast
  let ?p = "\<lparr>prepared = \<lparr>uncommitted = new_from_network b st ev, uncommitted_changes = ch\<rparr>, block_changes = bch\<rparr>"
  have p: "prepare_import_result E (db I) b = Inr ?p"
    using e bch(1) ports b(1) by (simp add: prepare_import_result_def verify_and_execute_block_inner_def)
  have laws: "kv_inspect_laws (data_kv (store E))" and w: "writes_only FuelBlockMerkleData_column (block_tree E)"
    and meta: "lawful_table (MetadataTable (descr E)) id"
    using env(1) by (simp_all add: env_ok_def transactable_def)
  have written: "block_written (lib E) (codecs E) (chain_id E) b bch"
    using create_block_changes_Inr(2)[OF laws w bch(1)] .
  obtain d where d: "on_chain_commit memory_storage (descr E) (db I) (ChangesList [bch, ch]) =
      (\<lparr>data = d, stage_height = Some (sealed_height b)\<rparr>, Inr ())"
    using new_block_commits[OF meta env(4) db(1-3) written b(2) bch(2) ports(3,4)] by blast
  have "changes_at ch k FuelBlockMerkleMetadata_column = None" for k
    using ports(4)[of FuelBlockMerkleMetadata_column] by (intro columns_None) (auto simp: block_columns_def)
  then have "latest_block_root memory_kv (codecs E) (transaction (data (db I)) pol c') =
      latest_block_root memory_kv (codecs E) (transaction (data (db I)) Fail [])" if "c' = [] \<or> c' = ch" for pol c'
    using that by (auto simp: latest_block_root_def plain_get_def tx_get_overlay overlay_def transaction_def
        FuelBlockMerkleMetadata_def)
  then have "commit_prepared E (db I) ?p = (\<lparr>data = d, stage_height = Some (sealed_height b)\<rparr>, Inr (new_from_network b st ev))"
    using d db(4) env(2)
    by (simp add: commit_prepared_def Let_def storage_transaction_def memory_storage_def)
      (simp add: transaction_def)
  then show ?thesis using I p by (simp add: execute_and_commit_def run_commit_result_def)
qed

text \<open>A chain with one block, and an environment for it whose tree keeps no nodes.\<close>

definition sample_env :: "(u64, u64, nat, nat, memory_store) importer_env" where
  "sample_env = \<lparr>store = memory_storage, descr = reference_description, lib = sample_lib,
     codecs = reference_postcard,
     block_tree = \<lparr>empty_root = 0, tree_push = (\<lambda>tx version leaf. (tx, Inr (version + 1, 0)))\<rparr>,
     chain_id = 0, validate = (\<lambda>_. Inr (([1], [2]), [(5, [([9], Insert [1])])])),
     verify_fields = (\<lambda>_ _. Inr ())\<rparr>"

definition sample_sealed :: "(u64, u64) sealed_block" where
  "sample_sealed = \<lparr>entity = sample_block, seal = PoA \<lparr>signature = 0\<rparr>\<rparr>"

definition sample_importer :: "memory_store database \<Rightarrow> (u64, u64, nat, nat, memory_store) importer" where
  "sample_importer d = \<lparr>db = d, guard_free = True, permits = 1, broadcast = []\<rparr>"

lemma sample_chain:
  obtains d where "chain_inv memory_storage reference_description memory_ok d" "stage_height d = Some 1"
    "21 < length (inner (data d))"
    "\<And>k c. unat c \<le> 21 \<Longrightarrow> c \<noteq> 7 \<Longrightarrow> c \<noteq> 0 \<Longrightarrow> kv_get memory_kv (data d) k c = Inr None"
proof -
  let ?chs = "[[(FuelBlocks_column, [(primitive_encode (1 :: block_height), Insert [])])], []] :: changes list"
  have ok: "\<forall>ch\<in>set ?chs. changes_ok ch" by (simp add: changes_ok_def hm_ok_def bt_ok_def)
  have heights: "on_chain_heights (ChangesList ?chs) = Inr [1]"
    by (rule on_chain_heights_single) (simp_all add: changes_ok_def hm_ok_def bt_ok_def changes_at_def)
  have no: "removes_no_block ?chs" by (simp add: removes_no_block_def changes_at_def)
  have mok: "memory_ok sample_chain_db" "length (inner sample_chain_db) = 22"
    using sample_database_inv by (simp_all add: chain_inv_def sample_database_def sample_chain_db_def memory_default_def)
  have meta: "latest_height_from_metadata memory_storage reference_description sample_chain_db = Inr None"
    using memory_default_get[of Metadata_column "[]"]
    by (simp add: latest_height_from_metadata_def plain_get_def tx_get_overlay transaction_def overlay_def
        reference_description_def memory_storage_def memory_kv_def kv_default_def Metadata_column_def)
  let ?M = "MetadataTable reference_description"
  have M: "tcolumn ?M = 0" by (simp add: reference_description_def Metadata_column_def)
  have cols: "c \<noteq> tcolumn ?M \<and> unat c < length (inner (data sample_database))"
    if "ch \<in> set ?chs" "c \<in> fst ` set ch" for ch c
    using that mok(2) M by (auto simp: sample_database_def FuelBlocks_column_def)
  have "\<exists>s. on_chain_commit memory_storage reference_description sample_database
      (ChangesList ?chs) = (\<lparr>data = s, stage_height = Some 1\<rparr>, Inr ()) \<and> length (inner s) = length (inner (data sample_database))"
    by (rule memory_on_chain_commit[OF metadata_table.lawful_table_axioms _ ok heights _ _ cols])
      (use meta mok M in \<open>auto simp: sample_database_def changes_keys_def changes_at_def\<close>)
  then obtain s where s: "on_chain_commit memory_storage reference_description sample_database
      (ChangesList ?chs) = (\<lparr>data = s, stage_height = Some 1\<rparr>, Inr ())" "length (inner s) = 22"
    using mok(2) by (auto simp: sample_database_def)
  show ?thesis
  proof (rule that)
    show "chain_inv memory_storage reference_description memory_ok \<lparr>data = s, stage_height = Some 1\<rparr>"
      by (rule memory_storage.chain_commit[OF metadata_table.lawful_table_axioms _ sample_database_inv ok no s(1)])
        (simp add: M FuelBlocks_column_def)
    show "21 < length (inner (data \<lparr>data = s, stage_height = Some 1\<rparr>))" using s(2) by simp
    fix k :: bytes and c :: u32
    assume c: "unat c \<le> 21" "c \<noteq> 7" "c \<noteq> 0"
    from s(1) show "kv_get memory_kv (data \<lparr>data = s, stage_height = Some 1\<rparr>) k c = Inr None"
    proof (cases rule: on_chain_commit_Inr)
      case (height h ch')
      obtain mch where mch: "ch' = ChangesList (?chs @ [mch])" "changes_ok mch"
          "\<And>k c. c \<noteq> tcolumn ?M \<Longrightarrow> changes_at mch k c = None"
        by (rule add_metadata_Inr[OF metadata_table.lawful_table_axioms height(3)]) (rule that; assumption)
      have "memory_get sample_chain_db k c = Inr None"
        using c(1) by (intro memory_default_get) (simp add: word_le_nat_alt)
      moreover have "\<forall>ch\<in>set (?chs @ [mch]). changes_ok ch" using ok mch(2) by simp
      moreover have "changes_at ch k c = None" if "ch \<in> set (?chs @ [mch])" for ch
        using that mch(3)[of c k] M c by (auto simp: changes_at_def FuelBlocks_column_def)
      ultimately show ?thesis
        using memory_storage.commit_get[of sample_chain_db "?chs @ [mch]" "Some h" s k c] height(4) mok(1)
          fold_overlay_none[of "?chs @ [mch]" k c]
        by (simp add: mch(1) sample_database_def) (simp add: memory_storage_def)
    qed simp
  qed simp
qed

lemma sample_env_ok: "env_ok sample_env memory_ok" "tree_total FuelBlockMerkleData_column (block_tree sample_env)"
  "executor_ok sample_env b"
  using memory_storage.transactable_axioms metadata_table.lawful_table_axioms
  by (auto simp: env_ok_def sample_env_def writes_only_def tree_total_def executor_ok_def removes_no_block_def
      changes_at_def changes_ok_def hm_ok_def bt_ok_def column_defs reference_description_def)

lemma sample_sealed_height: "sealed_height sample_sealed = 2"
  by (simp add: sealed_height_def sample_sealed_def sample_block_def header_generate_def sample_partial_def
      hdr_height_def)

lemma sample_next_height: "unat (sealed_height sample_sealed) = unat (1 :: block_height) + 1"
  by (simp add: sample_sealed_height)

lemma sample_import:
  assumes d: "chain_inv memory_storage reference_description memory_ok d" "stage_height d = Some 1"
    "21 < length (inner (data d))"
    and get: "\<And>k c. unat c \<le> 21 \<Longrightarrow> c \<noteq> 7 \<Longrightarrow> c \<noteq> 0 \<Longrightarrow> kv_get memory_kv (data d) k c = Inr None"
  shows "new_to_store sample_env (data d) sample_sealed"
    "latest_block_root memory_kv (codecs sample_env) (transaction (data d) Fail []) = Inr None"
proof -
  have keys: "map (tx_key sample_lib P 0) [4, 5] = [primitive_encode (4 :: bytes32), primitive_encode (5 :: bytes32)]"
    for P :: "(u64, u64) postcard"
    by (simp add: tx_key_def Transactions_def sample_lib_def primitive_encode_def)
  have "data_kv memory_storage = memory_kv" "blk_transactions sample_block = [4, 5]"
    by (simp_all add: memory_storage_def sample_block_def)
  then show "new_to_store sample_env (data d) sample_sealed"
    using get keys
    by (simp add: new_to_store_def sample_env_def sample_sealed_def column_defs primitive_encode_inj)
  show "latest_block_root memory_kv (codecs sample_env) (transaction (data d) Fail []) = Inr None"
    using get by (simp add: latest_block_root_def plain_get_def tx_get_overlay overlay_def transaction_def
        FuelBlockMerkleMetadata_def column_defs)
qed

text \<open>C14. The next block is imported.  On a chain in the in-memory database, a block of the next height whose
  seal and transactions are new, which the verifier accepts and the executor executes without writing the
  tables of blocks, is imported when no other import is running and a permit is left: the call returns
  successfully, the chain has the new height and the result is broadcast.\<close>

theorem next_block_is_imported:
  assumes env: "env_ok E memory_ok" "store E = memory_storage"
      "tree_total FuelBlockMerkleData_column (block_tree E)" "tcolumn (MetadataTable (descr E)) = Metadata_column"
    and I: "guard_free I" "0 < permits I"
    and db: "chain_inv memory_storage (descr E) memory_ok (db I)" "stage_height (db I) = Some prev"
      "21 < length (inner (data (db I)))"
      "latest_block_root memory_kv (codecs E) (transaction (data (db I)) Fail []) = Inr root"
    and b: "seal b = PoA c" "unat (sealed_height b) = unat prev + 1" "new_to_store E (data (db I)) b"
    and ports: "verify_fields E (seal b) (entity b) = Inr ()" "validate E (entity b) = Inr ((st, ev), ch)"
      "changes_ok ch" "\<And>c. c \<in> columns ch \<Longrightarrow> unat c \<le> 21 \<and> c \<notin> block_columns \<union> {Metadata_column}"
  shows "\<exists>I'. execute_and_commit E I b = (I', Inr ()) \<and> stage_height (db I') = Some (sealed_height b)
    \<and> broadcast I' = broadcast I @ [new_from_network b st ev]"
  by (rule execute_and_commit_succeeds) (fact assms)+


lemma sample_ports:
  "verify_fields sample_env (seal sample_sealed) (entity sample_sealed) = Inr ()"
  "validate sample_env (entity sample_sealed) = Inr (([1], [2]), [(5, [([9], Insert [1])])])"
  "seal sample_sealed = PoA \<lparr>signature = 0\<rparr>"
  "store sample_env = memory_storage" "descr sample_env = reference_description"
  "changes_ok [(5, [([9], Insert [1])])]"
  "c \<in> columns [(5, [([9], Insert [1])])] \<Longrightarrow> unat c \<le> 21 \<and> c \<notin> block_columns \<union> {Metadata_column}"
  "tcolumn (MetadataTable reference_description) = Metadata_column"
  by (simp_all add: sample_env_def sample_sealed_def changes_ok_def hm_ok_def bt_ok_def columns_def
      block_columns_def column_defs reference_description_def)

theorem next_block_is_imported_witness:
  "\<exists>d I'. stage_height d = Some 1
    \<and> execute_and_commit sample_env (sample_importer d) sample_sealed = (I', Inr ()) \<and> stage_height (db I') = Some 2"
proof -
  obtain d where d: "chain_inv memory_storage reference_description memory_ok d" "stage_height d = Some 1"
    "21 < length (inner (data d))"
    "\<And>k c. unat c \<le> 21 \<Longrightarrow> c \<noteq> 7 \<Longrightarrow> c \<noteq> 0 \<Longrightarrow> kv_get memory_kv (data d) k c = Inr None"
    by (rule sample_chain) (rule that; assumption)
  let ?I = "sample_importer d"
  have I: "guard_free ?I" "0 < permits ?I" "db ?I = d" by (simp_all add: sample_importer_def)
  have "\<exists>I'. execute_and_commit sample_env ?I sample_sealed = (I', Inr ())
      \<and> stage_height (db I') = Some (sealed_height sample_sealed)
      \<and> broadcast I' = broadcast ?I @ [new_from_network sample_sealed [1] [2]]"
    by (rule next_block_is_imported[OF sample_env_ok(1) _ sample_env_ok(2) _ I(1,2) _ _ _ _ sample_ports(3) sample_next_height _ sample_ports(1,2,6)])
      (use d sample_import[OF d] sample_ports(4,5,7,8) I(3) sample_sealed_height in \<open>simp_all\<close>)
  with d(2) sample_sealed_height show ?thesis by auto
qed

lemma sample_import_succeeds:
  obtains d I' where "chain_inv memory_storage reference_description memory_ok d" "stage_height d = Some 1"
    "execute_and_commit sample_env (sample_importer d) sample_sealed = (I', Inr ())"
proof -
  obtain d where d: "chain_inv memory_storage reference_description memory_ok d" "stage_height d = Some 1"
    "21 < length (inner (data d))"
    "\<And>k c. unat c \<le> 21 \<Longrightarrow> c \<noteq> 7 \<Longrightarrow> c \<noteq> 0 \<Longrightarrow> kv_get memory_kv (data d) k c = Inr None"
    by (rule sample_chain) (rule that; assumption)
  let ?I = "sample_importer d"
  have I: "guard_free ?I" "0 < permits ?I" "db ?I = d" by (simp_all add: sample_importer_def)
  have "\<exists>I'. execute_and_commit sample_env ?I sample_sealed = (I', Inr ())
      \<and> stage_height (db I') = Some (sealed_height sample_sealed)
      \<and> broadcast I' = broadcast ?I @ [new_from_network sample_sealed [1] [2]]"
    by (rule execute_and_commit_succeeds[OF sample_env_ok(1) _ sample_env_ok(2) _ I(1,2) _ _ _ _ sample_ports(3) sample_next_height _ sample_ports(1,2,6)])
      (use d sample_import[OF d] sample_ports(4,5,7,8) I(3) sample_sealed_height in \<open>simp_all\<close>)
  then obtain I' where c: "execute_and_commit sample_env ?I sample_sealed = (I', Inr ())" by blast
  from that[OF d(1,2) c] show ?thesis .
qed

theorem import_extends_chain_witness:
  "\<exists>d I'. execute_and_commit sample_env (sample_importer d) sample_sealed = (I', Inr ())
    \<and> stage_height (db I') = Some 2 \<and> block_stored sample_env (data (db I')) sample_sealed"
proof -
  obtain d I' where d: "chain_inv memory_storage reference_description memory_ok d"
    and c: "execute_and_commit sample_env (sample_importer d) sample_sealed = (I', Inr ())"
    by (rule sample_import_succeeds)
  have "chain_inv (store sample_env) (descr sample_env) memory_ok (db (sample_importer d))"
    using d by (simp add: sample_ports sample_importer_def)
  from import_extends_chain[OF sample_env_ok(1) this sample_env_ok(3) c] c sample_sealed_height show ?thesis by auto
qed

section \<open>Concurrent callers\<close>

lemma holds_permit_guard: "holds_permit p \<Longrightarrow> holds_guard p"
  by (cases p) simp_all

lemma importer_reachable_inv:
  assumes "importer_reachable E s0 s" "importer_initial n s0"
  shows "system_inv E n s"
  using assms
proof induction
  case start
  then have "filter holds_guard (tasks s0) = []" "filter holds_permit (tasks s0) = []"
    by (auto simp: importer_initial_def filter_empty_conv dest: holds_permit_guard)
  with start show ?case
    by (auto simp: system_inv_def importer_initial_def holders_def permit_holders_def intro: no_holder_phase_ok)
qed (blast intro: system_inv_step)

text \<open>C8. Concurrent imports behave as if one call ran at a time.  In every state that interleaved callers
  reach, at most one of them is past the guard and at most as many results as permits are being processed; a
  call that is about to commit a prepared block was prepared on the current database, and its commit has the
  result, the database and the broadcasts of one undisturbed call of \<open>execute_and_commit\<close> on the state at
  this moment.\<close>

theorem importer_calls_linearizable:
  assumes "importer_initial n s0" "importer_reachable E s0 s"
  shows "holders s \<le> 1 \<and> outstanding s \<le> n
    \<and> (\<forall>i b d p I' r. i < length (tasks s) \<longrightarrow> tasks s ! i = CommittingExecute b d p \<longrightarrow>
        execute_and_commit E ((imp s)\<lparr>guard_free := True, permits := permits (imp s) + 1\<rparr>) b = (I', r) \<longrightarrow>
        d = db (imp s) \<and> db (imp (finish_commit E i (PrepareImportResult p) s)) = db I'
        \<and> broadcast (imp (finish_commit E i (PrepareImportResult p) s)) = broadcast I'
        \<and> tasks (finish_commit E i (PrepareImportResult p) s) ! i = Finished r)"
proof -
  have inv: "system_inv E n s" using importer_reachable_inv[OF assms(2,1)] .
  have "d = db (imp s) \<and> db (imp (finish_commit E i (PrepareImportResult p) s)) = db I'
      \<and> broadcast (imp (finish_commit E i (PrepareImportResult p) s)) = broadcast I'
      \<and> tasks (finish_commit E i (PrepareImportResult p) s) ! i = Finished r"
    if "i < length (tasks s)" "tasks s ! i = CommittingExecute b d p"
      "execute_and_commit E ((imp s)\<lparr>guard_free := True, permits := permits (imp s) + 1\<rparr>) b = (I', r)"
    for i b d p I' r
  proof -
    have "phase_ok E (db (imp s)) (tasks s ! i)" using inv that(1) by (simp add: system_inv_def)
    then have p: "d = db (imp s)" "prepare_import_result E (db (imp s)) b = Inr p" using that(2) by simp_all
    then show ?thesis
      using that(1,3)
      by (auto simp: execute_and_commit_def run_commit_result_def finish_commit_def finish_def set_task_def
          split: prod.splits sum.splits)
  qed
  moreover have "holders s \<le> 1" "outstanding s \<le> n" using inv by (auto simp: system_inv_def)
  ultimately show ?thesis by blast
qed

theorem importer_calls_linearizable_witness:
  "\<exists>s0 s b d p. importer_initial 1 s0 \<and> importer_reachable sample_env s0 s
    \<and> tasks s = [CommittingExecute b d p] \<and> d = db (imp s)"
proof -
  obtain d I' where c: "execute_and_commit sample_env (sample_importer d) sample_sealed = (I', Inr ())"
    by (rule sample_import_succeeds)
  let ?I = "sample_importer d" and ?b = sample_sealed
  obtain p where p: "prepare_import_result sample_env d ?b = Inr p"
    using c by (auto simp: execute_and_commit_def sample_importer_def split: if_splits sum.splits)
  let ?s0 = "\<lparr>imp = ?I, tasks = [CallExecute ?b], outstanding = 0\<rparr>"
  let ?s1 = "\<lparr>imp = ?I\<lparr>guard_free := False\<rparr>, tasks = [Locked ?b], outstanding = 0\<rparr>"
  let ?s2 = "\<lparr>imp = ?I\<lparr>guard_free := False\<rparr>, tasks = [Prepared ?b d p], outstanding = 0\<rparr>"
  let ?s3 = "\<lparr>imp = ?I\<lparr>guard_free := False, permits := 0\<rparr>, tasks = [CommittingExecute ?b d p], outstanding = 0\<rparr>"
  have "importer_step sample_env ?s0 ?s1"
    using lock_execute[of 0 ?s0 ?b sample_env] by (simp add: set_task_def sample_importer_def)
  moreover have "importer_step sample_env ?s1 ?s2"
    using prepare_ok[of 0 ?s1 ?b sample_env p] p by (simp add: set_task_def sample_importer_def)
  moreover have "importer_step sample_env ?s2 ?s3"
    using acquire_execute[of 0 ?s2 ?b d p sample_env] by (simp add: set_task_def sample_importer_def)
  ultimately have r: "importer_reachable sample_env ?s0 ?s3"
    by (meson importer_reachable.start importer_reachable.step)
  have i: "importer_initial 1 ?s0" by (simp add: importer_initial_def sample_importer_def)
  obtain I1 r1 where "execute_and_commit sample_env
      ((imp ?s3)\<lparr>guard_free := True, permits := permits (imp ?s3) + 1\<rparr>) ?b = (I1, r1)" by fastforce
  then have "d = db (imp ?s3)"
    using importer_calls_linearizable[OF i r, THEN conjunct2, THEN conjunct2, rule_format, of 0 ?b d p I1 r1] by simp
  with r i show ?thesis by (intro exI[of _ ?s0] exI[of _ ?s3]) auto
qed

end
