(* ===== verification/Sync_Import.thy ===== *)
theory Sync_Import
  imports Sync_State Importer
begin

text \<open>
  The import of a range of blocks from the network (\<^verbatim>\<open>src/crates/services/sync/src/import.rs\<close> and
  \<^verbatim>\<open>import/cache.rs\<close>): the range is cut into chunks along the cache of headers and blocks, headers are fetched
  and checked, transactions are fetched and attached, and the blocks are given to the importer one by one.

  The network and the consensus check are parameters that answer arbitrarily, the executor is a parameter
  with the contract \<open>block_executor\<close>, which the block importer is shown to meet.  The stream is run in order,
  one chunk after the other; fetching ahead changes only when cache entries and reports are made.  Heights
  that arrive meanwhile are given as lists, one before each execution.  The shutdown signal, the wait for the
  layer one height, logging and metrics are left out.
\<close>

section \<open>Batches\<close>

type_synonym range = "u32 \<times> u32"
type_synonym 'sig sealed_header = "(block_header, 'sig) sealed"

definition range_len :: "range \<Rightarrow> nat" where
  "range_len r = unat (snd r) - unat (fst r)"

record ('p, 'a) batch =
  peer :: "'p option"
  batch_range :: range
  results :: "'a list"

definition batch_new :: "'p option \<Rightarrow> range \<Rightarrow> 'a list \<Rightarrow> ('p, 'a) batch" where
  "batch_new p r res = \<lparr>peer = p, batch_range = r, results = res\<rparr>"

definition is_err :: "('p, 'a) batch \<Rightarrow> bool" where
  "is_err b = (length (results b) < range_len (batch_range b))"

section \<open>cache.rs\<close>

datatype ('tx, 'sig) cached_data = CachedHeader "'sig sealed_header" | CachedBlock "('tx, 'sig) sealed_block"

type_synonym ('tx, 'sig) cache = "(u32 \<times> ('tx, 'sig) cached_data) list"

datatype ('p, 'tx, 'sig) cached_data_batch =
    HeadersChunk "('p, 'sig sealed_header) batch"
  | BlocksChunk "('p, ('tx, 'sig) sealed_block) batch"
  | NoneChunk range

fun chunk_range :: "('p, 'tx, 'sig) cached_data_batch \<Rightarrow> range" where
  "chunk_range (NoneChunk r) = r"
| "chunk_range (BlocksChunk b) = batch_range b"
| "chunk_range (HeadersChunk b) = batch_range b"

definition is_range_empty :: "('p, 'tx, 'sig) cached_data_batch \<Rightarrow> bool" where
  "is_range_empty c = (\<not> fst (chunk_range c) < snd (chunk_range c))"

definition sealed_header_height :: "'sig sealed_header \<Rightarrow> u32" where
  "sealed_header_height h = hdr_height (entity h)"

definition insert_blocks :: "('p, ('tx, 'sig) sealed_block) batch \<Rightarrow> ('tx, 'sig) cache \<Rightarrow> ('tx, 'sig) cache" where
  "insert_blocks b cache = fold (\<lambda>blk. bt_insert (sealed_height blk) (CachedBlock blk)) (results b) cache"

definition insert_headers :: "('p, 'sig sealed_header) batch \<Rightarrow> ('tx, 'sig) cache \<Rightarrow> ('tx, 'sig) cache" where
  "insert_headers b cache = fold (\<lambda>h. bt_insert (sealed_header_height h) (CachedHeader h)) (results b) cache"

definition remove_element :: "u32 \<Rightarrow> ('tx, 'sig) cache \<Rightarrow> ('tx, 'sig) cache" where
  "remove_element hgt cache = bt_remove hgt cache"

definition collect_cache_data :: "range_inclusive \<Rightarrow> ('tx, 'sig) cache \<Rightarrow> ('tx, 'sig) cache" where
  "collect_cache_data r cache = filter (\<lambda>e. range_contains r (fst e)) cache"

text \<open>The new current chunk and the chunks that were pushed.\<close>

definition single :: "u32 \<Rightarrow> 'a \<Rightarrow> ('p, 'a) batch" where
  "single hgt x = batch_new None (hgt, sat_add hgt 1) [x]"

definition extend_batch :: "('p, 'a) batch \<Rightarrow> 'a \<Rightarrow> ('p, 'a) batch" where
  "extend_batch b x = b\<lparr>batch_range := (fst (batch_range b), sat_add (snd (batch_range b)) 1), results := results b @ [x]\<rparr>"

fun handle_current_chunk ::
    "('p, 'tx, 'sig) cached_data_batch \<Rightarrow> ('tx, 'sig) cached_data \<Rightarrow> u32 \<Rightarrow> u32
     \<Rightarrow> ('p, 'tx, 'sig) cached_data_batch \<times> ('p, 'tx, 'sig) cached_data_batch list" where
  "handle_current_chunk (NoneChunk _) (CachedHeader h) hgt max_chunk_size = (HeadersChunk (single hgt h), [])"
| "handle_current_chunk (NoneChunk _) (CachedBlock b) hgt max_chunk_size = (BlocksChunk (single hgt b), [])"
| "handle_current_chunk (HeadersChunk b) (CachedHeader h) hgt max_chunk_size =
     (if range_len (batch_range b) = unat max_chunk_size
      then (HeadersChunk (single hgt h), [HeadersChunk b])
      else (HeadersChunk (extend_batch b h), []))"
| "handle_current_chunk (BlocksChunk b) (CachedBlock blk) hgt max_chunk_size =
     (if range_len (batch_range b) = unat max_chunk_size
      then (BlocksChunk (single hgt blk), [BlocksChunk b])
      else (BlocksChunk (extend_batch b blk), []))"
| "handle_current_chunk (HeadersChunk b) (CachedBlock blk) hgt max_chunk_size =
     (BlocksChunk (single hgt blk), [HeadersChunk b])"
| "handle_current_chunk (BlocksChunk b) (CachedHeader h) hgt max_chunk_size =
     (HeadersChunk (single hgt h), [BlocksChunk b])"

text \<open>\<open>(current_height..height).step_by(chunk_size)\<close>: the steps end when they leave the range or the type.\<close>

function steps :: "u32 \<Rightarrow> u32 \<Rightarrow> u32 \<Rightarrow> u32 list" where
  "steps current hgt chunk_size =
     (if current < hgt \<and> 0 < chunk_size
      then current # (case checked_add current chunk_size of None \<Rightarrow> [] | Some c \<Rightarrow> steps c hgt chunk_size)
      else [])"
  by pat_completeness auto

termination
  by (relation "measure (\<lambda>(current, hgt, _). unat hgt - unat current)")
    (auto simp: sat_simps word_less_nat_alt)

declare steps.simps [simp del]

definition push_missing_chunks :: "u32 \<Rightarrow> u32 \<Rightarrow> u32 \<Rightarrow> u32 \<Rightarrow> ('p, 'tx, 'sig) cached_data_batch list" where
  "push_missing_chunks current hgt chunk_size end_height =
     map (\<lambda>start. NoneChunk (start, min (sat_add start chunk_size) end_height)) (steps current hgt chunk_size)"

definition push_chunk :: "('p, 'tx, 'sig) cached_data_batch \<Rightarrow> ('p, 'tx, 'sig) cached_data_batch list" where
  "push_chunk c = (if is_range_empty c then [] else [c])"

fun chunk_loop ::
    "u32 \<Rightarrow> u32 \<Rightarrow> ('tx, 'sig) cache \<Rightarrow> u32 \<Rightarrow> ('p, 'tx, 'sig) cached_data_batch
     \<Rightarrow> ('p, 'tx, 'sig) cached_data_batch list" where
  "chunk_loop chunk_size end_height [] current chunk =
     push_chunk chunk @ push_missing_chunks current end_height chunk_size end_height"
| "chunk_loop chunk_size end_height ((hgt, entry) # rest) current chunk =
     (let (pushed, chunk1) =
            (if hgt \<noteq> current
             then (push_chunk chunk @ push_missing_chunks current hgt chunk_size end_height, NoneChunk (0, 0))
             else ([], chunk));
          (chunk2, pushed2) = handle_current_chunk chunk1 entry hgt chunk_size in
      pushed @ pushed2 @ chunk_loop chunk_size end_height rest (sat_add hgt 1) chunk2)"

definition get_chunks :: "range_inclusive \<Rightarrow> u32 \<Rightarrow> ('tx, 'sig) cache \<Rightarrow> ('p, 'tx, 'sig) cached_data_batch list" where
  "get_chunks r max_chunk_size cache =
     chunk_loop max_chunk_size (sat_add (snd r) 1) (collect_cache_data r cache) (fst r) (NoneChunk (0, 0))"

section \<open>ports.rs\<close>

datatype peer_report_reason =
    SuccessfulBlockImport | MissingBlockHeaders | BadBlockHeader | MissingTransactions | InvalidTransactions

text \<open>The answers of the network; \<open>None\<close> in front is an error of the request.  The consensus check may fail
  as well.\<close>

record ('p, 'tx, 'sig) sync_ports =
  get_sealed_block_headers_port :: "range \<Rightarrow> ('p \<times> 'sig sealed_header list option) option"
  get_transactions_port :: "range \<Rightarrow> ('p \<times> 'tx list list option) option"
  get_transactions_from_peer :: "'p \<Rightarrow> range \<Rightarrow> 'tx list list option option"
  check_sealed_header_port :: "'sig sealed_header \<Rightarrow> bool option"
  fuel :: "'tx fuel_lib"

type_synonym 'p reports = "('p \<times> peer_report_reason) list"

fun report_peer :: "'p option \<Rightarrow> peer_report_reason \<Rightarrow> 'p reports" where
  "report_peer (Some p) reason = [(p, reason)]"
| "report_peer None reason = []"

section \<open>import.rs: headers\<close>

definition get_sealed_block_headers ::
    "('p, 'tx, 'sig) sync_ports \<Rightarrow> range \<Rightarrow> ('p \<times> 'sig sealed_header list) option" where
  "get_sealed_block_headers P r =
     map_option (\<lambda>(p, hs). (p, case hs of None \<Rightarrow> [] | Some hs \<Rightarrow> hs)) (get_sealed_block_headers_port P r)"

definition heights_of :: "range \<Rightarrow> u32 list" where
  "heights_of r = map of_nat [unat (fst r) ..< unat (snd r)]"

definition get_headers_batch ::
    "('p, 'tx, 'sig) sync_ports \<Rightarrow> range \<Rightarrow> ('p, 'sig sealed_header) batch \<times> 'p reports" where
  "get_headers_batch P r =
     (case get_sealed_block_headers P r of
        None \<Rightarrow> (batch_new None r [], [])
      | Some (p, headers) \<Rightarrow>
          (let hs = map fst (takeWhile (\<lambda>(h, expected). sealed_header_height h = expected)
                              (zip headers (heights_of r))) in
           (batch_new (Some p) r hs,
            if length hs \<noteq> range_len r then report_peer (Some p) MissingBlockHeaders else [])))"

definition check_sealed_header :: "('p, 'tx, 'sig) sync_ports \<Rightarrow> 'sig sealed_header \<Rightarrow> bool" where
  "check_sealed_header P h = (check_sealed_header_port P h = Some True)"

definition check_headers ::
    "('p, 'tx, 'sig) sync_ports \<Rightarrow> ('p, 'sig sealed_header) batch \<Rightarrow> ('p, 'sig sealed_header) batch \<times> 'p reports" where
  "check_headers P b =
     (let checked = takeWhile (check_sealed_header P) (results b) in
      (batch_new (peer b) (batch_range b) checked,
       if length checked < length (results b) then report_peer (peer b) BadBlockHeader else []))"

section \<open>import.rs: transactions\<close>

definition get_transactions ::
    "('p, 'tx, 'sig) sync_ports \<Rightarrow> range \<Rightarrow> 'p option \<Rightarrow> ('p \<times> 'tx list list) option \<times> 'p reports" where
  "get_transactions P r peer_id =
     (case peer_id of
        Some p \<Rightarrow>
          (case get_transactions_from_peer P p r of
             Some (Some txs) \<Rightarrow> (Some (p, txs), [])
           | _ \<Rightarrow> (None, report_peer (Some p) MissingTransactions))
      | None \<Rightarrow>
          (case get_transactions_port P r of
             None \<Rightarrow> (None, [])
           | Some (p, None) \<Rightarrow> (None, report_peer (Some p) MissingTransactions)
           | Some (p, Some txs) \<Rightarrow> (Some (p, txs), [])))"

text \<open>The loop over headers and transactions; the flag tells whether it ended at invalid transactions.\<close>

fun attach :: "'tx fuel_lib \<Rightarrow> ('sig sealed_header \<times> 'tx list) list \<Rightarrow> ('tx, 'sig) sealed_block list \<times> bool" where
  "attach L [] = ([], False)"
| "attach L ((h, txs) # rest) =
     (case try_from_executed L (entity h) txs of
        None \<Rightarrow> ([], True)
      | Some b \<Rightarrow> apfst (Cons \<lparr>entity = b, seal = seal h\<rparr>) (attach L rest))"

definition get_blocks ::
    "('p, 'tx, 'sig) sync_ports \<Rightarrow> ('p, 'sig sealed_header) batch \<Rightarrow> ('p, ('tx, 'sig) sealed_block) batch \<times> 'p reports" where
  "get_blocks P b =
     (case get_transactions P (batch_range b) (peer b) of
        (None, rep) \<Rightarrow> (batch_new (peer b) (batch_range b) [], rep)
      | (Some (p, txs), rep) \<Rightarrow>
          (let (blocks, invalid) = attach (fuel P) (zip (results b) txs) in
           (batch_new (Some p) (batch_range b) blocks,
            rep @ (if invalid then report_peer (Some p) InvalidTransactions else []))))"

section \<open>import.rs: the block stream\<close>

definition blocks_of_headers ::
    "('p, 'tx, 'sig) sync_ports \<Rightarrow> ('p, 'sig sealed_header) batch \<Rightarrow> ('tx, 'sig) cache
     \<Rightarrow> ('p, ('tx, 'sig) sealed_block) batch \<times> ('tx, 'sig) cache \<times> 'p reports" where
  "blocks_of_headers P b cache =
     (if results b = [] then (batch_new (peer b) (batch_range b) [], cache, [])
      else
        (let (batch, rep) = get_blocks P b in
         (batch, if is_err batch then cache else insert_blocks batch cache, rep)))"

fun fetch_chunk ::
    "('p, 'tx, 'sig) sync_ports \<Rightarrow> ('p, 'tx, 'sig) cached_data_batch \<Rightarrow> ('tx, 'sig) cache
     \<Rightarrow> ('p, ('tx, 'sig) sealed_block) batch \<times> ('tx, 'sig) cache \<times> 'p reports" where
  "fetch_chunk P (BlocksChunk b) cache = (b, cache, [])"
| "fetch_chunk P (HeadersChunk b) cache = blocks_of_headers P b cache"
| "fetch_chunk P (NoneChunk r) cache =
     (let (fetched, rep1) = get_headers_batch P r;
          (checked, rep2) = check_headers P fetched;
          cache1 = (if is_err checked then cache else insert_headers checked cache);
          (batch, cache2, rep3) = blocks_of_headers P checked cache1 in
      (batch, cache2, rep1 @ rep2 @ rep3))"

section \<open>import.rs: execution\<close>

text \<open>The state of a run of the import: the shared status, the cache, the executor, the reports that were
  sent, the blocks that were handed to the executor and the heights still to arrive.\<close>

record ('p, 'tx, 'sig, 'ex) sync_run =
  status :: status
  cache :: "('tx, 'sig) cache"
  executor :: 'ex
  reports :: "'p reports"
  handed :: "('tx, 'sig) sealed_block list"
  incoming :: "incoming_height list list"

type_synonym ('tx, 'sig, 'ex, 'e) execute = "'ex \<Rightarrow> ('tx, 'sig) sealed_block \<Rightarrow> 'ex \<times> ('e, unit) result"

definition receive_heights :: "('p, 'tx, 'sig, 'ex) sync_run \<Rightarrow> ('p, 'tx, 'sig, 'ex) sync_run" where
  "receive_heights s =
     (case incoming s of
        [] \<Rightarrow> s
      | hs # rest \<Rightarrow> s\<lparr>status := foldl (\<lambda>st h. fst (sync_height h st)) (status s) hs, incoming := rest\<rparr>)"

definition execute_and_commit_block ::
    "('tx, 'sig, 'ex, 'e) execute \<Rightarrow> ('tx, 'sig) sealed_block \<Rightarrow> ('p, 'tx, 'sig, 'ex) sync_run
     \<Rightarrow> ('p, 'tx, 'sig, 'ex) sync_run \<times> ('e, unit) result" where
  "execute_and_commit_block exec b s =
     (case exec (executor s) b of
        (ex, Inl e) \<Rightarrow> (s\<lparr>executor := ex, handed := handed s @ [b]\<rparr>, Inl e)
      | (ex, Inr _) \<Rightarrow>
          (s\<lparr>executor := ex, handed := handed s @ [b], status := state_commit (sealed_height b) (status s)\<rparr>, Inr ()))"

fun execute_batch ::
    "('tx, 'sig, 'ex, 'e) execute \<Rightarrow> ('tx, 'sig) sealed_block list \<Rightarrow> ('p, 'tx, 'sig, 'ex) sync_run
     \<Rightarrow> ('p, 'tx, 'sig, 'ex) sync_run \<times> nat" where
  "execute_batch exec [] s = (s, 0)"
| "execute_batch exec (b # bs) s =
     (case execute_and_commit_block exec b (receive_heights s) of
        (s1, Inl e) \<Rightarrow> (s1\<lparr>cache := remove_element (sealed_height b) (cache s1)\<rparr>, 0)
      | (s1, Inr _) \<Rightarrow>
          apsnd Suc (execute_batch exec bs (s1\<lparr>cache := remove_element (sealed_height b) (cache s1)\<rparr>)))"

text \<open>The two \<open>scan_err\<close> end the stream behind the first incomplete batch.\<close>

fun run_stream ::
    "('p, 'tx, 'sig) sync_ports \<Rightarrow> ('tx, 'sig, 'ex, 'e) execute \<Rightarrow> ('p, 'tx, 'sig) cached_data_batch list
     \<Rightarrow> ('p, 'tx, 'sig, 'ex) sync_run \<Rightarrow> ('p, 'tx, 'sig, 'ex) sync_run \<times> nat" where
  "run_stream P exec [] s = (s, 0)"
| "run_stream P exec (c # cs) s =
     (let (batch, cache', rep) = fetch_chunk P c (cache s);
          (s1, executed) = execute_batch exec (results batch) (s\<lparr>cache := cache', reports := reports s @ rep\<rparr>) in
      if executed < range_len (batch_range batch) then (s1, executed)
      else apsnd ((+) executed)
        (run_stream P exec cs (s1\<lparr>reports := reports s1 @ report_peer (peer batch) SuccessfulBlockImport\<rparr>)))"

definition launch_stream ::
    "('p, 'tx, 'sig) sync_ports \<Rightarrow> ('tx, 'sig, 'ex, 'e) execute \<Rightarrow> u32 \<Rightarrow> range_inclusive
     \<Rightarrow> ('p, 'tx, 'sig, 'ex) sync_run \<Rightarrow> ('p, 'tx, 'sig, 'ex) sync_run \<times> nat" where
  "launch_stream P exec header_batch_size r s = run_stream P exec (get_chunks r header_batch_size (cache s)) s"

definition import_inner ::
    "('p, 'tx, 'sig) sync_ports \<Rightarrow> ('tx, 'sig, 'ex, 'e) execute \<Rightarrow> u32
     \<Rightarrow> ('p, 'tx, 'sig, 'ex) sync_run \<Rightarrow> ('p, 'tx, 'sig, 'ex) sync_run \<times> (range_inclusive, unit) result" where
  "import_inner P exec header_batch_size s =
     (case process_range (status s) of
        None \<Rightarrow> (s, Inr ())
      | Some r \<Rightarrow>
          (let (s1, count) = launch_stream P exec header_batch_size r s;
               len = unat (snd r) + 1 - unat (fst r) in
           if count < len
           then (let incomplete = (sat_add (fst r) (of_nat count), snd r) in
                 (s1\<lparr>status := failed_to_process incomplete (status s1)\<rparr>, Inl incomplete))
           else (s1, Inr ())))"

section \<open>Chunks of a range\<close>

text \<open>What a chunk promises: it is not empty, no longer than allowed and ends in the range, and a chunk of
  cached data holds the cached entries of its heights, in order.\<close>

fun chunk_entries :: "('p, 'tx, 'sig) cached_data_batch \<Rightarrow> ('tx, 'sig) cached_data list option" where
  "chunk_entries (HeadersChunk b) = Some (map CachedHeader (results b))"
| "chunk_entries (BlocksChunk b) = Some (map CachedBlock (results b))"
| "chunk_entries (NoneChunk _) = None"

definition chunk_ok :: "(u32 \<rightharpoonup> ('tx, 'sig) cached_data) \<Rightarrow> nat \<Rightarrow> nat \<Rightarrow> ('p, 'tx, 'sig) cached_data_batch \<Rightarrow> bool" where
  "chunk_ok m max_size z c =
     (fst (chunk_range c) < snd (chunk_range c) \<and> range_len (chunk_range c) \<le> max_size
      \<and> unat (snd (chunk_range c)) \<le> z
      \<and> (\<forall>es. chunk_entries c = Some es \<longrightarrow> map Some es = map m (heights_of (chunk_range c))))"

text \<open>The chunks cover all heights from the first number to the second; or they even follow each other
  without overlap.\<close>

fun covers :: "nat \<Rightarrow> ('p, 'tx, 'sig) cached_data_batch list \<Rightarrow> nat \<Rightarrow> bool" where
  "covers a [] z = (z \<le> a)"
| "covers a (c # cs) z = (unat (fst (chunk_range c)) \<le> a \<and> covers (max a (unat (snd (chunk_range c)))) cs z)"

fun contiguous :: "nat \<Rightarrow> ('p, 'tx, 'sig) cached_data_batch list \<Rightarrow> nat \<Rightarrow> bool" where
  "contiguous a [] z = (z = a)"
| "contiguous a (c # cs) z = (unat (fst (chunk_range c)) = a \<and> contiguous (unat (snd (chunk_range c))) cs z)"

lemma covers_mono: "covers a cs z \<Longrightarrow> a \<le> b \<Longrightarrow> covers b cs z"
proof (induction a cs z arbitrary: b rule: covers.induct)
  case (2 a c cs z)
  then show ?case by (auto intro: "2.IH")
qed simp

lemma covers_append: "covers a xs m \<Longrightarrow> covers m ys z \<Longrightarrow> covers a (xs @ ys) z"
  by (induction a xs m rule: covers.induct) (auto intro: covers_mono)

lemma contiguous_append: "contiguous a xs m \<Longrightarrow> contiguous m ys z \<Longrightarrow> contiguous a (xs @ ys) z"
  by (induction a xs m rule: contiguous.induct) auto

lemma covers_height:
  "covers a cs z \<Longrightarrow> a \<le> h \<Longrightarrow> h < z \<Longrightarrow> \<exists>c\<in>set cs. unat (fst (chunk_range c)) \<le> h \<and> h < unat (snd (chunk_range c))"
proof (induction a cs z rule: covers.induct)
  case (2 a c cs z)
  show ?case
  proof (cases "h < unat (snd (chunk_range c))")
    case True
    with 2 show ?thesis by auto
  next
    case False
    with 2 have "\<exists>c\<in>set cs. unat (fst (chunk_range c)) \<le> h \<and> h < unat (snd (chunk_range c))" by auto
    then show ?thesis by auto
  qed
qed simp

lemma unat_sat_add_min:
  fixes a b e :: u32
  shows "unat (min (sat_add a b) e) = min (unat a + unat b) (unat e)"
  using unat_less_pow[of e] unfolding unat_min unat_sat_add by auto

lemma push_missing_chunks_rec:
  "push_missing_chunks current h chunk_size z =
     (if current < h \<and> 0 < chunk_size
      then NoneChunk (current, min (sat_add current chunk_size) z)
        # (case checked_add current chunk_size of None \<Rightarrow> [] | Some c \<Rightarrow> push_missing_chunks c h chunk_size z)
      else [])"
  unfolding push_missing_chunks_def by (subst steps.simps) (simp split: option.splits)

lemma missing_chunk_ok:
  assumes "current < h" "0 < chunk_size" "h \<le> z"
  shows "chunk_ok m (unat chunk_size) (unat z) (NoneChunk (current, min (sat_add current chunk_size) z))"
  using assms
  by (auto simp: chunk_ok_def range_len_def word_less_nat_alt word_le_nat_alt unat_sat_add_min)

lemma missing_chunks_ok:
  "0 < chunk_size \<Longrightarrow> h \<le> z \<Longrightarrow> c \<in> set (push_missing_chunks current h chunk_size z) \<Longrightarrow>
   chunk_ok m (unat chunk_size) (unat z) c"
proof (induction current h chunk_size rule: steps.induct)
  case (1 current h chunk_size)
  then show ?case
    using missing_chunk_ok[of current h chunk_size z m]
    by (subst (asm) (2) push_missing_chunks_rec) (auto split: if_splits option.splits dest: sym)
qed

lemma missing_chunks_cover:
  "0 < chunk_size \<Longrightarrow> current \<le> h \<Longrightarrow> h \<le> z \<Longrightarrow>
   covers (unat current) (push_missing_chunks current h chunk_size z :: ('p, 'tx, 'sig) cached_data_batch list) (unat h)"
proof (induction current h chunk_size rule: steps.induct)
  case (1 current h chunk_size)
  show ?case
  proof (cases "current < h")
    case True
    then show ?thesis
    proof (cases "checked_add current chunk_size")
      case None
      then have "unat z \<le> unat current + unat chunk_size"
        using unat_less_pow[of z] by (simp add: checked_add_def split: if_splits)
      then show ?thesis
        using True 1(2-4) None
        by (subst push_missing_chunks_rec) (simp add: unat_sat_add_min word_le_nat_alt)
    next
      case (Some c)
      then have c: "unat c = unat current + unat chunk_size" by (simp add: sat_simps)
      have "covers (unat (min c z)) (push_missing_chunks c h chunk_size z :: ('p, 'tx, 'sig) cached_data_batch list) (unat h)"
      proof (cases "c \<le> h")
        case True
        then have "min c z = c" using 1(4) by simp
        with 1(1)[OF _ Some] True 1 \<open>current < h\<close> show ?thesis by simp
      next
        case False
        then show ?thesis
          using 1(4) by (subst push_missing_chunks_rec) (simp add: unat_min word_le_nat_alt word_less_nat_alt)
      qed
      moreover have "unat (min (sat_add current chunk_size) z) = unat (min c z)"
        unfolding unat_sat_add_min unat_min[of c z] c ..
      ultimately show ?thesis
        using True 1(2) Some by (subst push_missing_chunks_rec) (auto intro: covers_mono)
    qed
  qed (use 1 in \<open>simp add: push_missing_chunks_rec\<close>)
qed

lemma missing_chunks_contiguous:
  "0 < chunk_size \<Longrightarrow> current \<le> h \<Longrightarrow> h \<le> z \<Longrightarrow> h = z \<or> unat chunk_size dvd unat h - unat current \<Longrightarrow>
   contiguous (unat current) (push_missing_chunks current h chunk_size z :: ('p, 'tx, 'sig) cached_data_batch list) (unat h)"
proof (induction current h chunk_size rule: steps.induct)
  case (1 current h chunk_size)
  show ?case
  proof (cases "current < h")
    case True
    show ?thesis
    proof (cases "unat current + unat chunk_size \<le> unat h")
      case le: True
      then obtain c where Some: "checked_add current chunk_size = Some c"
        using unat_less_pow[of h] by (auto simp: checked_add_def)
      then have c: "unat c = unat current + unat chunk_size" by (simp add: sat_simps)
      have "h = z \<or> unat chunk_size dvd unat h - unat c"
        using 1(5) le c by (metis diff_diff_left dvd_minus_self not_less le_diff_conv2 le_add1 add.commute dvd_diff_nat dvd_refl)
      then have "contiguous (unat c) (push_missing_chunks c h chunk_size z :: ('p, 'tx, 'sig) cached_data_batch list) (unat h)"
        using 1(1)[OF _ Some] True 1(2,4) le c by (simp add: word_le_nat_alt)
      moreover have "unat (min (sat_add current chunk_size) z) = unat c"
        using 1(4) le c by (simp add: unat_sat_add_min word_le_nat_alt)
      ultimately show ?thesis
        using True 1(2) Some by (subst push_missing_chunks_rec) simp
    next
      case False
      then have "h = z" using 1(5) True by (auto simp: word_less_nat_alt dest: dvd_imp_le)
      moreover have "push_missing_chunks c h chunk_size z = ([] :: ('p, 'tx, 'sig) cached_data_batch list)" if "checked_add current chunk_size = Some c" for c
        using that False by (subst push_missing_chunks_rec) (auto simp: sat_simps word_less_nat_alt)
      ultimately show ?thesis
        using True 1(2) False
        by (subst push_missing_chunks_rec) (auto simp: unat_sat_add_min split: option.splits)
    qed
  qed (use 1 in \<open>simp add: push_missing_chunks_rec\<close>)
qed

text \<open>The chunk under construction is empty or ends at the current height.\<close>

definition current_ok ::
    "(u32 \<rightharpoonup> ('tx, 'sig) cached_data) \<Rightarrow> nat \<Rightarrow> nat \<Rightarrow> u32 \<Rightarrow> ('p, 'tx, 'sig) cached_data_batch \<Rightarrow> bool" where
  "current_ok m max_size z current c =
     (c = NoneChunk (0, 0)
      \<or> chunk_ok m max_size z c \<and> snd (chunk_range c) = current \<and> chunk_entries c \<noteq> None)"

definition start_of :: "u32 \<Rightarrow> ('p, 'tx, 'sig) cached_data_batch \<Rightarrow> nat" where
  "start_of current c = (if c = NoneChunk (0, 0) then unat current else unat (fst (chunk_range c)))"

lemma heights_of_single: "h < z \<Longrightarrow> heights_of (h, sat_add h 1) = [h]"
  using unat_next[of h z] by (simp add: heights_of_def)

lemma heights_of_extend:
  assumes "a \<le> h" "h < z"
  shows "heights_of (a, sat_add h 1) = heights_of (a, h) @ [h]"
  using assms unat_next[of h z] by (simp add: heights_of_def word_le_nat_alt)

lemma chunk_ok_single:
  assumes "h < z" "0 < chunk_size" "m h = Some e" "chunk_range c = (h, sat_add h 1)" "chunk_entries c = Some [e]"
  shows "chunk_ok m (unat chunk_size) (unat z) c"
  using assms unat_next[OF assms(1)]
  by (auto simp: chunk_ok_def heights_of_single range_len_def word_less_nat_alt)

lemma chunk_ok_extend:
  assumes "chunk_ok m (unat chunk_size) (unat z) c" "chunk_entries c = Some es" "snd (chunk_range c) = h" "h < z"
    and "range_len (chunk_range c) \<noteq> unat chunk_size" "m h = Some e"
    and "chunk_range c' = (fst (chunk_range c), sat_add h 1)" "chunk_entries c' = Some (es @ [e])"
  shows "chunk_ok m (unat chunk_size) (unat z) c'"
proof -
  obtain a where a: "chunk_range c = (a, h)" using assms(3) by (metis prod.collapse)
  with assms(1,2) have "a < h" "unat h - unat a \<le> unat chunk_size" "map Some es = map m (heights_of (a, h))"
    by (auto simp: chunk_ok_def range_len_def)
  moreover from this(1) have "heights_of (a, sat_add h 1) = heights_of (a, h) @ [h]"
    using heights_of_extend[OF _ assms(4)] by simp
  ultimately show ?thesis
    using assms(4-8) unat_next[OF assms(4)] a
    by (auto simp: chunk_ok_def range_len_def word_less_nat_alt)
qed

lemma handle_current_chunk_ok:
  assumes c: "current_ok m (unat chunk_size) (unat z) h c" and h: "h < z" "m h = Some d" "0 < chunk_size"
    and handle: "handle_current_chunk c d h chunk_size = (c', pushed)"
  shows "current_ok m (unat chunk_size) (unat z) (sat_add h 1) c'
    \<and> (\<forall>x\<in>set pushed. chunk_ok m (unat chunk_size) (unat z) x)
    \<and> contiguous (start_of h c) pushed (start_of (sat_add h 1) c')"
proof -
  note ext = chunk_ok_extend[of m chunk_size z c _ h d c']
  note single = chunk_ok_single[of h z chunk_size m d c']
  show ?thesis
    using c h handle ext single
    by (cases "(c, d, h, chunk_size)" rule: handle_current_chunk.cases)
      (auto simp: current_ok_def start_of_def single_def extend_batch_def batch_new_def split: if_splits)
qed

text \<open>Every gap in front of cached data is a multiple of the chunk size.\<close>

fun gaps_fit :: "nat \<Rightarrow> nat \<Rightarrow> ('tx, 'sig) cache \<Rightarrow> bool" where
  "gaps_fit chunk_size current [] = True"
| "gaps_fit chunk_size current ((h, d) # rest) =
     (chunk_size dvd unat h - current \<and> gaps_fit chunk_size (unat h + 1) rest)"

lemma push_chunk_ok:
  assumes "current_ok m n z current c"
  shows "\<forall>x\<in>set (push_chunk c). chunk_ok m n z x" "contiguous (start_of current c) (push_chunk c) (unat current)"
  using assms by (auto simp: current_ok_def push_chunk_def is_range_empty_def start_of_def chunk_ok_def)

lemma contiguous_covers: "contiguous a cs z \<Longrightarrow> \<forall>c\<in>set cs. chunk_ok m n k c \<Longrightarrow> covers a cs z"
proof (induction a cs z rule: contiguous.induct)
  case (2 a c cs z)
  then have "a < unat (snd (chunk_range c))" by (auto simp: chunk_ok_def word_less_nat_alt)
  with 2 show ?case by (simp add: max_def)
qed simp

lemma gap_chunks:
  assumes "0 < chunk_size" "current_ok m (unat chunk_size) (unat z) current c" "current \<le> h" "h \<le> z"
    and "(pushed, c1) = (if h \<noteq> current
      then (push_chunk c @ push_missing_chunks current h chunk_size z, NoneChunk (0, 0)) else ([], c))"
  shows "current_ok m (unat chunk_size) (unat z) h c1 \<and> (\<forall>x\<in>set pushed. chunk_ok m (unat chunk_size) (unat z) x)
    \<and> covers (start_of current c) pushed (start_of h c1)
    \<and> (unat chunk_size dvd unat h - unat current \<longrightarrow> contiguous (start_of current c) pushed (start_of h c1))"
proof (cases "h = current")
  case False
  note p = push_chunk_ok[OF assms(2)] contiguous_covers[OF push_chunk_ok(2,1)[OF assms(2)]]
  note mc = missing_chunks_ok[OF assms(1,4)] missing_chunks_cover[OF assms(1,3,4)]
    missing_chunks_contiguous[OF assms(1,3,4)]
  show ?thesis
    using False p(1) mc(1) covers_append[OF p(3) mc(2)] contiguous_append[OF p(2) mc(3)] assms(5)
    by (auto simp: current_ok_def start_of_def)
qed (use assms in simp)

lemma chunk_loop_ok:
  assumes "0 < chunk_size" "current_ok m (unat chunk_size) (unat z) current c" "current \<le> z"
    and "sorted_wrt (\<lambda>x y. fst x < fst y) es" "\<forall>e\<in>set es. current \<le> fst e \<and> fst e < z \<and> m (fst e) = Some (snd e)"
  shows "(\<forall>x\<in>set (chunk_loop chunk_size z es current c). chunk_ok m (unat chunk_size) (unat z) x)
    \<and> covers (start_of current c) (chunk_loop chunk_size z es current c) (unat z)
    \<and> (gaps_fit (unat chunk_size) (unat current) es \<longrightarrow>
      contiguous (start_of current c) (chunk_loop chunk_size z es current c) (unat z))"
  using assms
proof (induction chunk_size z es current c rule: chunk_loop.induct)
  case (1 chunk_size z current c)
  note p = push_chunk_ok[OF 1(2)] contiguous_covers[OF push_chunk_ok(2,1)[OF 1(2)]]
  note mc = missing_chunks_ok[OF 1(1) order.refl] missing_chunks_cover[OF 1(1) 1(3) order.refl]
    missing_chunks_contiguous[OF 1(1) 1(3) order.refl]
  show ?case
    using p mc covers_append[OF p(3) mc(2)] contiguous_append[OF p(2) mc(3)] by auto
next
  case (2 chunk_size z h d rest current c)
  obtain pushed c1 where p1: "(pushed, c1) = (if h \<noteq> current
      then (push_chunk c @ push_missing_chunks current h chunk_size z, NoneChunk (0, 0)) else ([], c))"
    by (metis surj_pair)
  obtain c2 pushed2 where p2: "handle_current_chunk c1 d h chunk_size = (c2, pushed2)" by fastforce
  have h: "current \<le> h" "h < z" "m h = Some d" using 2(6) by simp_all
  note g = gap_chunks[OF 2(2,3) h(1) less_imp_le[OF h(2)] p1]
  note k = handle_current_chunk_ok[OF g[THEN conjunct1] h(2,3) 2(2) p2]
  have next_h: "unat (sat_add h 1) = unat h + 1" using h(2) by (rule unat_next)
  have le: "sat_add h 1 \<le> z" using next_h h(2) by (simp add: word_le_nat_alt word_less_nat_alt)
  have rest: "\<forall>e\<in>set rest. sat_add h 1 \<le> fst e \<and> fst e < z \<and> m (fst e) = Some (snd e)"
    using 2(5,6) next_h by (auto simp: word_le_nat_alt word_less_nat_alt)
  let ?loop = "chunk_loop chunk_size z rest (sat_add h 1) c2"
  have IH: "(\<forall>x\<in>set ?loop. chunk_ok m (unat chunk_size) (unat z) x)
    \<and> covers (start_of (sat_add h 1) c2) ?loop (unat z)
    \<and> (gaps_fit (unat chunk_size) (unat (sat_add h 1)) rest \<longrightarrow> contiguous (start_of (sat_add h 1) c2) ?loop (unat z))"
    using 2(1)[OF p1 refl p2[symmetric] refl 2(2) _ le _ rest] 2(5) g k by simp
  have loop: "chunk_loop chunk_size z ((h, d) # rest) current c = pushed @ pushed2 @ ?loop"
    using p1 p2 by (auto split: if_splits)
  have k2: "covers (start_of h c1) pushed2 (start_of (sat_add h 1) c2)"
    using g k contiguous_covers by blast
  show ?case
    unfolding loop using g k IH next_h
    by (auto intro: covers_append[OF _ covers_append[OF k2]] contiguous_append)
qed

lemma get_chunks_loop:
  fixes cached :: "('tx, 'sig) cache" and chunks :: "('p, 'tx, 'sig) cached_data_batch list"
  assumes "bt_ok cached" "a \<le> b" "b < u_max" "0 < chunk_size" "chunks = get_chunks (a, b) chunk_size cached"
  shows "\<forall>c\<in>set chunks. chunk_ok (map_of cached) (unat chunk_size) (unat b + 1) c"
    "covers (unat a) chunks (unat b + 1)"
    "gaps_fit (unat chunk_size) (unat a) (collect_cache_data (a, b) cached) \<Longrightarrow> contiguous (unat a) chunks (unat b + 1)"
proof -
  let ?z = "sat_add b 1" and ?es = "collect_cache_data (a, b) cached"
  have z: "unat ?z = unat b + 1" using assms(3) by (rule unat_next)
  have es: "sorted_wrt (\<lambda>x y. fst x < fst y) ?es"
    using assms(1) by (auto simp: bt_ok_def collect_cache_data_def sorted_wrt_map intro: sorted_wrt_filter)
  have mem: "\<forall>e\<in>set ?es. a \<le> fst e \<and> fst e < ?z \<and> map_of cached (fst e) = Some (snd e)"
    using assms(1) z
    by (auto simp: collect_cache_data_def range_contains_def word_less_nat_alt word_le_nat_alt bt_ok_map_of_iff)
  have "current_ok (map_of cached) (unat chunk_size) (unat ?z) a (NoneChunk (0, 0) :: ('p, 'tx, 'sig) cached_data_batch)"
    by (simp add: current_ok_def)
  from chunk_loop_ok[OF assms(4) this _ es mem]
  show "\<forall>c\<in>set chunks. chunk_ok (map_of cached) (unat chunk_size) (unat b + 1) c"
      "covers (unat a) chunks (unat b + 1)" "gaps_fit (unat chunk_size) (unat a) ?es \<Longrightarrow> contiguous (unat a) chunks (unat b + 1)"
    using z assms(2) unfolding assms(5) get_chunks_def by (simp_all add: start_of_def word_le_nat_alt)
qed

lemmas get_chunks_ok = get_chunks_loop(1)[OF _ _ _ _ refl]

text \<open>No chunk starts in front of the range.\<close>

lemma missing_chunks_from: "c \<in> set (push_missing_chunks current h chunk_size z) \<Longrightarrow> current \<le> fst (chunk_range c)"
proof (induction current h chunk_size rule: steps.induct)
  case (1 current h chunk_size)
  show ?case
  proof (cases "checked_add current chunk_size")
    case None
    with 1(2) show ?thesis by (subst (asm) push_missing_chunks_rec) (auto split: if_splits)
  next
    case (Some c')
    then have "current \<le> c'" by (simp add: sat_simps word_le_nat_alt)
    with 1 Some show ?thesis by (subst (asm) (2) push_missing_chunks_rec) (auto split: if_splits)
  qed
qed

lemma handle_chunk_from:
  assumes "handle_current_chunk c d h chunk_size = (c', pushed)" "lo \<le> h" "c = NoneChunk r \<or> lo \<le> fst (chunk_range c)"
  shows "lo \<le> fst (chunk_range c') \<and> (\<forall>x\<in>set pushed. lo \<le> fst (chunk_range x))"
  using assms
  by (cases "(c, d, h, chunk_size)" rule: handle_current_chunk.cases)
    (auto simp: single_def extend_batch_def batch_new_def split: if_splits)

lemma chunk_loop_from:
  "\<lbrakk>x \<in> set (chunk_loop chunk_size z es current c); c = NoneChunk (0, 0) \<or> lo \<le> fst (chunk_range c); lo \<le> current;
    \<forall>e\<in>set es. lo \<le> fst e \<and> fst e < z\<rbrakk> \<Longrightarrow> lo \<le> fst (chunk_range x)"
proof (induction chunk_size z es current c rule: chunk_loop.induct)
  case (1 chunk_size z current c)
  then show ?case by (auto simp: push_chunk_def is_range_empty_def split: if_splits dest: missing_chunks_from)
next
  case (2 chunk_size z h d rest current c)
  obtain pushed c1 where p1: "(pushed, c1) = (if h \<noteq> current
      then (push_chunk c @ push_missing_chunks current h chunk_size z, NoneChunk (0, 0)) else ([], c))"
    by (metis surj_pair)
  obtain c2 pushed2 where p2: "handle_current_chunk c1 d h chunk_size = (c2, pushed2)" by fastforce
  have h: "lo \<le> h" "h < z" using 2(5) by simp_all
  have c1: "c1 = NoneChunk (0, 0) \<or> lo \<le> fst (chunk_range c1)" using p1 2(3) by (auto split: if_splits)
  note k = handle_chunk_from[OF p2 h(1) c1]
  have "x \<in> set pushed \<union> set pushed2 \<union> set (chunk_loop chunk_size z rest (sat_add h 1) c2)"
    using 2(2) p1 p2 by (auto split: if_splits)
  moreover have "lo \<le> fst (chunk_range x)" if "x \<in> set pushed"
    using that p1 2(3,4) by (auto simp: push_chunk_def is_range_empty_def split: if_splits dest: missing_chunks_from)
  moreover have "lo \<le> sat_add h 1" using h(1) sat_add_ge[of h 1] by (rule order.trans)
  ultimately show ?case using k 2(1)[OF p1 refl p2[symmetric] refl] 2(5) by auto
qed

lemma get_chunks_from: "c \<in> set (get_chunks (a, b) chunk_size cached) \<Longrightarrow> b < u_max \<Longrightarrow> a \<le> fst (chunk_range c)"
  unfolding get_chunks_def
  by (erule chunk_loop_from) (use unat_next[of b u_max] in
      \<open>auto simp: collect_cache_data_def range_contains_def word_less_nat_alt word_le_nat_alt\<close>)

text \<open>C26. The chunks of a range.  For a range that does not end at the last 32 bit height, the chunks are
  non-empty, within the range and at most of the given size, a chunk of cached data has exactly the cached
  entries of its heights in order, and every height of the range is in some chunk.  If every gap in front
  of cached data is a multiple of the chunk size, the chunks follow each other without overlap.\<close>

theorem get_chunks_cover:
  fixes cached :: "('tx, 'sig) cache" and chunks :: "('p, 'tx, 'sig) cached_data_batch list"
  assumes "bt_ok cached" "a \<le> b" "b < u_max" "0 < chunk_size"
    and "chunks = get_chunks (a, b) chunk_size cached"
  shows "(\<forall>c\<in>set chunks. a \<le> fst (chunk_range c) \<and> chunk_ok (map_of cached) (unat chunk_size) (unat b + 1) c)
    \<and> (\<forall>h. a \<le> h \<longrightarrow> h \<le> b \<longrightarrow> (\<exists>c\<in>set chunks. fst (chunk_range c) \<le> h \<and> h < snd (chunk_range c)))
    \<and> (gaps_fit (unat chunk_size) (unat a) (collect_cache_data (a, b) cached) \<longrightarrow>
        contiguous (unat a) chunks (unat b + 1))"
proof -
  note loop = get_chunks_loop[OF assms]
  have "\<exists>c\<in>set chunks. fst (chunk_range c) \<le> h \<and> h < snd (chunk_range c)" if "a \<le> h" "h \<le> b" for h
    using covers_height[OF loop(2), of "unat h"] that by (simp add: word_le_nat_alt word_less_nat_alt)
  with loop get_chunks_from assms(3,5) show ?thesis by blast
qed

definition sample_header_at :: "u32 \<Rightarrow> u64 sealed_header" where
  "sample_header_at h = \<lparr>entity = HeaderV1 \<lparr>application = \<lparr>da_height = 0, consensus_parameters_version = 0,
       state_transition_bytecode_version = 0,
       app_generated = \<lparr>transactions_count = 0, message_receipt_count = 0, transactions_root = 0,
         message_outbox_root = 0, event_inbox_root = 0\<rparr>\<rparr>,
     con_header = \<lparr>prev_root = 0, height = h, time = 0, con_generated = \<lparr>application_hash = 0\<rparr>\<rparr>,
     metadata = None\<rparr>, seal = PoA \<lparr>signature = 0\<rparr>\<rparr>"

theorem get_chunks_cover_witness:
  "gaps_fit 3 0 (collect_cache_data (0, 7) [(3, CachedHeader (sample_header_at 3) :: (u64, u64) cached_data)])
   \<and> contiguous 0 (get_chunks (0, 7) 3 [(3, CachedHeader (sample_header_at 3))] :: (nat, u64, u64) cached_data_batch list) 8"
proof -
  let ?cached = "[(3, CachedHeader (sample_header_at 3))] :: (u64, u64) cache"
  have ok: "bt_ok ?cached" "(0 :: u32) \<le> 7" "(7 :: u32) < u_max" "(0 :: u32) < 3"
    by (simp_all add: bt_ok_def u_max_def)
  have gaps: "gaps_fit 3 0 (collect_cache_data (0, 7) ?cached)"
    by (simp add: collect_cache_data_def range_contains_def)
  from get_chunks_cover[OF ok refl, where ?'p = nat] gaps show ?thesis by simp
qed

text \<open>Two chunks of a list have a height in common.\<close>

definition chunks_meet :: "('p, 'tx, 'sig) cached_data_batch \<Rightarrow> ('p, 'tx, 'sig) cached_data_batch \<Rightarrow> bool" where
  "chunks_meet c c' =
     (max (fst (chunk_range c)) (fst (chunk_range c')) < min (snd (chunk_range c)) (snd (chunk_range c')))"

fun overlapping :: "('p, 'tx, 'sig) cached_data_batch list \<Rightarrow> bool" where
  "overlapping [] = False"
| "overlapping (c # cs) = ((\<exists>c'\<in>set cs. chunks_meet c c') \<or> overlapping cs)"

lemma overlapping_append:
  "overlapping ys \<Longrightarrow> overlapping (xs @ ys)" "x \<in> set xs \<Longrightarrow> y \<in> set ys \<Longrightarrow> chunks_meet x y \<Longrightarrow> overlapping (xs @ ys)"
  by (induction xs) auto

lemma chunks_meet_at:
  "fst (chunk_range c) \<le> h \<Longrightarrow> h < snd (chunk_range c) \<Longrightarrow> fst (chunk_range c') \<le> h \<Longrightarrow> h < snd (chunk_range c') \<Longrightarrow>
   chunks_meet c c'"
  by (auto simp: chunks_meet_def)

lemma contiguous_disjoint:
  "contiguous a cs z \<Longrightarrow> \<forall>c\<in>set cs. chunk_ok m n k c \<Longrightarrow> \<not> overlapping cs \<and> (\<forall>c\<in>set cs. a \<le> unat (fst (chunk_range c)))"
proof (induction a cs z rule: contiguous.induct)
  case (2 a c cs z)
  have c: "unat (fst (chunk_range c)) = a" "a < unat (snd (chunk_range c))"
    using 2(2,3) by (auto simp: chunk_ok_def word_less_nat_alt)
  have "contiguous (unat (snd (chunk_range c))) cs z" "\<forall>c\<in>set cs. chunk_ok m n k c" using 2(2,3) by simp_all
  note rest = 2(1)[OF this]
  have "\<not> chunks_meet c c'" if "c' \<in> set cs" for c'
  proof -
    have "snd (chunk_range c) \<le> fst (chunk_range c')" using rest that by (simp add: word_le_nat_alt)
    then show ?thesis by (auto simp: chunks_meet_def)
  qed
  with rest c show ?case by force
qed simp

lemma missing_chunk_meets:
  "0 < chunk_size \<Longrightarrow> current < h \<Longrightarrow> h < z \<Longrightarrow> \<not> unat chunk_size dvd unat h - unat current \<Longrightarrow>
   \<exists>c\<in>set (push_missing_chunks current h chunk_size z :: ('p, 'tx, 'sig) cached_data_batch list).
     fst (chunk_range c) \<le> h \<and> h < snd (chunk_range c)"
proof (induction current h chunk_size rule: steps.induct)
  case (1 current h chunk_size)
  show ?case
  proof (cases "unat current + unat chunk_size \<le> unat h")
    case le: True
    then obtain c where Some: "checked_add current chunk_size = Some c"
      using unat_less_pow[of h] by (auto simp: checked_add_def)
    then have c: "unat c = unat current + unat chunk_size" by (simp add: sat_simps)
    have "unat h - unat current = (unat h - unat c) + unat chunk_size" using le c by simp
    with 1(5) have not_dvd: "\<not> unat chunk_size dvd unat h - unat c" by simp
    then have "c < h" using le c by (cases "unat c = unat h") (auto simp: word_less_nat_alt)
    from 1(1)[OF _ Some 1(2) this 1(4) not_dvd] 1(2,3) Some show ?thesis
      by (subst push_missing_chunks_rec) auto
  next
    case False
    then have "current \<le> h \<and> h < min (sat_add current chunk_size) z"
      using 1(3,4) by (simp add: word_le_nat_alt word_less_nat_alt unat_sat_add_min)
    with 1(2,3) show ?thesis by (subst push_missing_chunks_rec) auto
  qed
qed

lemma chunk_loop_overlaps:
  assumes "0 < chunk_size" "current_ok m (unat chunk_size) (unat z) current c" "current \<le> z"
    and "sorted_wrt (\<lambda>x y. fst x < fst y) es" "\<forall>e\<in>set es. current \<le> fst e \<and> fst e < z \<and> m (fst e) = Some (snd e)"
    and "\<not> gaps_fit (unat chunk_size) (unat current) es"
  shows "overlapping (chunk_loop chunk_size z es current c)"
  using assms
proof (induction chunk_size z es current c rule: chunk_loop.induct)
  case (2 chunk_size z h d rest current c)
  obtain pushed c1 where p1: "(pushed, c1) = (if h \<noteq> current
      then (push_chunk c @ push_missing_chunks current h chunk_size z, NoneChunk (0, 0)) else ([], c))"
    by (metis surj_pair)
  obtain c2 pushed2 where p2: "handle_current_chunk c1 d h chunk_size = (c2, pushed2)" by fastforce
  have h: "current \<le> h" "h < z" "m h = Some d" using 2(6) by simp_all
  note g = gap_chunks[OF 2(2,3) h(1) less_imp_le[OF h(2)] p1]
  note k = handle_current_chunk_ok[OF g[THEN conjunct1] h(2,3) 2(2) p2]
  have next_h: "unat (sat_add h 1) = unat h + 1" using h(2) by (rule unat_next)
  have le: "sat_add h 1 \<le> z" using next_h h(2) by (simp add: word_le_nat_alt word_less_nat_alt)
  have rest: "\<forall>e\<in>set rest. sat_add h 1 \<le> fst e \<and> fst e < z \<and> m (fst e) = Some (snd e)"
    using 2(5,6) next_h by (auto simp: word_le_nat_alt word_less_nat_alt)
  let ?loop = "chunk_loop chunk_size z rest (sat_add h 1) c2"
  have loop: "chunk_loop chunk_size z ((h, d) # rest) current c = (pushed @ pushed2) @ ?loop"
    using p1 p2 by (auto split: if_splits)
  show ?case
  proof (cases "unat chunk_size dvd unat h - unat current")
    case True
    then have "\<not> gaps_fit (unat chunk_size) (unat (sat_add h 1)) rest" using 2(7) next_h by simp
    from 2(1)[OF p1 refl p2[symmetric] refl 2(2) _ le _ rest this] 2(5) k
    show ?thesis unfolding loop by (simp add: overlapping_append(1))
  next
    case False
    then have less: "current < h" using h(1) by (cases "h = current") auto
    then have "h \<noteq> current" by simp
    then have c1: "c1 = NoneChunk (0, 0)" and pushed: "pushed = push_chunk c @ push_missing_chunks current h chunk_size z"
      using p1 by simp_all
    obtain x where x: "x \<in> set pushed" "fst (chunk_range x) \<le> h" "h < snd (chunk_range x)"
      using missing_chunk_meets[OF 2(2) less h(2) False] unfolding pushed by auto
    have "contiguous (unat h) pushed2 (start_of (sat_add h 1) c2)" "\<forall>x\<in>set pushed2. chunk_ok m (unat chunk_size) (unat z) x"
      using k c1 by (simp_all add: start_of_def)
    moreover have "covers (start_of (sat_add h 1) c2) ?loop (unat z)"
      using chunk_loop_ok[OF 2(2) k[THEN conjunct1] le _ rest] 2(5) by simp
    ultimately have cov: "covers (unat h) (pushed2 @ ?loop) (unat z)" using contiguous_covers covers_append by blast
    obtain y where y: "y \<in> set (pushed2 @ ?loop)" "fst (chunk_range y) \<le> h" "h < snd (chunk_range y)"
      using covers_height[OF cov, of "unat h"] h(2) unfolding word_le_nat_alt word_less_nat_alt by blast
    from overlapping_append(2)[OF x(1) y(1) chunks_meet_at[OF x(2,3) y(2,3)]] show ?thesis unfolding loop by simp
  qed
qed simp

text \<open>C36. When chunks overlap.  Two chunks of a range have a height in common exactly when some gap in front of
  cached data is not a multiple of the chunk size: the last chunk of such a gap is cut at the end of the whole
  range and not at the cached height behind the gap, so this height is both fetched and taken from the
  cache.\<close>

theorem get_chunks_overlap:
  fixes cached :: "('tx, 'sig) cache" and chunks :: "('p, 'tx, 'sig) cached_data_batch list"
  assumes "bt_ok cached" "a \<le> b" "b < u_max" "0 < chunk_size" "chunks = get_chunks (a, b) chunk_size cached"
  shows "overlapping chunks \<longleftrightarrow> \<not> gaps_fit (unat chunk_size) (unat a) (collect_cache_data (a, b) cached)"
proof
  assume "overlapping chunks"
  with contiguous_disjoint[OF get_chunks_loop(3,1)[OF assms]]
  show "\<not> gaps_fit (unat chunk_size) (unat a) (collect_cache_data (a, b) cached)" by blast
next
  let ?z = "sat_add b 1" and ?es = "collect_cache_data (a, b) cached"
  assume gaps: "\<not> gaps_fit (unat chunk_size) (unat a) ?es"
  have z: "unat ?z = unat b + 1" using assms(3) by (rule unat_next)
  have es: "sorted_wrt (\<lambda>x y. fst x < fst y) ?es"
    using assms(1) by (auto simp: bt_ok_def collect_cache_data_def sorted_wrt_map intro: sorted_wrt_filter)
  have mem: "\<forall>e\<in>set ?es. a \<le> fst e \<and> fst e < ?z \<and> map_of cached (fst e) = Some (snd e)"
    using assms(1) z
    by (auto simp: collect_cache_data_def range_contains_def word_less_nat_alt word_le_nat_alt bt_ok_map_of_iff)
  have "current_ok (map_of cached) (unat chunk_size) (unat ?z) a (NoneChunk (0, 0) :: ('p, 'tx, 'sig) cached_data_batch)"
    by (simp add: current_ok_def)
  from chunk_loop_overlaps[OF assms(4) this _ es mem gaps] z assms(2)
  show "overlapping chunks" unfolding assms(5) get_chunks_def by (simp add: word_le_nat_alt)
qed

theorem get_chunks_overlap_witness:
  "overlapping (get_chunks (0, 10) 3 [(4, CachedHeader (sample_header_at 4))] :: (nat, u64, u64) cached_data_batch list)"
proof -
  let ?cached = "[(4, CachedHeader (sample_header_at 4))] :: (u64, u64) cache"
  have ok: "bt_ok ?cached" "(0 :: u32) \<le> 10" "(10 :: u32) < u_max" "(0 :: u32) < 3"
    by (simp_all add: bt_ok_def u_max_def)
  have "\<not> gaps_fit (unat (3 :: u32)) (unat (0 :: u32)) (collect_cache_data (0, 10) ?cached)"
    by (simp add: collect_cache_data_def range_contains_def)
  with get_chunks_overlap[OF ok refl, where ?'p = nat] show ?thesis by blast
qed

section \<open>The contract of the executor\<close>

text \<open>The executor imports blocks of consecutive heights only: a success moves its next height by one and a
  failure does not move it.\<close>

locale block_executor =
  fixes exec :: "('tx, 'sig, 'ex, 'e) execute" and next_of :: "'ex \<Rightarrow> nat" and ex_ok :: "'ex \<Rightarrow> bool"
  assumes exec_ok: "ex_ok ex \<Longrightarrow> exec ex b = (ex', Inr u) \<Longrightarrow>
      ex_ok ex' \<and> unat (sealed_height b) = next_of ex \<and> next_of ex' = next_of ex + 1"
    and exec_error: "ex_ok ex \<Longrightarrow> exec ex b = (ex', Inl e) \<Longrightarrow> ex_ok ex' \<and> next_of ex' = next_of ex"

text \<open>The block importer meets the contract once its chain has a block.\<close>

definition importer_next :: "('tx, 'sig, 'st, 'ev, 'db) importer \<Rightarrow> nat" where
  "importer_next I = (case stage_height (db I) of None \<Rightarrow> 0 | Some h \<Rightarrow> unat h + 1)"

definition importer_started :: "('tx, 'sig, 'st, 'ev, 'db) importer \<Rightarrow> bool" where
  "importer_started I = (stage_height (db I) \<noteq> None)"

lemma commit_prepared_Inl: "commit_prepared E d p = (d', Inl e) \<Longrightarrow> stage_height d' = stage_height d"
  by (auto simp: commit_prepared_def Let_def on_chain_commit_Inl split: sum.splits prod.splits if_splits)

lemma execute_and_commit_Inl:
  "execute_and_commit E I b = (I', Inl e) \<Longrightarrow> stage_height (db I') = stage_height (db I)"
  by (auto simp: execute_and_commit_def run_commit_result_def dest: commit_prepared_Inl
      split: if_splits sum.splits prod.splits)

lemma committed_height:
  assumes "changes_ok bch" "changes_ok ch" "block_written L P chain b bch"
    and "on_chain_commit T D d (ChangesList [bch, ch]) = (d', Inr ())" "stage_height d = Some prev"
  shows "unat (sealed_height b) = unat prev + 1 \<and> stage_height d' = Some (sealed_height b)"
  using assms(4)
proof (cases rule: on_chain_commit_Inr)
  case (height h ch')
  have "\<forall>ch\<in>set [bch, ch]. changes_ok ch" using assms(1,2) by simp
  then have "inserted_keys [bch, ch] FuelBlocks_column = {primitive_encode h}"
    using inserted_heights[OF _ height(1)] by simp
  moreover have "primitive_encode (sealed_height b) \<in> inserted_keys [bch, ch] FuelBlocks_column"
    using assms(3) by (auto simp: block_written_def inserted_keys_def)
  ultimately have "h = sealed_height b" by (simp add: primitive_encode_inj)
  with height(2,5) assms(5) show ?thesis by simp
qed (use assms(5) in simp)

lemma importer_block_executor:
  assumes "env_ok E ok" "\<And>b. executor_ok E b"
  shows "block_executor (execute_and_commit E) importer_next importer_started"
proof
  fix I I' :: "('a, 'b, 'c, 'd, 'e) importer" and b :: "('a, 'b) sealed_block" and u
  assume inv: "importer_started I" and c: "execute_and_commit E I b = (I', Inr u)"
  obtain prev where prev: "stage_height (db I) = Some prev" using inv by (auto simp: importer_started_def)
  obtain p where p: "prepare_import_result E (db I) b = Inr p"
    and run: "run_commit_result E I (PrepareImportResult p) = (I', Inr ())"
    using c by (auto simp: execute_and_commit_def split: if_splits sum.splits)
  obtain st ev ch bch where v: "verify_and_execute_block_inner E b = Inr ((st, ev), ch)"
    and bch: "create_block_changes E b (data (db I)) = Inr bch"
    and p': "uncommitted_changes (prepared p) = ch" "block_changes p = bch"
    using p by (auto simp: prepare_import_result_def Let_def split: sum.splits consensus.splits)
  have "validate E (entity b) = Inr ((st, ev), ch)"
    using v by (auto simp: verify_and_execute_block_inner_def Let_def split: sum.splits consensus.splits)
  then have ch: "changes_ok ch" using assms(2)[of "entity b"] by (auto simp: executor_ok_def)
  obtain d r where d: "commit_prepared E (db I) p = (d, Inr r)" "db I' = d"
    using run by (auto simp: run_commit_result_def split: prod.splits sum.splits)
  have "kv_inspect_laws (data_kv (store E))" "writes_only FuelBlockMerkleData_column (block_tree E)"
    using assms(1) by (simp_all add: env_ok_def transactable_def)
  note w = create_block_changes_Inr(2)[OF this bch]
  have "unat (sealed_height b) = unat prev + 1 \<and> stage_height d = Some (sealed_height b)"
    using committed_height[OF _ ch w _ prev] commit_prepared_Inr(1)[OF d(1)] w
    by (simp add: p' block_written_def)
  then show "importer_started I' \<and> unat (sealed_height b) = importer_next I \<and> importer_next I' = importer_next I + 1"
    using prev d(2) by (simp add: importer_started_def importer_next_def)
next
  fix I I' :: "('a, 'b, 'c, 'd, 'e) importer" and b :: "('a, 'b) sealed_block" and e
  assume "importer_started I" "execute_and_commit E I b = (I', Inl e)"
  then show "importer_started I' \<and> importer_next I' = importer_next I"
    by (simp add: importer_started_def importer_next_def execute_and_commit_Inl)
qed

interpretation sample_executor: block_executor "execute_and_commit sample_env" importer_next importer_started
  by (rule importer_block_executor[OF sample_env_ok(1,3)])

section \<open>What is handed to the executor\<close>

definition header_of_block :: "('tx, 'sig) sealed_block \<Rightarrow> 'sig sealed_header" where
  "header_of_block b = \<lparr>entity = blk_header (entity b), seal = seal b\<rparr>"

definition block_checked :: "('p, 'tx, 'sig) sync_ports \<Rightarrow> ('tx, 'sig) sealed_block \<Rightarrow> bool" where
  "block_checked P b =
     (check_sealed_header P (header_of_block b)
      \<and> validate_transactions (fuel P) (blk_header (entity b)) (blk_transactions (entity b)))"

fun entry_ok :: "('p, 'tx, 'sig) sync_ports \<Rightarrow> u32 \<times> ('tx, 'sig) cached_data \<Rightarrow> bool" where
  "entry_ok P (h, CachedHeader x) = (sealed_header_height x = h \<and> check_sealed_header P x)"
| "entry_ok P (h, CachedBlock b) = (sealed_height b = h \<and> block_checked P b)"

definition cache_ok :: "('p, 'tx, 'sig) sync_ports \<Rightarrow> ('tx, 'sig) cache \<Rightarrow> bool" where
  "cache_ok P cached = (bt_ok cached \<and> (\<forall>e\<in>set cached. entry_ok P e))"

lemma sealed_height_header: "sealed_height b = sealed_header_height (header_of_block b)"
  by (simp add: sealed_height_def sealed_header_height_def header_of_block_def)

lemma cache_ok_insert: "cache_ok P cached \<Longrightarrow> entry_ok P (h, d) \<Longrightarrow> cache_ok P (bt_insert h d cached)"
  by (auto simp: cache_ok_def dest: bt_insert_elem)

lemma cache_ok_remove: "cache_ok P cached \<Longrightarrow> cache_ok P (remove_element h cached)"
  using set_bt_remove_subset[of h cached] by (auto simp: cache_ok_def remove_element_def)

lemma cache_ok_fold:
  "\<forall>x\<in>set xs. entry_ok P (k x, d x) \<Longrightarrow> cache_ok P cached \<Longrightarrow> cache_ok P (fold (\<lambda>x. bt_insert (k x) (d x)) xs cached)"
  by (induction xs arbitrary: cached) (auto simp: cache_ok_insert)

text \<open>A list of blocks or headers whose heights are the first heights of a range.\<close>

definition in_order :: "('a \<Rightarrow> u32) \<Rightarrow> range \<Rightarrow> 'a list \<Rightarrow> bool" where
  "in_order hgt r xs = (map hgt xs = take (length xs) (heights_of r))"

lemma in_order_takeWhile: "in_order hgt r xs \<Longrightarrow> in_order hgt r (takeWhile Q xs)"
proof -
  assume a: "in_order hgt r xs"
  have "map hgt (takeWhile Q xs) = take (length (takeWhile Q xs)) (map hgt xs)"
    by (metis take_map takeWhile_eq_take)
  also have "\<dots> = take (length (takeWhile Q xs)) (heights_of r)"
    using a length_takeWhile_le[of Q xs] by (simp add: in_order_def min_def)
  finally show ?thesis by (simp add: in_order_def)
qed

lemma in_order_zip:
  "in_order hgt r (map fst (takeWhile (\<lambda>(x, e). hgt x = e) (zip xs (heights_of r))))"
proof -
  have "map hgt (map fst (takeWhile (\<lambda>(x, e). hgt x = e) (zip xs hs))) =
      take (length (takeWhile (\<lambda>(x, e). hgt x = e) (zip xs hs))) hs" for hs
    by (induction xs arbitrary: hs; case_tac hs) auto
  then show ?thesis by (simp add: in_order_def)
qed

lemma in_order_le: "in_order hgt r xs \<Longrightarrow> x \<in> set xs \<Longrightarrow> hgt x < snd r"
proof -
  assume "in_order hgt r xs" "x \<in> set xs"
  then have "hgt x \<in> set (heights_of r)" by (metis in_order_def in_set_takeD image_eqI list.set_map)
  then obtain i where "i < unat (snd r)" "hgt x = of_nat i" by (auto simp: heights_of_def)
  moreover from this(1) have "unat (of_nat i :: u32) = i"
    using unat_less_pow[of "snd r"] by (simp add: unat_of_nat)
  ultimately show "hgt x < snd r" by (simp add: word_less_nat_alt)
qed

lemma attach_blocks:
  "attach L (zip hs txs) = (bs, f) \<Longrightarrow> map header_of_block bs = take (length bs) hs
    \<and> (\<forall>b\<in>set bs. validate_transactions L (blk_header (entity b)) (blk_transactions (entity b)))"
proof (induction hs arbitrary: txs bs f)
  case (Cons h hs)
  show ?case
  proof (cases txs)
    case (Cons t ts)
    with Cons.prems Cons.IH[of ts] show ?thesis
      by (auto simp: try_from_executed_def header_of_block_def apfst_def map_prod_def split: option.splits if_splits prod.splits)
  qed (use Cons.prems in simp)
qed simp

lemma blocks_of_headers_ok:
  assumes "cache_ok P cached" "\<forall>h\<in>set (results b). check_sealed_header P h"
    "in_order sealed_header_height (batch_range b) (results b)"
    and "blocks_of_headers P b cached = (batch, cached', rep)"
  shows "cache_ok P cached' \<and> batch_range batch = batch_range b \<and> (\<forall>x\<in>set (results batch). block_checked P x)
    \<and> in_order sealed_height (batch_range b) (results batch)"
proof (cases "results b = [] \<or> fst (get_transactions P (batch_range b) (peer b)) = None")
  case True
  with assms show ?thesis
    by (auto simp: blocks_of_headers_def get_blocks_def batch_new_def in_order_def insert_blocks_def Let_def
        split: prod.splits if_splits)
next
  case False
  then obtain p txs rep1 bs f where tx: "get_transactions P (batch_range b) (peer b) = (Some (p, txs), rep1)"
    "attach (fuel P) (zip (results b) txs) = (bs, f)"
    by (metis option.exhaust prod.collapse)
  note at = attach_blocks[OF tx(2)]
  have res: "results batch = bs" "batch_range batch = batch_range b"
    and cached': "cached' = (if is_err batch then cached else insert_blocks batch cached)"
    using assms(4) False tx by (auto simp: blocks_of_headers_def get_blocks_def batch_new_def split: if_splits)
  have "header_of_block x \<in> set (results b)" if "x \<in> set bs" for x
    using at that by (metis image_eqI in_set_takeD list.set_map)
  then have checked: "\<forall>x\<in>set bs. block_checked P x" using assms(2) at by (auto simp: block_checked_def)
  have "map sealed_height bs = map sealed_header_height (map header_of_block bs)"
    by (simp add: sealed_height_header)
  also have "\<dots> = take (length bs) (map sealed_header_height (results b))" using at by (simp add: take_map)
  also have "\<dots> = take (min (length bs) (length (results b))) (heights_of (batch_range b))"
    using assms(3) by (simp add: in_order_def)
  also have "min (length bs) (length (results b)) = length bs"
    using arg_cong[OF conjunct1[OF at], of length] by simp
  finally have "in_order sealed_height (batch_range b) bs" by (simp add: in_order_def)
  moreover have "cache_ok P cached'"
    using assms(1) checked res cached' by (auto simp: insert_blocks_def intro: cache_ok_fold)
  ultimately show ?thesis using checked res by simp
qed

lemma chunk_entries_ok:
  assumes "cache_ok P cached0" "chunk_ok (map_of cached0) n z c" "chunk_entries c = Some es"
  shows "list_all2 (\<lambda>h e. entry_ok P (h, e)) (heights_of (chunk_range c)) es"
proof -
  have "map Some es = map (map_of cached0) hs \<Longrightarrow> list_all2 (\<lambda>h e. entry_ok P (h, e)) hs es" for hs
  proof (induction es arbitrary: hs)
    case (Cons e es)
    then obtain h hs' where hs: "hs = h # hs'" "map_of cached0 h = Some e" "map Some es = map (map_of cached0) hs'"
      by (cases hs) auto
    with assms(1) have "entry_ok P (h, e)" by (auto simp: cache_ok_def dest: map_of_SomeD)
    with hs Cons.IH[OF hs(3)] show ?case by simp
  qed simp
  with assms(2,3) show ?thesis by (simp add: chunk_ok_def)
qed

lemma header_entries:
  "list_all2 (\<lambda>h e. entry_ok P (h, e)) hs (map CachedHeader xs) \<Longrightarrow>
   map sealed_header_height xs = hs \<and> (\<forall>x\<in>set xs. check_sealed_header P x)"
  by (induction xs arbitrary: hs) (auto simp: list_all2_Cons2)

lemma block_entries:
  "list_all2 (\<lambda>h e. entry_ok P (h, e)) hs (map CachedBlock xs) \<Longrightarrow>
   map sealed_height xs = hs \<and> (\<forall>x\<in>set xs. block_checked P x)"
  by (induction xs arbitrary: hs) (auto simp: list_all2_Cons2)

lemma in_order_all: "map hgt xs = heights_of r \<Longrightarrow> in_order hgt r xs"
  by (metis in_order_def length_map order_refl take_all)

lemma get_headers_batch_ok:
  "get_headers_batch P r = (fetched, rep) \<Longrightarrow> batch_range fetched = r \<and> in_order sealed_header_height r (results fetched)"
  using in_order_zip[of sealed_header_height r]
  by (cases "get_sealed_block_headers P r") (auto simp: get_headers_batch_def batch_new_def Let_def in_order_def)

lemma fetch_chunk_ok:
  assumes "cache_ok P cached" "cache_ok P cached0" "chunk_ok (map_of cached0) n z c"
    and "fetch_chunk P c cached = (batch, cached', rep)"
  shows "cache_ok P cached' \<and> batch_range batch = chunk_range c \<and> (\<forall>x\<in>set (results batch). block_checked P x)
    \<and> in_order sealed_height (chunk_range c) (results batch)"
proof (cases c)
  case (HeadersChunk b)
  then have "list_all2 (\<lambda>h e. entry_ok P (h, e)) (heights_of (batch_range b)) (map CachedHeader (results b))"
    using chunk_entries_ok[OF assms(2,3)] by simp
  note header_entries[OF this]
  then show ?thesis
    using blocks_of_headers_ok[OF assms(1), of b batch cached' rep] assms(4) HeadersChunk
    by (simp add: in_order_all)
next
  case (BlocksChunk b)
  then have "list_all2 (\<lambda>h e. entry_ok P (h, e)) (heights_of (batch_range b)) (map CachedBlock (results b))"
    using chunk_entries_ok[OF assms(2,3)] by simp
  note block_entries[OF this]
  then show ?thesis using assms(1,4) BlocksChunk by (auto simp: in_order_all)
next
  case (NoneChunk r)
  obtain fetched rep1 where f: "get_headers_batch P r = (fetched, rep1)" by fastforce
  obtain checked rep2 where k: "check_headers P fetched = (checked, rep2)" by fastforce
  define cached1 where "cached1 = (if is_err checked then cached else insert_headers checked cached)"
  note fr = get_headers_batch_ok[OF f]
  have kr: "batch_range checked = r" "results checked = takeWhile (check_sealed_header P) (results fetched)"
    using k fr by (auto simp: check_headers_def batch_new_def Let_def)
  have all: "\<forall>h\<in>set (results checked). check_sealed_header P h" using kr(2) by (auto dest: set_takeWhileD)
  have "cache_ok P cached1"
    using assms(1) all by (auto simp: cached1_def insert_headers_def intro: cache_ok_fold)
  moreover obtain b3 c3 rep3 where b3: "blocks_of_headers P checked cached1 = (b3, c3, rep3)" by (metis prod_cases3)
  moreover have "b3 = batch" "c3 = cached'"
    using assms(4) b3 unfolding NoneChunk cached1_def by (simp_all add: f k)
  moreover have "in_order sealed_header_height (batch_range checked) (results checked)"
    using in_order_takeWhile fr kr by metis
  ultimately show ?thesis
    using blocks_of_headers_ok[of P cached1 checked b3 c3 rep3] all kr(1) unfolding NoneChunk by simp
qed

section \<open>Runs of the import\<close>

definition run_ok :: "('ex \<Rightarrow> nat) \<Rightarrow> ('ex \<Rightarrow> bool) \<Rightarrow> ('p, 'tx, 'sig) sync_ports
    \<Rightarrow> ('p, 'tx, 'sig, 'ex) sync_run \<Rightarrow> bool" where
  "run_ok next_of ex_ok P s =
     (ex_ok (executor s) \<and> status_ok (status s) \<and> fst (progress_of (status s)) = next_of (executor s)
      \<and> cache_ok P (cache s) \<and> (\<forall>hs\<in>set (incoming s). \<forall>h\<in>set hs. \<exists>x. h = IncomingObserved x))"

definition target :: "('p, 'tx, 'sig, 'ex) sync_run \<Rightarrow> nat" where
  "target s = snd (progress_of (status s))"

lemma observed_heights:
  "\<forall>h\<in>set hs. \<exists>x. h = IncomingObserved x \<Longrightarrow> status_ok st \<Longrightarrow>
   status_ok (foldl (\<lambda>st h. fst (sync_height h st)) st hs)
   \<and> fst (progress_of (foldl (\<lambda>st h. fst (sync_height h st)) st hs)) = fst (progress_of st)
   \<and> snd (progress_of st) \<le> snd (progress_of (foldl (\<lambda>st h. fst (sync_height h st)) st hs))"
proof (induction hs arbitrary: st)
  case (Cons h hs)
  then obtain x where h: "h = IncomingObserved x" by auto
  let ?st = "fst (state_observe x st)"
  have st: "status_ok ?st" "progress_of ?st = (fst (progress_of st), max (snd (progress_of st)) (unat x + 1))"
    using progress_observe[OF Cons.prems(2)] by (cases "progress_of st"; simp)+
  show ?case using Cons.IH[of ?st] Cons.prems st h by auto
qed simp

lemma receive_heights_ok:
  assumes "run_ok next_of ex_ok P s"
  shows "run_ok next_of ex_ok P (receive_heights s)" "executor (receive_heights s) = executor s"
    "handed (receive_heights s) = handed s" "target s \<le> target (receive_heights s)"
proof -
  show "executor (receive_heights s) = executor s" "handed (receive_heights s) = handed s"
    by (simp_all add: receive_heights_def split: list.splits)
  have "run_ok next_of ex_ok P (receive_heights s) \<and> target s \<le> target (receive_heights s)"
  proof (cases "incoming s")
    case (Cons hs rest)
    then show ?thesis
      using assms observed_heights[of hs "status s"] by (simp add: run_ok_def receive_heights_def target_def)
  qed (use assms in \<open>simp add: receive_heights_def\<close>)
  then show "run_ok next_of ex_ok P (receive_heights s)" "target s \<le> target (receive_heights s)" by simp_all
qed

context block_executor
begin

lemma execute_one:
  assumes "run_ok next_of ex_ok P s" "execute_and_commit_block exec b (receive_heights s) = (s', r)"
  shows "run_ok next_of ex_ok P s'" "target s \<le> target s'" "handed s' = handed s @ [b]"
    "r = Inr () \<Longrightarrow> next_of (executor s') = next_of (executor s) + 1 \<and> unat (sealed_height b) = next_of (executor s)"
    "r \<noteq> Inr () \<Longrightarrow> next_of (executor s') = next_of (executor s)"
proof -
  note rcv = receive_heights_ok[OF assms(1)]
  obtain ex x where e: "exec (executor s) b = (ex, x)" by fastforce
  have inv: "ex_ok (executor s)" using assms(1) by (simp add: run_ok_def)
  show "handed s' = handed s @ [b]"
    using assms(2) e rcv by (auto simp: execute_and_commit_block_def split: sum.splits)
  have "run_ok next_of ex_ok P s' \<and> target s \<le> target s'
    \<and> (r = Inr () \<longrightarrow> next_of (executor s') = next_of (executor s) + 1 \<and> unat (sealed_height b) = next_of (executor s))
    \<and> (r \<noteq> Inr () \<longrightarrow> next_of (executor s') = next_of (executor s))"
  proof (cases x)
    case (Inl err)
    then show ?thesis
      using assms(2) e rcv exec_error[OF inv e[unfolded Inl]]
      by (auto simp: execute_and_commit_block_def run_ok_def target_def)
  next
    case (Inr u)
    note ok = exec_ok[OF inv e[unfolded Inr]]
    let ?st = "status (receive_heights s)"
    have st: "status_ok ?st" "fst (progress_of ?st) = next_of (executor s)"
      using rcv(1,2) by (simp_all add: run_ok_def)
    have "progress_of (state_commit (sealed_height b) ?st) = (next_of (executor s) + 1, max (snd (progress_of ?st)) (next_of (executor s) + 1))"
      "status_ok (state_commit (sealed_height b) ?st)"
      using progress_commit[OF st(1), of "sealed_height b"] ok st(2) by (cases "progress_of ?st"; simp)+
    then show ?thesis
      using assms(2) e Inr rcv ok by (auto simp: execute_and_commit_block_def run_ok_def target_def)
  qed
  then show "run_ok next_of ex_ok P s'" "target s \<le> target s'"
    "r = Inr () \<Longrightarrow> next_of (executor s') = next_of (executor s) + 1 \<and> unat (sealed_height b) = next_of (executor s)"
    "r \<noteq> Inr () \<Longrightarrow> next_of (executor s') = next_of (executor s)" by simp_all
qed

lemma run_ok_remove: "run_ok next_of ex_ok P s \<Longrightarrow> run_ok next_of ex_ok P (s\<lparr>cache := remove_element h (cache s)\<rparr>)"
  by (simp add: run_ok_def cache_ok_remove)

lemma execute_batch_ok:
  "run_ok next_of ex_ok P s \<Longrightarrow> execute_batch exec bs s = (s', n) \<Longrightarrow>
   run_ok next_of ex_ok P s' \<and> target s \<le> target s' \<and> next_of (executor s') = next_of (executor s) + n
   \<and> n \<le> length bs \<and> (\<forall>i<n. unat (sealed_height (bs ! i)) = next_of (executor s) + i)
   \<and> (\<exists>k. handed s' = handed s @ take k bs)"
proof (induction bs arbitrary: s n)
  case Nil
  then show ?case by simp
next
  case (Cons b bs)
  obtain s1 r where 1: "execute_and_commit_block exec b (receive_heights s) = (s1, r)" by fastforce
  note one = execute_one[OF Cons.prems(1) 1]
  let ?s2 = "s1\<lparr>cache := remove_element (sealed_height b) (cache s1)\<rparr>"
  have s2: "run_ok next_of ex_ok P ?s2" using run_ok_remove[OF one(1)] .
  show ?case
  proof (cases r)
    case (Inl e)
    then have "s' = ?s2" "n = 0" using Cons.prems(2) 1 by simp_all
    then show ?thesis using one s2 Inl by (auto simp: target_def intro: exI[of _ 1])
  next
    case (Inr u)
    then obtain m where m: "execute_batch exec bs ?s2 = (s', m)" "n = Suc m"
      using Cons.prems(2) 1 by (auto simp: apsnd_def map_prod_def split: prod.splits)
    note IH = Cons.IH[OF s2 m(1)]
    from IH obtain k where k: "handed s' = handed ?s2 @ take k bs" by blast
    have "unat (sealed_height ((b # bs) ! i)) = next_of (executor s) + i" if "i < n" for i
      using that IH one(4) Inr m(2) by (cases i) auto
    moreover have "\<exists>k. handed s' = handed s @ take k (b # bs)"
      using k one(3) by (intro exI[of _ "Suc k"]) simp
    ultimately show ?thesis using IH one Inr m(2) by (auto simp: target_def)
  qed
qed

lemma run_stream_ok:
  "run_ok next_of ex_ok P s \<Longrightarrow> cache_ok P cached0 \<Longrightarrow> \<forall>c\<in>set cs. chunk_ok (map_of cached0) k z c \<Longrightarrow>
   run_stream P exec cs s = (s', n) \<Longrightarrow>
   run_ok next_of ex_ok P s' \<and> target s \<le> target s' \<and> next_of (executor s') = next_of (executor s) + n
   \<and> (n = 0 \<or> next_of (executor s') \<le> z)
   \<and> (\<exists>new. handed s' = handed s @ new \<and> (\<forall>b\<in>set new. block_checked P b \<and> unat (sealed_height b) < z))"
proof (induction cs arbitrary: s n)
  case (Cons c cs)
  obtain batch cached' rep where f: "fetch_chunk P c (cache s) = (batch, cached', rep)" by (metis prod_cases3)
  let ?s1 = "s\<lparr>cache := cached', reports := reports s @ rep\<rparr>"
  obtain s2 m where e: "execute_batch exec (results batch) ?s1 = (s2, m)" by fastforce
  have c: "chunk_ok (map_of cached0) k z c" and cached: "cache_ok P (cache s)"
    using Cons.prems(1,3) by (simp_all add: run_ok_def)
  note fc = fetch_chunk_ok[OF cached Cons.prems(2) c f]
  have "run_ok next_of ex_ok P ?s1" using Cons.prems(1) fc by (simp add: run_ok_def)
  note b = execute_batch_ok[OF this e]
  have low: "unat (sealed_height x) < z" if "x \<in> set (results batch)" for x
    using in_order_le[of sealed_height "chunk_range c" "results batch" x] fc that c
    by (auto simp: chunk_ok_def word_less_nat_alt)
  have top: "m = 0 \<or> next_of (executor s) + m \<le> z"
  proof (cases "m = 0")
    case False
    have "m - 1 < length (results batch)" "unat (sealed_height (results batch ! (m - 1))) = next_of (executor s) + (m - 1)"
      using b False by auto
    then show ?thesis using low[of "results batch ! (m - 1)"] False by simp
  qed simp
  from b obtain j where j: "handed s2 = handed s @ take j (results batch)" by auto
  have new: "\<forall>x\<in>set (take j (results batch)). block_checked P x \<and> unat (sealed_height x) < z"
    using fc low by (auto dest: in_set_takeD)
  show ?case
  proof (cases "m < range_len (batch_range batch)")
    case True
    then have "s' = s2" "n = m" using Cons.prems(4) f e by simp_all
    then show ?thesis using b top j new by (auto simp: target_def)
  next
    case False
    let ?s3 = "s2\<lparr>reports := reports s2 @ report_peer (peer batch) SuccessfulBlockImport\<rparr>"
    obtain n' where r: "run_stream P exec cs ?s3 = (s', n')" "n = m + n'"
      using Cons.prems(4) f e False by (auto simp: apsnd_def map_prod_def split: prod.splits)
    have "run_ok next_of ex_ok P ?s3" using b by (simp add: run_ok_def)
    moreover have "\<forall>c\<in>set cs. chunk_ok (map_of cached0) k z c" using Cons.prems(3) by simp
    ultimately
    have IH: "run_ok next_of ex_ok P s' \<and> target ?s3 \<le> target s' \<and> next_of (executor s') = next_of (executor ?s3) + n'
      \<and> (n' = 0 \<or> next_of (executor s') \<le> z)
      \<and> (\<exists>new. handed s' = handed ?s3 @ new \<and> (\<forall>b\<in>set new. block_checked P b \<and> unat (sealed_height b) < z))"
      by (rule Cons.IH[OF _ Cons.prems(2) _ r(1)])
    then obtain new' where "handed s' = handed s @ take j (results batch) @ new'"
      "\<forall>b\<in>set new'. block_checked P b \<and> unat (sealed_height b) < z" using j by auto
    then have "\<exists>new. handed s' = handed s @ new \<and> (\<forall>b\<in>set new. block_checked P b \<and> unat (sealed_height b) < z)"
      using new by (intro exI[of _ "take j (results batch) @ new'"]) auto
    then show ?thesis using IH b top r(2) unfolding target_def by fastforce
  qed
qed simp

lemma import_inner_ok:
  assumes s: "run_ok next_of ex_ok P s" "process_range (status s) = Some (a, b)" "b < u_max" "0 < batch_size"
    and r: "import_inner P exec batch_size s = (s', r)"
  shows "run_ok next_of ex_ok P s' \<and> next_of (executor s) = unat a \<and> next_of (executor s) \<le> next_of (executor s')
    \<and> next_of (executor s') \<le> unat b + 1 \<and> (r = Inr () \<longleftrightarrow> next_of (executor s') = unat b + 1)
    \<and> (r \<noteq> Inr () \<longrightarrow> process_range (status s') = None)
    \<and> (\<exists>new. handed s' = handed s @ new \<and> (\<forall>x\<in>set new. block_checked P x \<and> sealed_height x \<le> b))"
proof -
  have st: "status_ok (status s)" "cache_ok P (cache s)" using s(1) by (simp_all add: run_ok_def)
  have ab: "a \<le> b" "next_of (executor s) = unat a" "target s = unat b + 1"
    using process_range_progress[OF st(1)] s(1,2) by (simp_all add: run_ok_def target_def)
  obtain cs s1 n where cs_def: "cs = get_chunks (a, b) batch_size (cache s)" and l: "run_stream P exec cs s = (s1, n)"
    by fastforce
  have "\<forall>c\<in>set cs. chunk_ok (map_of (cache s)) (unat batch_size) (unat b + 1) c"
    unfolding cs_def using st(2) by (intro get_chunks_ok[OF _ ab(1) s(3,4)]) (simp add: cache_ok_def)
  note run = run_stream_ok[OF s(1) st(2) this l]
  have bound: "next_of (executor s1) \<le> unat b + 1"
    using run ab by (auto simp: word_le_nat_alt)
  have new: "\<exists>new. handed s1 = handed s @ new \<and> (\<forall>x\<in>set new. block_checked P x \<and> sealed_height x \<le> b)"
    using run by (auto simp: word_le_nat_alt less_Suc_eq_le)
  show ?thesis
  proof (cases "n < unat b + 1 - unat a")
    case False
    then have "s' = s1" "r = Inr ()" using r l s(2) by (simp_all add: import_inner_def launch_stream_def cs_def)
    then show ?thesis using run bound new ab False by auto
  next
    case True
    let ?inc = "(sat_add a (of_nat n), b)"
    have s': "s' = s1\<lparr>status := failed_to_process ?inc (status s1)\<rparr>" "r = Inl ?inc"
      using r l s(2) True by (simp_all add: import_inner_def launch_stream_def cs_def Let_def)
    have "unat (of_nat n :: u32) = n" using True unat_less_pow[of b] by (simp add: unat_of_nat)
    then have inc: "unat (sat_add a (of_nat n)) = unat a + n"
      using True unat_less_pow[of b] by (simp add: sat_simps)
    have st1: "status_ok (status s1)" "progress_of (status s1) = (unat a + n, target s1)"
      using run ab by (auto simp: run_ok_def target_def prod_eq_iff)
    have below: "unat a + n \<le> unat b" "unat a + n < target s1" using True run[THEN conjunct2, THEN conjunct1] ab(3) by linarith+
    then have p': "progress_of (status s') = (unat a + n, unat a + n)" "status_ok (status s')"
      using progress_failed[OF st1(1), of "fst ?inc" b] inc unfolding s'(1) st1(2) by simp_all
    then have "process_range (status s') = None"
      using process_range_progress[OF p'(2)] by (auto simp: word_le_nat_alt split: option.splits)
    moreover have "run_ok next_of ex_ok P s'" using run p' ab unfolding s'(1) by (simp add: run_ok_def)
    ultimately show ?thesis using run bound new ab True s' by auto
  qed
qed

end

text \<open>C4. An import and the executor.  With an executor that imports consecutive heights only, an import of
  the range of the status keeps the status at the height of the executor, also while new heights arrive.
  The executor ends between its old height and the end of the range; the import reports success exactly when
  it reached the end; after a failure nothing is left to process until a new height is observed.  Every
  block that was handed to the executor has a header that passed the consensus check and the transactions
  that its header commits to, and is not above the end of the range.\<close>

theorem import_follows_executor:
  assumes "block_executor exec next_of ex_ok"
    and "run_ok next_of ex_ok P s" "process_range (status s) = Some (a, b)" "b < u_max" "0 < batch_size"
    and "import_inner P exec batch_size s = (s', r)"
  shows "run_ok next_of ex_ok P s' \<and> next_of (executor s) = unat a \<and> next_of (executor s) \<le> next_of (executor s')
    \<and> next_of (executor s') \<le> unat b + 1 \<and> (r = Inr () \<longleftrightarrow> next_of (executor s') = unat b + 1)
    \<and> (r \<noteq> Inr () \<longrightarrow> process_range (status s') = None)
    \<and> (\<exists>new. handed s' = handed s @ new \<and> (\<forall>x\<in>set new. block_checked P x \<and> sealed_height x \<le> b))"
  using block_executor.import_inner_ok[OF assms] .

section \<open>Imports that succeed\<close>

text \<open>A chain that every peer serves in full, a cache of headers and blocks of the chain, and an executor that
  accepts a block whenever it is in a good state at the height of the block, and is in a good state again.\<close>

definition honest_ports ::
    "'p \<Rightarrow> (u32 \<Rightarrow> ('tx, 'sig) sealed_block) \<Rightarrow> nat \<Rightarrow> ('p, 'tx, 'sig) sync_ports \<Rightarrow> bool" where
  "honest_ports p chain bound P =
     ((\<forall>r. unat (snd r) \<le> bound \<longrightarrow>
        get_sealed_block_headers_port P r = Some (p, Some (map (header_of_block \<circ> chain) (heights_of r)))
        \<and> get_transactions_port P r = Some (p, Some (map (blk_transactions \<circ> entity \<circ> chain) (heights_of r)))
        \<and> (\<forall>q. get_transactions_from_peer P q r = Some (Some (map (blk_transactions \<circ> entity \<circ> chain) (heights_of r)))))
      \<and> (\<forall>h. unat h < bound \<longrightarrow> sealed_height (chain h) = h \<and> block_checked P (chain h)))"

definition cache_from :: "(u32 \<Rightarrow> ('tx, 'sig) sealed_block) \<Rightarrow> ('tx, 'sig) cache \<Rightarrow> bool" where
  "cache_from chain cached =
     (\<forall>(h, d)\<in>set cached. d = CachedHeader (header_of_block (chain h)) \<or> d = CachedBlock (chain h))"

definition accepts :: "('tx, 'sig, 'ex, 'e) execute \<Rightarrow> ('ex \<Rightarrow> nat) \<Rightarrow> ('ex \<Rightarrow> bool) \<Rightarrow> ('tx, 'sig) sealed_block \<Rightarrow> bool" where
  "accepts exec next_of good b =
     (\<forall>ex. good ex \<longrightarrow> next_of ex = unat (sealed_height b) \<longrightarrow> (\<exists>ex'. exec ex b = (ex', Inr ()) \<and> good ex'))"

lemma length_heights_of: "length (heights_of r) = range_len r"
  by (simp add: heights_of_def range_len_def)

lemma heights_of_bounds: "h \<in> set (heights_of r) \<Longrightarrow> unat h < unat (snd r)"
  using unat_less_pow[of "snd r"] by (auto simp: heights_of_def unat_of_nat)

lemma unat_of_nat_le: "n \<le> unat (x :: u32) \<Longrightarrow> unat (of_nat n :: u32) = n"
  using unat_less_pow[of x] by (simp add: unat_of_nat)

lemma nth_heights_of: "i < range_len r \<Longrightarrow> unat (heights_of r ! i) = unat (fst r) + i"
  using unat_less_pow[of "snd r"] unat_of_nat_le[of "unat (fst r) + i" "snd r"]
  by (simp add: heights_of_def range_len_def)

lemma attach_chain:
  "\<forall>h\<in>set hs. block_checked P (chain h) \<Longrightarrow>
   attach (fuel P) (zip (map (header_of_block \<circ> chain) hs) (map (blk_transactions \<circ> entity \<circ> chain) hs)) =
   (map chain hs, False)"
proof (induction hs)
  case (Cons h hs)
  obtain blk sl where c: "chain h = \<lparr>entity = BlockV1 blk, seal = sl\<rparr>"
    by (metis block.exhaust sealed.cases)
  with Cons show ?case by (auto simp: try_from_executed_def header_of_block_def block_checked_def)
qed simp

lemma takeWhile_heights:
  "\<forall>h\<in>set hs. hgt (f h) = h \<Longrightarrow> takeWhile (\<lambda>(x, e). hgt x = e) (zip (map f hs) hs) = zip (map f hs) hs"
  by (induction hs) auto

lemma honest_blocks:
  assumes "honest_ports p chain bound P" "unat (snd r) \<le> bound"
    and "peer b = None \<or> peer b = Some q" "batch_range b = r" "results b = map (header_of_block \<circ> chain) (heights_of r)"
  shows "results (fst (get_blocks P b)) = map chain (heights_of r)"
proof -
  have "\<forall>h\<in>set (heights_of r). block_checked P (chain h)"
    using assms(1,2) heights_of_bounds by (fastforce simp: honest_ports_def)
  note attached = attach_chain[OF this]
  have "get_transactions_from_peer P q r = Some (Some (map (blk_transactions \<circ> entity \<circ> chain) (heights_of r)))"
    "get_transactions_port P r = Some (p, Some (map (blk_transactions \<circ> entity \<circ> chain) (heights_of r)))"
    using assms(1,2) unfolding honest_ports_def by blast+
  with assms(3-5) attached show ?thesis by (auto simp: get_blocks_def get_transactions_def batch_new_def)
qed

lemma honest_blocks_of_headers:
  assumes "honest_ports p chain bound P" "unat (snd r) \<le> bound" "fst r < snd r"
    and "batch_range b = r" "results b = map (header_of_block \<circ> chain) (heights_of r)"
    and "blocks_of_headers P b cached = (batch, cached', rep)"
  shows "results batch = map chain (heights_of r)"
proof -
  have "results b \<noteq> []" using assms(3,5) by (simp add: heights_of_def word_less_nat_alt)
  moreover obtain q where "peer b = None \<or> peer b = Some q" by (cases "peer b") auto
  note honest_blocks[OF assms(1,2) this assms(4,5)]
  ultimately show ?thesis using assms(6) by (auto simp: blocks_of_headers_def Let_def split: if_splits prod.splits)
qed

lemma honest_headers:
  assumes "honest_ports p chain bound P" "unat (snd r) \<le> bound"
  defines "hs \<equiv> map (header_of_block \<circ> chain) (heights_of r)"
  shows "get_headers_batch P r = (batch_new (Some p) r hs, [])"
    "check_headers P (batch_new (Some p) r hs) = (batch_new (Some p) r hs, [])"
proof -
  have ok: "sealed_height (chain h) = h" "block_checked P (chain h)" if "h \<in> set (heights_of r)" for h
    using assms(1,2) heights_of_bounds[OF that] by (auto simp: honest_ports_def)
  have port: "get_sealed_block_headers_port P r = Some (p, Some hs)"
    using assms unfolding honest_ports_def by blast
  have "takeWhile (\<lambda>(h, e). sealed_header_height h = e) (zip hs (heights_of r)) = zip hs (heights_of r)"
    unfolding hs_def using ok(1) by (intro takeWhile_heights) (simp add: sealed_height_header)
  then show "get_headers_batch P r = (batch_new (Some p) r hs, [])"
    by (simp add: port get_headers_batch_def get_sealed_block_headers_def hs_def length_heights_of
        del: takeWhile_eq_all_conv)
  have "takeWhile (check_sealed_header P) hs = hs"
    using ok(2) by (auto simp: hs_def takeWhile_eq_all_conv block_checked_def)
  then show "check_headers P (batch_new (Some p) r hs) = (batch_new (Some p) r hs, [])"
    by (simp add: check_headers_def batch_new_def del: takeWhile_eq_all_conv)
qed

lemma cached_entries:
  "cache_from chain cached0 \<Longrightarrow> map Some es = map (map_of cached0) hs \<Longrightarrow>
   list_all2 (\<lambda>e h. e = CachedHeader (header_of_block (chain h)) \<or> e = CachedBlock (chain h)) es hs"
proof (induction es arbitrary: hs)
  case (Cons e es)
  then obtain h hs' where hs: "hs = h # hs'" "map_of cached0 h = Some e" by (cases hs) auto
  from map_of_SomeD[OF hs(2)] Cons show ?case by (auto simp: hs(1) cache_from_def)
qed simp

lemma cached_headers:
  "list_all2 (\<lambda>e h. e = CachedHeader (header_of_block (chain h)) \<or> e = CachedBlock (chain h)) (map CachedHeader xs) hs \<Longrightarrow>
   xs = map (header_of_block \<circ> chain) hs"
  by (induction xs arbitrary: hs) (auto simp: list_all2_Cons1)

lemma cached_blocks:
  "list_all2 (\<lambda>e h. e = CachedHeader (header_of_block (chain h)) \<or> e = CachedBlock (chain h)) (map CachedBlock xs) hs \<Longrightarrow>
   xs = map chain hs"
  by (induction xs arbitrary: hs) (auto simp: list_all2_Cons1)

lemma honest_fetch:
  assumes "honest_ports p chain bound P" "cache_from chain cached0" "chunk_ok (map_of cached0) k bound c"
    and "fetch_chunk P c cached = (batch, cached', rep)"
  shows "results batch = map chain (heights_of (chunk_range c))"
proof -
  have r: "unat (snd (chunk_range c)) \<le> bound" "fst (chunk_range c) < snd (chunk_range c)"
    using assms(3) by (simp_all add: chunk_ok_def)
  note entries = cached_entries[OF assms(2)]
  note blocks = honest_blocks_of_headers[OF assms(1) r]
  show ?thesis
  proof (cases c)
    case (NoneChunk x)
    define b where "b = batch_new (Some p) x (map (header_of_block \<circ> chain) (heights_of x))"
    have b: "batch_range b = chunk_range c" "results b = map (header_of_block \<circ> chain) (heights_of (chunk_range c))"
      using NoneChunk by (simp_all add: b_def batch_new_def)
    have "get_headers_batch P x = (b, [])" "check_headers P b = (b, [])"
      unfolding b_def using honest_headers[OF assms(1), of x] r(1) NoneChunk by simp_all
    with assms(4) NoneChunk obtain cached1 rep1 where "blocks_of_headers P b cached1 = (batch, cached', rep1)"
      by (auto simp: Let_def split: prod.splits)
    from blocks[OF b this] show ?thesis .
  next
    case (HeadersChunk b)
    then have "results b = map (header_of_block \<circ> chain) (heights_of (chunk_range c))"
      using assms(3) by (intro cached_headers[OF entries]) (simp add: chunk_ok_def)
    with blocks assms(4) HeadersChunk show ?thesis by simp
  next
    case (BlocksChunk b)
    then have "results b = map chain (heights_of (chunk_range c))"
      using assms(3) by (intro cached_blocks[OF entries]) (simp add: chunk_ok_def)
    with assms(4) BlocksChunk show ?thesis by simp
  qed
qed

context block_executor
begin

lemma execute_batch_all:
  "run_ok next_of ex_ok P s \<Longrightarrow> \<forall>b\<in>set bs. accepts exec next_of good b \<Longrightarrow> good (executor s) \<Longrightarrow>
   \<forall>i<length bs. unat (sealed_height (bs ! i)) = next_of (executor s) + i \<Longrightarrow>
   \<exists>s'. execute_batch exec bs s = (s', length bs) \<and> handed s' = handed s @ bs \<and> good (executor s')"
proof (induction bs arbitrary: s)
  case (Cons b bs)
  obtain s1 x where e: "execute_and_commit_block exec b (receive_heights s) = (s1, x)" by fastforce
  note one = execute_one[OF Cons.prems(1) e]
  have "unat (sealed_height b) = next_of (executor s)" using Cons.prems(4) by fastforce
  then obtain ex' where "exec (executor s) b = (ex', Inr ())" "good ex'"
    using Cons.prems(2,3) by (auto simp: accepts_def)
  then have x: "x = Inr ()" "good (executor s1)"
    using e receive_heights_ok(2)[OF Cons.prems(1)] by (auto simp: execute_and_commit_block_def)
  let ?s = "s1\<lparr>cache := remove_element (sealed_height b) (cache s1)\<rparr>"
  have "\<forall>i<length bs. unat (sealed_height (bs ! i)) = next_of (executor ?s) + i"
    using Cons.prems(4) one(4)[OF x(1)] by fastforce
  from Cons.IH[OF run_ok_remove[OF one(1)] _ _ this] Cons.prems(2) x(2) show ?case using e x(1) one(3) by auto
qed simp

lemma run_stream_all:
  assumes "honest_ports p chain bound P" "\<And>h. unat h < bound \<Longrightarrow> accepts exec next_of good (chain h)"
    and "cache_from chain cached0" "cache_ok P cached0"
  shows "run_ok next_of ex_ok P s \<Longrightarrow> good (executor s) \<Longrightarrow> contiguous (next_of (executor s)) cs z \<Longrightarrow>
    \<forall>c\<in>set cs. chunk_ok (map_of cached0) k bound c \<Longrightarrow>
    \<exists>s'. run_stream P exec cs s = (s', z - next_of (executor s)) \<and> next_of (executor s) \<le> z
      \<and> handed s' = handed s @ map (chain \<circ> of_nat) [next_of (executor s) ..< z]"
proof (induction cs arbitrary: s)
  case (Cons c cs)
  define r where "r = chunk_range c"
  have c: "chunk_ok (map_of cached0) k bound c" using Cons.prems(4) by simp
  have r: "fst r < snd r" "unat (snd r) \<le> bound" using c by (simp_all add: r_def chunk_ok_def)
  obtain batch cached' rep where f: "fetch_chunk P c (cache s) = (batch, cached', rep)" by (metis prod_cases3)
  let ?s1 = "s\<lparr>cache := cached', reports := reports s @ rep\<rparr>" and ?bs = "map chain (heights_of r)"
  have "cache_ok P (cache s)" using Cons.prems(1) by (simp add: run_ok_def)
  note fc = fetch_chunk_ok[OF this assms(4) c f]
  have res: "results batch = ?bs" using honest_fetch[OF assms(1,3) c f] by (simp add: r_def)
  have ok1: "run_ok next_of ex_ok P ?s1" using Cons.prems(1) fc by (simp add: run_ok_def)
  have n: "unat (fst r) = next_of (executor s)" using Cons.prems(3) by (simp add: r_def)
  have hs: "unat h < bound" if "h \<in> set (heights_of r)" for h using heights_of_bounds[OF that] r(2) by simp
  have acc: "\<forall>b\<in>set ?bs. accepts exec next_of good b" using assms(2) hs by simp
  have hgt: "sealed_height (chain h) = h" if "h \<in> set (heights_of r)" for h
    using assms(1) hs[OF that] by (simp add: honest_ports_def)
  have "\<forall>i<length ?bs. unat (sealed_height (?bs ! i)) = next_of (executor ?s1) + i"
    using n by (simp add: hgt length_heights_of nth_heights_of)
  from execute_batch_all[where good = good, OF ok1 acc _ this] Cons.prems(2) obtain s2 where
    e: "execute_batch exec ?bs ?s1 = (s2, range_len r)" "handed s2 = handed s @ ?bs" "good (executor s2)"
    by (auto simp: length_heights_of)
  note b = execute_batch_ok[OF ok1 e(1)]
  let ?s3 = "s2\<lparr>reports := reports s2 @ report_peer (peer batch) SuccessfulBlockImport\<rparr>"
  have ok3: "run_ok next_of ex_ok P ?s3" "good (executor ?s3)" using b e(3) by (simp_all add: run_ok_def)
  have n3: "next_of (executor ?s3) = unat (snd r)"
    using b n r(1) by (simp add: range_len_def word_less_nat_alt)
  then have "contiguous (next_of (executor ?s3)) cs z" using Cons.prems(3) by (simp add: r_def)
  from Cons.IH[OF ok3 this] Cons.prems(4)
  obtain s' where IH: "run_stream P exec cs ?s3 = (s', z - unat (snd r))" "unat (snd r) \<le> z"
    "handed s' = handed s @ ?bs @ map (chain \<circ> of_nat) [unat (snd r) ..< z]" unfolding n3 using e(2) by auto
  have "batch_range batch = r" using fc by (simp add: r_def)
  then have "run_stream P exec (c # cs) s = (s', range_len r + (z - unat (snd r)))"
    using f e(1) res IH(1) by simp
  moreover have "range_len r + (z - unat (snd r)) = z - next_of (executor s)" "next_of (executor s) \<le> z"
    using r(1) IH(2) n by (simp_all add: range_len_def word_less_nat_alt)
  moreover have "[next_of (executor s) ..< z] = [unat (fst r) ..< unat (snd r)] @ [unat (snd r) ..< z]"
    using r(1) IH(2) n by (metis le_add_diff_inverse less_imp_le_nat upt_add_eq_append word_less_nat_alt)
  ultimately show ?case using IH(3) by (auto simp: heights_of_def)
qed simp

end

text \<open>C13. Blocks that are available are imported.  When the cache has headers and blocks of a chain, with
  gaps in front of them that are multiples of the batch size, every peer serves the chain in full up to the
  end of the range, the checks pass on it and the executor accepts its blocks one after the other, the
  import succeeds and hands the blocks of the range to the executor, each one once and in order.\<close>

theorem available_range_is_imported:
  assumes "block_executor exec next_of ex_ok"
    and "run_ok next_of ex_ok P s" "process_range (status s) = Some (a, b)" "b < u_max" "0 < batch_size"
    and "cache_from chain (cache s)" "gaps_fit (unat batch_size) (unat a) (collect_cache_data (a, b) (cache s))"
    and "honest_ports p chain (unat b + 1) P"
    and "good (executor s)" "\<And>h. h \<le> b \<Longrightarrow> accepts exec next_of good (chain h)"
  shows "\<exists>s'. import_inner P exec batch_size s = (s', Inr ()) \<and> next_of (executor s') = unat b + 1
    \<and> handed s' = handed s @ map (chain \<circ> of_nat) [unat a ..< unat b + 1]"
proof -
  have ab: "a \<le> b" "next_of (executor s) = unat a"
    using process_range_progress[of "status s"] assms(2,3) by (simp_all add: run_ok_def)
  have cached: "cache_ok P (cache s)" using assms(2) by (simp add: run_ok_def)
  define cs :: "('e, 'b, 'c) cached_data_batch list" where cs: "cs = get_chunks (a, b) batch_size (cache s)"
  have "bt_ok (cache s)" using cached by (simp add: cache_ok_def)
  note loop = get_chunks_loop[OF this ab(1) assms(4,5) cs]
  have cont: "contiguous (next_of (executor s)) cs (unat b + 1)" using loop(3) ab(2) assms(7) by simp
  have acc: "accepts exec next_of good (chain h)" if "unat h < unat b + 1" for h
    using assms(10)[of h] that by (simp add: word_le_nat_alt)
  from block_executor.run_stream_all[OF assms(1,8) acc assms(6) cached assms(2,9) cont loop(1)] ab(2)
  obtain s' where s': "run_stream P exec cs s = (s', unat b + 1 - unat a)"
    "handed s' = handed s @ map (chain \<circ> of_nat) [unat a ..< unat b + 1]" by auto
  then have i: "import_inner P exec batch_size s = (s', Inr ())"
    using assms(3) cs by (simp add: import_inner_def launch_stream_def)
  with block_executor.import_inner_ok[OF assms(1-5) i] s'(2) show ?thesis by auto
qed

text \<open>Sample runs: a peer that serves a chain of blocks with two transactions each, to the importer of the
  in-memory database and to an executor that only counts.\<close>

definition sample_at :: "u32 \<Rightarrow> (u64, u64) sealed_block" where
  "sample_at h = \<lparr>entity = BlockV1 \<lparr>header =
       (case header_generate sample_lib
          (sample_partial\<lparr>p_consensus := (p_consensus sample_partial)\<lparr>height := h\<rparr>\<rparr>) [4, 5] [] 0 of Inr x \<Rightarrow> x),
       transactions = [4, 5]\<rparr>, seal = PoA \<lparr>signature = 0\<rparr>\<rparr>"

definition sample_peer :: "(nat, u64, u64) sync_ports" where
  "sample_peer =
     \<lparr>get_sealed_block_headers_port = (\<lambda>r. Some (1, Some (map (header_of_block \<circ> sample_at) (heights_of r)))),
      get_transactions_port = (\<lambda>r. Some (1, Some (map (blk_transactions \<circ> entity \<circ> sample_at) (heights_of r)))),
      get_transactions_from_peer = (\<lambda>p r. Some (Some (map (blk_transactions \<circ> entity \<circ> sample_at) (heights_of r)))),
      check_sealed_header_port = (\<lambda>_. Some True), fuel = sample_lib\<rparr>"

definition counting :: "(u64, u64, nat, unit) execute" where
  "counting n b = (if unat (sealed_height b) = n then (n + 1, Inr ()) else (n, Inl ()))"

definition sample_run :: "'ex \<Rightarrow> range_inclusive \<Rightarrow> (nat, u64, u64, 'ex) sync_run" where
  "sample_run ex r = \<lparr>status = Processing r, cache = [], executor = ex, reports = [], handed = [],
     incoming = [[IncomingObserved 9]]\<rparr>"

lemma sample_peer_honest: "honest_ports 1 sample_at bound sample_peer"
proof -
  have "sealed_height (sample_at h) = h \<and> block_checked sample_peer (sample_at h)" for h
  proof -
    let ?p = "sample_partial\<lparr>p_consensus := (p_consensus sample_partial)\<lparr>height := h\<rparr>\<rparr>"
    obtain x where x: "header_generate sample_lib ?p [4, 5] [] 0 = Inr x" by (simp add: header_generate_def)
    from header_generate_parts[OF x] have "validate_transactions sample_lib x [4, 5]" "hdr_height x = h"
      by (simp_all add: partial_of_header_def hdr_defs sample_partial_def)
    then show ?thesis
      by (simp add: sample_at_def x sealed_height_def block_checked_def check_sealed_header_def sample_peer_def)
  qed
  then show ?thesis by (simp add: honest_ports_def sample_peer_def)
qed

lemma sample_run_ok:
  "ex_ok ex \<Longrightarrow> next_of ex = unat a \<Longrightarrow> a \<le> b \<Longrightarrow> run_ok next_of ex_ok P (sample_run ex (a, b))"
  by (auto simp: run_ok_def sample_run_def cache_ok_def bt_ok_def range_is_empty_def)

interpretation counting: block_executor counting "\<lambda>n. n" "\<lambda>_. True"
  by unfold_locales (auto simp: counting_def split: if_splits)

lemma sample_at_ok: "sealed_height (sample_at h) = h" "block_checked sample_peer (sample_at h)"
  using sample_peer_honest[of "unat h + 1"] by (simp_all add: honest_ports_def)

lemma sample_cache_ok:
  assumes "sorted_wrt (<) (map fst cached)" "cache_from sample_at cached"
  shows "cache_ok sample_peer cached"
proof -
  have "entry_ok sample_peer e" if "e \<in> set cached" for e
    using assms(2) that sample_at_ok[of "fst e"]
    by (cases e) (auto simp: cache_from_def sealed_height_header block_checked_def)
  with assms(1) show ?thesis by (auto simp: cache_ok_def bt_ok_def)
qed

lemma sample_cached_run_ok:
  assumes "ex_ok ex" "next_of ex = unat a" "a \<le> b" "sorted_wrt (<) (map fst cached)" "cache_from sample_at cached"
  shows "run_ok next_of ex_ok sample_peer ((sample_run ex (a, b))\<lparr>cache := cached\<rparr>)"
  using sample_run_ok[where ex_ok = ex_ok and next_of = next_of, OF assms(1-3)] sample_cache_ok[OF assms(4,5)]
  by (simp add: run_ok_def)

lemma sample_importer_accepts:
  assumes "stage_height d = Some 1" "execute_and_commit sample_env (sample_importer d) sample_sealed = (I', Inr ())"
  shows "accepts (execute_and_commit sample_env) importer_next (\<lambda>I. importer_next I = 2 \<and> I = sample_importer d \<or> importer_next I = 3)
    (sample_at 2)"
proof -
  have "sample_at 2 = sample_sealed" by (simp add: sample_at_def sample_sealed_def sample_block_def sample_partial_def)
  moreover have "importer_started (sample_importer d)" "importer_next (sample_importer d) = 2"
    using assms(1) by (simp_all add: importer_started_def importer_next_def sample_importer_def)
  note sample_executor.exec_ok[OF this(1) assms(2)] this(2)
  ultimately show ?thesis using assms(2) sample_sealed_height by (auto simp: accepts_def)
qed

text \<open>The witness imports the next block of a database from a cached header with the block importer, and a
  longer range from a cache with a header and a block with the executor that counts.\<close>

theorem available_range_is_imported_witness:
  "(\<exists>d s'. import_inner sample_peer (execute_and_commit sample_env) 2
        ((sample_run (sample_importer d) (2, 2))\<lparr>cache := [(2, CachedHeader (header_of_block (sample_at 2)))]\<rparr>) = (s', Inr ())
      \<and> importer_next (executor s') = 3 \<and> handed s' = [sample_at 2])
    \<and> (\<exists>s'. import_inner sample_peer counting 2 ((sample_run 3 (3, 7))\<lparr>cache :=
          [(5, CachedHeader (header_of_block (sample_at 5))), (6, CachedBlock (sample_at 6))]\<rparr>) = (s', Inr ())
      \<and> executor s' = 8 \<and> handed s' = map sample_at [3, 4, 5, 6, 7])"
  (is "(\<exists>d s'. ?imported d s') \<and> ?counted")
proof
  obtain d I' where d: "stage_height d = Some 1"
    and c: "execute_and_commit sample_env (sample_importer d) sample_sealed = (I', Inr ())"
    by (rule sample_import_succeeds)
  let ?good = "\<lambda>I. importer_next I = 2 \<and> I = sample_importer d \<or> importer_next I = 3"
  let ?c = "[(2, CachedHeader (header_of_block (sample_at 2)))]"
  let ?s = "(sample_run (sample_importer d) (2, 2))\<lparr>cache := ?c\<rparr>"
  have n: "importer_started (sample_importer d)" "importer_next (sample_importer d) = unat (2 :: u32)"
    using d by (simp_all add: importer_started_def importer_next_def sample_importer_def)
  have from_chain: "cache_from sample_at ?c" by (simp add: cache_from_def)
  have s: "run_ok importer_next importer_started sample_peer ?s" using n from_chain by (simp add: sample_cached_run_ok)
  have acc: "accepts (execute_and_commit sample_env) importer_next ?good (sample_at h)" if "h \<le> 2" for h :: u32
  proof (cases "h = 2")
    case False
    with that have "unat h < 2" by (simp add: word_le_nat_alt word_unat_eq_iff)
    then show ?thesis by (auto simp: accepts_def sample_at_ok(1))
  qed (simp add: sample_importer_accepts[OF d c])
  have "\<exists>s'. ?imported d s'"
    using available_range_is_imported[where good = ?good and batch_size = 2 and a = 2 and b = 2,
        OF sample_executor.block_executor_axioms s _ _ _ _ _ sample_peer_honest _ acc] from_chain n
    by (auto simp: u_max_def sample_run_def range_is_empty_def collect_cache_data_def range_contains_def)
  then show "\<exists>d s'. ?imported d s'" by blast
next
  let ?c = "[(5, CachedHeader (header_of_block (sample_at 5))), (6, CachedBlock (sample_at 6))]"
  let ?s = "(sample_run (3 :: nat) (3, 7))\<lparr>cache := ?c\<rparr>"
  have from_chain: "cache_from sample_at ?c" by (simp add: cache_from_def)
  have s: "run_ok (\<lambda>n. n) (\<lambda>_. True) sample_peer ?s" using from_chain by (simp add: sample_cached_run_ok)
  have acc: "accepts counting (\<lambda>n. n) (\<lambda>_. True) (sample_at h)" for h
    by (simp add: accepts_def counting_def)
  show ?counted
    using available_range_is_imported[where good = "\<lambda>_. True" and batch_size = 2 and a = 3 and b = 7,
        OF counting.block_executor_axioms s _ _ _ _ _ sample_peer_honest _ acc] from_chain
    by (auto simp: u_max_def sample_run_def range_is_empty_def collect_cache_data_def range_contains_def upt_rec)
qed

theorem import_follows_executor_witness:
  "\<exists>d s' r. stage_height d = Some 1
    \<and> import_inner sample_peer (execute_and_commit sample_env) 2 (sample_run (sample_importer d) (2, 7)) = (s', r)
    \<and> 2 \<le> importer_next (executor s') \<and> importer_next (executor s') \<le> 8
    \<and> (r = Inr () \<longleftrightarrow> importer_next (executor s') = 8)"
proof -
  obtain d :: "memory_store database" where d: "stage_height d = Some 1" by (rule sample_chain) blast
  let ?s = "sample_run (sample_importer d) (2, 7)"
  obtain s' r where i: "import_inner sample_peer (execute_and_commit sample_env) 2 ?s = (s', r)" by fastforce
  have n: "importer_started (sample_importer d)" "importer_next (sample_importer d) = unat (2 :: u32)"
    using d by (simp_all add: importer_started_def importer_next_def sample_importer_def)
  have ok: "run_ok importer_next importer_started sample_peer ?s" using n by (simp add: sample_run_ok)
  have "process_range (status ?s) = Some (2, 7)" by (simp add: sample_run_def range_is_empty_def)
  from import_follows_executor[OF sample_executor.block_executor_axioms ok this _ _ i] d i
  show ?thesis by (auto simp: u_max_def sample_run_def n)
qed

end
