(* ===== verification/Executor_Types.thy ===== *)
theory Executor_Types
  imports Tables
begin

text \<open>
  The data of block execution: transactions with their inputs and outputs as the executor reads them, coins,
  messages and relayed transactions (\<^verbatim>\<open>src/crates/types/src/entities\<close>), the events, results and errors of the
  executor (\<^verbatim>\<open>src/crates/types/src/services/executor.rs\<close>) and the tables it works on.

  Of the types of \<open>fuel_tx\<close> and \<open>fuel_vm\<close> only what the executor matches on is spelled out; the remaining
  fields of an input, a transaction, a checked transaction or a receipt are one field of bytes, their
  serialized form, and an error of these crates is its text.  The functions of the two crates that the
  executor calls are the fields of the record \<open>vm_lib\<close>.
\<close>

section \<open>Transactions\<close>

record tx_pointer =
  pointer_height :: block_height
  pointer_index :: u16

definition default_pointer :: tx_pointer where
  "default_pointer = \<lparr>pointer_height = 0, pointer_index = 0\<rparr>"

definition zero_utxo :: utxo_id where
  "zero_utxo = \<lparr>utxo_tx_id = 0, output_index = 0\<rparr>"

record coin_input =
  in_utxo_id :: utxo_id
  in_owner :: bytes32
  in_amount :: u64
  in_asset_id :: bytes32
  in_tx_pointer :: tx_pointer
  in_coin_predicate_gas :: u64
  in_coin_rest :: bytes

record contract_input =
  ci_utxo_id :: utxo_id
  ci_balance_root :: bytes32
  ci_state_root :: bytes32
  ci_tx_pointer :: tx_pointer
  ci_contract_id :: bytes32

record message_input =
  in_sender :: bytes32
  in_recipient :: bytes32
  in_message_amount :: u64
  in_nonce :: bytes32
  in_data :: bytes
  in_message_predicate_gas :: u64
  in_message_rest :: bytes

datatype input =
    CoinSigned coin_input
  | CoinPredicate coin_input
  | ContractInput contract_input
  | MessageCoinSigned message_input
  | MessageCoinPredicate message_input
  | MessageDataSigned message_input
  | MessageDataPredicate message_input

record contract_output =
  co_input_index :: u16
  co_balance_root :: bytes32
  co_state_root :: bytes32

record coin_output =
  out_to :: bytes32
  out_amount :: u64
  out_asset_id :: bytes32

datatype tx_output =
    CoinOutput coin_output
  | ContractOutput contract_output
  | ChangeOutput coin_output
  | VariableOutput coin_output
  | ContractCreated bytes32 bytes32

record mint =
  mint_tx_pointer :: tx_pointer
  mint_input :: contract_input
  mint_output :: contract_output
  mint_amount :: u64
  mint_asset_id :: bytes32
  mint_gas_price :: u64

record chargeable =
  tx_inputs :: "input list"
  tx_outputs :: "tx_output list"
  tx_body :: bytes

datatype tx_kind = Script | Create | Upgrade | Upload | Blob

datatype transaction = Chargeable tx_kind chargeable | Mint mint

text \<open>\<open>Checked<Tx>\<close>: a transaction with its cached identifier and maximum gas.\<close>

record checked =
  checked_tx :: transaction
  checked_id :: bytes32
  checked_max_gas :: u64
  checked_rest :: bytes

datatype maybe_checked = CheckedTransaction checked u32 | UncheckedTransaction transaction

text \<open>The data of a message input, \<open>Input::input_data\<close>, and the gas of a predicate input.\<close>

fun input_data :: "input \<Rightarrow> bytes option" where
  "input_data (MessageDataSigned m) = Some (in_data m)"
| "input_data (MessageDataPredicate m) = Some (in_data m)"
| "input_data _ = None"

fun predicate_gas_used :: "input \<Rightarrow> u64 option" where
  "predicate_gas_used (CoinPredicate c) = Some (in_coin_predicate_gas c)"
| "predicate_gas_used (MessageCoinPredicate m) = Some (in_message_predicate_gas m)"
| "predicate_gas_used (MessageDataPredicate m) = Some (in_message_predicate_gas m)"
| "predicate_gas_used _ = None"

section \<open>Coins\<close>

record compressed_coin_v1 =
  cc_owner :: bytes32
  cc_amount :: u64
  cc_asset_id :: bytes32
  cc_tx_pointer :: tx_pointer

datatype compressed_coin = CoinV1 compressed_coin_v1

record coin =
  coin_utxo_id :: utxo_id
  coin_owner :: bytes32
  coin_amount :: u64
  coin_asset_id :: bytes32
  coin_tx_pointer :: tx_pointer

fun coin_uncompress :: "compressed_coin \<Rightarrow> utxo_id \<Rightarrow> coin" where
  "coin_uncompress (CoinV1 c) u =
     \<lparr>coin_utxo_id = u, coin_owner = cc_owner c, coin_amount = cc_amount c, coin_asset_id = cc_asset_id c,
      coin_tx_pointer = cc_tx_pointer c\<rparr>"

definition coin_compress :: "coin \<Rightarrow> compressed_coin" where
  "coin_compress c =
     CoinV1 \<lparr>cc_owner = coin_owner c, cc_amount = coin_amount c, cc_asset_id = coin_asset_id c,
       cc_tx_pointer = coin_tx_pointer c\<rparr>"

fun compressed_pointer :: "compressed_coin \<Rightarrow> tx_pointer" where
  "compressed_pointer (CoinV1 c) = cc_tx_pointer c"

fun coin_matches :: "compressed_coin \<Rightarrow> coin_input \<Rightarrow> bool" where
  "coin_matches (CoinV1 c) i =
     (in_owner i = cc_owner c \<and> in_amount i = cc_amount c \<and> in_asset_id i = cc_asset_id c)"

fun coin_matches_input :: "compressed_coin \<Rightarrow> input \<Rightarrow> bool option" where
  "coin_matches_input c (CoinSigned i) = Some (coin_matches c i)"
| "coin_matches_input c (CoinPredicate i) = Some (coin_matches c i)"
| "coin_matches_input c _ = None"

section \<open>Messages and relayed transactions\<close>

record message_v1 =
  sender :: bytes32
  recipient :: bytes32
  nonce :: bytes32
  message_amount :: u64
  message_data :: bytes
  message_da_height :: da_block_height

datatype message = MessageV1 message_v1

fun message_inner :: "message \<Rightarrow> message_v1" where
  "message_inner (MessageV1 m) = m"

definition message_matches :: "message \<Rightarrow> input \<Rightarrow> message_input \<Rightarrow> bool" where
  "message_matches m i x =
     (let v = message_inner m;
          expected_data = (if message_data v = [] then None else Some (message_data v)) in
      sender v = in_sender x \<and> recipient v = in_recipient x \<and> nonce v = in_nonce x
      \<and> message_amount v = in_message_amount x \<and> expected_data = input_data i)"

fun message_matches_input :: "message \<Rightarrow> input \<Rightarrow> bool option" where
  "message_matches_input m (MessageDataSigned x) = Some (message_matches m (MessageDataSigned x) x)"
| "message_matches_input m (MessageDataPredicate x) = Some (message_matches m (MessageDataPredicate x) x)"
| "message_matches_input m (MessageCoinSigned x) = Some (message_matches m (MessageCoinSigned x) x)"
| "message_matches_input m (MessageCoinPredicate x) = Some (message_matches m (MessageCoinPredicate x) x)"
| "message_matches_input m _ = None"

record relayed_transaction =
  rt_nonce :: bytes32
  rt_max_gas :: u64
  serialized_transaction :: bytes
  rt_da_height :: da_block_height

datatype relayer_event = MessageEvent message | TransactionEvent relayed_transaction

definition relayed_id :: "transaction fuel_lib \<Rightarrow> relayed_transaction \<Rightarrow> bytes32" where
  "relayed_id L t =
     hasher_digest L (word_bytes (rt_nonce t) @ word_bytes (rt_max_gas t) @ serialized_transaction t)"

section \<open>Contracts\<close>

record contract_utxo_info_v1 =
  info_utxo_id :: utxo_id
  info_tx_pointer :: tx_pointer

datatype contract_utxo_info = ContractUtxoInfoV1 contract_utxo_info_v1

fun utxo_info_inner :: "contract_utxo_info \<Rightarrow> contract_utxo_info_v1" where
  "utxo_info_inner (ContractUtxoInfoV1 i) = i"

definition default_utxo_info :: contract_utxo_info where
  "default_utxo_info = ContractUtxoInfoV1 \<lparr>info_utxo_id = zero_utxo, info_tx_pointer = default_pointer\<rparr>"

section \<open>Errors, events and results\<close>

datatype validity_error =
    CoinMismatch utxo_id
  | CoinDoesNotExist utxo_id
  | MessageSpendTooEarly bytes32
  | MessageMissing bytes32
  | MessageMismatch bytes32
  | ContractDoesNotExist bytes32
  | InvalidContractInputIndex utxo_id
  | Validation string

datatype executor_error =
    TransactionIdCollision bytes32
  | TooManyTransactionsInBlock
  | TooManyOutputs
  | OutputAlreadyExists
  | FeeOverflow
  | GasOverflow string u64 u64
  | TxSizeOverflow
  | MintMissing
  | MintHasUnexpectedIndex
  | MintIsNotLastTransaction
  | MintMismatch
  | CoinbaseCannotIncreaseBalance string
  | CoinbaseAmountMismatch
  | CoinbaseGasPriceMismatch
  | TransactionValidity validity_error
  | ExecutorStorage storage_error
  | RelayerError string
  | HeaderError block_header_error
  | VmExecution string bytes32
  | InvalidTransaction string
  | InvalidTransactionOutcome bytes32
  | BlockMismatch
  | ContractUtxoMissing bytes32
  | MessageDoesNotExist bytes32
  | ExecutingGenesisBlock
  | DaHeightExceededItsLimit
  | PreviousBlockIsNotFound
  | RelayerGivesIncorrectMessages
  | ConsensusParametersNotFound u32
  | TransactionExpired block_height block_height
  | OtherError string

datatype forced_failure =
    CodecError
  | CheckFailure string
  | InvalidTransactionType
  | ExecutionFailure executor_error
  | InsufficientMaxGas u64 u64

text \<open>A failed forced transaction carries its failure; the code carries the text of it.\<close>

datatype executor_event =
    MessageImported message
  | MessageConsumed message
  | CoinCreated coin
  | CoinConsumed coin
  | ForcedTransactionFailed bytes32 block_height forced_failure

text \<open>Receipts: the executor reads the gas of a script result and the message of a message output, and
  writes a panic receipt for a contract that is not among the inputs.\<close>

datatype receipt =
    ScriptResult u64
  | MessageOut bytes32
  | ContractNotInInputs bytes32
  | OtherReceipt bytes

fun receipt_message_id :: "receipt \<Rightarrow> bytes32 option" where
  "receipt_message_id (MessageOut i) = Some i"
| "receipt_message_id _ = None"

record execution_outcome =
  program_state :: "bytes option"
  receipts :: "receipt list"
  total_gas :: u64
  total_fee :: u64

datatype execution_result = Success execution_outcome | Failed execution_outcome

record execution_status =
  status_id :: bytes32
  status_result :: execution_result

fun result_outcome :: "execution_result \<Rightarrow> execution_outcome" where
  "result_outcome (Success r) = r"
| "result_outcome (Failed r) = r"

record execution_data =
  ed_coinbase :: u64
  ed_used_gas :: u64
  ed_used_size :: u32
  ed_tx_count :: u16
  ed_found_mint :: bool
  ed_message_ids :: "bytes32 list"
  ed_tx_status :: "execution_status list"
  ed_events :: "executor_event list"
  ed_changes :: changes
  ed_skipped :: "(bytes32 \<times> executor_error) list"
  ed_event_inbox_root :: bytes32

definition execution_data_new :: execution_data where
  "execution_data_new =
     \<lparr>ed_coinbase = 0, ed_used_gas = 0, ed_used_size = 0, ed_tx_count = 0, ed_found_mint = False,
      ed_message_ids = [], ed_tx_status = [], ed_events = [], ed_changes = [], ed_skipped = [],
      ed_event_inbox_root = 0\<rparr>"

definition push_event :: "executor_event \<Rightarrow> execution_data \<Rightarrow> execution_data" where
  "push_event e d = d\<lparr>ed_events := ed_events d @ [e]\<rparr>"

section \<open>Libraries\<close>

record consensus_parameters =
  block_gas_limit :: u64
  block_transaction_size_limit :: u64
  params_chain_id :: u64
  base_asset_id :: bytes32
  params_rest :: bytes

text \<open>The keys of contract storage that a run of the VM touches.\<close>

datatype contract_key = AssetKey bytes32 bytes32 | StateKey bytes32 bytes32

text \<open>What a run of the VM sees besides the transaction: whether it is a dry run, the system call switch, the
  header, the coinbase contract, the gas price and the parameters.\<close>

record vm_env =
  env_dry_run :: bool
  env_allow_syscall :: bool
  env_header :: partial_block_header
  env_coinbase :: bytes32
  env_gas_price :: u64
  env_params :: consensus_parameters

record vm_result =
  should_revert :: bool
  vm_state :: bytes
  vm_tx :: chargeable
  vm_receipts :: "receipt list"
  missing_contract_inputs :: "bytes32 list"

record 'a vm_run =
  vm_accesses :: "contract_key list"
  vm_changes :: changes
  vm_outcome :: "(string, 'a) result"

text \<open>The functions of \<open>fuel_tx\<close> and \<open>fuel_vm\<close>.  The VM reads storage through its contents only.\<close>

record vm_lib =
  into_checked_basic :: "consensus_parameters \<Rightarrow> block_height \<Rightarrow> transaction \<Rightarrow> (string, checked) result"
  into_checked_reusable_memory ::
    "consensus_parameters \<Rightarrow> block_height \<Rightarrow> store_map \<Rightarrow> transaction \<Rightarrow> (string, checked) result"
  check_predicates :: "consensus_parameters \<Rightarrow> bool \<Rightarrow> store_map \<Rightarrow> checked \<Rightarrow> (string, checked) result"
  check_signatures :: "u64 \<Rightarrow> checked \<Rightarrow> (string, checked) result"
  into_ready :: "consensus_parameters \<Rightarrow> u64 \<Rightarrow> block_height \<Rightarrow> checked \<Rightarrow> (string, checked) result"
  transact :: "vm_env \<Rightarrow> store_map \<Rightarrow> checked \<Rightarrow> vm_result vm_run"
  balance_increase :: "vm_env \<Rightarrow> store_map \<Rightarrow> bytes32 \<Rightarrow> bytes32 \<Rightarrow> u64 \<Rightarrow> unit vm_run"
  tx_max_gas :: "consensus_parameters \<Rightarrow> chargeable \<Rightarrow> u64"
  tx_min_gas :: "consensus_parameters \<Rightarrow> chargeable \<Rightarrow> u64"
  tx_max_fee_limit :: "chargeable \<Rightarrow> u64"
  tx_refund_fee :: "consensus_parameters \<Rightarrow> chargeable \<Rightarrow> u64 \<Rightarrow> u64 \<Rightarrow> u64 option"
  metered_bytes_size :: "chargeable \<Rightarrow> usize"
  tx_expiration :: "chargeable \<Rightarrow> block_height"
  transaction_from_bytes :: "bytes \<Rightarrow> transaction option"
  compute_message_id :: "bytes32 \<Rightarrow> bytes32 \<Rightarrow> bytes32 \<Rightarrow> u64 \<Rightarrow> bytes \<Rightarrow> bytes32"
  sha256 :: "bytes \<Rightarrow> bytes32"

section \<open>Tables\<close>

record exec_codecs =
  coin_codec :: "(compressed_coin \<Rightarrow> bytes) \<times> (bytes \<Rightarrow> compressed_coin option)"
  message_codec :: "(message \<Rightarrow> bytes) \<times> (bytes \<Rightarrow> message option)"
  utxo_info_codec :: "(contract_utxo_info \<Rightarrow> bytes) \<times> (bytes \<Rightarrow> contract_utxo_info option)"
  unit_codec :: "(unit \<Rightarrow> bytes) \<times> (bytes \<Rightarrow> unit option)"
  header_codec :: "(compressed_block \<Rightarrow> bytes) \<times> (bytes \<Rightarrow> compressed_block option)"
  params_codec :: "(consensus_parameters \<Rightarrow> bytes) \<times> (bytes \<Rightarrow> consensus_parameters option)"

definition ContractsState_column :: u32 where "ContractsState_column = 2"
definition ContractsLatestUtxo_column :: u32 where "ContractsLatestUtxo_column = 3"
definition ContractsAssets_column :: u32 where "ContractsAssets_column = 4"
definition Coins_column :: u32 where "Coins_column = 5"
definition Messages_column :: u32 where "Messages_column = 14"
definition ProcessedTransactions_column :: u32 where "ProcessedTransactions_column = 15"
definition ConsensusParametersVersions_column :: u32 where "ConsensusParametersVersions_column = 17"

definition Coins :: "exec_codecs \<Rightarrow> (utxo_id, compressed_coin) table" where
  "Coins P = \<lparr>tcolumn = Coins_column, encode_key = utxo_id_to_bytes, encode_value = fst (coin_codec P),
     decode_value = snd (coin_codec P)\<rparr>"

definition Messages :: "exec_codecs \<Rightarrow> (bytes32, message) table" where
  "Messages P = \<lparr>tcolumn = Messages_column, encode_key = word_bytes, encode_value = fst (message_codec P),
     decode_value = snd (message_codec P)\<rparr>"

definition ContractsLatestUtxo :: "exec_codecs \<Rightarrow> (bytes32, contract_utxo_info) table" where
  "ContractsLatestUtxo P = \<lparr>tcolumn = ContractsLatestUtxo_column, encode_key = word_bytes,
     encode_value = fst (utxo_info_codec P), decode_value = snd (utxo_info_codec P)\<rparr>"

definition ProcessedTransactions :: "exec_codecs \<Rightarrow> (bytes32, unit) table" where
  "ProcessedTransactions P = \<lparr>tcolumn = ProcessedTransactions_column, encode_key = word_bytes,
     encode_value = fst (unit_codec P), decode_value = snd (unit_codec P)\<rparr>"

definition StoredBlocks :: "exec_codecs \<Rightarrow> (block_height, compressed_block) table" where
  "StoredBlocks P = \<lparr>tcolumn = FuelBlocks_column, encode_key = primitive_encode,
     encode_value = fst (header_codec P), decode_value = snd (header_codec P)\<rparr>"

definition ConsensusParametersVersions :: "exec_codecs \<Rightarrow> (u32, consensus_parameters) table" where
  "ConsensusParametersVersions P = \<lparr>tcolumn = ConsensusParametersVersions_column,
     encode_key = primitive_encode, encode_value = fst (params_codec P), decode_value = snd (params_codec P)\<rparr>"

definition contract_key_bytes :: "bytes32 \<times> bytes32 \<Rightarrow> bytes" where
  "contract_key_bytes k = word_bytes (fst k) @ word_bytes (snd k)"

definition contract_key_decode :: "bytes \<Rightarrow> (bytes32 \<times> bytes32) option" where
  "contract_key_decode bs =
     (if length bs = 64 then Some (word_of_bytes (take 32 bs), word_of_bytes (drop 32 bs)) else None)"

definition ContractsAssets :: "(bytes32 \<times> bytes32, u64) table" where
  "ContractsAssets = \<lparr>tcolumn = ContractsAssets_column, encode_key = contract_key_bytes,
     encode_value = primitive_encode, decode_value = primitive_decode\<rparr>"

definition ContractsState :: "(bytes32 \<times> bytes32, bytes) table" where
  "ContractsState = \<lparr>tcolumn = ContractsState_column, encode_key = contract_key_bytes,
     encode_value = (\<lambda>v. v), decode_value = Some\<rparr>"

lemmas exec_tables = Coins_def Messages_def ContractsLatestUtxo_def ProcessedTransactions_def StoredBlocks_def
  ConsensusParametersVersions_def ContractsAssets_def ContractsState_def

lemmas exec_columns = ContractsState_column_def ContractsLatestUtxo_column_def ContractsAssets_column_def
  Coins_column_def Messages_column_def ProcessedTransactions_column_def ConsensusParametersVersions_column_def

end
