(* ===== verification/Executor_Tx.thy ===== *)
theory Executor_Tx
  imports Executor_Types
begin

text \<open>
  The execution of one transaction (\<^verbatim>\<open>src/crates/services/executor/src/executor.rs\<close>, with
  \<^verbatim>\<open>storage_access_recorder.rs\<close>, \<^verbatim>\<open>contract_state_hash.rs\<close> and \<^verbatim>\<open>refs/contract.rs\<close>), in the order of the code from
  the reads and writes of coins up to \<open>execute_transaction\<close>.

  The state of an execution is the storage transaction of the transaction, which is nested in that of the
  block, and the execution data, as they are after each step: a step that fails leaves what it has written
  so far.  The system calls of the VM, its memory, logging and the debug assertions are left out.
\<close>

section \<open>The executor\<close>

record 's executor_env =
  ex_kv :: "'s kv_inspect"
  ex_lib :: "transaction fuel_lib"
  ex_vm :: vm_lib
  ex_codecs :: exec_codecs
  consensus_params :: consensus_parameters
  forbid_fake_coins :: bool
  allow_syscall :: bool
  dry_run :: bool
  relayer_enabled :: bool
  get_events :: "da_block_height \<Rightarrow> (string, relayer_event list) result"

type_synonym 's tx_store = "'s in_memory_transaction in_memory_transaction"

record 's exec_state =
  xs_store :: "'s tx_store"
  xs_data :: execution_data

type_synonym ('s, 'a) exec = "'s exec_state \<times> (executor_error, 'a) result"

definition tx_level :: "'s executor_env \<Rightarrow> 's in_memory_transaction kv_inspect" where
  "tx_level E = tx_kv (ex_kv E)"

text \<open>The question mark operator: on an error the later steps are skipped.\<close>

definition and_then :: "'st \<times> ('e, 'a) result \<Rightarrow> ('st \<Rightarrow> 'a \<Rightarrow> 'st \<times> ('e, 'b) result) \<Rightarrow> 'st \<times> ('e, 'b) result" where
  "and_then r f = (case r of (s, Inl e) \<Rightarrow> (s, Inl e) | (s, Inr a) \<Rightarrow> f s a)"

definition res_then :: "('e, 'a) result \<Rightarrow> ('a \<Rightarrow> ('e, 'b) result) \<Rightarrow> ('e, 'b) result" where
  "res_then r f = (case r of Inl e \<Rightarrow> Inl e | Inr a \<Rightarrow> f a)"

definition map_err :: "('e \<Rightarrow> 'f) \<Rightarrow> ('e, 'a) result \<Rightarrow> ('f, 'a) result" where
  "map_err f r = (case r of Inl e \<Rightarrow> Inl (f e) | Inr a \<Rightarrow> Inr a)"

definition ok_or :: "'e \<Rightarrow> 'a option \<Rightarrow> ('e, 'a) result" where
  "ok_or e x = (case x of None \<Rightarrow> Inl e | Some a \<Rightarrow> Inr a)"

definition on_store :: "'s exec_state \<Rightarrow> 's tx_store \<times> 'a storage_result \<Rightarrow> ('s, 'a) exec" where
  "on_store s r = (s\<lparr>xs_store := fst r\<rparr>, map_err ExecutorStorage (snd r))"

definition push :: "executor_event \<Rightarrow> 's exec_state \<Rightarrow> 's exec_state" where
  "push e s = s\<lparr>xs_data := push_event e (xs_data s)\<rparr>"

section \<open>Coins\<close>

definition get_coin_or_default ::
    "'s executor_env \<Rightarrow> 's tx_store \<Rightarrow> coin_input \<Rightarrow> (executor_error, compressed_coin) result" where
  "get_coin_or_default E st i =
     (if forbid_fake_coins E
      then res_then (map_err ExecutorStorage (plain_get (tx_level E) (Coins (ex_codecs E)) st (in_utxo_id i)))
             (ok_or (TransactionValidity (CoinDoesNotExist (in_utxo_id i))))
      else Inr (CoinV1 \<lparr>cc_owner = in_owner i, cc_amount = in_amount i, cc_asset_id = in_asset_id i,
                        cc_tx_pointer = default_pointer\<rparr>))"

definition insert_coin ::
    "'s executor_env \<Rightarrow> block_height \<Rightarrow> utxo_id \<Rightarrow> coin_output \<Rightarrow> 's exec_state \<Rightarrow> ('s, unit) exec" where
  "insert_coin E block_height utxo_id dest s =
     (if 0 < out_amount dest
      then
        (let coin = CoinV1 \<lparr>cc_owner = out_to dest, cc_amount = out_amount dest, cc_asset_id = out_asset_id dest,
               cc_tx_pointer = \<lparr>pointer_height = block_height, pointer_index = ed_tx_count (xs_data s)\<rparr>\<rparr> in
         and_then (on_store s (plain_replace (tx_level E) (Coins (ex_codecs E)) (xs_store s) utxo_id coin))
           (\<lambda>s old. if old \<noteq> None then (s, Inl OutputAlreadyExists)
                    else (push (CoinCreated (coin_uncompress coin utxo_id)) s, Inr ())))
      else (s, Inr ()))"

definition insert_contract_utxo ::
    "'s executor_env \<Rightarrow> block_height \<Rightarrow> u16 \<Rightarrow> utxo_id \<Rightarrow> bytes32 \<Rightarrow> 's exec_state \<Rightarrow> ('s, unit) exec" where
  "insert_contract_utxo E block_height tx_idx utxo_id contract_id s =
     on_store s (plain_put (ContractsLatestUtxo (ex_codecs E)) (xs_store s) contract_id
       (ContractUtxoInfoV1 \<lparr>info_utxo_id = utxo_id,
          info_tx_pointer = \<lparr>pointer_height = block_height, pointer_index = tx_idx\<rparr>\<rparr>))"

definition nth_contract :: "input list \<Rightarrow> u16 \<Rightarrow> bytes32 option" where
  "nth_contract inputs i =
     (if unat i < length inputs
      then (case inputs ! unat i of ContractInput c \<Rightarrow> Some (ci_contract_id c) | _ \<Rightarrow> None)
      else None)"

definition persist_output ::
    "'s executor_env \<Rightarrow> block_height \<Rightarrow> u16 \<Rightarrow> utxo_id \<Rightarrow> input list \<Rightarrow> tx_output \<Rightarrow> 's exec_state \<Rightarrow> ('s, unit) exec" where
  "persist_output E block_height tx_idx utxo_id inputs out s =
     (case out of
        CoinOutput dest \<Rightarrow> insert_coin E block_height utxo_id dest s
      | ContractOutput c \<Rightarrow>
          (case nth_contract inputs (co_input_index c) of
             Some contract_id \<Rightarrow> insert_contract_utxo E block_height tx_idx utxo_id contract_id s
           | None \<Rightarrow> (s, Inl (TransactionValidity (InvalidContractInputIndex utxo_id))))
      | ChangeOutput dest \<Rightarrow> insert_coin E block_height utxo_id dest s
      | VariableOutput dest \<Rightarrow> insert_coin E block_height utxo_id dest s
      | ContractCreated contract_id _ \<Rightarrow> insert_contract_utxo E block_height tx_idx utxo_id contract_id s)"

fun persist_outputs ::
    "'s executor_env \<Rightarrow> block_height \<Rightarrow> u16 \<Rightarrow> bytes32 \<Rightarrow> input list \<Rightarrow> nat \<Rightarrow> tx_output list \<Rightarrow> 's exec_state
     \<Rightarrow> ('s, unit) exec" where
  "persist_outputs E block_height tx_idx txid inputs index [] s = (s, Inr ())"
| "persist_outputs E block_height tx_idx txid inputs index (out # outputs) s =
     (if 2 ^ 16 \<le> index then (s, Inl TooManyOutputs)
      else and_then
        (persist_output E block_height tx_idx \<lparr>utxo_tx_id = txid, output_index = of_nat index\<rparr> inputs out s)
        (\<lambda>s _. persist_outputs E block_height tx_idx txid inputs (Suc index) outputs s))"

definition persist_output_utxos ::
    "'s executor_env \<Rightarrow> block_height \<Rightarrow> bytes32 \<Rightarrow> input list \<Rightarrow> tx_output list \<Rightarrow> 's exec_state \<Rightarrow> ('s, unit) exec" where
  "persist_output_utxos E block_height txid inputs outputs s =
     persist_outputs E block_height (ed_tx_count (xs_data s)) txid inputs 0 outputs s"

definition spend_coin :: "'s executor_env \<Rightarrow> coin_input \<Rightarrow> 's exec_state \<Rightarrow> ('s, unit) exec" where
  "spend_coin E i s =
     and_then (on_store s (plain_take (tx_level E) (Coins (ex_codecs E)) (xs_store s) (in_utxo_id i)))
       (\<lambda>s taken.
          and_then (s, case taken of Some coin \<Rightarrow> Inr coin | None \<Rightarrow> get_coin_or_default E (xs_store s) i)
            (\<lambda>s coin. (push (CoinConsumed (coin_uncompress coin (in_utxo_id i))) s, Inr ())))"

definition spend_message :: "'s executor_env \<Rightarrow> bytes32 \<Rightarrow> 's exec_state \<Rightarrow> ('s, unit) exec" where
  "spend_message E n s =
     and_then (on_store s (plain_take (tx_level E) (Messages (ex_codecs E)) (xs_store s) n))
       (\<lambda>s taken. and_then (s, ok_or (MessageDoesNotExist n) taken)
          (\<lambda>s m. (push (MessageConsumed m) s, Inr ())))"

definition spend_input :: "'s executor_env \<Rightarrow> bool \<Rightarrow> input \<Rightarrow> 's exec_state \<Rightarrow> ('s, unit) exec" where
  "spend_input E reverted i s =
     (case i of
        CoinSigned c \<Rightarrow> spend_coin E c s
      | CoinPredicate c \<Rightarrow> spend_coin E c s
      | MessageDataSigned m \<Rightarrow> if reverted then (s, Inr ()) else spend_message E (in_nonce m) s
      | MessageDataPredicate m \<Rightarrow> if reverted then (s, Inr ()) else spend_message E (in_nonce m) s
      | MessageCoinSigned m \<Rightarrow> spend_message E (in_nonce m) s
      | MessageCoinPredicate m \<Rightarrow> spend_message E (in_nonce m) s
      | ContractInput _ \<Rightarrow> (s, Inr ()))"

fun spend_input_utxos :: "'s executor_env \<Rightarrow> bool \<Rightarrow> input list \<Rightarrow> 's exec_state \<Rightarrow> ('s, unit) exec" where
  "spend_input_utxos E reverted [] s = (s, Inr ())"
| "spend_input_utxos E reverted (i # inputs) s =
     and_then (spend_input E reverted i s) (\<lambda>s _. spend_input_utxos E reverted inputs s)"

section \<open>Checks of inputs\<close>

definition verify_coin ::
    "'s executor_env \<Rightarrow> 's tx_store \<Rightarrow> input \<Rightarrow> coin_input \<Rightarrow> (executor_error, unit) result" where
  "verify_coin E st i c =
     res_then (map_err ExecutorStorage (plain_get (tx_level E) (Coins (ex_codecs E)) st (in_utxo_id c)))
       (\<lambda>found. case found of
          Some coin \<Rightarrow>
            if coin_matches_input coin i = Some True then Inr ()
            else Inl (TransactionValidity (CoinMismatch (in_utxo_id c)))
        | None \<Rightarrow> Inl (TransactionValidity (CoinDoesNotExist (in_utxo_id c))))"

definition verify_message ::
    "'s executor_env \<Rightarrow> 's tx_store \<Rightarrow> da_block_height \<Rightarrow> input \<Rightarrow> message_input \<Rightarrow> (executor_error, unit) result" where
  "verify_message E st block_da_height i x =
     res_then (map_err ExecutorStorage (plain_get (tx_level E) (Messages (ex_codecs E)) st (in_nonce x)))
       (\<lambda>found. case found of
          Some m \<Rightarrow>
            if block_da_height < message_da_height (message_inner m)
            then Inl (TransactionValidity (MessageSpendTooEarly (in_nonce x)))
            else if message_matches_input m i = Some True then Inr ()
            else Inl (TransactionValidity (MessageMismatch (in_nonce x)))
        | None \<Rightarrow> Inl (TransactionValidity (MessageMissing (in_nonce x))))"

definition contains_key ::
    "'t kv_inspect \<Rightarrow> ('k, 'v) table \<Rightarrow> 't in_memory_transaction \<Rightarrow> 'k \<Rightarrow> bool storage_result" where
  "contains_key S T tx k = tx_exists S tx (encode_key T k) (tcolumn T)"

definition verify_input ::
    "'s executor_env \<Rightarrow> 's tx_store \<Rightarrow> da_block_height \<Rightarrow> input \<Rightarrow> (executor_error, unit) result" where
  "verify_input E st block_da_height i =
     (case i of
        CoinSigned c \<Rightarrow> verify_coin E st i c
      | CoinPredicate c \<Rightarrow> verify_coin E st i c
      | ContractInput c \<Rightarrow>
          res_then (map_err ExecutorStorage
              (contains_key (tx_level E) (ContractsLatestUtxo (ex_codecs E)) st (ci_contract_id c)))
            (\<lambda>found. if found then Inr () else Inl (TransactionValidity (ContractDoesNotExist (ci_contract_id c))))
      | MessageCoinSigned x \<Rightarrow> verify_message E st block_da_height i x
      | MessageCoinPredicate x \<Rightarrow> verify_message E st block_da_height i x
      | MessageDataSigned x \<Rightarrow> verify_message E st block_da_height i x
      | MessageDataPredicate x \<Rightarrow> verify_message E st block_da_height i x)"

fun verify_inputs_exist_and_values_match ::
    "'s executor_env \<Rightarrow> 's tx_store \<Rightarrow> da_block_height \<Rightarrow> input list \<Rightarrow> (executor_error, unit) result" where
  "verify_inputs_exist_and_values_match E st block_da_height [] = Inr ()"
| "verify_inputs_exist_and_values_match E st block_da_height (i # inputs) =
     res_then (verify_input E st block_da_height i)
       (\<lambda>_. verify_inputs_exist_and_values_match E st block_da_height inputs)"

section \<open>Contract storage\<close>

text \<open>\<open>ContractAccesses\<close> and \<open>ReadsPerContract\<close>; a set is an ordered map to unit.\<close>

record contract_accesses =
  ca_assets :: "(bytes32, unit) btree"
  ca_slots :: "(bytes32, unit) btree"

record contract_values =
  cv_assets :: "(bytes32, u64 option) btree"
  cv_slots :: "(bytes32, bytes option) btree"

type_synonym reads_per_contract = "(bytes32, contract_accesses) btree"
type_synonym values_per_contract = "(bytes32, contract_values) btree"

definition bt_get_or :: "'k \<Rightarrow> 'v \<Rightarrow> ('k, 'v) btree \<Rightarrow> 'v" where
  "bt_get_or k d t = (case map_of t k of None \<Rightarrow> d | Some v \<Rightarrow> v)"

definition no_accesses :: contract_accesses where
  "no_accesses = \<lparr>ca_assets = [], ca_slots = []\<rparr>"

definition no_values :: contract_values where
  "no_values = \<lparr>cv_assets = [], cv_slots = []\<rparr>"

fun mark :: "contract_key \<Rightarrow> reads_per_contract \<Rightarrow> reads_per_contract" where
  "mark (AssetKey c a) r =
     (let x = bt_get_or c no_accesses r in bt_insert c (x\<lparr>ca_assets := bt_insert a () (ca_assets x)\<rparr>) r)"
| "mark (StateKey c k) r =
     (let x = bt_get_or c no_accesses r in bt_insert c (x\<lparr>ca_slots := bt_insert k () (ca_slots x)\<rparr>) r)"

definition recorded :: "contract_key list \<Rightarrow> reads_per_contract" where
  "recorded ks = fold mark ks []"

fun read_values ::
    "('k \<Rightarrow> 'v option storage_result) \<Rightarrow> ('k, unit) btree \<Rightarrow> ('k, 'v option) btree storage_result" where
  "read_values get [] = Inr []"
| "read_values get ((k, _) # ks) =
     res_then (get k) (\<lambda>v. res_then (read_values get ks) (\<lambda>r. Inr ((k, v) # r)))"

fun values_before ::
    "'s executor_env \<Rightarrow> 's tx_store \<Rightarrow> reads_per_contract \<Rightarrow> values_per_contract storage_result" where
  "values_before E st [] = Inr []"
| "values_before E st ((c, x) # rest) =
     res_then (read_values (\<lambda>a. plain_get (tx_level E) ContractsAssets st (c, a)) (ca_assets x))
       (\<lambda>assets. res_then (read_values (\<lambda>k. plain_get (tx_level E) ContractsState st (c, k)) (ca_slots x))
          (\<lambda>slots. res_then (values_before E st rest)
             (\<lambda>r. Inr ((c, \<lparr>cv_assets = assets, cv_slots = slots\<rparr>) # r))))"

definition written :: "('k, 'v) table \<Rightarrow> write_operation \<Rightarrow> 'v option storage_result" where
  "written T operation =
     (case operation of
        Remove \<Rightarrow> Inr None
      | Insert bs \<Rightarrow> (case decode_value T bs of None \<Rightarrow> Inl codec_error | Some v \<Rightarrow> Inr (Some v)))"

fun add_assets :: "op_tree \<Rightarrow> values_per_contract \<Rightarrow> values_per_contract storage_result" where
  "add_assets [] r = Inr r"
| "add_assets ((key, operation) # rest) r =
     (case contract_key_decode key of
        None \<Rightarrow> Inl codec_error
      | Some (c, a) \<Rightarrow>
          res_then (written ContractsAssets operation)
            (\<lambda>v. let x = bt_get_or c no_values r in
                 add_assets rest (bt_insert c (x\<lparr>cv_assets := bt_insert a v (cv_assets x)\<rparr>) r)))"

fun add_slots :: "op_tree \<Rightarrow> values_per_contract \<Rightarrow> values_per_contract storage_result" where
  "add_slots [] r = Inr r"
| "add_slots ((key, operation) # rest) r =
     (case contract_key_decode key of
        None \<Rightarrow> Inl codec_error
      | Some (c, k) \<Rightarrow>
          res_then (written ContractsState operation)
            (\<lambda>v. let x = bt_get_or c no_values r in
                 add_slots rest (bt_insert c (x\<lparr>cv_slots := bt_insert k v (cv_slots x)\<rparr>) r)))"

definition finalize ::
    "'s executor_env \<Rightarrow> 's tx_store \<Rightarrow> contract_key list \<Rightarrow> changes
     \<Rightarrow> (values_per_contract \<times> values_per_contract) storage_result" where
  "finalize E st accesses ch =
     res_then (values_before E st (recorded accesses))
       (\<lambda>before. res_then (add_assets (hm_get_or ContractsAssets_column [] ch) [])
          (\<lambda>after. res_then (add_slots (hm_get_or ContractsState_column [] ch) after)
             (\<lambda>after. Inr (before, after))))"

definition compute_balances_hash :: "vm_lib \<Rightarrow> (bytes32, u64 option) btree \<Rightarrow> bytes32" where
  "compute_balances_hash V accessed =
     (if accessed = [] then 0
      else sha256 V (concat (map (\<lambda>(k, v). word_bytes k @
        (case v of Some x \<Rightarrow> 1 # word_bytes x | None \<Rightarrow> [0])) accessed)))"

definition compute_state_hash :: "vm_lib \<Rightarrow> (bytes32, bytes option) btree \<Rightarrow> bytes32" where
  "compute_state_hash V accessed =
     (if accessed = [] then 0
      else sha256 V (concat (map (\<lambda>(k, v). word_bytes k @
        (case v of Some x \<Rightarrow> 1 # word_bytes (of_nat (length x) :: u64) @ x | None \<Rightarrow> [0])) accessed)))"

definition validated_utxo :: "'s executor_env \<Rightarrow> 's tx_store \<Rightarrow> bytes32 \<Rightarrow> (executor_error, contract_utxo_info) result" where
  "validated_utxo E st contract_id =
     res_then (map_err ExecutorStorage (plain_get (tx_level E) (ContractsLatestUtxo (ex_codecs E)) st contract_id))
       (\<lambda>found. if forbid_fake_coins E then ok_or (ContractUtxoMissing contract_id) found
                else Inr (case found of None \<Rightarrow> default_utxo_info | Some i \<Rightarrow> i))"

definition compute_input ::
    "'s executor_env \<Rightarrow> 's tx_store \<Rightarrow> values_per_contract \<Rightarrow> input \<Rightarrow> (executor_error, input) result" where
  "compute_input E st r i =
     (case i of
        CoinSigned c \<Rightarrow> res_then (get_coin_or_default E st c)
          (\<lambda>coin. Inr (CoinSigned (c\<lparr>in_tx_pointer := compressed_pointer coin\<rparr>)))
      | CoinPredicate c \<Rightarrow> res_then (get_coin_or_default E st c)
          (\<lambda>coin. Inr (CoinPredicate (c\<lparr>in_tx_pointer := compressed_pointer coin\<rparr>)))
      | ContractInput c \<Rightarrow> res_then (validated_utxo E st (ci_contract_id c))
          (\<lambda>u. let for_contract = bt_get_or (ci_contract_id c) no_values r in
            Inr (ContractInput (c\<lparr>ci_utxo_id := info_utxo_id (utxo_info_inner u),
              ci_tx_pointer := info_tx_pointer (utxo_info_inner u),
              ci_balance_root := compute_balances_hash (ex_vm E) (cv_assets for_contract),
              ci_state_root := compute_state_hash (ex_vm E) (cv_slots for_contract)\<rparr>)))
      | _ \<Rightarrow> Inr i)"

fun compute_inputs ::
    "'s executor_env \<Rightarrow> 's tx_store \<Rightarrow> values_per_contract \<Rightarrow> input list \<Rightarrow> (executor_error, input list) result" where
  "compute_inputs E st r [] = Inr []"
| "compute_inputs E st r (i # inputs) =
     res_then (compute_input E st r i)
       (\<lambda>i'. res_then (compute_inputs E st r inputs) (\<lambda>is'. Inr (i' # is')))"

fun compute_state_of_not_utxo_outputs ::
    "vm_lib \<Rightarrow> bytes32 \<Rightarrow> input list \<Rightarrow> values_per_contract \<Rightarrow> tx_output list \<Rightarrow> (executor_error, tx_output list) result" where
  "compute_state_of_not_utxo_outputs V txid inputs r [] = Inr []"
| "compute_state_of_not_utxo_outputs V txid inputs r (out # outputs) =
     res_then
       (case out of
          ContractOutput c \<Rightarrow>
            (case nth_contract inputs (co_input_index c) of
               None \<Rightarrow> Inl (InvalidTransactionOutcome txid)
             | Some contract_id \<Rightarrow>
                 (let for_contract = bt_get_or contract_id no_values r in
                  Inr (ContractOutput (c\<lparr>co_balance_root := compute_balances_hash V (cv_assets for_contract),
                    co_state_root := compute_state_hash V (cv_slots for_contract)\<rparr>))))
        | _ \<Rightarrow> Inr out)
       (\<lambda>out'. res_then (compute_state_of_not_utxo_outputs V txid inputs r outputs) (\<lambda>os. Inr (out' # os)))"

section \<open>Running the VM\<close>

definition vm_env_of :: "'s executor_env \<Rightarrow> partial_block_header \<Rightarrow> bytes32 \<Rightarrow> u64 \<Rightarrow> vm_env" where
  "vm_env_of E hdr coinbase_contract_id gas_price =
     \<lparr>env_dry_run = dry_run E, env_allow_syscall = allow_syscall E, env_header = hdr,
      env_coinbase = coinbase_contract_id, env_gas_price = gas_price, env_params = consensus_params E\<rparr>"

fun set_predicate_gas :: "u64 \<Rightarrow> input \<Rightarrow> input option" where
  "set_predicate_gas g (CoinPredicate c) = Some (CoinPredicate (c\<lparr>in_coin_predicate_gas := g\<rparr>))"
| "set_predicate_gas g (MessageCoinPredicate m) = Some (MessageCoinPredicate (m\<lparr>in_message_predicate_gas := g\<rparr>))"
| "set_predicate_gas g (MessageDataPredicate m) = Some (MessageDataPredicate (m\<lparr>in_message_predicate_gas := g\<rparr>))"
| "set_predicate_gas g _ = None"

fun update_input_used_gas :: "bytes32 \<Rightarrow> u64 option list \<Rightarrow> input list \<Rightarrow> (executor_error, input list) result" where
  "update_input_used_gas txid (g # gs) (i # inputs) =
     res_then (case g of
         None \<Rightarrow> Inr i
       | Some gas_used \<Rightarrow> ok_or (InvalidTransactionOutcome txid) (set_predicate_gas gas_used i))
       (\<lambda>i'. res_then (update_input_used_gas txid gs inputs) (\<lambda>is'. Inr (i' # is')))"
| "update_input_used_gas txid _ inputs = Inr inputs"

text \<open>The contracts that a dry run misses make it reverted and add a receipt each.\<close>

definition vm_reverted :: "'s executor_env \<Rightarrow> vm_result \<Rightarrow> bool" where
  "vm_reverted E r = (should_revert r \<or> (dry_run E \<and> missing_contract_inputs r \<noteq> []))"

definition all_receipts :: "'s executor_env \<Rightarrow> vm_result \<Rightarrow> receipt list" where
  "all_receipts E r =
     vm_receipts r @ (if dry_run E then map ContractNotInInputs (missing_contract_inputs r) else [])"

definition commit_unless_reverted ::
    "bool \<Rightarrow> changes \<Rightarrow> values_per_contract \<Rightarrow> 's exec_state \<Rightarrow> ('s, values_per_contract) exec" where
  "commit_unless_reverted reverted ch after s =
     (if reverted then (s, Inr [])
      else and_then (on_store s (tx_commit_changes (xs_store s) ch)) (\<lambda>s _. (s, Inr after)))"

definition attempt_tx_execution_with_vm ::
    "'s executor_env \<Rightarrow> checked \<Rightarrow> chargeable \<Rightarrow> partial_block_header \<Rightarrow> bytes32 \<Rightarrow> u64 \<Rightarrow> 's exec_state
     \<Rightarrow> ('s, bool \<times> bytes \<times> chargeable \<times> receipt list) exec" where
  "attempt_tx_execution_with_vm E c tx hdr coinbase_contract_id gas_price s =
     (let V = ex_vm E; txid = checked_id c; gas = map predicate_gas_used (tx_inputs tx) in
      and_then (s, map_err InvalidTransaction (into_ready V (consensus_params E) gas_price (height (p_consensus hdr)) c))
      (\<lambda>s ready. let run = transact V (vm_env_of E hdr coinbase_contract_id gas_price)
                             (tx_get (tx_level E) (xs_store s)) ready in
      and_then (s, map_err (\<lambda>e. VmExecution e txid) (vm_outcome run))
      (\<lambda>s res. let reverted = vm_reverted E res in
      and_then (s, update_input_used_gas txid gas (tx_inputs (vm_tx res)))
      (\<lambda>s inputs1.
      and_then (s, map_err ExecutorStorage (finalize E (xs_store s) (vm_accesses run) (vm_changes run)))
      (\<lambda>s (before, after).
      and_then (s, compute_inputs E (xs_store s) before inputs1)
      (\<lambda>s inputs2.
      and_then (commit_unless_reverted reverted (vm_changes run) after s)
      (\<lambda>s after.
      and_then (s, compute_state_of_not_utxo_outputs V txid inputs2 after (tx_outputs (vm_tx res)))
      (\<lambda>s outputs2.
        (s, Inr (reverted, vm_state res, (vm_tx res)\<lparr>tx_inputs := inputs2, tx_outputs := outputs2\<rparr>,
                 all_receipts E res))))))))))"

section \<open>Fees and results\<close>

fun last_script_gas :: "receipt list \<Rightarrow> u64" where
  "last_script_gas [] = 0"
| "last_script_gas (r # rs) = (case r of ScriptResult g \<Rightarrow> g | _ \<Rightarrow> last_script_gas rs)"

definition total_fee_paid ::
    "'s executor_env \<Rightarrow> chargeable \<Rightarrow> receipt list \<Rightarrow> u64 \<Rightarrow> (executor_error, u64 \<times> u64) result" where
  "total_fee_paid E tx rs gas_price =
     (let V = ex_vm E; min_gas = tx_min_gas V (consensus_params E) tx; max_fee = tx_max_fee_limit V tx;
          gas = last_script_gas (rev rs) in
      res_then (ok_or FeeOverflow (tx_refund_fee V (consensus_params E) tx gas gas_price))
        (\<lambda>fee. res_then (ok_or (GasOverflow ''Total used gas overflowed.'' min_gas gas) (checked_add min_gas gas))
          (\<lambda>total. res_then (ok_or FeeOverflow (checked_sub max_fee fee)) (\<lambda>paid. Inr (total, paid)))))"

definition used_bytes :: "usize \<Rightarrow> u32" where
  "used_bytes n = (if n \<le> 4294967295 then ucast n else u_max)"

definition update_execution_data ::
    "'s executor_env \<Rightarrow> chargeable \<Rightarrow> receipt list \<Rightarrow> u64 \<Rightarrow> bool \<Rightarrow> bytes \<Rightarrow> bytes32 \<Rightarrow> execution_data
     \<Rightarrow> execution_data \<times> (executor_error, unit) result" where
  "update_execution_data E tx rs gas_price reverted state txid d =
     and_then (d, total_fee_paid E tx rs gas_price)
     (\<lambda>d (used_gas, tx_fee). let used_size = used_bytes (metered_bytes_size (ex_vm E) tx) in
     and_then (d, ok_or FeeOverflow (checked_add (ed_coinbase d) tx_fee))
     (\<lambda>d coinbase. let d = d\<lparr>ed_coinbase := coinbase\<rparr> in
     and_then (d, ok_or (GasOverflow ''Execution used gas overflowed.'' (ed_used_gas d) used_gas)
                    (checked_add (ed_used_gas d) used_gas))
     (\<lambda>d gas. let d = d\<lparr>ed_used_gas := gas\<rparr> in
     and_then (d, ok_or TxSizeOverflow (checked_add (ed_used_size d) used_size))
     (\<lambda>d size. let d = d\<lparr>ed_used_size := size\<rparr>;
          d = (if reverted then d
               else d\<lparr>ed_message_ids := ed_message_ids d @ List.map_filter receipt_message_id rs\<rparr>);
          outcome = \<lparr>program_state = Some state, receipts = rs, total_gas = used_gas, total_fee = tx_fee\<rparr> in
        (d\<lparr>ed_tx_status := ed_tx_status d @
            [\<lparr>status_id = txid, status_result = (if reverted then Failed outcome else Success outcome)\<rparr>]\<rparr>,
         Inr ())))))"

definition on_data ::
    "'s exec_state \<Rightarrow> execution_data \<times> (executor_error, 'a) result \<Rightarrow> ('s, 'a) exec" where
  "on_data s r = (s\<lparr>xs_data := fst r\<rparr>, snd r)"

section \<open>Transactions that pay for themselves\<close>

definition extra_tx_checks ::
    "'s executor_env \<Rightarrow> checked \<Rightarrow> partial_block_header \<Rightarrow> 's tx_store \<Rightarrow> (executor_error, checked) result" where
  "extra_tx_checks E c hdr st =
     res_then (map_err (\<lambda>e. TransactionValidity (Validation e))
        (check_predicates (ex_vm E) (consensus_params E) (allow_syscall E) (tx_get (tx_level E) st) c))
     (\<lambda>c. res_then (case checked_tx c of
            Chargeable _ tx \<Rightarrow>
              verify_inputs_exist_and_values_match E st (da_height (p_application hdr)) (tx_inputs tx)
          | Mint _ \<Rightarrow> Inr ())
     (\<lambda>_. map_err (\<lambda>e. TransactionValidity (Validation e))
        (check_signatures (ex_vm E) (params_chain_id (consensus_params E)) c)))"

definition chargeable_of :: "checked \<Rightarrow> chargeable" where
  "chargeable_of c =
     (case checked_tx c of
        Chargeable _ tx \<Rightarrow> tx
      | Mint _ \<Rightarrow> \<lparr>tx_inputs = [], tx_outputs = [], tx_body = []\<rparr>)"

definition execute_chargeable_transaction ::
    "'s executor_env \<Rightarrow> tx_kind \<Rightarrow> checked \<Rightarrow> partial_block_header \<Rightarrow> bytes32 \<Rightarrow> u64 \<Rightarrow> 's exec_state
     \<Rightarrow> ('s, transaction) exec" where
  "execute_chargeable_transaction E kind c hdr coinbase_contract_id gas_price s =
     (let txid = checked_id c in
      and_then (s, if forbid_fake_coins E then extra_tx_checks E c hdr (xs_store s) else Inr c)
      (\<lambda>s c.
      and_then (attempt_tx_execution_with_vm E c (chargeable_of c) hdr coinbase_contract_id gas_price s)
      (\<lambda>s (reverted, state, tx, rs).
      and_then (spend_input_utxos E reverted (tx_inputs tx) s)
      (\<lambda>s _.
      and_then (persist_output_utxos E (height (p_consensus hdr)) txid (tx_inputs tx) (tx_outputs tx) s)
      (\<lambda>s _.
      and_then (on_store s (plain_put (ProcessedTransactions (ex_codecs E)) (xs_store s) txid ()))
      (\<lambda>s _.
      and_then (on_data s (update_execution_data E tx rs gas_price reverted state txid (xs_data s)))
      (\<lambda>s _. (s, Inr (Chargeable kind tx)))))))))"

section \<open>The mint transaction\<close>

definition zero_contract_input :: "bytes32 \<Rightarrow> contract_input" where
  "zero_contract_input contract_id =
     \<lparr>ci_utxo_id = zero_utxo, ci_balance_root = 0, ci_state_root = 0, ci_tx_pointer = default_pointer,
      ci_contract_id = contract_id\<rparr>"

definition zero_contract_output :: contract_output where
  "zero_contract_output = \<lparr>co_input_index = 0, co_balance_root = 0, co_state_root = 0\<rparr>"

definition check_mint_amount :: "mint \<Rightarrow> u64 \<Rightarrow> (executor_error, unit) result" where
  "check_mint_amount m expected_amount =
     (if mint_amount m \<noteq> expected_amount then Inl CoinbaseAmountMismatch else Inr ())"

definition check_gas_price :: "mint \<Rightarrow> u64 \<Rightarrow> (executor_error, unit) result" where
  "check_gas_price m expected_gas_price =
     (if mint_gas_price m \<noteq> expected_gas_price then Inl CoinbaseGasPriceMismatch else Inr ())"

definition check_mint_has_expected_index :: "mint \<Rightarrow> execution_data \<Rightarrow> (executor_error, unit) result" where
  "check_mint_has_expected_index m d =
     (if pointer_index (mint_tx_pointer m) \<noteq> ed_tx_count d then Inl MintHasUnexpectedIndex else Inr ())"

definition verify_mint_for_empty_contract :: "mint \<Rightarrow> (executor_error, unit) result" where
  "verify_mint_for_empty_contract m =
     (if mint_amount m \<noteq> 0 then Inl CoinbaseAmountMismatch
      else if mint_input m \<noteq> zero_contract_input 0 \<or> mint_output m \<noteq> zero_contract_output then Inl MintMismatch
      else Inr ())"

definition store_mint_tx :: "'s executor_env \<Rightarrow> mint \<Rightarrow> bytes32 \<Rightarrow> 's exec_state \<Rightarrow> ('s, transaction) exec" where
  "store_mint_tx E m coinbase_id s =
     (let outcome = \<lparr>program_state = None, receipts = [], total_gas = 0, total_fee = 0\<rparr>;
          s = s\<lparr>xs_data := (xs_data s)\<lparr>ed_tx_status := ed_tx_status (xs_data s) @
                 [\<lparr>status_id = coinbase_id, status_result = Success outcome\<rparr>]\<rparr>\<rparr> in
      and_then (on_store s (plain_replace (tx_level E) (ProcessedTransactions (ex_codecs E)) (xs_store s) coinbase_id ()))
        (\<lambda>s old. if old \<noteq> None then (s, Inl (TransactionIdCollision coinbase_id)) else (s, Inr (Mint m))))"

definition the_contract_input :: "input list \<Rightarrow> (executor_error, contract_input) result" where
  "the_contract_input inputs =
     (case inputs of
        [ContractInput c] \<Rightarrow> Inr c
      | _ \<Rightarrow> Inl (OtherError ''Input of the `Mint` transaction is not a contract''))"

definition the_contract_output :: "tx_output list \<Rightarrow> (executor_error, contract_output) result" where
  "the_contract_output outputs =
     (case outputs of
        [ContractOutput c] \<Rightarrow> Inr c
      | _ \<Rightarrow> Inl (OtherError ''The output of the `Mint` transaction is not a contract''))"

definition execute_mint_with_vm ::
    "'s executor_env \<Rightarrow> partial_block_header \<Rightarrow> bytes32 \<Rightarrow> bytes32 \<Rightarrow> mint \<Rightarrow> 's exec_state
     \<Rightarrow> ('s, contract_input \<times> contract_output) exec" where
  "execute_mint_with_vm E hdr coinbase_contract_id coinbase_id m s =
     (let V = ex_vm E;
          run = balance_increase V (vm_env_of E hdr coinbase_contract_id 0) (tx_get (tx_level E) (xs_store s))
                  (ci_contract_id (mint_input m)) (mint_asset_id m) (mint_amount m) in
      and_then (s, map_err CoinbaseCannotIncreaseBalance (vm_outcome run))
      (\<lambda>s _.
      and_then (s, map_err ExecutorStorage (finalize E (xs_store s) (vm_accesses run) (vm_changes run)))
      (\<lambda>s (before, after).
      and_then (s, compute_inputs E (xs_store s) before [ContractInput (mint_input m)])
      (\<lambda>s inputs.
      and_then (on_store s (tx_commit_changes (xs_store s) (vm_changes run)))
      (\<lambda>s _. let outputs = [ContractOutput (mint_output m)] in
      and_then (persist_output_utxos E (height (p_consensus hdr)) coinbase_id inputs outputs s)
      (\<lambda>s _.
      and_then (s, compute_state_of_not_utxo_outputs V coinbase_id inputs after outputs)
      (\<lambda>s outputs.
      and_then (s, the_contract_input inputs)
      (\<lambda>s i.
      and_then (s, the_contract_output outputs)
      (\<lambda>s out. (s, Inr (i, out)))))))))))"

definition execute_mint ::
    "'s executor_env \<Rightarrow> bytes32 \<Rightarrow> mint \<Rightarrow> partial_block_header \<Rightarrow> bytes32 \<Rightarrow> u64 \<Rightarrow> 's exec_state
     \<Rightarrow> ('s, transaction) exec" where
  "execute_mint E coinbase_id m hdr coinbase_contract_id gas_price s =
     (let s = s\<lparr>xs_data := (xs_data s)\<lparr>ed_found_mint := True\<rparr>\<rparr> in
      and_then (s, check_mint_has_expected_index m (xs_data s))
      (\<lambda>s _.
      and_then (s, check_gas_price m gas_price)
      (\<lambda>s _.
      and_then
        (if ci_contract_id (mint_input m) = 0
         then (s, res_then (verify_mint_for_empty_contract m) (\<lambda>_. Inr m))
         else
           and_then (s, check_mint_amount m (ed_coinbase (xs_data s)))
           (\<lambda>s _.
           and_then (s, if forbid_fake_coins E
                        then verify_inputs_exist_and_values_match E (xs_store s) (da_height (p_application hdr))
                               [ContractInput (mint_input m)]
                        else Inr ())
           (\<lambda>s _.
           and_then (execute_mint_with_vm E hdr coinbase_contract_id coinbase_id m s)
           (\<lambda>s (i, out). (s, Inr (m\<lparr>mint_input := i, mint_output := out\<rparr>))))))
      (\<lambda>s m. store_mint_tx E m coinbase_id s))))"

section \<open>One transaction\<close>

definition maybe_checked_id :: "'s executor_env \<Rightarrow> maybe_checked \<Rightarrow> bytes32" where
  "maybe_checked_id E tx =
     (case tx of
        CheckedTransaction c _ \<Rightarrow> checked_id c
      | UncheckedTransaction t \<Rightarrow> tx_id (ex_lib E) (params_chain_id (consensus_params E)) t)"

definition transaction_expiration :: "vm_lib \<Rightarrow> transaction \<Rightarrow> block_height" where
  "transaction_expiration V t = (case t of Chargeable _ tx \<Rightarrow> tx_expiration V tx | Mint _ \<Rightarrow> u_max)"

definition maybe_checked_max_gas :: "'s executor_env \<Rightarrow> maybe_checked \<Rightarrow> (executor_error, u64) result" where
  "maybe_checked_max_gas E tx =
     (let mint_error = Inl (OtherError ''Mint transaction doesn't have max_gas'') in
      case tx of
        CheckedTransaction c _ \<Rightarrow>
          (case checked_tx c of Chargeable _ _ \<Rightarrow> Inr (checked_max_gas c) | Mint _ \<Rightarrow> mint_error)
      | UncheckedTransaction t \<Rightarrow>
          (case t of Chargeable _ x \<Rightarrow> Inr (tx_max_gas (ex_vm E) (consensus_params E) x) | Mint _ \<Rightarrow> mint_error))"

definition check_mint_is_not_found :: "execution_data \<Rightarrow> (executor_error, unit) result" where
  "check_mint_is_not_found d = (if ed_found_mint d then Inl MintIsNotLastTransaction else Inr ())"

definition check_tx_is_not_duplicate :: "'s executor_env \<Rightarrow> bytes32 \<Rightarrow> 's tx_store \<Rightarrow> (executor_error, unit) result" where
  "check_tx_is_not_duplicate E txid st =
     res_then (map_err ExecutorStorage (contains_key (tx_level E) (ProcessedTransactions (ex_codecs E)) st txid))
       (\<lambda>found. if found then Inl (TransactionIdCollision txid) else Inr ())"

definition convert_maybe_checked_tx_to_checked_tx ::
    "'s executor_env \<Rightarrow> maybe_checked \<Rightarrow> partial_block_header \<Rightarrow> (executor_error, checked) result" where
  "convert_maybe_checked_tx_to_checked_tx E tx hdr =
     (let block_height = height (p_consensus hdr);
          basic = (\<lambda>t. map_err InvalidTransaction (into_checked_basic (ex_vm E) (consensus_params E) block_height t)) in
      case tx of
        UncheckedTransaction t \<Rightarrow> basic t
      | CheckedTransaction c checked_version \<Rightarrow>
          (let expiration = transaction_expiration (ex_vm E) (checked_tx c) in
           if expiration < block_height then Inl (TransactionExpired expiration block_height)
           else if consensus_parameters_version (p_application hdr) = checked_version then Inr c
           else basic (checked_tx c)))"

definition execute_transaction ::
    "'s executor_env \<Rightarrow> maybe_checked \<Rightarrow> bytes32 \<Rightarrow> partial_block_header \<Rightarrow> bytes32 \<Rightarrow> u64 \<Rightarrow> 's exec_state
     \<Rightarrow> ('s, transaction) exec" where
  "execute_transaction E tx txid hdr coinbase_contract_id gas_price s =
     and_then (s, check_mint_is_not_found (xs_data s))
     (\<lambda>s _.
     and_then (s, check_tx_is_not_duplicate E txid (xs_store s))
     (\<lambda>s _.
     and_then (s, convert_maybe_checked_tx_to_checked_tx E tx hdr)
     (\<lambda>s c. case checked_tx c of
        Chargeable kind _ \<Rightarrow> execute_chargeable_transaction E kind c hdr coinbase_contract_id gas_price s
      | Mint m \<Rightarrow> execute_mint E (checked_id c) m hdr coinbase_contract_id gas_price s)))"

end
