(* ===== verification/Executor.thy ===== *)
theory Executor
  imports Executor_Tx
begin

text \<open>
  Block production, dry runs and block validation (\<^verbatim>\<open>src/crates/services/executor/src/executor.rs\<close>, with
  \<open>OnceTransactionsSource\<close>): events of the layer one, forced transactions, transactions of the source, the
  mint transaction and the comparison of a validated block with the block that execution generates.

  The source of transactions and the waiter for new ones are one state with two operations; both may answer
  arbitrarily, so the loops over them are given a number of rounds and return \<open>None\<close> when it does not suffice.
  The preconfirmations are collected in the order in which they are given to their sender.
\<close>

section \<open>Blocks under construction\<close>

record 's block_run =
  br_block :: "transaction partial_fuel_block"
  br_store :: "'s in_memory_transaction"
  br_data :: execution_data

type_synonym ('s, 'a) block_exec = "'s block_run \<times> (executor_error, 'a) result"

definition push_transaction :: "transaction \<Rightarrow> 's block_run \<Rightarrow> 's block_run" where
  "push_transaction t b = b\<lparr>br_block := (br_block b)\<lparr>p_transactions := p_transactions (br_block b) @ [t]\<rparr>\<rparr>"

definition push_block_event :: "executor_event \<Rightarrow> 's block_run \<Rightarrow> 's block_run" where
  "push_block_event e b = b\<lparr>br_data := push_event e (br_data b)\<rparr>"

definition execute_transaction_and_commit ::
    "'s executor_env \<Rightarrow> maybe_checked \<Rightarrow> u64 \<Rightarrow> bytes32 \<Rightarrow> 's block_run \<Rightarrow> ('s, unit) block_exec" where
  "execute_transaction_and_commit E tx gas_price coinbase_contract_id b =
     (let tx_count = ed_tx_count (br_data b);
          st = with_policy Overwrite (write_transaction (br_store b)) in
      case execute_transaction E tx (maybe_checked_id E tx) (p_header (br_block b)) coinbase_contract_id gas_price
             \<lparr>xs_store = st, xs_data = br_data b\<rparr> of
        (s, Inl e) \<Rightarrow> (b\<lparr>br_data := xs_data s\<rparr>, Inl e)
      | (s, Inr t) \<Rightarrow>
          (case tx_commit tx_commit_changes (xs_store s) of
             (store', Inl e) \<Rightarrow> (b\<lparr>br_store := store', br_data := xs_data s\<rparr>, Inl (ExecutorStorage e))
           | (store', Inr _) \<Rightarrow>
               (let b = push_transaction t (b\<lparr>br_store := store', br_data := xs_data s\<rparr>) in
                case checked_add tx_count 1 of
                  None \<Rightarrow> (b, Inl TooManyTransactionsInBlock)
                | Some n \<Rightarrow> (b\<lparr>br_data := (br_data b)\<lparr>ed_tx_count := n\<rparr>\<rparr>, Inr ()))))"

section \<open>The layer one\<close>

definition parse_tx_bytes :: "'s executor_env \<Rightarrow> relayed_transaction \<Rightarrow> (forced_failure, transaction) result" where
  "parse_tx_bytes E t = ok_or CodecError (transaction_from_bytes (ex_vm E) (serialized_transaction t))"

definition tx_is_valid_variant :: "transaction \<Rightarrow> (forced_failure, unit) result" where
  "tx_is_valid_variant t = (case t of Mint _ \<Rightarrow> Inl InvalidTransactionType | Chargeable _ _ \<Rightarrow> Inr ())"

definition relayed_tx_claimed_enough_max_gas ::
    "'s executor_env \<Rightarrow> transaction \<Rightarrow> relayed_transaction \<Rightarrow> (forced_failure, unit) result" where
  "relayed_tx_claimed_enough_max_gas E t r =
     (let claimed_max_gas = rt_max_gas r in
      res_then (map_err (\<lambda>_. InvalidTransactionType) (maybe_checked_max_gas E (UncheckedTransaction t)))
        (\<lambda>actual_max_gas. if claimed_max_gas < actual_max_gas
                          then Inl (InsufficientMaxGas claimed_max_gas actual_max_gas) else Inr ()))"

definition get_checked_tx ::
    "'s executor_env \<Rightarrow> transaction \<Rightarrow> block_height \<Rightarrow> 's in_memory_transaction \<Rightarrow> (forced_failure, checked) result" where
  "get_checked_tx E t h st =
     map_err CheckFailure
       (into_checked_reusable_memory (ex_vm E) (consensus_params E) h (tx_get (ex_kv E) st) t)"

definition validate_forced_tx ::
    "'s executor_env \<Rightarrow> relayed_transaction \<Rightarrow> block_height \<Rightarrow> 's in_memory_transaction
     \<Rightarrow> (forced_failure, checked) result" where
  "validate_forced_tx E r h st =
     res_then (parse_tx_bytes E r)
     (\<lambda>t. res_then (tx_is_valid_variant t)
     (\<lambda>_. res_then (relayed_tx_claimed_enough_max_gas E t r)
     (\<lambda>_. get_checked_tx E t h st)))"

fun event_hash :: "'s executor_env \<Rightarrow> relayer_event \<Rightarrow> bytes32" where
  "event_hash E (MessageEvent m) =
     (let v = message_inner m in
      compute_message_id (ex_vm E) (sender v) (recipient v) (nonce v) (message_amount v) (message_data v))"
| "event_hash E (TransactionEvent t) = relayed_id (ex_lib E) t"

text \<open>The state of the loop over the events: the pushed leaves and the forced transactions that passed.\<close>

type_synonym da_progress = "bytes list \<times> checked list"

definition process_event ::
    "'s executor_env \<Rightarrow> block_height \<Rightarrow> da_block_height \<Rightarrow> relayer_event \<Rightarrow> da_progress \<Rightarrow> 's block_run
     \<Rightarrow> ('s, da_progress) block_exec" where
  "process_event E h da_h ev p b =
     (let leaves = fst p @ [word_bytes (event_hash E ev)]; forced = snd p in
      case ev of
        MessageEvent m \<Rightarrow>
          if message_da_height (message_inner m) \<noteq> da_h then (b, Inl RelayerGivesIncorrectMessages)
          else (case plain_put (Messages (ex_codecs E)) (br_store b) (nonce (message_inner m)) m of
                  (st, Inl e) \<Rightarrow> (b\<lparr>br_store := st\<rparr>, Inl (ExecutorStorage e))
                | (st, Inr _) \<Rightarrow> (push_block_event (MessageImported m) (b\<lparr>br_store := st\<rparr>), Inr (leaves, forced)))
      | TransactionEvent r \<Rightarrow>
          (case validate_forced_tx E r h (br_store b) of
             Inr c \<Rightarrow> (b, Inr (leaves, forced @ [c]))
           | Inl f \<Rightarrow> (push_block_event (ForcedTransactionFailed (relayed_id (ex_lib E) r) h f) b,
                       Inr (leaves, forced))))"

fun process_events ::
    "'s executor_env \<Rightarrow> block_height \<Rightarrow> da_block_height \<Rightarrow> relayer_event list \<Rightarrow> da_progress \<Rightarrow> 's block_run
     \<Rightarrow> ('s, da_progress) block_exec" where
  "process_events E h da_h [] p b = (b, Inr p)"
| "process_events E h da_h (ev # evs) p b =
     and_then (process_event E h da_h ev p b) (\<lambda>b p. process_events E h da_h evs p b)"

fun process_da_heights ::
    "'s executor_env \<Rightarrow> block_height \<Rightarrow> da_block_height list \<Rightarrow> da_progress \<Rightarrow> 's block_run
     \<Rightarrow> ('s, da_progress) block_exec" where
  "process_da_heights E h [] p b = (b, Inr p)"
| "process_da_heights E h (da_h # rest) p b =
     and_then (b, map_err RelayerError (get_events E da_h))
     (\<lambda>b evs. and_then (process_events E h da_h evs p b)
     (\<lambda>b p. process_da_heights E h rest p b))"

text \<open>\<open>start..=end\<close> on \<open>u64\<close>.\<close>

definition da_range :: "da_block_height \<Rightarrow> da_block_height \<Rightarrow> da_block_height list" where
  "da_range a b = map of_nat [unat a ..< Suc (unat b)]"

definition process_da ::
    "'s executor_env \<Rightarrow> block_height \<Rightarrow> da_block_height \<Rightarrow> 's block_run \<Rightarrow> ('s, checked list) block_exec" where
  "process_da E h da_h b =
     and_then (b, ok_or ExecutingGenesisBlock (checked_sub h 1))
     (\<lambda>b prev.
     and_then (b, map_err ExecutorStorage (plain_get (ex_kv E) (StoredBlocks (ex_codecs E)) (br_store b) prev))
     (\<lambda>b found.
     and_then (b, ok_or PreviousBlockIsNotFound found)
     (\<lambda>b prev_block.
     and_then (b, ok_or DaHeightExceededItsLimit (checked_add (hdr_da_height (blk_header prev_block)) 1))
     (\<lambda>b next_unprocessed.
     and_then (process_da_heights E h (da_range next_unprocessed da_h) ([], []) b)
     (\<lambda>b p.
       (b\<lparr>br_data := (br_data b)\<lparr>ed_event_inbox_root := merkle_root (ex_lib E) (fst p)\<rparr>\<rparr>, Inr (snd p)))))))"

definition get_relayed_txs ::
    "'s executor_env \<Rightarrow> block_height \<Rightarrow> da_block_height \<Rightarrow> 's block_run \<Rightarrow> ('s, checked list) block_exec" where
  "get_relayed_txs E h da_h b = (if relayer_enabled E then process_da E h da_h b else (b, Inr []))"

definition RELAYED_GAS_PRICE :: u64 where
  "RELAYED_GAS_PRICE = 0"

fun process_relayed_txs :: "'s executor_env \<Rightarrow> bytes32 \<Rightarrow> checked list \<Rightarrow> 's block_run \<Rightarrow> 's block_run" where
  "process_relayed_txs E coinbase_contract_id [] b = b"
| "process_relayed_txs E coinbase_contract_id (c # cs) b =
     (let hdr = p_header (br_block b);
          tx = CheckedTransaction c (consensus_parameters_version (p_application hdr)) in
      case execute_transaction_and_commit E tx RELAYED_GAS_PRICE coinbase_contract_id b of
        (b, Inr _) \<Rightarrow> process_relayed_txs E coinbase_contract_id cs b
      | (b, Inl e) \<Rightarrow>
          process_relayed_txs E coinbase_contract_id cs
            (push_block_event (ForcedTransactionFailed (maybe_checked_id E tx) (height (p_consensus hdr))
               (ExecutionFailure e)) b))"

definition process_l1_txs :: "'s executor_env \<Rightarrow> bytes32 \<Rightarrow> 's block_run \<Rightarrow> ('s, unit) block_exec" where
  "process_l1_txs E coinbase_contract_id b =
     (let hdr = p_header (br_block b) in
      and_then (get_relayed_txs E (height (p_consensus hdr)) (da_height (p_application hdr)) b)
        (\<lambda>b relayed_txs. (process_relayed_txs E coinbase_contract_id relayed_txs b, Inr ())))"

section \<open>The layer two\<close>

definition max_tx_count :: u16 where
  "max_tx_count = sat_sub u_max 1"

text \<open>The environment of a production: the source of transactions and the waiter.\<close>

record 'q tx_source =
  next_txs :: "'q \<Rightarrow> u64 \<Rightarrow> u16 \<Rightarrow> u32 \<Rightarrow> 'q \<times> maybe_checked list"
  new_transactions :: "'q \<Rightarrow> 'q \<times> bool"

datatype preconfirmation =
    PreSuccess bytes32 tx_pointer execution_outcome "(utxo_id \<times> tx_output) list"
  | PreFailure bytes32 tx_pointer execution_outcome "(utxo_id \<times> tx_output) list"
  | PreSqueezedOut bytes32 executor_error

fun is_dynamic :: "tx_output \<Rightarrow> bool" where
  "is_dynamic (ChangeOutput _) = True"
| "is_dynamic (VariableOutput c) = (out_amount c \<noteq> 0)"
| "is_dynamic _ = False"

fun dynamic_outputs :: "bytes32 \<Rightarrow> nat \<Rightarrow> tx_output list \<Rightarrow> (utxo_id \<times> tx_output) list" where
  "dynamic_outputs txid i [] = []"
| "dynamic_outputs txid i (out # outs) =
     (if is_dynamic out \<and> i < 2 ^ 16 then [(\<lparr>utxo_tx_id = txid, output_index = of_nat i\<rparr>, out)] else [])
     @ dynamic_outputs txid (Suc i) outs"

fun transaction_outputs :: "transaction \<Rightarrow> tx_output list" where
  "transaction_outputs (Chargeable _ tx) = tx_outputs tx"
| "transaction_outputs (Mint _) = []"

definition convert_tx_execution_result_to_preconfirmation ::
    "transaction \<Rightarrow> bytes32 \<Rightarrow> execution_result \<Rightarrow> block_height \<Rightarrow> u16 \<Rightarrow> preconfirmation" where
  "convert_tx_execution_result_to_preconfirmation tx txid result h tx_index =
     (let p = \<lparr>pointer_height = h, pointer_index = tx_index\<rparr>;
          outs = dynamic_outputs txid 0 (transaction_outputs tx) in
      case result of
        Success r \<Rightarrow> PreSuccess txid p r outs
      | Failed r \<Rightarrow> PreFailure txid p r outs)"

definition skip_transaction :: "bytes32 \<Rightarrow> executor_error \<Rightarrow> 's block_run \<Rightarrow> 's block_run" where
  "skip_transaction txid e b = b\<lparr>br_data := (br_data b)\<lparr>ed_skipped := ed_skipped (br_data b) @ [(txid, e)]\<rparr>\<rparr>"

definition gas_limit_reason :: string where
  "gas_limit_reason = ''Transaction cannot fit in remaining gas limit''"

definition remaining_gas_limit :: "'s executor_env \<Rightarrow> 's block_run \<Rightarrow> u64" where
  "remaining_gas_limit E b = sat_sub (block_gas_limit (consensus_params E)) (ed_used_gas (br_data b))"

definition remaining_size_limit :: "'s executor_env \<Rightarrow> 's block_run \<Rightarrow> u32" where
  "remaining_size_limit E b =
     sat_sub (used_bytes (block_transaction_size_limit (consensus_params E))) (ed_used_size (br_data b))"

definition remaining_tx_count :: "'s block_run \<Rightarrow> u16" where
  "remaining_tx_count b = sat_sub max_tx_count (ed_tx_count (br_data b))"

text \<open>The batch loop; the limit is the one at the start of the round, and the preconfirmations grow.\<close>

fun process_batch ::
    "'s executor_env \<Rightarrow> u64 \<Rightarrow> bytes32 \<Rightarrow> maybe_checked list \<Rightarrow> preconfirmation list \<Rightarrow> 's block_run
     \<Rightarrow> ('s, preconfirmation list) block_exec" where
  "process_batch E gas_price coinbase_contract_id [] statuses b = (b, Inr statuses)"
| "process_batch E gas_price coinbase_contract_id (tx # txs) statuses b =
     (let txid = maybe_checked_id E tx; limit = remaining_gas_limit E b in
      and_then (b, maybe_checked_max_gas E tx)
      (\<lambda>b tx_max_gas.
        if limit < tx_max_gas
        then process_batch E gas_price coinbase_contract_id txs statuses
               (skip_transaction txid (GasOverflow gas_limit_reason tx_max_gas limit) b)
        else
          (let tx_index = ed_tx_count (br_data b) in
           case execute_transaction_and_commit E tx gas_price coinbase_contract_id b of
             (b, Inr _) \<Rightarrow>
               process_batch E gas_price coinbase_contract_id txs
                 (statuses @ [convert_tx_execution_result_to_preconfirmation (List.last (p_transactions (br_block b)))
                    txid (status_result (List.last (ed_tx_status (br_data b))))
                    (height (p_consensus (p_header (br_block b)))) tx_index]) b
           | (b, Inl e) \<Rightarrow>
               process_batch E gas_price coinbase_contract_id txs (statuses @ [PreSqueezedOut txid e])
                 (skip_transaction txid e b))))"

definition next_batch ::
    "'s executor_env \<Rightarrow> 'q tx_source \<Rightarrow> 'q \<Rightarrow> 's block_run \<Rightarrow> 'q \<times> maybe_checked list" where
  "next_batch E Q q b =
     (let (q', txs) = next_txs Q q (remaining_gas_limit E b) (remaining_tx_count b) (remaining_size_limit E b) in
      (q', take (unat (remaining_tx_count b)) txs))"

fun process_l2_txs ::
    "nat \<Rightarrow> 's executor_env \<Rightarrow> 'q tx_source \<Rightarrow> u64 \<Rightarrow> bytes32 \<Rightarrow> 'q \<Rightarrow> preconfirmation list \<Rightarrow> 's block_run
     \<Rightarrow> ('q \<times> ('s, preconfirmation list) block_exec) option" where
  "process_l2_txs 0 E Q gas_price coinbase_contract_id q statuses b = None"
| "process_l2_txs (Suc n) E Q gas_price coinbase_contract_id q statuses b =
     (case next_batch E Q q b of
        (q, []) \<Rightarrow> Some (q, (b, Inr statuses))
      | (q, txs) \<Rightarrow>
          (case process_batch E gas_price coinbase_contract_id txs statuses b of
             (b, Inl e) \<Rightarrow> Some (q, (b, Inl e))
           | (b, Inr statuses) \<Rightarrow> process_l2_txs n E Q gas_price coinbase_contract_id q statuses b))"

section \<open>Production\<close>

record components =
  header_to_produce :: partial_block_header
  coinbase_recipient :: bytes32
  component_gas_price :: u64

definition block_run_new :: "partial_block_header \<Rightarrow> 's in_memory_transaction \<Rightarrow> 's block_run" where
  "block_run_new hdr st =
     \<lparr>br_block = \<lparr>p_header = hdr, p_transactions = []\<rparr>, br_store = st, br_data = execution_data_new\<rparr>"

definition coinbase_mint :: "'s executor_env \<Rightarrow> components \<Rightarrow> 's block_run \<Rightarrow> mint" where
  "coinbase_mint E C b =
     \<lparr>mint_tx_pointer = \<lparr>pointer_height = height (p_consensus (p_header (br_block b))),
        pointer_index = ed_tx_count (br_data b)\<rparr>,
      mint_input = zero_contract_input (coinbase_recipient C), mint_output = zero_contract_output,
      mint_amount = (if coinbase_recipient C \<noteq> 0 then ed_coinbase (br_data b) else 0),
      mint_asset_id = base_asset_id (consensus_params E), mint_gas_price = component_gas_price C\<rparr>"

definition produce_mint_tx :: "'s executor_env \<Rightarrow> components \<Rightarrow> 's block_run \<Rightarrow> ('s, unit) block_exec" where
  "produce_mint_tx E C b =
     execute_transaction_and_commit E (UncheckedTransaction (Mint (coinbase_mint E C b))) (component_gas_price C)
       (coinbase_recipient C) b"

text \<open>The loop of production: the layer two transactions of one round, then the waiter.\<close>

fun produce_rounds ::
    "nat \<Rightarrow> 's executor_env \<Rightarrow> 'q tx_source \<Rightarrow> components \<Rightarrow> 'q \<Rightarrow> preconfirmation list \<Rightarrow> 's block_run
     \<Rightarrow> ('q \<times> ('s, preconfirmation list) block_exec) option" where
  "produce_rounds 0 E Q C q statuses b = None"
| "produce_rounds (Suc n) E Q C q statuses b =
     (case process_l2_txs n E Q (component_gas_price C) (coinbase_recipient C) q statuses b of
        None \<Rightarrow> None
      | Some (q, (b, Inl e)) \<Rightarrow> Some (q, (b, Inl e))
      | Some (q, (b, Inr statuses)) \<Rightarrow>
          (case new_transactions Q q of
             (q, False) \<Rightarrow> Some (q, (b, Inr statuses))
           | (q, True) \<Rightarrow> produce_rounds n E Q C q statuses b))"

definition finish_run :: "'s block_run \<Rightarrow> transaction partial_fuel_block \<times> execution_data" where
  "finish_run b = (br_block b, (br_data b)\<lparr>ed_changes := changes (br_store b)\<rparr>)"

type_synonym produced = "(executor_error, transaction partial_fuel_block \<times> execution_data) result"

definition produce_block ::
    "nat \<Rightarrow> 's executor_env \<Rightarrow> 'q tx_source \<Rightarrow> 'q \<Rightarrow> components \<Rightarrow> 's in_memory_transaction \<Rightarrow> produced option" where
  "produce_block n E Q q C st =
     (case process_l1_txs E (coinbase_recipient C) (block_run_new (header_to_produce C) st) of
        (b, Inl e) \<Rightarrow> Some (Inl e)
      | (b, Inr _) \<Rightarrow>
          (case produce_rounds n E Q C q [] b of
             None \<Rightarrow> None
           | Some (q, (b, Inl e)) \<Rightarrow> Some (Inl e)
           | Some (q, (b, Inr _)) \<Rightarrow>
               (case produce_mint_tx E C b of
                  (b, Inl e) \<Rightarrow> Some (Inl e)
                | (b, Inr _) \<Rightarrow> Some (Inr (finish_run b)))))"

definition dry_run_block ::
    "nat \<Rightarrow> 's executor_env \<Rightarrow> 'q tx_source \<Rightarrow> 'q \<Rightarrow> components \<Rightarrow> 's in_memory_transaction \<Rightarrow> produced option" where
  "dry_run_block n E Q q C st =
     (case process_l2_txs n E Q (component_gas_price C) (coinbase_recipient C) q [] (block_run_new (header_to_produce C) st) of
        None \<Rightarrow> None
      | Some (q, (b, Inl e)) \<Rightarrow> Some (Inl e)
      | Some (q, (b, Inr _)) \<Rightarrow> Some (Inr (finish_run b)))"

definition execute ::
    "nat \<Rightarrow> 's executor_env \<Rightarrow> 'q tx_source \<Rightarrow> 'q \<Rightarrow> components \<Rightarrow> 's in_memory_transaction \<Rightarrow> produced option" where
  "execute n E Q q C st = (if dry_run E then dry_run_block n E Q q C st else produce_block n E Q q C st)"

record production_result =
  pr_block :: "transaction block"
  pr_skipped :: "(bytes32 \<times> executor_error) list"
  pr_tx_status :: "execution_status list"
  pr_events :: "executor_event list"

text \<open>The parameters of an executor are those of the version in the header.\<close>

definition into_executor ::
    "'s executor_env \<Rightarrow> 's \<Rightarrow> u32 \<Rightarrow> bool \<Rightarrow> (executor_error, 's executor_env \<times> 's in_memory_transaction) result" where
  "into_executor E database version dry =
     (let st = with_policy Overwrite (transaction database Fail []) in
      res_then (map_err ExecutorStorage (plain_get (ex_kv E) (ConsensusParametersVersions (ex_codecs E)) st version))
      (\<lambda>found. res_then (ok_or (ConsensusParametersNotFound version) found)
      (\<lambda>params. Inr (E\<lparr>consensus_params := params, dry_run := dry\<rparr>, st))))"

definition produce_without_commit ::
    "nat \<Rightarrow> 's executor_env \<Rightarrow> 's \<Rightarrow> 'q tx_source \<Rightarrow> 'q \<Rightarrow> components \<Rightarrow> bool
     \<Rightarrow> (executor_error, production_result \<times> changes) result option" where
  "produce_without_commit n E database Q q C dry =
     (case into_executor E database (consensus_parameters_version (p_application (header_to_produce C))) dry of
        Inl e \<Rightarrow> Some (Inl e)
      | Inr (E, st) \<Rightarrow>
          (case execute n E Q q C st of
             None \<Rightarrow> None
           | Some (Inl e) \<Rightarrow> Some (Inl e)
           | Some (Inr (partial, d)) \<Rightarrow>
               Some (res_then (map_err HeaderError
                   (partial_block_generate (ex_lib E) partial (ed_message_ids d) (ed_event_inbox_root d)))
                 (\<lambda>blk. Inr (\<lparr>pr_block = blk, pr_skipped = ed_skipped d, pr_tx_status = ed_tx_status d,
                              pr_events = ed_events d\<rparr>, ed_changes d)))))"

section \<open>Validation\<close>

definition get_coinbase_info_from_mint_tx :: "transaction list \<Rightarrow> (executor_error, u64 \<times> bytes32) result" where
  "get_coinbase_info_from_mint_tx txs =
     (if txs = [] then Inl MintMissing
      else (case List.last txs of
              Mint m \<Rightarrow> Inr (mint_gas_price m, ci_contract_id (mint_input m))
            | Chargeable _ _ \<Rightarrow> Inl MintMissing))"

fun validate_txs :: "'s executor_env \<Rightarrow> u64 \<Rightarrow> bytes32 \<Rightarrow> transaction list \<Rightarrow> 's block_run \<Rightarrow> ('s, unit) block_exec" where
  "validate_txs E gas_price coinbase_contract_id [] b = (b, Inr ())"
| "validate_txs E gas_price coinbase_contract_id (t # ts) b =
     and_then (execute_transaction_and_commit E (UncheckedTransaction t) gas_price coinbase_contract_id b)
       (\<lambda>b _. validate_txs E gas_price coinbase_contract_id ts b)"

fun check_transactions_match :: "'s executor_env \<Rightarrow> (transaction \<times> transaction) list \<Rightarrow> (executor_error, unit) result" where
  "check_transactions_match E [] = Inr ()"
| "check_transactions_match E ((new_tx, old_tx) # rest) =
     (if new_tx \<noteq> old_tx
      then Inl (InvalidTransactionOutcome (tx_id (ex_lib E) (params_chain_id (consensus_params E)) old_tx))
      else check_transactions_match E rest)"

definition check_block_matches ::
    "'s executor_env \<Rightarrow> transaction partial_fuel_block \<Rightarrow> transaction block \<Rightarrow> execution_data
     \<Rightarrow> (executor_error, unit) result" where
  "check_block_matches E new_partial_block old_block d =
     res_then (check_transactions_match E (zip (p_transactions new_partial_block) (blk_transactions old_block)))
     (\<lambda>_. res_then (map_err HeaderError
        (partial_block_generate (ex_lib E) new_partial_block (ed_message_ids d) (ed_event_inbox_root d)))
     (\<lambda>new_block. if blk_header new_block \<noteq> blk_header old_block then Inl BlockMismatch else Inr ()))"

definition validate_block ::
    "'s executor_env \<Rightarrow> transaction block \<Rightarrow> 's in_memory_transaction \<Rightarrow> (executor_error, execution_data) result" where
  "validate_block E blk st =
     res_then (get_coinbase_info_from_mint_tx (blk_transactions blk))
     (\<lambda>(gas_price, coinbase_contract_id).
       case process_l1_txs E coinbase_contract_id (block_run_new (partial_of_header (blk_header blk)) st) of
         (b, Inl e) \<Rightarrow> Inl e
       | (b, Inr _) \<Rightarrow>
           (let processed_l1_tx_count = length (p_transactions (br_block b)) in
            case validate_txs E gas_price coinbase_contract_id (drop processed_l1_tx_count (blk_transactions blk)) b of
              (b, Inl e) \<Rightarrow> Inl e
            | (b, Inr _) \<Rightarrow>
                res_then (check_block_matches E (br_block b) blk (br_data b))
                  (\<lambda>_. Inr (snd (finish_run b)))))"

record validation_result =
  vr_tx_status :: "execution_status list"
  vr_events :: "executor_event list"

definition validate_without_commit ::
    "'s executor_env \<Rightarrow> 's \<Rightarrow> transaction block \<Rightarrow> (executor_error, validation_result \<times> changes) result" where
  "validate_without_commit E database blk =
     res_then (into_executor E database
        (consensus_parameters_version (hdr_application (blk_header blk))) False)
     (\<lambda>(E, st). res_then (validate_block E blk st)
     (\<lambda>d. Inr (\<lparr>vr_tx_status = ed_tx_status d, vr_events = ed_events d\<rparr>, ed_changes d)))"

section \<open>A source with a fixed list of transactions\<close>

definition once_next ::
    "maybe_checked list \<Rightarrow> u64 \<Rightarrow> u16 \<Rightarrow> u32 \<Rightarrow> maybe_checked list \<times> maybe_checked list" where
  "once_next txs gas_limit transactions_limit size_limit =
     (let n = min (unat transactions_limit) (length txs) in (drop n txs, take n txs))"

text \<open>With the waiter \<open>TimeoutOnlyTxWaiter\<close>.\<close>

definition once_source :: "maybe_checked list tx_source" where
  "once_source = \<lparr>next_txs = once_next, new_transactions = (\<lambda>q. (q, False))\<rparr>"

end
