(* ===== verification/Executor_Ledger.thy ===== *)
theory Executor_Ledger
  imports Executor
begin

text \<open>
  What the execution of one transaction does to the ledger of coins.  The locale \<open>lawful_executor\<close> states what the
  executor relies on: a lawful key-value store, lawful codecs, and a virtual machine that writes contract columns only.
  \<open>faithful_executor\<close> adds that checking and running a transaction changes none of the fields its identifier covers.
  Under them a successful execution spends exactly its coin inputs, creates exactly its coin outputs and marks its
  identifier as processed.
\<close>

section \<open>Steps and their results\<close>

lemma and_then_InrE:
  assumes "and_then r f = (s', Inr b)"
  obtains s a where "r = (s, Inr a)" "f s a = (s', Inr b)"
  using assms by (auto simp: and_then_def split: prod.splits sum.splits)

lemma and_then_simps [simp]:
  "and_then (s, Inr a) f = f s a"
  "and_then (s, Inl e) f = (s, Inl e)"
  by (simp_all add: and_then_def)

lemma res_then_simps [simp]:
  "res_then (Inr a) f = f a"
  "res_then (Inl e) f = Inl e"
  by (simp_all add: res_then_def)

lemma res_then_eq_Inr: "res_then r f = Inr b \<longleftrightarrow> (\<exists>a. r = Inr a \<and> f a = Inr b)"
  by (cases r) simp_all

lemma map_err_simps [simp]:
  "map_err f (Inr a) = Inr a"
  "map_err f (Inl e) = Inl (f e)"
  by (simp_all add: map_err_def)

lemma map_err_eq_Inr [simp]: "map_err f r = Inr a \<longleftrightarrow> r = Inr a"
  by (cases r) simp_all

lemma ok_or_eq_Inr [simp]: "ok_or e x = Inr a \<longleftrightarrow> x = Some a"
  by (cases x) (simp_all add: ok_or_def)

lemma on_store_Inr: "on_store s r = (s', Inr a) \<longleftrightarrow> snd r = Inr a \<and> s' = s\<lparr>xs_store := fst r\<rparr>"
  by (cases r) (auto simp: on_store_def)

lemma on_data_Inr: "on_data s r = (s', Inr a) \<longleftrightarrow> snd r = Inr a \<and> s' = s\<lparr>xs_data := fst r\<rparr>"
  by (cases r) (auto simp: on_data_def)

lemma push_simps [simp]: "xs_store (push e s) = xs_store s" "xs_data (push e s) = push_event e (xs_data s)"
  by (simp_all add: push_def)

text \<open>A relation that is reflexive and transitive and that every step keeps is kept by a chain of steps,
  whether it succeeds or not.\<close>

lemma and_then_keeps:
  assumes "\<And>x y z. R x y \<Longrightarrow> R y z \<Longrightarrow> R x z" "R s (fst r)" "\<And>s1 a. r = (s1, Inr a) \<Longrightarrow> R s1 (fst (f s1 a))"
  shows "R s (fst (and_then r f))"
  using assms by (cases r; cases "snd r") (auto simp: and_then_def)

text \<open>The simplification procedure of records does not apply to a transaction over a transaction.\<close>

lemma transaction_update [simp]:
  "storage (tx\<lparr>changes := ch\<rparr>) = storage tx" "policy (tx\<lparr>changes := ch\<rparr>) = policy tx"
  "changes (tx\<lparr>changes := ch\<rparr>) = ch"
  by simp_all

lemma transaction_eqI:
  "changes a = changes b \<Longrightarrow> policy a = policy b \<Longrightarrow> storage a = storage b \<Longrightarrow> a = (b :: 's in_memory_transaction)"
  by simp

section \<open>The contract of the libraries\<close>

text \<open>The columns that the VM may write: contract code, state and balances, and the tables of upgrades,
  uploads and blobs.\<close>

definition vm_columns :: "u32 set" where
  "vm_columns = {1, ContractsState_column, ContractsAssets_column, ConsensusParametersVersions_column, 18, 19, 20}"

definition vm_frame :: "'a vm_run \<Rightarrow> bool" where
  "vm_frame r = (changes_ok (vm_changes r) \<and> columns (vm_changes r) \<subseteq> vm_columns)"

text \<open>
  The laws of the store and its tables, and a frame for the VM: \<open>transact\<close> and \<open>balance_increase\<close> stand for the
  interpreter of the library together with the adapter \<^verbatim>\<open>src/crates/storage/src/vm_storage.rs\<close> through which it
  writes, so that the frame states which tables this adapter writes and that it writes no key twice in one table.
\<close>

locale lawful_executor =
  fixes E :: "'s executor_env"
  assumes kv_laws: "kv_inspect_laws (ex_kv E)"
    and coins_lawful: "lawful_table (Coins (ex_codecs E)) id"
    and messages_lawful: "lawful_table (Messages (ex_codecs E)) id"
    and contracts_lawful: "lawful_table (ContractsLatestUtxo (ex_codecs E)) id"
    and processed_lawful: "lawful_table (ProcessedTransactions (ex_codecs E)) id"
    and transact_frame: "vm_frame (transact (ex_vm E) env m c)"
    and balance_frame: "vm_frame (balance_increase (ex_vm E) env m i a n)"

section \<open>What a step leaves alone\<close>

text \<open>The columns of the executor's own tables.\<close>

definition own_columns :: "u32 set" where
  "own_columns = {Coins_column, Messages_column, ContractsLatestUtxo_column, ProcessedTransactions_column}"

definition store_frame :: "'s executor_env \<Rightarrow> u32 set \<Rightarrow> 's tx_store \<Rightarrow> 's tx_store \<Rightarrow> bool" where
  "store_frame E cols st st' =
     (storage st' = storage st \<and> policy st' = policy st \<and> columns (changes st') \<subseteq> columns (changes st) \<union> cols
      \<and> (tx_ok st \<and> policy st = Overwrite \<longrightarrow> tx_ok st'
          \<and> (\<forall>k c. c \<notin> cols \<longrightarrow> tx_get (tx_level E) st' k c = tx_get (tx_level E) st k c)))"

lemma store_frame_refl [simp]: "store_frame E cols st st"
  by (auto simp: store_frame_def)

lemma store_frame_trans:
  "store_frame E cols st1 st2 \<Longrightarrow> store_frame E cols st2 st3 \<Longrightarrow> store_frame E cols st1 st3"
  by (auto simp: store_frame_def)

lemma store_frame_mono: "store_frame E cols st st' \<Longrightarrow> cols \<subseteq> cols' \<Longrightarrow> store_frame E cols' st st'"
  by (auto simp: store_frame_def)

lemma store_frame_insert_op:
  assumes "changes st' = insert_op k c op (changes st)" "storage st' = storage st" "policy st' = policy st" "c \<in> cols"
  shows "store_frame E cols st st'"
proof -
  have "st' = st\<lparr>changes := insert_op k c op (changes st)\<rparr>" using assms by (intro transaction_eqI) simp_all
  then show ?thesis
    using assms(4) tx_get_insert_op[of st "tx_level E" k c op]
    by (auto simp: store_frame_def tx_ok_def map_set_def)
qed

lemma store_frame_plain:
  assumes "tcolumn T \<in> cols"
  shows "store_frame E cols st (fst (plain_put T st k v))"
    "store_frame E cols st (fst (plain_replace (tx_level E) T st k v))"
    "store_frame E cols st (fst (plain_take (tx_level E) T st k))"
  using assms
  by (auto simp: plain_defs swap_op_eq tx_put_def intro!: store_frame_insert_op)

lemma changes_at_columns: "c \<notin> columns ch \<Longrightarrow> changes_at ch k c = None"
  by (simp add: columns_def changes_at_notin)

lemma store_frame_commit:
  assumes "vm_frame r" "vm_columns \<subseteq> cols"
  shows "store_frame E cols st (fst (tx_commit_changes st (vm_changes r)))"
proof -
  let ?new = "vm_changes r"
  obtain ch' x where c: "commit_columns (policy st) ?new (changes st) = (ch', x)" by fastforce
  have st': "fst (tx_commit_changes st ?new) = st\<lparr>changes := ch'\<rparr>"
    using c by (simp add: tx_commit_changes_def)
  have r: "changes_ok ?new" "columns ?new \<subseteq> cols" using assms by (auto simp: vm_frame_def)
  have "columns ch' \<subseteq> columns (changes st) \<union> cols"
    using columns_commit[of "policy st" ?new "changes st"] c r(2) by auto
  moreover have "tx_ok (st\<lparr>changes := ch'\<rparr>)
      \<and> (\<forall>k col. col \<notin> cols \<longrightarrow> tx_get (tx_level E) (st\<lparr>changes := ch'\<rparr>) k col = tx_get (tx_level E) st k col)"
    if ok: "tx_ok st" "policy st = Overwrite"
  proof -
    have "x = Inr ()" using commit_columns_Overwrite[of ?new "changes st"] c ok(2) by simp
    then have e: "tx_commit_changes st ?new = (st\<lparr>changes := ch'\<rparr>, Inr ())" using c by (simp add: tx_commit_changes_def)
    have "overlay ?new k col v = v" if "col \<notin> cols" for k col v
    proof -
      have "changes_at ?new k col = None" using changes_at_columns r(2) that by blast
      then show ?thesis by (simp add: overlay_def)
    qed
    with tx_commit_changes_get[OF ok(1) r(1) e] tx_commit_changes_ok[OF ok(1) r(1) e] show ?thesis by simp
  qed
  ultimately show ?thesis by (simp add: st' store_frame_def)
qed

text \<open>Frames of steps on the whole state; \<open>quiet\<close> steps leave the data alone.\<close>

definition keeps :: "'s executor_env \<Rightarrow> u32 set \<Rightarrow> 's exec_state \<Rightarrow> 's exec_state \<Rightarrow> bool" where
  "keeps E cols s s' = store_frame E cols (xs_store s) (xs_store s')"

lemma keeps_refl [simp]: "keeps E cols s s"
  by (simp add: keeps_def)

lemma keeps_trans: "keeps E cols s1 s2 \<Longrightarrow> keeps E cols s2 s3 \<Longrightarrow> keeps E cols s1 s3"
  unfolding keeps_def by (rule store_frame_trans)

lemmas keeps_then = and_then_keeps[where R = "keeps E cols" for E cols, OF keeps_trans]

lemma keeps_on_store: "store_frame E cols (xs_store s) (fst r) \<Longrightarrow> keeps E cols s (fst (on_store s r))"
  by (simp add: keeps_def on_store_def)

lemma keeps_push [simp]: "keeps E cols s (push e s') \<longleftrightarrow> keeps E cols s s'"
  by (simp add: keeps_def)

lemma keeps_data [simp]: "keeps E cols s (s'\<lparr>xs_data := d\<rparr>) \<longleftrightarrow> keeps E cols s s'"
  "keeps E cols s (fst (on_data s' r)) \<longleftrightarrow> keeps E cols s s'"
  by (simp_all add: keeps_def on_data_def)

lemma table_columns [simp]:
  "tcolumn (Coins P) = Coins_column" "tcolumn (Messages P) = Messages_column"
  "tcolumn (ContractsLatestUtxo P) = ContractsLatestUtxo_column"
  "tcolumn (ProcessedTransactions P) = ProcessedTransactions_column"
  by (simp_all add: exec_tables)

lemmas keeps_plain = store_frame_plain[THEN keeps_on_store]

lemma insert_coin_keeps: "keeps E {Coins_column, ContractsLatestUtxo_column} s (fst (insert_coin E h u d s))"
  by (auto simp: insert_coin_def Let_def intro!: keeps_then keeps_plain)

lemma persist_outputs_keeps: "keeps E {Coins_column, ContractsLatestUtxo_column} s (fst (persist_outputs E h idx txid inputs i outs s))"
proof (induction outs arbitrary: i s)
  case (Cons out outs)
  have "keeps E {Coins_column, ContractsLatestUtxo_column} s (fst (persist_output E h idx u inputs out s))" for u
    by (auto simp: persist_output_def insert_contract_utxo_def insert_coin_keeps
        intro!: keeps_plain split: tx_output.splits option.splits)
  with Cons show ?case by (auto intro!: keeps_then)
qed simp

lemma keeps_mono: "keeps E cols s s' \<Longrightarrow> cols \<subseteq> cols' \<Longrightarrow> keeps E cols' s s'"
  unfolding keeps_def by (rule store_frame_mono)

lemma persist_utxos_keeps:
  "{Coins_column, ContractsLatestUtxo_column} \<subseteq> cols \<Longrightarrow>
   keeps E cols s (fst (persist_output_utxos E h txid inputs outs s))"
  unfolding persist_output_utxos_def by (rule keeps_mono[OF persist_outputs_keeps])

lemma spend_inputs_keeps: "keeps E {Coins_column, Messages_column} s (fst (spend_input_utxos E reverted inputs s))"
proof (induction inputs arbitrary: s)
  case (Cons i inputs)
  have "keeps E {Coins_column, Messages_column} s (fst (spend_coin E c s))" for c
    by (auto simp: spend_coin_def intro!: keeps_then keeps_plain)
  moreover have "keeps E {Coins_column, Messages_column} s (fst (spend_message E n s))" for n
    by (auto simp: spend_message_def intro!: keeps_then keeps_plain)
  ultimately have "keeps E {Coins_column, Messages_column} s (fst (spend_input E reverted i s))"
    by (simp add: spend_input_def split: input.splits)
  with Cons show ?case by (auto intro!: keeps_then)
qed simp

context lawful_executor
begin

lemma attempt_keeps:
  "keeps E vm_columns s (fst (attempt_tx_execution_with_vm E c tx hdr cb gp s))"
  unfolding attempt_tx_execution_with_vm_def Let_def commit_unless_reverted_def
  by (auto intro!: keeps_then keeps_on_store store_frame_commit[OF transact_frame] split: prod.splits)

end

section \<open>The ledger of coins\<close>

text \<open>What a transaction does to the set of unspent coins: it removes the coins of its inputs and adds one coin
  for each coin, change or variable output with an amount.\<close>

type_synonym coin_view = "utxo_id \<Rightarrow> compressed_coin option storage_result"

fun input_coin :: "input \<Rightarrow> coin_input option" where
  "input_coin (CoinSigned c) = Some c"
| "input_coin (CoinPredicate c) = Some c"
| "input_coin _ = None"

definition coin_ids :: "input list \<Rightarrow> utxo_id list" where
  "coin_ids inputs = map in_utxo_id (List.map_filter input_coin inputs)"

fun output_coin :: "tx_output \<Rightarrow> coin_output option" where
  "output_coin (CoinOutput d) = Some d"
| "output_coin (ChangeOutput d) = Some d"
| "output_coin (VariableOutput d) = Some d"
| "output_coin _ = None"

definition coin_of_output :: "block_height \<Rightarrow> u16 \<Rightarrow> coin_output \<Rightarrow> compressed_coin" where
  "coin_of_output h idx d =
     CoinV1 \<lparr>cc_owner = out_to d, cc_amount = out_amount d, cc_asset_id = out_asset_id d,
       cc_tx_pointer = \<lparr>pointer_height = h, pointer_index = idx\<rparr>\<rparr>"

fun new_coins :: "block_height \<Rightarrow> u16 \<Rightarrow> bytes32 \<Rightarrow> nat \<Rightarrow> tx_output list \<Rightarrow> (utxo_id \<times> compressed_coin) list" where
  "new_coins h idx txid i [] = []"
| "new_coins h idx txid i (out # outs) =
     (case output_coin out of
        Some d \<Rightarrow> if 0 < out_amount d then [(\<lparr>utxo_tx_id = txid, output_index = of_nat i\<rparr>, coin_of_output h idx d)] else []
      | None \<Rightarrow> []) @ new_coins h idx txid (Suc i) outs"

definition ledger_step :: "utxo_id list \<Rightarrow> (utxo_id \<times> compressed_coin) list \<Rightarrow> coin_view \<Rightarrow> coin_view" where
  "ledger_step spent created L =
     (\<lambda>u. case map_of created u of
            Some c \<Rightarrow> Inr (Some c)
          | None \<Rightarrow> if u \<in> set spent then Inr None else L u)"

definition coins :: "'s executor_env \<Rightarrow> 's tx_store \<Rightarrow> coin_view" where
  "coins E st = plain_get (tx_level E) (Coins (ex_codecs E)) st"

definition processed :: "'s executor_env \<Rightarrow> 's tx_store \<Rightarrow> bytes32 \<Rightarrow> unit option storage_result" where
  "processed E st = plain_get (tx_level E) (ProcessedTransactions (ex_codecs E)) st"

definition good :: "'s tx_store \<Rightarrow> bool" where
  "good st = (tx_ok st \<and> policy st = Overwrite)"

text \<open>Equal up to added events.\<close>

definition quiet :: "execution_data \<Rightarrow> execution_data \<Rightarrow> bool" where
  "quiet d d' = (\<exists>es. d' = d\<lparr>ed_events := ed_events d @ es\<rparr>)"

lemma quiet_refl [simp]: "quiet d d"
  by (auto simp: quiet_def intro: exI[of _ "[]"])

lemma quiet_push [simp]: "quiet d d' \<Longrightarrow> quiet d (push_event e d')"
  by (auto simp: quiet_def push_event_def)

lemma quiet_trans: "quiet d1 d2 \<Longrightarrow> quiet d2 d3 \<Longrightarrow> quiet d1 d3"
  by (auto simp: quiet_def)

lemma quiet_fields:
  assumes "quiet d d'"
  shows "ed_coinbase d' = ed_coinbase d" "ed_used_gas d' = ed_used_gas d" "ed_used_size d' = ed_used_size d"
    "ed_tx_count d' = ed_tx_count d" "ed_found_mint d' = ed_found_mint d" "ed_message_ids d' = ed_message_ids d"
    "ed_tx_status d' = ed_tx_status d" "ed_changes d' = ed_changes d" "ed_skipped d' = ed_skipped d"
    "ed_event_inbox_root d' = ed_event_inbox_root d" "set (ed_events d) \<subseteq> set (ed_events d')"
  using assms by (auto simp: quiet_def)

lemma coin_ids_simps [simp]:
  "coin_ids [] = []"
  "coin_ids (i # inputs) = (case input_coin i of Some c \<Rightarrow> [in_utxo_id c] | None \<Rightarrow> []) @ coin_ids inputs"
  by (simp_all add: coin_ids_def List.map_filter_simps split: option.splits)

lemma plain_get_frame:
  assumes "store_frame E cols st st'" "tcolumn T \<notin> cols" "good st"
  shows "plain_get (tx_level E) T st' k = plain_get (tx_level E) T st k"
  using assms by (simp add: store_frame_def plain_get_def good_def)

lemma views_frame:
  assumes "keeps E cols s s'" "good (xs_store s)"
  shows "Coins_column \<notin> cols \<Longrightarrow> coins E (xs_store s') = coins E (xs_store s)"
    "ProcessedTransactions_column \<notin> cols \<Longrightarrow> processed E (xs_store s') = processed E (xs_store s)"
  using plain_get_frame[OF assms(1)[unfolded keeps_def], of "Coins (ex_codecs E)"]
    plain_get_frame[OF assms(1)[unfolded keeps_def], of "ProcessedTransactions (ex_codecs E)"] assms(2)
  by (auto simp: coins_def processed_def fun_eq_iff)

lemma good_frame: "store_frame E cols st st' \<Longrightarrow> good st \<Longrightarrow> good st'"
  by (auto simp: store_frame_def good_def)

lemma good_keeps: "keeps E cols s s' \<Longrightarrow> good (xs_store s) \<Longrightarrow> good (xs_store s')"
  by (auto simp: keeps_def intro: good_frame)

lemma fst_eqI: "r = (a, b) \<Longrightarrow> a = fst r"
  by simp

lemma other_columns [simp]:
  "Coins_column \<noteq> Messages_column" "Coins_column \<noteq> ContractsLatestUtxo_column"
  "Coins_column \<noteq> ProcessedTransactions_column" "ProcessedTransactions_column \<noteq> Messages_column"
  "ProcessedTransactions_column \<noteq> ContractsLatestUtxo_column" "Coins_column \<notin> vm_columns"
  "ProcessedTransactions_column \<notin> vm_columns" "ProcessedTransactions_column \<noteq> Coins_column"
  by (simp_all add: exec_columns vm_columns_def)

lemma other_tables:
  assumes "good st" "tcolumn T \<noteq> tcolumn T'"
  shows "plain_get (tx_level E) T (fst (plain_put T' st k v)) = plain_get (tx_level E) T st"
    "plain_get (tx_level E) T (fst (plain_replace (tx_level E) T' st k v)) = plain_get (tx_level E) T st"
    "plain_get (tx_level E) T (fst (plain_take (tx_level E) T' st k)) = plain_get (tx_level E) T st"
  using plain_get_frame[OF store_frame_plain(1), of T' "{tcolumn T'}" T st E k v]
    plain_get_frame[OF store_frame_plain(2), of T' "{tcolumn T'}" T st E k v]
    plain_get_frame[OF store_frame_plain(3), of T' "{tcolumn T'}" T st E k] assms
  by (auto simp: fun_eq_iff)

context lawful_executor
begin

lemma take_coin:
  assumes "good st"
  shows "snd (plain_take (tx_level E) (Coins (ex_codecs E)) st u) = coins E st u"
    "coins E (fst (plain_take (tx_level E) (Coins (ex_codecs E)) st u)) = (coins E st)(u := Inr None)"
proof -
  have ok: "tx_ok st" using assms by (simp add: good_def)
  obtain st' where "plain_take (tx_level E) (Coins (ex_codecs E)) st u = (st', coins E st u)"
    and g: "tx_get (tx_level E) st' =
      map_set (encode_key (Coins (ex_codecs E)) u) (tcolumn (Coins (ex_codecs E))) None (tx_get (tx_level E) st)"
    using lawful_table.remove[OF coins_lawful ok, of "tx_level E" u] unfolding coins_def by metis
  with lawful_table.get_map_set[OF coins_lawful g]
  show "snd (plain_take (tx_level E) (Coins (ex_codecs E)) st u) = coins E st u"
    "coins E (fst (plain_take (tx_level E) (Coins (ex_codecs E)) st u)) = (coins E st)(u := Inr None)"
    by (auto simp: coins_def fun_eq_iff)
qed

lemma replace_coin:
  assumes "good st"
  shows "snd (plain_replace (tx_level E) (Coins (ex_codecs E)) st u c) = coins E st u"
    "coins E (fst (plain_replace (tx_level E) (Coins (ex_codecs E)) st u c)) = (coins E st)(u := Inr (Some c))"
proof -
  have ok: "tx_ok st" using assms by (simp add: good_def)
  obtain st' where "plain_replace (tx_level E) (Coins (ex_codecs E)) st u c = (st', coins E st u)"
    and g: "tx_get (tx_level E) st' = map_set (encode_key (Coins (ex_codecs E)) u) (tcolumn (Coins (ex_codecs E)))
      (Some (encode_value (Coins (ex_codecs E)) c)) (tx_get (tx_level E) st)"
    using lawful_table.replace[OF coins_lawful ok, of "tx_level E" u c] unfolding coins_def by metis
  with lawful_table.get_map_set[OF coins_lawful g] lawful_table.decode_encode[OF coins_lawful, of c]
  show "snd (plain_replace (tx_level E) (Coins (ex_codecs E)) st u c) = coins E st u"
    "coins E (fst (plain_replace (tx_level E) (Coins (ex_codecs E)) st u c)) = (coins E st)(u := Inr (Some c))"
    by (auto simp: coins_def fun_eq_iff)
qed

lemma spend_coin_ok:
  assumes "spend_coin E i s = (s', Inr ())" "good (xs_store s)"
  shows "coins E (xs_store s') = (coins E (xs_store s))(in_utxo_id i := Inr None)"
    "forbid_fake_coins E \<Longrightarrow> \<exists>c. coins E (xs_store s) (in_utxo_id i) = Inr (Some c)"
    "quiet (xs_data s) (xs_data s')"
proof -
  let ?r = "plain_take (tx_level E) (Coins (ex_codecs E)) (xs_store s) (in_utxo_id i)"
  note take = take_coin[OF assms(2), of "in_utxo_id i"]
  from assms(1) obtain s1 taken where 1: "on_store s ?r = (s1, Inr taken)"
    and 2: "and_then (s1, case taken of Some coin \<Rightarrow> Inr coin | None \<Rightarrow> get_coin_or_default E (xs_store s1) i)
      (\<lambda>s coin. (push (CoinConsumed (coin_uncompress coin (in_utxo_id i))) s, Inr ())) = (s', Inr ())"
    unfolding spend_coin_def by (rule and_then_InrE)
  have t: "coins E (xs_store s) (in_utxo_id i) = Inr taken" and s1: "s1 = s\<lparr>xs_store := fst ?r\<rparr>"
    using 1 take(1) by (simp_all add: on_store_Inr)
  note rest = 2[unfolded s1]
  then have s': "xs_store s' = fst ?r" "quiet (xs_data s) (xs_data s')"
    by (auto elim!: and_then_InrE)
  show "coins E (xs_store s') = (coins E (xs_store s))(in_utxo_id i := Inr None)"
    using take(2) s'(1) by simp
  show "quiet (xs_data s) (xs_data s')" by (rule s'(2))
  show "\<exists>c. coins E (xs_store s) (in_utxo_id i) = Inr (Some c)" if f: "forbid_fake_coins E"
  proof (cases taken)
    case None
    have "plain_get (tx_level E) (Coins (ex_codecs E)) (fst ?r) (in_utxo_id i) = Inr None"
      using take(2) by (metis coins_def fun_upd_same)
    then have "get_coin_or_default E (fst ?r) i = Inl (TransactionValidity (CoinDoesNotExist (in_utxo_id i)))"
      using f by (simp add: get_coin_or_default_def ok_or_def)
    with rest None show ?thesis by simp
  qed (use t in simp)
qed

lemma spend_message_ok:
  assumes "spend_message E n s = (s', Inr ())" "good (xs_store s)"
  shows "coins E (xs_store s') = coins E (xs_store s)" "quiet (xs_data s) (xs_data s')"
proof -
  have s': "xs_store s' = fst (plain_take (tx_level E) (Messages (ex_codecs E)) (xs_store s) n)"
      "quiet (xs_data s) (xs_data s')"
    using assms(1) by (auto simp: spend_message_def on_store_Inr elim!: and_then_InrE)
  show "coins E (xs_store s') = coins E (xs_store s)" "quiet (xs_data s) (xs_data s')"
    using s' other_tables(3)[OF assms(2), of "Coins (ex_codecs E)" "Messages (ex_codecs E)"]
    by (simp_all add: coins_def)
qed

lemma spend_input_ok:
  assumes "spend_input E reverted i s = (s', Inr ())" "good (xs_store s)"
  shows "coins E (xs_store s') = (\<lambda>u. if u \<in> set (coin_ids [i]) then Inr None else coins E (xs_store s) u)
    \<and> (forbid_fake_coins E \<longrightarrow> (\<forall>u\<in>set (coin_ids [i]). \<exists>c. coins E (xs_store s) u = Inr (Some c)))
    \<and> quiet (xs_data s) (xs_data s')"
  using assms spend_coin_ok[of _ s s'] spend_message_ok[of _ s s']
  by (cases i) (auto simp: spend_input_def split: if_splits)

lemma spend_inputs_ok:
  "spend_input_utxos E reverted inputs s = (s', Inr ()) \<Longrightarrow> good (xs_store s) \<Longrightarrow>
   coins E (xs_store s') = (\<lambda>u. if u \<in> set (coin_ids inputs) then Inr None else coins E (xs_store s) u)
   \<and> (forbid_fake_coins E \<longrightarrow> distinct (coin_ids inputs)
       \<and> (\<forall>u\<in>set (coin_ids inputs). \<exists>c. coins E (xs_store s) u = Inr (Some c)))
   \<and> quiet (xs_data s) (xs_data s')"
proof (induction inputs arbitrary: s)
  case (Cons i inputs)
  from Cons.prems(1) obtain s1 where 1: "spend_input E reverted i s = (s1, Inr ())"
    and 2: "spend_input_utxos E reverted inputs s1 = (s', Inr ())" by (auto elim!: and_then_InrE)
  have "keeps E {Coins_column, Messages_column} s s1"
    using spend_inputs_keeps[of E s reverted "[i]"] 1 by simp
  then have g: "good (xs_store s1)" using Cons.prems(2) by (rule good_keeps)
  note one = spend_input_ok[OF 1 Cons.prems(2)] and IH = Cons.IH[OF 2 g]
  have "distinct (coin_ids (i # inputs))" if "forbid_fake_coins E"
    using one IH that by (auto split: option.splits)
  moreover have "\<exists>c. coins E (xs_store s) u = Inr (Some c)"
    if "forbid_fake_coins E" "u \<in> set (coin_ids (i # inputs))" for u
  proof (cases "u \<in> set (coin_ids [i])")
    case False
    then have "u \<in> set (coin_ids inputs)" using that(2) by auto
    with IH that(1) obtain c where "coins E (xs_store s1) u = Inr (Some c)" by blast
    moreover have "coins E (xs_store s1) u = coins E (xs_store s) u"
      using conjunct1[OF one] False by (simp del: coin_ids_simps)
    ultimately show ?thesis by simp
  qed (use one that(1) in blast)
  moreover have "coins E (xs_store s') = (\<lambda>u. if u \<in> set (coin_ids (i # inputs)) then Inr None else coins E (xs_store s) u)"
    using one IH by (auto simp: fun_eq_iff)
  ultimately show ?case using one IH quiet_trans by blast
qed simp

lemma insert_coin_ok:
  assumes "insert_coin E h u d s = (s', Inr ())" "good (xs_store s)" "idx = ed_tx_count (xs_data s)"
  shows "coins E (xs_store s') = (if 0 < out_amount d
      then (coins E (xs_store s))(u := Inr (Some (coin_of_output h idx d))) else coins E (xs_store s))
    \<and> (0 < out_amount d \<longrightarrow> coins E (xs_store s) u = Inr None) \<and> quiet (xs_data s) (xs_data s')"
proof (cases "0 < out_amount d")
  case True
  let ?c = "coin_of_output h idx d"
  let ?r = "plain_replace (tx_level E) (Coins (ex_codecs E)) (xs_store s) u ?c"
  note rep = replace_coin[OF assms(2), of u ?c]
  have e: "and_then (on_store s ?r)
      (\<lambda>s old. if old \<noteq> None then (s, Inl OutputAlreadyExists) else (push (CoinCreated (coin_uncompress ?c u)) s, Inr ()))
      = (s', Inr ())"
    using assms(1) True unfolding insert_coin_def coin_of_output_def Let_def assms(3) by simp
  then obtain s1 old where "on_store s ?r = (s1, Inr old)" "old = None" "s' = push (CoinCreated (coin_uncompress ?c u)) s1"
    by (auto elim!: and_then_InrE split: if_splits)
  then show ?thesis using True rep by (auto simp: on_store_Inr)
qed (use assms in \<open>simp add: insert_coin_def\<close>)

lemma insert_contract_utxo_ok:
  assumes "insert_contract_utxo E h idx u c s = (s', Inr ())" "good (xs_store s)"
  shows "coins E (xs_store s') = coins E (xs_store s) \<and> quiet (xs_data s) (xs_data s')"
  using assms other_tables(1)[OF assms(2), of "Coins (ex_codecs E)" "ContractsLatestUtxo (ex_codecs E)"]
  by (auto simp: insert_contract_utxo_def on_store_Inr coins_def)

lemma persist_output_ok:
  assumes "persist_output E h idx u inputs out s = (s', Inr ())" "good (xs_store s)" "idx = ed_tx_count (xs_data s)"
  shows "coins E (xs_store s') = (case output_coin out of
        Some d \<Rightarrow> (if 0 < out_amount d then (coins E (xs_store s))(u := Inr (Some (coin_of_output h idx d))) else coins E (xs_store s))
      | None \<Rightarrow> coins E (xs_store s))
    \<and> quiet (xs_data s) (xs_data s')"
  using assms insert_coin_ok[of h u _ s s' idx] insert_contract_utxo_ok[of h idx u _ s s']
  by (cases out) (auto simp: persist_output_def split: option.splits)

lemma new_coins_index:
  "(u, c) \<in> set (new_coins h idx txid i outs) \<Longrightarrow> i + length outs \<le> 2 ^ 16 \<Longrightarrow>
   utxo_tx_id u = txid \<and> i \<le> unat (output_index u) \<and> unat (output_index u) < i + length outs"
proof (induction outs arbitrary: i)
  case (Cons out outs)
  have i: "unat (of_nat i :: u16) = i" using Cons.prems(2) by (simp add: unat_of_nat)
  show ?case
  proof (cases "(u, c) \<in> set (new_coins h idx txid (Suc i) outs)")
    case True
    with Cons.IH[OF True] Cons.prems(2) show ?thesis by simp
  next
    case False
    then have "u = \<lparr>utxo_tx_id = txid, output_index = of_nat i\<rparr>"
      using Cons.prems(1) by (auto split: option.splits if_splits)
    with i show ?thesis by simp
  qed
qed simp

lemma persist_outputs_ok:
  "persist_outputs E h idx txid inputs i outs s = (s', Inr ()) \<Longrightarrow> good (xs_store s) \<Longrightarrow>
   idx = ed_tx_count (xs_data s) \<Longrightarrow>
   coins E (xs_store s') = ledger_step [] (new_coins h idx txid i outs) (coins E (xs_store s))
   \<and> (outs \<noteq> [] \<longrightarrow> i + length outs \<le> 2 ^ 16) \<and> quiet (xs_data s) (xs_data s')"
proof (induction outs arbitrary: i s)
  case (Cons out outs)
  let ?u = "\<lparr>utxo_tx_id = txid, output_index = of_nat i\<rparr>"
  from Cons.prems(1) obtain s1 where i: "i < 2 ^ 16"
    and 1: "persist_output E h idx ?u inputs out s = (s1, Inr ())"
    and 2: "persist_outputs E h idx txid inputs (Suc i) outs s1 = (s', Inr ())"
    by (auto elim!: and_then_InrE split: if_splits)
  have "keeps E {Coins_column, ContractsLatestUtxo_column} s s1"
    using persist_outputs_keeps[of E s h idx txid inputs i "[out]"] 1 i by simp
  then have g: "good (xs_store s1)" using Cons.prems(2) by (rule good_keeps)
  note one = persist_output_ok[OF 1 Cons.prems(2,3)]
  have "idx = ed_tx_count (xs_data s1)" using one Cons.prems(3) quiet_fields(4) by metis
  note IH = Cons.IH[OF 2 g this]
  have len: "Suc i + length outs \<le> 2 ^ 16" using IH i by (cases outs) auto
  have "map_of (new_coins h idx txid (Suc i) outs) ?u = None"
  proof (rule ccontr)
    assume "map_of (new_coins h idx txid (Suc i) outs) ?u \<noteq> None"
    then obtain c where "(?u, c) \<in> set (new_coins h idx txid (Suc i) outs)" by (auto dest: map_of_SomeD)
    from new_coins_index[OF this len] i show False by (simp add: unat_of_nat)
  qed
  then have "coins E (xs_store s') = ledger_step [] (new_coins h idx txid i (out # outs)) (coins E (xs_store s))"
    using one IH by (auto simp: ledger_step_def fun_eq_iff split: option.splits)
  then show ?case using one IH len quiet_trans by auto
qed (simp add: ledger_step_def)

lemma ledger_step_compose: "ledger_step [] created (ledger_step spent [] L) = ledger_step spent created L"
  by (auto simp: ledger_step_def fun_eq_iff split: option.splits)

lemma attempt_data:
  assumes "attempt_tx_execution_with_vm E c tx hdr cb gp s = (s', Inr r)"
  shows "xs_data s' = xs_data s"
  using assms unfolding attempt_tx_execution_with_vm_def Let_def commit_unless_reverted_def
  by (auto simp: on_store_Inr elim!: and_then_InrE split: prod.splits if_splits)

lemma put_processed:
  assumes "good st"
  shows "processed E (fst (plain_put (ProcessedTransactions (ex_codecs E)) st txid ())) =
    (processed E st)(txid := Inr (Some ()))"
proof -
  have ok: "tx_ok st" using assms by (simp add: good_def)
  obtain st' where "plain_put (ProcessedTransactions (ex_codecs E)) st txid () = (st', Inr ())"
    and g: "tx_get (tx_level E) st' = map_set (encode_key (ProcessedTransactions (ex_codecs E)) txid)
      (tcolumn (ProcessedTransactions (ex_codecs E))) (Some (encode_value (ProcessedTransactions (ex_codecs E)) ()))
      (tx_get (tx_level E) st)"
    using lawful_table.put[OF processed_lawful ok, of txid "()"] by metis
  with lawful_table.get_map_set[OF processed_lawful g] lawful_table.decode_encode[OF processed_lawful, of "()"]
  show ?thesis by (auto simp: processed_def fun_eq_iff)
qed

text \<open>What a successful execution of a transaction that pays for itself does.\<close>

lemma execute_chargeable_ok:
  assumes "execute_chargeable_transaction E kind c hdr cb gp s = (s', Inr t)" "good (xs_store s)"
  obtains tx reverted state rs d where
    "t = Chargeable kind tx"
    "coins E (xs_store s') = ledger_step (coin_ids (tx_inputs tx))
       (new_coins (height (p_consensus hdr)) (ed_tx_count (xs_data s)) (checked_id c) 0 (tx_outputs tx))
       (coins E (xs_store s))"
    "forbid_fake_coins E \<Longrightarrow> distinct (coin_ids (tx_inputs tx))
       \<and> (\<forall>u\<in>set (coin_ids (tx_inputs tx)). \<exists>coin. coins E (xs_store s) u = Inr (Some coin))"
    "processed E (xs_store s') = (processed E (xs_store s))(checked_id c := Inr (Some ()))"
    "quiet (xs_data s) d" "update_execution_data E tx rs gp reverted state (checked_id c) d = (xs_data s', Inr ())"
    "good (xs_store s')"
proof -
  let ?h = "height (p_consensus hdr)" and ?id = "checked_id c"
  from assms(1) obtain c' s1 reverted state tx rs s2 s3 where
    1: "attempt_tx_execution_with_vm E c' (chargeable_of c') hdr cb gp s = (s1, Inr (reverted, state, tx, rs))"
    and 2: "spend_input_utxos E reverted (tx_inputs tx) s1 = (s2, Inr ())"
    and 3: "persist_output_utxos E ?h ?id (tx_inputs tx) (tx_outputs tx) s2 = (s3, Inr ())"
    and 4: "and_then (on_store s3 (plain_put (ProcessedTransactions (ex_codecs E)) (xs_store s3) ?id ()))
      (\<lambda>s _. and_then (on_data s (update_execution_data E tx rs gp reverted state ?id (xs_data s)))
        (\<lambda>s _. (s, Inr (Chargeable kind tx)))) = (s', Inr t)"
    unfolding execute_chargeable_transaction_def Let_def
    by (auto elim!: and_then_InrE split: prod.splits)
  have k1: "keeps E vm_columns s s1" using attempt_keeps[of s c' "chargeable_of c'" hdr cb gp] 1 by simp
  have k2: "keeps E {Coins_column, Messages_column} s1 s2" using spend_inputs_keeps[of E s1 reverted "tx_inputs tx"] 2 by simp
  have k3: "keeps E {Coins_column, ContractsLatestUtxo_column} s2 s3"
    using persist_outputs_keeps[of E s2 ?h "ed_tx_count (xs_data s2)" ?id "tx_inputs tx" 0 "tx_outputs tx"] 3
    by (simp add: persist_output_utxos_def)
  note g1 = good_keeps[OF k1 assms(2)]
  note g2 = good_keeps[OF k2 g1]
  note g3 = good_keeps[OF k3 g2]
  have d1: "xs_data s1 = xs_data s" by (rule attempt_data[OF 1])
  have c1: "coins E (xs_store s1) = coins E (xs_store s)" "processed E (xs_store s1) = processed E (xs_store s)"
    using views_frame[OF k1 assms(2)] by auto
  note sp = spend_inputs_ok[OF 2 g1]
  have p2: "processed E (xs_store s2) = processed E (xs_store s1)" "processed E (xs_store s3) = processed E (xs_store s2)"
    using views_frame(2)[OF k2 g1] views_frame(2)[OF k3 g2] by auto
  have idx: "ed_tx_count (xs_data s) = ed_tx_count (xs_data s2)" using sp d1 quiet_fields(4) by metis
  note po = persist_outputs_ok[OF 3[unfolded persist_output_utxos_def] g2 refl]
  let ?st = "fst (plain_put (ProcessedTransactions (ex_codecs E)) (xs_store s3) ?id ())"
  from 4 obtain s4 u where s4: "on_store s3 (plain_put (ProcessedTransactions (ex_codecs E)) (xs_store s3) ?id ()) = (s4, Inr u)"
    and on: "on_data s4 (update_execution_data E tx rs gp reverted state ?id (xs_data s4)) = (s', Inr ())"
    and t: "t = Chargeable kind tx"
    by (auto elim!: and_then_InrE)
  obtain d' r where u: "update_execution_data E tx rs gp reverted state ?id (xs_data s3) = (d', r)" by fastforce
  have s': "xs_store s' = ?st"
    "update_execution_data E tx rs gp reverted state ?id (xs_data s3) = (xs_data s', Inr ())"
    using s4 on u by (auto simp: on_store_Inr on_data_Inr)
  show ?thesis
  proof (rule that[OF t _ _ _ _ s'(2)])
    have "coins E ?st = coins E (xs_store s3)"
      using other_tables(1)[OF g3, of "Coins (ex_codecs E)" "ProcessedTransactions (ex_codecs E)"] by (simp add: coins_def)
    moreover have "coins E (xs_store s2) = ledger_step (coin_ids (tx_inputs tx)) [] (coins E (xs_store s1))"
      using sp by (simp add: ledger_step_def)
    ultimately show "coins E (xs_store s') = ledger_step (coin_ids (tx_inputs tx))
       (new_coins ?h (ed_tx_count (xs_data s)) ?id 0 (tx_outputs tx)) (coins E (xs_store s))"
      using po c1(1) by (simp add: s'(1) idx ledger_step_compose)
    show "processed E (xs_store s') = (processed E (xs_store s))(?id := Inr (Some ()))"
      using put_processed[OF g3] p2 c1(2) by (simp add: s'(1))
    show "quiet (xs_data s) (xs_data s3)" using sp po d1 quiet_trans by metis
    show "good (xs_store s')"
      using good_frame[OF store_frame_plain(1)[of "ProcessedTransactions (ex_codecs E)" UNIV]] g3 by (simp add: s'(1))
  qed (use sp c1 in auto)
qed

end

section \<open>The identity of a transaction\<close>

text \<open>The fields that execution fills in and that the identifier does not cover.\<close>

fun erase_input :: "input \<Rightarrow> input" where
  "erase_input (CoinSigned c) = CoinSigned (c\<lparr>in_tx_pointer := default_pointer\<rparr>)"
| "erase_input (CoinPredicate c) = CoinPredicate (c\<lparr>in_tx_pointer := default_pointer, in_coin_predicate_gas := 0\<rparr>)"
| "erase_input (ContractInput c) = ContractInput (zero_contract_input (ci_contract_id c))"
| "erase_input (MessageCoinSigned m) = MessageCoinSigned m"
| "erase_input (MessageCoinPredicate m) = MessageCoinPredicate (m\<lparr>in_message_predicate_gas := 0\<rparr>)"
| "erase_input (MessageDataSigned m) = MessageDataSigned m"
| "erase_input (MessageDataPredicate m) = MessageDataPredicate (m\<lparr>in_message_predicate_gas := 0\<rparr>)"

definition erase_contract_output :: "contract_output \<Rightarrow> contract_output" where
  "erase_contract_output c = c\<lparr>co_balance_root := 0, co_state_root := 0\<rparr>"

fun erase_output :: "tx_output \<Rightarrow> tx_output" where
  "erase_output (CoinOutput d) = CoinOutput d"
| "erase_output (ContractOutput c) = ContractOutput (erase_contract_output c)"
| "erase_output (ChangeOutput d) = ChangeOutput (d\<lparr>out_amount := 0\<rparr>)"
| "erase_output (VariableOutput d) = VariableOutput \<lparr>out_to = 0, out_amount = 0, out_asset_id = 0\<rparr>"
| "erase_output (ContractCreated i r) = ContractCreated i r"

definition erase_chargeable :: "chargeable \<Rightarrow> chargeable" where
  "erase_chargeable tx = tx\<lparr>tx_inputs := map erase_input (tx_inputs tx), tx_outputs := map erase_output (tx_outputs tx)\<rparr>"

definition erase_mint :: "mint \<Rightarrow> mint" where
  "erase_mint m = m\<lparr>mint_input := zero_contract_input (ci_contract_id (mint_input m)),
     mint_output := erase_contract_output (mint_output m)\<rparr>"

fun erase :: "transaction \<Rightarrow> transaction" where
  "erase (Chargeable kind tx) = Chargeable kind (erase_chargeable tx)"
| "erase (Mint m) = Mint (erase_mint m)"

text \<open>What the executor relies on of \<open>fuel_tx\<close> and the VM for the identity of transactions.\<close>

locale faithful_executor = lawful_executor E for E :: "'s executor_env" +
  assumes basic_tx: "into_checked_basic (ex_vm E) p h t = Inr c \<Longrightarrow>
      checked_tx c = t \<and> checked_id c = tx_id (ex_lib E) (params_chain_id p) t"
    and reusable_tx: "into_checked_reusable_memory (ex_vm E) p h m t = Inr c \<Longrightarrow>
      checked_tx c = t \<and> checked_id c = tx_id (ex_lib E) (params_chain_id p) t"
    and predicates_tx: "check_predicates (ex_vm E) p b m c = Inr c' \<Longrightarrow> checked_tx c' = checked_tx c \<and> checked_id c' = checked_id c"
    and signatures_tx: "check_signatures (ex_vm E) i c = Inr c' \<Longrightarrow> checked_tx c' = checked_tx c \<and> checked_id c' = checked_id c"
    and transact_erase: "into_ready (ex_vm E) p g h c = Inr ready \<Longrightarrow> checked_tx c = Chargeable kind tx \<Longrightarrow>
      vm_outcome (transact (ex_vm E) env m ready) = Inr r \<Longrightarrow> erase_chargeable (vm_tx r) = erase_chargeable tx"
    and id_erase: "erase t = erase t' \<Longrightarrow> tx_id (ex_lib E) i t = tx_id (ex_lib E) i t'"

lemma update_gas_erase:
  "update_input_used_gas txid gs inputs = Inr inputs' \<Longrightarrow> map erase_input inputs' = map erase_input inputs"
proof (induction txid gs inputs arbitrary: inputs' rule: update_input_used_gas.induct)
  case (1 txid g gs i inputs)
  from 1(2) obtain i' rest where i': "(case g of None \<Rightarrow> Inr i
      | Some gas_used \<Rightarrow> ok_or (InvalidTransactionOutcome txid) (set_predicate_gas gas_used i)) = Inr i'"
    and rest: "update_input_used_gas txid gs inputs = Inr rest" "inputs' = i' # rest"
    by (auto simp: res_then_eq_Inr)
  have "erase_input i' = erase_input i"
    using i' by (cases i) (auto split: option.splits)
  with 1(1)[OF rest(1)] rest(2) show ?case by simp
qed auto

lemma compute_inputs_erase:
  "compute_inputs E st r inputs = Inr inputs' \<Longrightarrow> map erase_input inputs' = map erase_input inputs"
proof (induction inputs arbitrary: inputs')
  case (Cons i inputs)
  from Cons.prems obtain i' rest where i': "compute_input E st r i = Inr i'"
    and rest: "compute_inputs E st r inputs = Inr rest" "inputs' = i' # rest"
    by (auto simp: res_then_eq_Inr)
  have "erase_input i' = erase_input i"
    using i' by (cases i) (auto simp: compute_input_def res_then_eq_Inr zero_contract_input_def Let_def)
  with Cons.IH[OF rest(1)] rest(2) show ?case by simp
qed simp

lemma compute_outputs_erase:
  "compute_state_of_not_utxo_outputs V txid inputs r outs = Inr outs' \<Longrightarrow> map erase_output outs' = map erase_output outs"
proof (induction outs arbitrary: outs')
  case (Cons out outs)
  from Cons.prems obtain out' rest where
    rest: "compute_state_of_not_utxo_outputs V txid inputs r outs = Inr rest" "outs' = out' # rest"
    and "erase_output out' = erase_output out"
    by (auto simp: res_then_eq_Inr erase_contract_output_def Let_def split: tx_output.splits option.splits)
  with Cons.IH[OF rest(1)] show ?case by simp
qed simp

lemma erase_chargeable_eq:
  "erase_chargeable a = erase_chargeable b \<longleftrightarrow>
   map erase_input (tx_inputs a) = map erase_input (tx_inputs b)
   \<and> map erase_output (tx_outputs a) = map erase_output (tx_outputs b) \<and> tx_body a = tx_body b"
  by (cases a; cases b) (auto simp: erase_chargeable_def)

context faithful_executor
begin

lemma attempt_erase:
  assumes "attempt_tx_execution_with_vm E c tx hdr cb gp s = (s', Inr (reverted, state, tx', rs))"
    and "checked_tx c = Chargeable kind tx"
  shows "erase_chargeable tx' = erase_chargeable tx"
proof -
  from assms(1) obtain ready res inputs1 before inputs2 after outputs2 where
    ready: "into_ready (ex_vm E) (consensus_params E) gp (height (p_consensus hdr)) c = Inr ready"
    and res: "vm_outcome (transact (ex_vm E) (vm_env_of E hdr cb gp) (tx_get (tx_level E) (xs_store s)) ready) = Inr res"
    and in1: "update_input_used_gas (checked_id c) (map predicate_gas_used (tx_inputs tx)) (tx_inputs (vm_tx res)) = Inr inputs1"
    and in2: "compute_inputs E (xs_store s) before inputs1 = Inr inputs2"
    and out2: "compute_state_of_not_utxo_outputs (ex_vm E) (checked_id c) inputs2 after (tx_outputs (vm_tx res)) = Inr outputs2"
    and tx': "tx' = (vm_tx res)\<lparr>tx_inputs := inputs2, tx_outputs := outputs2\<rparr>"
    unfolding attempt_tx_execution_with_vm_def Let_def
    by (auto elim!: and_then_InrE split: prod.splits)
  have "erase_chargeable (vm_tx res) = erase_chargeable tx" by (rule transact_erase[OF ready assms(2) res])
  then show ?thesis
    using update_gas_erase[OF in1] compute_inputs_erase[OF in2] compute_outputs_erase[OF out2]
    by (simp add: erase_chargeable_eq tx')
qed

end

section \<open>One transaction\<close>

definition mint_data :: "bytes32 \<Rightarrow> execution_data \<Rightarrow> execution_data" where
  "mint_data txid d = d\<lparr>ed_found_mint := True, ed_tx_status := ed_tx_status d @
     [\<lparr>status_id = txid, status_result =
        Success \<lparr>program_state = None, receipts = [], total_gas = 0, total_fee = 0\<rparr>\<rparr>]\<rparr>"

context faithful_executor
begin

lemma mint_vm_keeps:
  "keeps E (insert Coins_column (insert ContractsLatestUtxo_column vm_columns)) s
     (fst (execute_mint_with_vm E hdr cb i m s))"
  unfolding execute_mint_with_vm_def Let_def
  by (auto intro!: keeps_then keeps_on_store store_frame_commit[OF balance_frame] persist_utxos_keeps
      split: prod.splits)

lemma mint_vm_ok:
  assumes "execute_mint_with_vm E hdr cb txid m s = (s', Inr (i, out))" "good (xs_store s)"
  shows "coins E (xs_store s') = coins E (xs_store s)" "quiet (xs_data s) (xs_data s')"
    "ci_contract_id i = ci_contract_id (mint_input m)" "erase_contract_output out = erase_contract_output (mint_output m)"
proof -
  let ?run = "balance_increase (ex_vm E) (vm_env_of E hdr cb 0) (tx_get (tx_level E) (xs_store s))
      (ci_contract_id (mint_input m)) (mint_asset_id m) (mint_amount m)"
  from assms(1) obtain before after inputs s1 s2 outputs where
    in1: "compute_inputs E (xs_store s) before [ContractInput (mint_input m)] = Inr inputs"
    and s1: "on_store s (tx_commit_changes (xs_store s) (vm_changes ?run)) = (s1, Inr ())"
    and s2: "persist_output_utxos E (height (p_consensus hdr)) txid inputs [ContractOutput (mint_output m)] s1 = (s2, Inr ())"
    and out1: "compute_state_of_not_utxo_outputs (ex_vm E) txid inputs after [ContractOutput (mint_output m)] = Inr outputs"
    and io: "the_contract_input inputs = Inr i" "the_contract_output outputs = Inr out" and s': "s' = s2"
    unfolding execute_mint_with_vm_def Let_def by (auto elim!: and_then_InrE split: prod.splits)
  have k1: "keeps E vm_columns s s1"
    using keeps_on_store[OF store_frame_commit[OF balance_frame subset_refl]] s1 by (metis fst_conv)
  note g1 = good_keeps[OF k1 assms(2)]
  have q1: "xs_data s1 = xs_data s" using s1 by (simp add: on_store_Inr)
  note po = persist_outputs_ok[OF s2[unfolded persist_output_utxos_def] g1 refl]
  show "coins E (xs_store s') = coins E (xs_store s)"
    using po views_frame(1)[OF k1 assms(2)] by (simp add: s' ledger_step_def)
  show "quiet (xs_data s) (xs_data s')" using po q1 by (simp add: s')
  show "ci_contract_id i = ci_contract_id (mint_input m)"
    using compute_inputs_erase[OF in1] io(1)
    by (auto simp: the_contract_input_def zero_contract_input_def split: list.splits input.splits)
  show "erase_contract_output out = erase_contract_output (mint_output m)"
    using compute_outputs_erase[OF out1] io(2)
    by (auto simp: the_contract_output_def split: list.splits tx_output.splits)
qed

lemma replace_processed:
  assumes "good st"
  shows "snd (plain_replace (tx_level E) (ProcessedTransactions (ex_codecs E)) st txid ()) = processed E st txid"
    "processed E (fst (plain_replace (tx_level E) (ProcessedTransactions (ex_codecs E)) st txid ())) =
      (processed E st)(txid := Inr (Some ()))"
proof -
  have ok: "tx_ok st" using assms by (simp add: good_def)
  obtain st' where "plain_replace (tx_level E) (ProcessedTransactions (ex_codecs E)) st txid () = (st', processed E st txid)"
    and g: "tx_get (tx_level E) st' = map_set (encode_key (ProcessedTransactions (ex_codecs E)) txid)
      (tcolumn (ProcessedTransactions (ex_codecs E))) (Some (encode_value (ProcessedTransactions (ex_codecs E)) ()))
      (tx_get (tx_level E) st)"
    using lawful_table.replace[OF processed_lawful ok, of "tx_level E" txid "()"] unfolding processed_def by metis
  with lawful_table.get_map_set[OF processed_lawful g] lawful_table.decode_encode[OF processed_lawful, of "()"]
  show "snd (plain_replace (tx_level E) (ProcessedTransactions (ex_codecs E)) st txid ()) = processed E st txid"
    "processed E (fst (plain_replace (tx_level E) (ProcessedTransactions (ex_codecs E)) st txid ())) =
      (processed E st)(txid := Inr (Some ()))"
    by (auto simp: processed_def fun_eq_iff)
qed

lemma execute_mint_ok:
  assumes "execute_mint E txid m hdr cb gp s = (s', Inr t)" "good (xs_store s)"
  obtains m' where "t = Mint m'" "erase_mint m' = erase_mint m"
    "coins E (xs_store s') = coins E (xs_store s)"
    "processed E (xs_store s') = (processed E (xs_store s))(txid := Inr (Some ()))"
    "quiet (mint_data txid (xs_data s)) (xs_data s')"
    "pointer_index (mint_tx_pointer m) = ed_tx_count (xs_data s)" "mint_gas_price m = gp"
    "mint_amount m = (if ci_contract_id (mint_input m) = 0 then 0 else ed_coinbase (xs_data s))"
    "good (xs_store s')"
proof -
  let ?s0 = "s\<lparr>xs_data := (xs_data s)\<lparr>ed_found_mint := True\<rparr>\<rparr>" and ?cols = "insert Coins_column (insert ContractsLatestUtxo_column vm_columns)"
  from assms(1) obtain s1 m' where
    checks: "pointer_index (mint_tx_pointer m) = ed_tx_count (xs_data s)" "mint_gas_price m = gp"
    and s1: "(if ci_contract_id (mint_input m) = 0
         then (?s0, res_then (verify_mint_for_empty_contract m) (\<lambda>_. Inr m))
         else
           and_then (?s0, check_mint_amount m (ed_coinbase (xs_data ?s0)))
           (\<lambda>s _.
           and_then (s, if forbid_fake_coins E
                        then verify_inputs_exist_and_values_match E (xs_store s) (da_height (p_application hdr))
                               [ContractInput (mint_input m)]
                        else Inr ())
           (\<lambda>s _.
           and_then (execute_mint_with_vm E hdr cb txid m s)
           (\<lambda>s (i, out). (s, Inr (m\<lparr>mint_input := i, mint_output := out\<rparr>)))))) = (s1, Inr m')"
    and st: "store_mint_tx E m' txid s1 = (s', Inr t)"
    unfolding execute_mint_def Let_def
    by (auto simp: check_mint_has_expected_index_def check_gas_price_def elim!: and_then_InrE split: if_splits)
  have mid: "coins E (xs_store s1) = coins E (xs_store s) \<and> keeps E ?cols s s1
      \<and> quiet (xs_data ?s0) (xs_data s1) \<and> erase_mint m' = erase_mint m
      \<and> mint_amount m = (if ci_contract_id (mint_input m) = 0 then 0 else ed_coinbase (xs_data s))"
  proof (cases "ci_contract_id (mint_input m) = 0")
    case True
    with s1 show ?thesis by (auto simp: res_then_eq_Inr verify_mint_for_empty_contract_def split: if_splits)
  next
    case False
    with s1 obtain i out where vm: "execute_mint_with_vm E hdr cb txid m ?s0 = (s1, Inr (i, out))"
      and m': "m' = m\<lparr>mint_input := i, mint_output := out\<rparr>" and am: "mint_amount m = ed_coinbase (xs_data s)"
      by (auto simp: check_mint_amount_def elim!: and_then_InrE split: if_splits)
    have g: "good (xs_store ?s0)" using assms(2) by simp
    note ok = mint_vm_ok[OF vm g]
    have "keeps E ?cols s s1" using mint_vm_keeps[of ?s0 hdr cb txid m] vm by (simp add: keeps_def)
    moreover have "erase_mint m' = erase_mint m" using ok(3,4) by (simp add: erase_mint_def m')
    ultimately show ?thesis using ok(1,2) am False by simp
  qed
  have g1: "good (xs_store s1)" using mid good_keeps assms(2) by blast
  let ?r = "plain_replace (tx_level E) (ProcessedTransactions (ex_codecs E)) (xs_store s1) txid ()"
  have s': "t = Mint m'" "xs_store s' = fst ?r"
      "xs_data s' = (xs_data s1)\<lparr>ed_tx_status := ed_tx_status (xs_data s1) @
     [\<lparr>status_id = txid, status_result =
        Success \<lparr>program_state = None, receipts = [], total_gas = 0, total_fee = 0\<rparr>\<rparr>]\<rparr>"
    using st by (auto simp: store_mint_tx_def Let_def on_store_Inr elim!: and_then_InrE split: if_splits)
  have "quiet (mint_data txid (xs_data s)) (xs_data s')"
    using mid s'(3) by (cases "xs_data s"; cases "xs_data s1") (auto simp: quiet_def mint_data_def)
  moreover have "coins E (xs_store s') = coins E (xs_store s)"
    using other_tables(2)[OF g1, of "Coins (ex_codecs E)" "ProcessedTransactions (ex_codecs E)"] mid s'(2)
    by (simp add: coins_def)
  moreover have "processed E (xs_store s') = (processed E (xs_store s))(txid := Inr (Some ()))"
    using replace_processed(2)[OF g1] views_frame(2)[OF conjunct1[OF conjunct2[OF mid]] assms(2)] s'(2) by simp
  moreover have "good (xs_store s')"
    using good_frame[OF store_frame_plain(2)[of "ProcessedTransactions (ex_codecs E)" UNIV] g1] s'(2) by simp
  ultimately show ?thesis using that s'(1) mid checks by simp
qed

lemma execute_chargeable_erase:
  assumes "execute_chargeable_transaction E kind c hdr cb gp s = (s', Inr t)" "checked_tx c = Chargeable kind tx0"
  shows "erase t = erase (checked_tx c)"
proof -
  from assms(1) obtain c' s1 reverted state tx rs where
    c': "(if forbid_fake_coins E then extra_tx_checks E c hdr (xs_store s) else Inr c) = Inr c'"
    and 1: "attempt_tx_execution_with_vm E c' (chargeable_of c') hdr cb gp s = (s1, Inr (reverted, state, tx, rs))"
    and t: "t = Chargeable kind tx"
    unfolding execute_chargeable_transaction_def Let_def by (auto elim!: and_then_InrE split: prod.splits)
  have same: "checked_tx c' = checked_tx c"
    using c' predicates_tx signatures_tx
    by (auto simp: extra_tx_checks_def res_then_eq_Inr split: if_splits)
  then have "checked_tx c' = Chargeable kind (chargeable_of c')" using assms(2) by (simp add: chargeable_of_def)
  moreover from attempt_erase[OF 1 this] have "erase_chargeable tx = erase_chargeable (chargeable_of c')" by simp
  ultimately show ?thesis using t same by (metis erase.simps(1))
qed

end

text \<open>A transaction that claims to be checked carries its own identifier.\<close>

definition chain_tx_id :: "'s executor_env \<Rightarrow> transaction \<Rightarrow> bytes32" where
  "chain_tx_id E t = tx_id (ex_lib E) (params_chain_id (consensus_params E)) t"

definition valid_tx :: "'s executor_env \<Rightarrow> maybe_checked \<Rightarrow> bool" where
  "valid_tx E tx =
     (case tx of CheckedTransaction c _ \<Rightarrow> checked_id c = chain_tx_id E (checked_tx c) | UncheckedTransaction _ \<Rightarrow> True)"

definition tx_ledger :: "block_height \<Rightarrow> u16 \<Rightarrow> bytes32 \<Rightarrow> transaction \<Rightarrow> coin_view \<Rightarrow> coin_view" where
  "tx_ledger h idx txid t L =
     (case t of
        Chargeable _ x \<Rightarrow> ledger_step (coin_ids (tx_inputs x)) (new_coins h idx txid 0 (tx_outputs x)) L
      | Mint _ \<Rightarrow> L)"

definition spent_by :: "transaction \<Rightarrow> utxo_id list" where
  "spent_by t = (case t of Chargeable _ x \<Rightarrow> coin_ids (tx_inputs x) | Mint _ \<Rightarrow> [])"

lemma contains_key_False:
  assumes "kv_inspect_laws S" "contains_key S T tx k = Inr False"
  shows "plain_get S T tx k = Inr None"
  using assms(2) kv_inspect_laws.tx_exists_default[OF assms(1)]
  by (auto simp: contains_key_def plain_get_def default_exists_def default_size_of_value_def split: sum.splits option.splits)

context faithful_executor
begin

lemma convert_ok:
  assumes "convert_maybe_checked_tx_to_checked_tx E tx hdr = Inr c" "valid_tx E tx"
  shows "checked_id c = maybe_checked_id E tx" "checked_id c = chain_tx_id E (checked_tx c)"
  using assms basic_tx
  by (auto simp: convert_maybe_checked_tx_to_checked_tx_def maybe_checked_id_def valid_tx_def chain_tx_id_def Let_def
      split: maybe_checked.splits if_splits dest: basic_tx)

lemma execute_transaction_ok:
  assumes "execute_transaction E tx txid hdr cb gp s = (s', Inr t)" "good (xs_store s)"
    and "txid = maybe_checked_id E tx" "valid_tx E tx"
  shows "processed E (xs_store s) txid = Inr None" "chain_tx_id E t = txid" "\<not> ed_found_mint (xs_data s)"
    "coins E (xs_store s') = tx_ledger (height (p_consensus hdr)) (ed_tx_count (xs_data s)) txid t (coins E (xs_store s))"
    "forbid_fake_coins E \<Longrightarrow> distinct (spent_by t) \<and> (\<forall>u\<in>set (spent_by t). \<exists>c. coins E (xs_store s) u = Inr (Some c))"
    "processed E (xs_store s') = (processed E (xs_store s))(txid := Inr (Some ()))"
    "good (xs_store s')"
proof -
  from assms(1) obtain c where nf: "\<not> ed_found_mint (xs_data s)"
    and dup: "contains_key (tx_level E) (ProcessedTransactions (ex_codecs E)) (xs_store s) txid = Inr False"
    and c: "convert_maybe_checked_tx_to_checked_tx E tx hdr = Inr c"
    and run: "(case checked_tx c of
        Chargeable kind _ \<Rightarrow> execute_chargeable_transaction E kind c hdr cb gp s
      | Mint m \<Rightarrow> execute_mint E (checked_id c) m hdr cb gp s) = (s', Inr t)"
    unfolding execute_transaction_def
    by (auto simp: check_mint_is_not_found_def check_tx_is_not_duplicate_def res_then_eq_Inr
        elim!: and_then_InrE split: if_splits)
  note id = convert_ok[OF c assms(4), folded assms(3)]
  have laws: "kv_inspect_laws (tx_level E)" unfolding tx_level_def by (rule kv_inspect_laws.tx_kv_laws[OF kv_laws])
  show "processed E (xs_store s) txid = Inr None" using contains_key_False[OF laws dup] by (simp add: processed_def)
  show "\<not> ed_found_mint (xs_data s)" by (rule nf)
  have "erase t = erase (checked_tx c) \<and> coins E (xs_store s') =
        tx_ledger (height (p_consensus hdr)) (ed_tx_count (xs_data s)) txid t (coins E (xs_store s))
    \<and> (forbid_fake_coins E \<longrightarrow> distinct (spent_by t) \<and> (\<forall>u\<in>set (spent_by t). \<exists>c. coins E (xs_store s) u = Inr (Some c)))
    \<and> processed E (xs_store s') = (processed E (xs_store s))(txid := Inr (Some ())) \<and> good (xs_store s')"
  proof (cases "checked_tx c")
    case (Chargeable kind x)
    then have r: "execute_chargeable_transaction E kind c hdr cb gp s = (s', Inr t)" using run by simp
    show ?thesis
      by (rule execute_chargeable_ok[OF r assms(2)])
        (use execute_chargeable_erase[OF r Chargeable] id in \<open>simp add: tx_ledger_def spent_by_def\<close>)
  next
    case (Mint m)
    then have r: "execute_mint E txid m hdr cb gp s = (s', Inr t)" using run id by simp
    show ?thesis
      by (rule execute_mint_ok[OF r assms(2)]) (use Mint in \<open>simp add: tx_ledger_def spent_by_def\<close>)
  qed
  then show "chain_tx_id E t = txid"
    "coins E (xs_store s') = tx_ledger (height (p_consensus hdr)) (ed_tx_count (xs_data s)) txid t (coins E (xs_store s))"
    "forbid_fake_coins E \<Longrightarrow> distinct (spent_by t) \<and> (\<forall>u\<in>set (spent_by t). \<exists>c. coins E (xs_store s) u = Inr (Some c))"
    "processed E (xs_store s') = (processed E (xs_store s))(txid := Inr (Some ()))" "good (xs_store s')"
    using id id_erase[of t "checked_tx c"] by (auto simp: chain_tx_id_def)
qed

end

end
