(* ===== verification/Executor_Block.thy ===== *)
theory Executor_Block
  imports Executor_Ledger
begin

text \<open>
  What production and validation do to a block.  A transaction either goes into the block and into the store, with the
  effect that \<open>Executor_Ledger\<close> describes, or leaves both alone.  Both entry points are sequences of steps of the relation
  \<open>block_step\<close>, and two invariants hold along the steps: \<open>block_inv\<close> on the ledger and \<open>books\<close> on the execution data.
\<close>

section \<open>Whole transactions\<close>

text \<open>Every column that the execution of a transaction may write.\<close>

definition tx_columns :: "u32 set" where
  "tx_columns = own_columns \<union> vm_columns"

lemma tx_columns_mem [simp]:
  "Coins_column \<in> tx_columns" "Messages_column \<in> tx_columns" "ContractsLatestUtxo_column \<in> tx_columns"
  "ProcessedTransactions_column \<in> tx_columns" "c \<in> vm_columns \<Longrightarrow> c \<in> tx_columns"
  by (auto simp: tx_columns_def own_columns_def)

context faithful_executor
begin

lemma execute_chargeable_keeps:
  "keeps E tx_columns s (fst (execute_chargeable_transaction E kind c hdr cb gp s))"
  unfolding execute_chargeable_transaction_def Let_def
  by (auto intro!: keeps_then keeps_plain keeps_mono[OF attempt_keeps] keeps_mono[OF spend_inputs_keeps]
      persist_utxos_keeps split: prod.splits)

lemma execute_mint_keeps: "keeps E tx_columns s (fst (execute_mint E txid m hdr cb gp s))"
proof -
  have "keeps E tx_columns s' (fst (store_mint_tx E m' txid s'))" for s' m'
    unfolding store_mint_tx_def Let_def
    by (rule keeps_then) (auto simp: on_store_def keeps_def intro!: store_frame_plain)
  then show ?thesis
    unfolding execute_mint_def Let_def
    by (auto intro!: keeps_then keeps_mono[OF mint_vm_keeps] split: prod.splits)
qed

lemma execute_transaction_keeps: "keeps E tx_columns s (fst (execute_transaction E tx txid hdr cb gp s))"
  unfolding execute_transaction_def
  by (auto intro!: keeps_then simp: execute_chargeable_keeps execute_mint_keeps split: transaction.splits)

end

text \<open>Steps that leave the data alone up to events.\<close>

definition hush :: "'s exec_state \<Rightarrow> 's exec_state \<Rightarrow> bool" where
  "hush s s' = quiet (xs_data s) (xs_data s')"

lemma hush_refl [simp]: "hush s s"
  by (simp add: hush_def)

lemma hush_trans: "hush s1 s2 \<Longrightarrow> hush s2 s3 \<Longrightarrow> hush s1 s3"
  unfolding hush_def by (rule quiet_trans)

lemmas hush_then = and_then_keeps[where R = hush, OF hush_trans]

lemma hush_simps [simp]:
  "hush s (fst (on_store s' r)) \<longleftrightarrow> hush s s'" "hush s s' \<Longrightarrow> hush s (push e s')"
  by (simp_all add: hush_def on_store_def)

lemma attempt_hush: "hush s (fst (attempt_tx_execution_with_vm E c tx hdr cb gp s))"
  unfolding attempt_tx_execution_with_vm_def Let_def commit_unless_reverted_def
  by (auto intro!: hush_then split: prod.splits)

lemma spend_inputs_hush: "hush s (fst (spend_input_utxos E reverted inputs s))"
proof (induction inputs arbitrary: s)
  case (Cons i inputs)
  have "hush s (fst (spend_input E reverted i s))"
    by (auto simp: spend_input_def spend_coin_def spend_message_def intro!: hush_then split: input.splits)
  with Cons show ?case by (auto intro!: hush_then)
qed simp

lemma persist_outputs_hush: "hush s (fst (persist_outputs E h idx txid inputs i outs s))"
proof (induction outs arbitrary: i s)
  case (Cons out outs)
  have "hush s (fst (persist_output E h idx u inputs out s))" for u
    by (auto simp: persist_output_def insert_coin_def insert_contract_utxo_def Let_def
        intro!: hush_then split: tx_output.splits option.splits)
  with Cons show ?case by (auto intro!: hush_then)
qed simp

section \<open>What a transaction does to the data\<close>

text \<open>The fee, the gas and the messages of a status, and the errors after which the fee or the gas of the
  transaction has already been added to the data.\<close>

definition paid :: "execution_status \<Rightarrow> u64" where
  "paid st = total_fee (result_outcome (status_result st))"

definition burned :: "execution_status \<Rightarrow> u64" where
  "burned st = total_gas (result_outcome (status_result st))"

definition outbox :: "execution_status \<Rightarrow> bytes32 list" where
  "outbox st = (case status_result st of
     Success r \<Rightarrow> List.map_filter receipt_message_id (receipts r) | Failed _ \<Rightarrow> [])"

definition leaky :: "executor_error \<Rightarrow> bool" where
  "leaky e = (e = TxSizeOverflow \<or> (\<exists>a b. e = GasOverflow ''Execution used gas overflowed.'' a b))"

text \<open>What the mint transaction of a block brings to the contract of the producer: the fees, or nothing without one.\<close>

definition fees_minted :: "mint \<Rightarrow> execution_data \<Rightarrow> u64" where
  "fees_minted m d = (if ci_contract_id (mint_input m) = 0 then 0 else ed_coinbase d)"

definition data_step :: "bytes32 \<Rightarrow> transaction \<Rightarrow> execution_data \<Rightarrow> execution_data \<Rightarrow> bool" where
  "data_step txid t d d' =
     (\<exists>st. ed_tx_status d' = ed_tx_status d @ [st] \<and> status_id st = txid
        \<and> unat (ed_coinbase d') = unat (ed_coinbase d) + unat (paid st)
        \<and> unat (ed_used_gas d') = unat (ed_used_gas d) + unat (burned st)
        \<and> ed_message_ids d' = ed_message_ids d @ outbox st
        \<and> ed_tx_count d' = ed_tx_count d \<and> ed_skipped d' = ed_skipped d
        \<and> ed_event_inbox_root d' = ed_event_inbox_root d \<and> set (ed_events d) \<subseteq> set (ed_events d')
        \<and> ed_found_mint d' = (case t of Mint _ \<Rightarrow> True | _ \<Rightarrow> ed_found_mint d)
        \<and> (\<forall>m. t = Mint m \<longrightarrow> paid st = 0 \<and> burned st = 0 \<and> mint_amount m = fees_minted m d))"

lemma update_execution_data_ok:
  assumes "update_execution_data E x rs gp reverted state txid d = (d', Inr ())"
  shows "data_step txid (Chargeable kind x) d d'"
  using assms unfolding update_execution_data_def Let_def data_step_def
  by (auto elim!: and_then_InrE simp: checked_add_eq_Some paid_def burned_def outbox_def split: if_splits)

text \<open>What is left in the data by a transaction that failed with the given error.\<close>

definition failed_data :: "executor_error \<Rightarrow> execution_data \<Rightarrow> execution_data \<Rightarrow> bool" where
  "failed_data e d d' =
     ((\<exists>es. ed_events d' = ed_events d @ es)
      \<and> d' = d\<lparr>ed_events := ed_events d', ed_coinbase := ed_coinbase d', ed_used_gas := ed_used_gas d'\<rparr>
      \<and> (leaky e \<or> ed_coinbase d' = ed_coinbase d \<and> ed_used_gas d' = ed_used_gas d))"

lemma failed_data_refl [simp]: "failed_data e d d"
  by (simp add: failed_data_def)

lemma failed_data_fields:
  assumes "failed_data e d d'"
  shows "ed_used_size d' = ed_used_size d" "ed_tx_count d' = ed_tx_count d" "ed_found_mint d' = ed_found_mint d"
    "ed_message_ids d' = ed_message_ids d" "ed_tx_status d' = ed_tx_status d" "ed_skipped d' = ed_skipped d"
    "ed_event_inbox_root d' = ed_event_inbox_root d" "set (ed_events d) \<subseteq> set (ed_events d')"
    "\<not> leaky e \<Longrightarrow> ed_coinbase d' = ed_coinbase d \<and> ed_used_gas d' = ed_used_gas d"
  using assms by (cases d; cases d'; auto simp: failed_data_def)+

lemma quiet_failed: "quiet d d' \<Longrightarrow> failed_data e d d'"
  by (auto simp: quiet_def failed_data_def)

lemma failed_data_after: "quiet d1 d2 \<Longrightarrow> failed_data e d2 d3 \<Longrightarrow> failed_data e d1 d3"
  by (cases d1; cases d3) (auto simp: quiet_def failed_data_def)

lemma update_execution_data_err:
  assumes "update_execution_data E x rs gp reverted state txid d = (d', Inl e)"
  shows "failed_data e d d'"
  using assms unfolding update_execution_data_def Let_def failed_data_def leaky_def
  by (auto simp: and_then_def map_err_def ok_or_def split: if_splits option.splits sum.splits prod.splits)

lemma data_step_quiet: "quiet d1 d2 \<Longrightarrow> data_step txid t d2 d3 \<Longrightarrow> data_step txid t d1 d3"
proof -
  assume q: "quiet d1 d2" and "data_step txid t d2 d3"
  with subset_trans[OF quiet_fields(11)[OF q]] show "data_step txid t d1 d3"
    unfolding data_step_def fees_minted_def by (simp only: quiet_fields[OF q]) blast
qed

lemma erase_mint_eq:
  assumes "erase_mint m = erase_mint m0"
  shows "ci_contract_id (mint_input m) = ci_contract_id (mint_input m0)" "mint_gas_price m = mint_gas_price m0"
    "mint_amount m = mint_amount m0" "mint_tx_pointer m = mint_tx_pointer m0" "mint_asset_id m = mint_asset_id m0"
  using assms by (cases m; cases m0; simp add: erase_mint_def zero_contract_input_def)+

lemma mint_data_step:
  "quiet (mint_data txid d) d' \<Longrightarrow> mint_amount m = fees_minted m d \<Longrightarrow> data_step txid (Mint m) d d'"
  using quiet_fields(11)[of "mint_data txid d" d']
  by (auto simp: data_step_def quiet_fields mint_data_def paid_def burned_def outbox_def List.map_filter_simps)

context faithful_executor
begin

lemma execute_transaction_data:
  assumes "execute_transaction E tx txid hdr cb gp s = (s', Inr t)" "good (xs_store s)"
    and "txid = maybe_checked_id E tx" "valid_tx E tx"
  shows "data_step txid t (xs_data s) (xs_data s')"
proof -
  from assms(1) obtain c where c: "convert_maybe_checked_tx_to_checked_tx E tx hdr = Inr c"
    and run: "(case checked_tx c of
        Chargeable kind _ \<Rightarrow> execute_chargeable_transaction E kind c hdr cb gp s
      | Mint m \<Rightarrow> execute_mint E (checked_id c) m hdr cb gp s) = (s', Inr t)"
    unfolding execute_transaction_def by (auto elim!: and_then_InrE)
  note id = convert_ok[OF c assms(4), folded assms(3)]
  show ?thesis
  proof (cases "checked_tx c")
    case (Chargeable kind x)
    then have r: "execute_chargeable_transaction E kind c hdr cb gp s = (s', Inr t)" using run by simp
    show ?thesis
      by (rule execute_chargeable_ok[OF r assms(2)])
        (use id data_step_quiet update_execution_data_ok in blast)
  next
    case (Mint m)
    then have r: "execute_mint E txid m hdr cb gp s = (s', Inr t)" using run id by simp
    obtain m' where m': "t = Mint m'" "erase_mint m' = erase_mint m" "quiet (mint_data txid (xs_data s)) (xs_data s')"
      "mint_amount m = (if ci_contract_id (mint_input m) = 0 then 0 else ed_coinbase (xs_data s))"
      by (rule execute_mint_ok[OF r assms(2)])
    show ?thesis
      unfolding m'(1) by (rule mint_data_step[OF m'(3)]) (simp add: fees_minted_def erase_mint_eq[OF m'(2)] m'(4))
  qed
qed

end

text \<open>A step that leaves such data when it fails.\<close>

definition spares :: "'s exec_state \<Rightarrow> ('s, 'a) exec \<Rightarrow> bool" where
  "spares s r = (\<forall>s' e. r = (s', Inl e) \<longrightarrow> failed_data e (xs_data s) (xs_data s'))"

lemma spares_then:
  assumes "hush s (fst r)" "\<And>s1 a. r = (s1, Inr a) \<Longrightarrow> spares s1 (f s1 a)"
  shows "spares s (and_then r f)"
proof (cases r)
  case (Pair s1 x)
  show ?thesis
    by (cases x) (use assms Pair failed_data_after quiet_failed in \<open>auto simp: spares_def hush_def\<close>)
qed

lemma spares_Inr [simp]: "spares s (s', Inr a)" "spares s (s, r)"
  by (auto simp: spares_def)

lemma spares_data:
  "spares s (and_then (on_data s (update_execution_data E x rs gp reverted state txid (xs_data s))) (\<lambda>s _. (s, Inr (g s))))"
proof (cases "update_execution_data E x rs gp reverted state txid (xs_data s)")
  case (Pair d r)
  then show ?thesis
    by (cases r) (auto simp: on_data_def spares_def dest: update_execution_data_err)
qed

lemma execute_chargeable_spares: "spares s (execute_chargeable_transaction E kind c hdr cb gp s)"
  unfolding execute_chargeable_transaction_def Let_def
  by (auto intro!: spares_then attempt_hush spares_data
      simp: persist_output_utxos_def spend_inputs_hush persist_outputs_hush split: prod.splits)

fun maybe_checked_tx :: "maybe_checked \<Rightarrow> transaction" where
  "maybe_checked_tx (CheckedTransaction c _) = checked_tx c"
| "maybe_checked_tx (UncheckedTransaction t) = t"

context faithful_executor
begin

lemma execute_transaction_spares:
  assumes "maybe_checked_tx tx = Chargeable kind x"
  shows "spares s (execute_transaction E tx txid hdr cb gp s)"
proof -
  have "checked_tx c = Chargeable kind x" if "convert_maybe_checked_tx_to_checked_tx E tx hdr = Inr c" for c
    using that assms
    by (auto simp: convert_maybe_checked_tx_to_checked_tx_def Let_def split: maybe_checked.splits if_splits dest: basic_tx)
  then show ?thesis
    unfolding execute_transaction_def
    by (auto intro!: spares_then simp: execute_chargeable_spares)
qed

end

section \<open>One transaction in a block\<close>

definition block_coins :: "'s executor_env \<Rightarrow> 's in_memory_transaction \<Rightarrow> coin_view" where
  "block_coins E st = plain_get (ex_kv E) (Coins (ex_codecs E)) st"

definition block_processed :: "'s executor_env \<Rightarrow> 's in_memory_transaction \<Rightarrow> bytes32 \<Rightarrow> unit option storage_result" where
  "block_processed E st = plain_get (ex_kv E) (ProcessedTransactions (ex_codecs E)) st"

definition sound_store :: "'s in_memory_transaction \<Rightarrow> bool" where
  "sound_store st = (tx_ok st \<and> policy st = Overwrite)"

lemma plain_get_cong: "tx_get S st = tx_get S' st' \<Longrightarrow> plain_get S T st = plain_get S' T st'"
  by (simp add: plain_get_def fun_eq_iff)

lemma fresh_level: "tx_get (tx_level E) (with_policy Overwrite (write_transaction st)) = tx_get (ex_kv E) st"
  by (simp add: fun_eq_iff tx_level_def with_policy_def write_transaction_def transaction_def tx_get_def
      get_from_changes_def changes_at_def tx_kv_def)

lemma fresh_good: "good (with_policy Overwrite (write_transaction st))"
  by (simp add: good_def tx_ok_def with_policy_def write_transaction_def transaction_def changes_ok_def)

text \<open>Two ways a transaction can end: it is in the block and in the store, or neither of them has changed.\<close>

definition included ::
    "'s executor_env \<Rightarrow> maybe_checked \<Rightarrow> 's block_run \<Rightarrow> 's block_run \<Rightarrow> transaction \<Rightarrow> bool" where
  "included E tx b b' t =
     (let txid = chain_tx_id E t; n = ed_tx_count (br_data b) in
      txid = maybe_checked_id E tx \<and> \<not> ed_found_mint (br_data b)
      \<and> br_block b' = br_block (push_transaction t b)
      \<and> storage (br_store b') = storage (br_store b) \<and> sound_store (br_store b')
      \<and> columns (changes (br_store b')) \<subseteq> columns (changes (br_store b)) \<union> tx_columns
      \<and> block_processed E (br_store b) txid = Inr None
      \<and> block_processed E (br_store b') = (block_processed E (br_store b))(txid := Inr (Some ()))
      \<and> block_coins E (br_store b') =
          tx_ledger (height (p_consensus (p_header (br_block b)))) n txid t (block_coins E (br_store b))
      \<and> (forbid_fake_coins E \<longrightarrow> distinct (spent_by t)
          \<and> (\<forall>u\<in>set (spent_by t). \<exists>c. block_coins E (br_store b) u = Inr (Some c))))"

lemma checked_add_1: "checked_add n 1 = (if n = u_max then None else Some (n + 1))" for n :: u16
  using unat_less_pow[of n] by (auto simp: checked_add_def unat_u_max word_unat_eq_iff)

context faithful_executor
begin

text \<open>The child transaction is committed as a whole, and then its view is the view of the block.\<close>

lemma commit_child:
  assumes "execute_transaction E tx txid hdr cb gp \<lparr>xs_store = with_policy Overwrite (write_transaction st), xs_data = d\<rparr> = (s, Inr t)"
    and "good (xs_store s)" "sound_store st"
  obtains st' where "tx_commit tx_commit_changes (xs_store s) = (st', Inr ())"
    "tx_get (ex_kv E) st' = tx_get (tx_level E) (xs_store s)" "storage st' = storage st" "sound_store st'"
    "columns (changes st') \<subseteq> columns (changes st) \<union> tx_columns"
proof -
  have fr: "storage (xs_store s) = st" "columns (changes (xs_store s)) \<subseteq> tx_columns"
    using execute_transaction_keeps[of "\<lparr>xs_store = with_policy Overwrite (write_transaction st), xs_data = d\<rparr>" tx txid hdr cb gp] assms(1)
    by (auto simp: keeps_def store_frame_def with_policy_def write_transaction_def transaction_def)
  obtain ch where ch: "commit_columns Overwrite (changes (xs_store s)) (changes st) = (ch, Inr ())"
    using commit_columns_Overwrite by (metis prod.collapse)
  let ?p = "st\<lparr>changes := ch\<rparr>"
  have c: "tx_commit_changes st (changes (xs_store s)) = (?p, Inr ())"
    using ch assms(3) by (simp add: tx_commit_changes_def sound_store_def)
  have okch: "changes_ok (changes (xs_store s))" using assms(2) by (simp add: good_def tx_ok_def)
  have "tx_get (ex_kv E) ?p = tx_get (tx_level E) (xs_store s)"
    using tx_commit_changes_get[OF _ okch c, of "ex_kv E"] assms(3) fr(1)
    by (simp add: fun_eq_iff tx_get_overlay[of "tx_kv (ex_kv E)"] tx_level_def sound_store_def)
  moreover have "sound_store ?p"
    using tx_commit_changes_ok[OF _ okch c] assms(3) by (simp add: sound_store_def)
  moreover have "columns ch \<subseteq> columns (changes st) \<union> tx_columns"
    using columns_commit[of Overwrite "changes (xs_store s)" "changes st"] ch fr(2) by auto
  ultimately show ?thesis
    using c fr(1) by (intro that[of ?p]) (simp_all add: tx_commit_def)
qed

lemma execute_and_commit:
  assumes "execute_transaction_and_commit E tx gp cb b = (b', r)" "sound_store (br_store b)" "valid_tx E tx"
  obtains (committed) t d where "included E tx b b' t" "data_step (chain_tx_id E t) t (br_data b) d"
      "br_data b' = d\<lparr>ed_tx_count := (if r = Inr () then ed_tx_count d + 1 else ed_tx_count d)\<rparr>"
      "r = (if ed_tx_count (br_data b) = u_max then Inl TooManyTransactionsInBlock else Inr ())"
  | (rejected) e where "r = Inl e" "br_block b' = br_block b" "br_store b' = br_store b"
      "\<forall>kind x. maybe_checked_tx tx = Chargeable kind x \<longrightarrow> failed_data e (br_data b) (br_data b')"
proof -
  let ?st = "with_policy Overwrite (write_transaction (br_store b))" and ?id = "maybe_checked_id E tx"
  let ?s = "\<lparr>xs_store = ?st, xs_data = br_data b\<rparr>"
  obtain s x where run: "execute_transaction E tx ?id (p_header (br_block b)) cb gp ?s = (s, x)" by fastforce
  have g: "good (xs_store ?s)" by (simp add: fresh_good)
  show ?thesis
  proof (cases x)
    case (Inl e)
    with assms(1) run have "r = Inl e" "b' = b\<lparr>br_data := xs_data s\<rparr>"
      by (auto simp: execute_transaction_and_commit_def Let_def)
    moreover have "failed_data e (br_data b) (xs_data s)" if "maybe_checked_tx tx = Chargeable kind x'" for kind x'
      using execute_transaction_spares[OF that, of ?s ?id "p_header (br_block b)" cb gp] run Inl
      by (simp add: spares_def)
    ultimately show ?thesis by (intro rejected[of e]) auto
  next
    case (Inr t)
    note run = run[unfolded Inr]
    note ok = execute_transaction_ok[OF run g refl assms(3)]
    obtain st' where st': "tx_commit tx_commit_changes (xs_store s) = (st', Inr ())"
      "tx_get (ex_kv E) st' = tx_get (tx_level E) (xs_store s)" "storage st' = storage (br_store b)" "sound_store st'"
      "columns (changes st') \<subseteq> columns (changes (br_store b)) \<union> tx_columns"
      using commit_child[OF run ok(7) assms(2)] by metis
    note views = plain_get_cong[OF st'(2)] plain_get_cong[OF fresh_level]
    have inc: "included E tx b b' t" if "br_store b' = st'" "br_block b' = br_block (push_transaction t b)"
      using ok that st' by (simp add: included_def Let_def coins_def processed_def block_coins_def block_processed_def views)
    note ds = execute_transaction_data[OF run g refl assms(3), simplified, folded ok(2)]
    show ?thesis
      using assms(1) run st'(1) inc ds
      by (intro committed[of t "xs_data s"])
        (auto simp: execute_transaction_and_commit_def Let_def checked_add_1 push_transaction_def data_step_def split: if_splits)
  qed
qed

end

section \<open>The steps of a block\<close>

text \<open>
  Everything that production and validation do to a block under construction before they end is a sequence of these
  steps: a transaction goes in, a transaction fails and its failure is recorded, a message of the layer one is stored,
  or something is written to the data only.
\<close>

inductive block_step :: "'s executor_env \<Rightarrow> 's block_run \<Rightarrow> 's block_run \<Rightarrow> bool" for E where
  exec: "valid_tx E tx \<Longrightarrow> execute_transaction_and_commit E tx gp cb b = (b', Inr ()) \<Longrightarrow> block_step E b b'"
| skip: "valid_tx E tx \<Longrightarrow> maybe_checked_tx tx = Chargeable kind x \<Longrightarrow>
    execute_transaction_and_commit E tx gp cb b = (b', Inl e) \<Longrightarrow> block_step E b (skip_transaction txid e b')"
| forced: "valid_tx E tx \<Longrightarrow> maybe_checked_tx tx = Chargeable kind x \<Longrightarrow>
    execute_transaction_and_commit E tx gp cb b = (b', Inl e) \<Longrightarrow>
    block_step E b (push_block_event (ForcedTransactionFailed txid h (ExecutionFailure e)) b')"
| overrun: "block_step E b (skip_transaction txid (GasOverflow gas_limit_reason g l) b)"
| event: "block_step E b (push_block_event ev b)"
| message: "plain_put (Messages (ex_codecs E)) (br_store b) n m = (st, Inr ()) \<Longrightarrow> block_step E b (b\<lparr>br_store := st\<rparr>)"
| inbox: "block_step E b (b\<lparr>br_data := (br_data b)\<lparr>ed_event_inbox_root := r\<rparr>\<rparr>)"

abbreviation block_steps :: "'s executor_env \<Rightarrow> 's block_run \<Rightarrow> 's block_run \<Rightarrow> bool" where
  "block_steps E \<equiv> (block_step E)\<^sup>*\<^sup>*"

lemma block_steps_trans: "block_steps E a b \<Longrightarrow> block_steps E b c \<Longrightarrow> block_steps E a c"
  by (rule rtranclp_trans)

lemma block_steps_then: "block_step E a b \<Longrightarrow> block_steps E b c \<Longrightarrow> block_steps E a c"
  by (rule converse_rtranclp_into_rtranclp)

lemma block_steps_snoc: "block_steps E a b \<Longrightarrow> block_step E b c \<Longrightarrow> block_steps E a c"
  by (rule rtranclp.rtrancl_into_rtrancl)

lemma block_steps_one: "block_step E a b \<Longrightarrow> block_steps E a b"
  by (rule r_into_rtranclp)

text \<open>The three ways in which the first transaction of a batch can end.\<close>

lemma process_batch_ConsE:
  assumes "process_batch E gp cb (tx # txs) statuses b = (b', Inr statuses')"
  obtains
    (overrun) g where "process_batch E gp cb txs statuses (skip_transaction (maybe_checked_id E tx)
        (GasOverflow gas_limit_reason g (remaining_gas_limit E b)) b) = (b', Inr statuses')"
  | (skipped) kind x e b1 statuses1 where "maybe_checked_tx tx = Chargeable kind x"
      "execute_transaction_and_commit E tx gp cb b = (b1, Inl e)"
      "process_batch E gp cb txs statuses1 (skip_transaction (maybe_checked_id E tx) e b1) = (b', Inr statuses')"
  | (executed) kind x b1 statuses1 where "maybe_checked_tx tx = Chargeable kind x"
      "execute_transaction_and_commit E tx gp cb b = (b1, Inr ())"
      "process_batch E gp cb txs statuses1 b1 = (b', Inr statuses')"
proof -
  obtain g where g: "maybe_checked_max_gas E tx = Inr g"
    using assms by (cases "maybe_checked_max_gas E tx") (simp_all add: Let_def)
  then obtain kind x where ch: "maybe_checked_tx tx = Chargeable kind x"
    by (auto simp: maybe_checked_max_gas_def Let_def split: maybe_checked.splits transaction.splits)
  obtain b1 r where run: "execute_transaction_and_commit E tx gp cb b = (b1, r)" by fastforce
  show ?thesis
  proof (cases "remaining_gas_limit E b < g")
    case True
    with assms g show ?thesis by (intro overrun[of g]) (simp add: Let_def)
  next
    case False
    show ?thesis
    proof (cases r)
      case (Inl e)
      with assms g False run ch show ?thesis by (intro skipped) (simp_all add: Let_def)
    next
      case (Inr u)
      with assms g False run ch show ?thesis by (intro executed) (simp_all add: Let_def)
    qed
  qed
qed

definition forced_ok :: "'s executor_env \<Rightarrow> checked list \<Rightarrow> bool" where
  "forced_ok E cs =
     (\<forall>c\<in>set cs. checked_id c = chain_tx_id E (checked_tx c) \<and> (\<exists>kind x. checked_tx c = Chargeable kind x))"

context faithful_executor
begin

lemma validate_forced_ok: "validate_forced_tx E r h st = Inr c \<Longrightarrow> forced_ok E [c]"
proof -
  assume "validate_forced_tx E r h st = Inr c"
  then obtain t where t: "tx_is_valid_variant t = Inr ()"
    "into_checked_reusable_memory (ex_vm E) (consensus_params E) h (tx_get (ex_kv E) st) t = Inr c"
    by (auto simp: validate_forced_tx_def res_then_eq_Inr get_checked_tx_def)
  then show ?thesis
    using reusable_tx[OF t(2)] by (cases t) (auto simp: tx_is_valid_variant_def forced_ok_def chain_tx_id_def)
qed

lemma process_event_steps:
  assumes "process_event E h da_h ev p b = (b', Inr p')" "forced_ok E (snd p)"
  shows "block_steps E b b' \<and> forced_ok E (snd p')"
proof (cases ev)
  case (MessageEvent m)
  then obtain st where "plain_put (Messages (ex_codecs E)) (br_store b) (nonce (message_inner m)) m = (st, Inr ())"
    "b' = push_block_event (MessageImported m) (b\<lparr>br_store := st\<rparr>)" "snd p' = snd p"
    using assms(1) by (auto simp: process_event_def Let_def split: if_splits prod.splits sum.splits)
  with assms(2) block_steps_then[OF block_step.message block_steps_one[OF block_step.event]] show ?thesis by metis
next
  case (TransactionEvent r)
  then show ?thesis
    using assms validate_forced_ok[of r h "br_store b"]
    by (auto simp: process_event_def Let_def forced_ok_def intro: block_steps_one[OF block_step.event] split: sum.splits)
qed

lemma process_events_steps:
  "process_events E h da_h evs p b = (b', Inr p') \<Longrightarrow> forced_ok E (snd p) \<Longrightarrow> block_steps E b b' \<and> forced_ok E (snd p')"
proof (induction evs arbitrary: p b)
  case (Cons ev evs)
  from Cons.prems(1) obtain b1 p1 where 1: "process_event E h da_h ev p b = (b1, Inr p1)"
    and 2: "process_events E h da_h evs p1 b1 = (b', Inr p')" by (auto elim!: and_then_InrE)
  from process_event_steps[OF 1 Cons.prems(2)] Cons.IH[OF 2] show ?case by (auto intro: block_steps_trans)
qed simp

lemma process_da_heights_steps:
  "process_da_heights E h hs p b = (b', Inr p') \<Longrightarrow> forced_ok E (snd p) \<Longrightarrow> block_steps E b b' \<and> forced_ok E (snd p')"
proof (induction hs arbitrary: p b)
  case (Cons da_h hs)
  from Cons.prems(1) obtain evs b1 p1 where 1: "process_events E h da_h evs p b = (b1, Inr p1)"
    and 2: "process_da_heights E h hs p1 b1 = (b', Inr p')" by (auto elim!: and_then_InrE)
  from process_events_steps[OF 1 Cons.prems(2)] Cons.IH[OF 2] show ?case by (auto intro: block_steps_trans)
qed simp

lemma get_relayed_steps:
  assumes "get_relayed_txs E h da_h b = (b', Inr cs)"
  shows "block_steps E b b' \<and> forced_ok E cs"
proof (cases "relayer_enabled E")
  case True
  with assms obtain hs b1 p where 1: "process_da_heights E h hs ([], []) b = (b1, Inr p)"
    and b': "b' = b1\<lparr>br_data := (br_data b1)\<lparr>ed_event_inbox_root := merkle_root (ex_lib E) (fst p)\<rparr>\<rparr>" "cs = snd p"
    by (auto simp: get_relayed_txs_def process_da_def elim!: and_then_InrE)
  show ?thesis
    using process_da_heights_steps[OF 1] b' block_steps_snoc[OF _ block_step.inbox, of E b b1]
    by (simp add: forced_ok_def)
next
  case False
  with assms show ?thesis by (simp add: get_relayed_txs_def forced_ok_def)
qed

lemma process_relayed_steps: "forced_ok E cs \<Longrightarrow> block_steps E b (process_relayed_txs E cb cs b)"
proof (induction cs arbitrary: b)
  case (Cons c cs)
  let ?tx = "CheckedTransaction c (consensus_parameters_version (p_application (p_header (br_block b))))"
  obtain b1 r where run: "execute_transaction_and_commit E ?tx RELAYED_GAS_PRICE cb b = (b1, r)" by fastforce
  have v: "valid_tx E ?tx" "\<exists>kind x. maybe_checked_tx ?tx = Chargeable kind x"
    using Cons.prems by (auto simp: forced_ok_def valid_tx_def)
  have IH: "block_steps E b1 (process_relayed_txs E cb cs b1)" for b1 using Cons by (simp add: forced_ok_def)
  obtain kind x where ch: "maybe_checked_tx ?tx = Chargeable kind x" using v(2) by blast
  show ?case
  proof (cases r)
    case (Inl e)
    with run show ?thesis
      by (simp add: Let_def block_steps_then[OF block_step.forced[OF v(1) ch run[unfolded Inl]] IH])
  next
    case (Inr u)
    with run have "execute_transaction_and_commit E ?tx RELAYED_GAS_PRICE cb b = (b1, Inr ())" by simp
    with block_steps_then[OF block_step.exec[OF v(1) this] IH] show ?thesis by (simp add: Let_def)
  qed
qed simp

lemma process_l1_steps: "process_l1_txs E cb b = (b', Inr ()) \<Longrightarrow> block_steps E b b'"
  unfolding process_l1_txs_def Let_def
  by (erule and_then_InrE) (metis Pair_inject block_steps_trans get_relayed_steps process_relayed_steps)

lemma process_batch_steps:
  "process_batch E gp cb txs statuses b = (b', Inr statuses') \<Longrightarrow> \<forall>tx\<in>set txs. valid_tx E tx \<Longrightarrow> block_steps E b b'"
proof (induction txs arbitrary: statuses b)
  case (Cons tx txs)
  from Cons.prems(2) have v: "valid_tx E tx" "\<forall>tx\<in>set txs. valid_tx E tx" by auto
  from Cons.prems(1) show ?case
  proof (cases rule: process_batch_ConsE)
    case (overrun g)
    from block_steps_then[OF block_step.overrun Cons.IH[OF overrun v(2)]] show ?thesis .
  next
    case (skipped kind x e b1 statuses1)
    from block_steps_then[OF block_step.skip[OF v(1) skipped(1,2)] Cons.IH[OF skipped(3) v(2)]] show ?thesis .
  next
    case (executed kind x b1 statuses1)
    from block_steps_then[OF block_step.exec[OF v(1) executed(2)] Cons.IH[OF executed(3) v(2)]] show ?thesis .
  qed
qed simp

lemma validate_txs_steps: "validate_txs E gp cb ts b = (b', Inr ()) \<Longrightarrow> block_steps E b b'"
proof (induction ts arbitrary: b)
  case (Cons t ts)
  from Cons.prems obtain b1 where 1: "execute_transaction_and_commit E (UncheckedTransaction t) gp cb b = (b1, Inr ())"
    and 2: "validate_txs E gp cb ts b1 = (b', Inr ())" by (auto elim!: and_then_InrE)
  have "valid_tx E (UncheckedTransaction t)" by (simp add: valid_tx_def)
  from block_steps_then[OF block_step.exec[OF this 1] Cons.IH[OF 2]] show ?case .
qed simp

end

text \<open>A source of transactions that gives only transactions with the property \<open>P\<close>, while \<open>I\<close> holds of its state.\<close>

definition source_gives :: "(maybe_checked \<Rightarrow> bool) \<Rightarrow> 'q tx_source \<Rightarrow> ('q \<Rightarrow> bool) \<Rightarrow> bool" where
  "source_gives P Q I =
     ((\<forall>q g n s. I q \<longrightarrow> I (fst (next_txs Q q g n s)) \<and> (\<forall>tx\<in>set (snd (next_txs Q q g n s)). P tx))
      \<and> (\<forall>q. I q \<longrightarrow> I (fst (new_transactions Q q))))"

lemma source_gives_mono: "source_gives P Q I \<Longrightarrow> (\<And>tx. P tx \<Longrightarrow> P' tx) \<Longrightarrow> source_gives P' Q I"
  unfolding source_gives_def by blast

lemma next_batch_gives:
  assumes "source_gives P Q I" "I q" "next_batch E Q q b = (q', txs)"
  shows "I q'" "\<forall>tx\<in>set txs. P tx"
proof -
  obtain txs0 where n: "next_txs Q q (remaining_gas_limit E b) (remaining_tx_count b) (remaining_size_limit E b) = (q', txs0)"
    "txs = take (unat (remaining_tx_count b)) txs0"
    using assms(3) by (auto simp: next_batch_def split: prod.splits)
  have "I (fst (next_txs Q q (remaining_gas_limit E b) (remaining_tx_count b) (remaining_size_limit E b))) \<and>
    (\<forall>tx\<in>set (snd (next_txs Q q (remaining_gas_limit E b) (remaining_tx_count b) (remaining_size_limit E b))). P tx)"
    using assms(1,2) unfolding source_gives_def by blast
  then show "I q'" "\<forall>tx\<in>set txs. P tx" using n by (auto dest: in_set_takeD)
qed

context faithful_executor
begin

lemma process_l2_steps:
  "process_l2_txs n E Q gp cb q statuses b = Some (q', (b', Inr statuses')) \<Longrightarrow> source_gives (valid_tx E) Q I \<Longrightarrow> I q
   \<Longrightarrow> block_steps E b b' \<and> I q'"
proof (induction n arbitrary: q statuses b)
  case (Suc n)
  obtain q1 txs where nb: "next_batch E Q q b = (q1, txs)" by fastforce
  note v = next_batch_gives[OF Suc.prems(2,3) nb]
  show ?case
  proof (cases txs)
    case Nil
    with Suc.prems(1) nb v show ?thesis by simp
  next
    case (Cons tx rest)
    with Suc.prems(1) nb obtain b1 statuses1 where 1: "process_batch E gp cb txs statuses b = (b1, Inr statuses1)"
      and 2: "process_l2_txs n E Q gp cb q1 statuses1 b1 = Some (q', (b', Inr statuses'))"
      by (simp del: process_batch.simps split: prod.splits sum.splits)
    from process_batch_steps[OF 1 v(2)] Suc.IH[OF 2 Suc.prems(2) v(1)] show ?thesis by (auto intro: block_steps_trans)
  qed
qed simp

lemma produce_rounds_steps:
  "produce_rounds n E Q C q statuses b = Some (q', (b', Inr statuses')) \<Longrightarrow> source_gives (valid_tx E) Q I \<Longrightarrow> I q
   \<Longrightarrow> block_steps E b b'"
proof (induction n arbitrary: q statuses b)
  case (Suc n)
  from Suc.prems(1) obtain q1 b1 statuses1 where
    1: "process_l2_txs n E Q (component_gas_price C) (coinbase_recipient C) q statuses b = Some (q1, (b1, Inr statuses1))"
    by (auto split: option.splits sum.splits)
  note s1 = process_l2_steps[OF 1 Suc.prems(2,3)]
  obtain q2 more where w: "new_transactions Q q1 = (q2, more)" by fastforce
  have "I q2" using s1 Suc.prems(2) w unfolding source_gives_def by (metis fst_conv)
  with Suc.prems(1) 1 w s1 Suc.IH[OF _ Suc.prems(2)] show ?case
    by (cases more) (auto intro: block_steps_trans)
qed simp

lemma mint_step: "produce_mint_tx E C b = (b', Inr ()) \<Longrightarrow> block_step E b b'"
  unfolding produce_mint_tx_def by (rule block_step.exec) (simp_all add: valid_tx_def)

end

section \<open>The ledger along a block\<close>

definition tx_index :: "nat \<Rightarrow> u16" where
  "tx_index i = of_nat (min i (2 ^ 16 - 1))"

text \<open>The ledger after a list of transactions, the first of which has the given index.\<close>

fun ledger_of :: "'s executor_env \<Rightarrow> block_height \<Rightarrow> nat \<Rightarrow> transaction list \<Rightarrow> coin_view \<Rightarrow> coin_view" where
  "ledger_of E h i [] L = L"
| "ledger_of E h i (t # ts) L = ledger_of E h (Suc i) ts (tx_ledger h (tx_index i) (chain_tx_id E t) t L)"

text \<open>Every transaction spends different coins, each of which is there when the transaction runs.\<close>

fun spends_ok :: "'s executor_env \<Rightarrow> block_height \<Rightarrow> nat \<Rightarrow> transaction list \<Rightarrow> coin_view \<Rightarrow> bool" where
  "spends_ok E h i [] L = True"
| "spends_ok E h i (t # ts) L =
     (distinct (spent_by t) \<and> (\<forall>u\<in>set (spent_by t). \<exists>c. L u = Inr (Some c))
      \<and> spends_ok E h (Suc i) ts (tx_ledger h (tx_index i) (chain_tx_id E t) t L))"

lemma ledger_of_snoc:
  "ledger_of E h i (ts @ [t]) L = tx_ledger h (tx_index (i + length ts)) (chain_tx_id E t) t (ledger_of E h i ts L)"
  by (induction ts arbitrary: i L) simp_all

lemma spends_ok_snoc:
  "spends_ok E h i (ts @ [t]) L \<longleftrightarrow> spends_ok E h i ts L \<and> distinct (spent_by t)
     \<and> (\<forall>u\<in>set (spent_by t). \<exists>c. ledger_of E h i ts L u = Inr (Some c))"
  by (induction ts arbitrary: i L) auto

lemma new_coins_tx_id: "map_of (new_coins h idx txid i outs) u = Some c \<Longrightarrow> utxo_tx_id u = txid"
  by (induction outs arbitrary: i) (auto simp: map_add_def split: option.splits if_splits)

text \<open>Outside the identifier of the transaction a coin can only disappear.\<close>

lemma tx_ledger_other:
  assumes "utxo_tx_id u \<noteq> txid"
  shows "tx_ledger h idx txid t L u = (if u \<in> set (spent_by t) then Inr None else L u)"
  using new_coins_tx_id[of h idx txid 0 _ u] assms
  by (auto simp: tx_ledger_def ledger_step_def spent_by_def split: transaction.splits option.splits)

lemma gone_stays:
  "L u = Inr None \<Longrightarrow> utxo_tx_id u \<notin> chain_tx_id E ` set ts \<Longrightarrow> spends_ok E h i ts L
   \<Longrightarrow> u \<notin> set (concat (map spent_by ts))"
proof (induction ts arbitrary: i L)
  case (Cons t ts)
  have "u \<notin> set (spent_by t)" using Cons.prems by auto
  moreover have "tx_ledger h (tx_index i) (chain_tx_id E t) t L u = Inr None"
    using Cons.prems(1,2) by (subst tx_ledger_other) auto
  ultimately show ?case using Cons by auto
qed simp

lemma spends_distinct:
  assumes "spends_ok E h i ts L" "distinct (map (chain_tx_id E) ts)"
    and "\<And>u. L u \<noteq> Inr None \<Longrightarrow> utxo_tx_id u \<notin> chain_tx_id E ` set ts"
  shows "distinct (concat (map spent_by ts))"
  using assms
proof (induction ts arbitrary: i L)
  case (Cons t ts)
  let ?L = "tx_ledger h (tx_index i) (chain_tx_id E t) t L"
  have later: "utxo_tx_id u \<notin> chain_tx_id E ` set ts" if "?L u \<noteq> Inr None" for u
    using that Cons.prems(2) Cons.prems(3)[of u] tx_ledger_other[of u "chain_tx_id E t" h "tx_index i" t L]
    by (cases "utxo_tx_id u = chain_tx_id E t") (auto split: if_splits)
  have "distinct (concat (map spent_by ts))"
    using Cons.IH[of "Suc i" ?L] Cons.prems later by auto
  moreover have "u \<notin> set (concat (map spent_by ts))" if u: "u \<in> set (spent_by t)" for u
  proof -
    have o: "utxo_tx_id u \<notin> chain_tx_id E ` set (t # ts)" using Cons.prems(1) u by (intro Cons.prems(3)) auto
    moreover have "?L u = Inr None" using u o by (subst tx_ledger_other) auto
    ultimately show ?thesis using Cons.prems(1) gone_stays[of ?L u E ts h "Suc i"] by simp
  qed
  ultimately show ?case using Cons.prems(1) by auto
qed simp

lemma spends_origin:
  "spends_ok E h i ts L \<Longrightarrow> u \<in> set (concat (map spent_by ts)) \<Longrightarrow>
   (\<exists>c. L u = Inr (Some c)) \<or> utxo_tx_id u \<in> chain_tx_id E ` set ts"
proof (induction ts arbitrary: i L)
  case (Cons t ts)
  show ?case
  proof (cases "u \<in> set (spent_by t)")
    case False
    with Cons have "(\<exists>c. tx_ledger h (tx_index i) (chain_tx_id E t) t L u = Inr (Some c)) \<or> utxo_tx_id u \<in> chain_tx_id E ` set ts"
      by auto
    with tx_ledger_other[of u "chain_tx_id E t" h "tx_index i" t L] False show ?thesis by force
  qed (use Cons.prems in auto)
qed simp

section \<open>The invariant of a block under construction\<close>

definition run_txs :: "'s block_run \<Rightarrow> transaction list" where
  "run_txs b = p_transactions (br_block b)"

definition block_inv :: "'s executor_env \<Rightarrow> 's in_memory_transaction \<Rightarrow> partial_block_header \<Rightarrow> 's block_run \<Rightarrow> bool" where
  "block_inv E st hdr b =
     (let ids = chain_tx_id E ` set (run_txs b); h = height (p_consensus hdr) in
      sound_store (br_store b) \<and> storage (br_store b) = storage st \<and> p_header (br_block b) = hdr
      \<and> columns (changes (br_store b)) \<subseteq> columns (changes st) \<union> tx_columns
      \<and> ed_tx_count (br_data b) = tx_index (length (run_txs b))
      \<and> block_coins E (br_store b) = ledger_of E h 0 (run_txs b) (block_coins E st)
      \<and> block_processed E (br_store b) = (\<lambda>i. if i \<in> ids then Inr (Some ()) else block_processed E st i)
      \<and> distinct (map (chain_tx_id E) (run_txs b)) \<and> (\<forall>i\<in>ids. block_processed E st i = Inr None)
      \<and> (forbid_fake_coins E \<longrightarrow> spends_ok E h 0 (run_txs b) (block_coins E st)))"

lemma unat_tx_index: "unat (tx_index n) = min n (2 ^ 16 - 1)"
  by (simp add: tx_index_def unat_of_nat)

lemma tx_index_Suc: "tx_index n \<noteq> u_max \<Longrightarrow> tx_index (Suc n) = tx_index n + 1"
  "tx_index n = u_max \<Longrightarrow> tx_index (Suc n) = tx_index n"
  unfolding word_unat_eq_iff by (auto simp: unat_tx_index unat_u_max unat_word_ariths min_def split: if_splits)

lemma block_inv_new: "sound_store st \<Longrightarrow> block_inv E st hdr (block_run_new hdr st)"
  by (simp add: block_inv_def Let_def block_run_new_def run_txs_def execution_data_new_def tx_index_def)

lemma block_inv_cong:
  assumes "block_inv E st hdr b" "br_block b' = br_block b" "br_store b' = br_store b"
    "ed_tx_count (br_data b') = ed_tx_count (br_data b)"
  shows "block_inv E st hdr b'"
  using assms by (simp add: block_inv_def run_txs_def)

lemma block_inv_included:
  assumes "block_inv E st hdr b" "included E tx b b' t"
    "ed_tx_count (br_data b') = tx_index (Suc (length (run_txs b)))"
  shows "block_inv E st hdr b'"
proof -
  have txs: "run_txs b' = run_txs b @ [t]" "p_header (br_block b') = p_header (br_block b)"
    using assms(2) by (simp_all add: included_def Let_def run_txs_def push_transaction_def)
  have fresh: "chain_tx_id E t \<notin> chain_tx_id E ` set (run_txs b)" "block_processed E st (chain_tx_id E t) = Inr None"
    using assms(1,2) by (auto simp: included_def block_inv_def Let_def fun_eq_iff split: if_splits)
  have inc: "block_processed E (br_store b') = (block_processed E (br_store b))(chain_tx_id E t := Inr (Some ()))"
    "block_coins E (br_store b') = tx_ledger (height (p_consensus (p_header (br_block b)))) (ed_tx_count (br_data b))
       (chain_tx_id E t) t (block_coins E (br_store b))"
    "sound_store (br_store b')" "storage (br_store b') = storage (br_store b)"
    "columns (changes (br_store b')) \<subseteq> columns (changes (br_store b)) \<union> tx_columns"
    "forbid_fake_coins E \<Longrightarrow> distinct (spent_by t) \<and> (\<forall>u\<in>set (spent_by t). \<exists>c. block_coins E (br_store b) u = Inr (Some c))"
    using assms(2) by (simp_all add: included_def Let_def)
  have pr: "block_processed E (br_store b') =
      (\<lambda>i. if i \<in> chain_tx_id E ` set (run_txs b @ [t]) then Inr (Some ()) else block_processed E st i)"
    using assms(1) inc(1) by (auto simp: block_inv_def Let_def fun_eq_iff)
  have col: "columns (changes (br_store b')) \<subseteq> columns (changes st) \<union> tx_columns"
    using assms(1) inc(5) unfolding block_inv_def Let_def by blast
  show ?thesis
    using assms(1,3) fresh inc(2-4,6) pr col unfolding block_inv_def Let_def txs
    by (simp add: ledger_of_snoc spends_ok_snoc)
qed

lemma put_message:
  assumes "plain_put (Messages (ex_codecs E)) st n m = (st', Inr ())" "sound_store st"
  shows "sound_store st'" "storage st' = storage st" "block_coins E st' = block_coins E st"
    "block_processed E st' = block_processed E st" "columns (changes st') \<subseteq> insert Messages_column (columns (changes st))"
proof -
  let ?op = "Insert (encode_value (Messages (ex_codecs E)) m)" and ?k = "encode_key (Messages (ex_codecs E)) n"
  have st': "st' = st\<lparr>changes := insert_op ?k Messages_column ?op (changes st)\<rparr>"
    using assms(1) by (auto simp: plain_put_def tx_put_def)
  have ok: "tx_ok st" using assms(2) by (simp add: sound_store_def)
  have g: "tx_get (ex_kv E) st' k c = tx_get (ex_kv E) st k c" if "c \<noteq> Messages_column" for k c
    using tx_get_insert_op[OF ok, of "ex_kv E" ?k Messages_column ?op] that by (simp add: st' map_set_def)
  show "sound_store st'" using assms(2) by (simp add: st' sound_store_def tx_ok_def)
  show "block_coins E st' = block_coins E st" "block_processed E st' = block_processed E st"
    using g by (simp_all add: block_coins_def block_processed_def plain_get_def fun_eq_iff)
  show "storage st' = storage st" "columns (changes st') \<subseteq> insert Messages_column (columns (changes st))"
    by (auto simp: st')
qed

context faithful_executor
begin

lemma block_inv_exec:
  assumes "execute_transaction_and_commit E tx gp cb b = (b', r)" "valid_tx E tx" "block_inv E st hdr b"
    and "r = Inr () \<or> maybe_checked_tx tx = Chargeable kind x"
  shows "block_inv E st hdr b'"
proof -
  have ok: "sound_store (br_store b)" "ed_tx_count (br_data b) = tx_index (length (run_txs b))"
    using assms(3) by (simp_all add: block_inv_def Let_def)
  from assms(1) ok(1) assms(2) show ?thesis
  proof (cases rule: execute_and_commit)
    case (committed t d)
    show ?thesis
      by (rule block_inv_included[OF assms(3) committed(1)])
        (use committed(2-4) ok(2) in \<open>auto simp: data_step_def tx_index_Suc\<close>)
  next
    case (rejected e)
    with assms(4) have "failed_data e (br_data b) (br_data b')" by simp
    with rejected show ?thesis by (intro block_inv_cong[OF assms(3)]) (simp_all add: failed_data_fields)
  qed
qed

lemma block_inv_data:
  "block_inv E st hdr (skip_transaction i e b) \<longleftrightarrow> block_inv E st hdr b"
  "block_inv E st hdr (push_block_event ev b) \<longleftrightarrow> block_inv E st hdr b"
  "block_inv E st hdr (b\<lparr>br_data := (br_data b)\<lparr>ed_event_inbox_root := root\<rparr>\<rparr>) \<longleftrightarrow> block_inv E st hdr b"
  by (simp_all add: block_inv_def run_txs_def Let_def skip_transaction_def push_block_event_def push_event_def)

lemma block_inv_step: "block_step E b b' \<Longrightarrow> block_inv E st hdr b \<Longrightarrow> block_inv E st hdr b'"
proof (induction rule: block_step.induct)
  case (message b n m s)
  then have ok: "sound_store (br_store b)" by (simp add: block_inv_def Let_def)
  note pm = put_message[OF message(1) ok]
  have "columns (changes s) \<subseteq> columns (changes st) \<union> tx_columns"
    using pm(5) message.prems by (auto simp: block_inv_def Let_def)
  with message.prems pm(1-4) show ?case by (simp add: block_inv_def Let_def run_txs_def)
qed (simp_all add: block_inv_data block_inv_exec)

lemma block_inv_steps: "block_steps E b b' \<Longrightarrow> block_inv E st hdr b \<Longrightarrow> block_inv E st hdr b'"
  by (induction rule: rtranclp_induct) (simp_all add: block_inv_step)

end

section \<open>The books of a block\<close>

fun is_mint :: "transaction \<Rightarrow> bool" where
  "is_mint (Mint _) = True"
| "is_mint (Chargeable _ _) = False"

definition leaked :: "execution_data \<Rightarrow> bool" where
  "leaked d = ((\<exists>i e. (i, e) \<in> set (ed_skipped d) \<and> leaky e)
     \<or> (\<exists>i h e. ForcedTransactionFailed i h (ExecutionFailure e) \<in> set (ed_events d) \<and> leaky e))"

text \<open>The totals need only agree when the flag \<open>l\<close> is not set.\<close>

definition books :: "'s executor_env \<Rightarrow> bool \<Rightarrow> transaction list \<Rightarrow> execution_data \<Rightarrow> bool" where
  "books E l txs d =
     (map status_id (ed_tx_status d) = map (chain_tx_id E) txs
      \<and> ed_message_ids d = concat (map outbox (ed_tx_status d))
      \<and> (\<forall>t\<in>set (butlast txs). \<not> is_mint t) \<and> (ed_found_mint d \<longleftrightarrow> txs \<noteq> [] \<and> is_mint (List.last txs))
      \<and> (\<not> l \<longrightarrow> unat (ed_coinbase d) = sum_list (map (unat \<circ> paid) (ed_tx_status d))
          \<and> unat (ed_used_gas d) = sum_list (map (unat \<circ> burned) (ed_tx_status d))
          \<and> (\<forall>m. txs \<noteq> [] \<and> List.last txs = Mint m \<longrightarrow> mint_amount m = fees_minted m d)))"

lemma books_new: "books E False [] execution_data_new"
  by (simp add: books_def execution_data_new_def)

lemma books_cong:
  assumes "books E l txs d" "ed_tx_status d' = ed_tx_status d" "ed_message_ids d' = ed_message_ids d"
    "ed_found_mint d' = ed_found_mint d"
    "\<not> l' \<Longrightarrow> \<not> l \<and> ed_coinbase d' = ed_coinbase d \<and> ed_used_gas d' = ed_used_gas d"
  shows "books E l' txs d'"
  using assms unfolding books_def by (auto simp: fees_minted_def)

lemma books_included:
  assumes "books E l txs d" "data_step (chain_tx_id E t) t d d'" "\<not> ed_found_mint d"
  shows "books E l (txs @ [t]) d'"
proof -
  obtain st where st: "ed_tx_status d' = ed_tx_status d @ [st]" "status_id st = chain_tx_id E t"
    "unat (ed_coinbase d') = unat (ed_coinbase d) + unat (paid st)"
    "unat (ed_used_gas d') = unat (ed_used_gas d) + unat (burned st)"
    "ed_message_ids d' = ed_message_ids d @ outbox st" "ed_skipped d' = ed_skipped d"
    "set (ed_events d) \<subseteq> set (ed_events d')" "ed_found_mint d' = (case t of Mint _ \<Rightarrow> True | _ \<Rightarrow> ed_found_mint d)"
    "\<And>m. t = Mint m \<Longrightarrow> paid st = 0 \<and> mint_amount m = fees_minted m d"
    using assms(2) unfolding data_step_def by blast
  have "\<forall>t\<in>set txs. \<not> is_mint t"
  proof (cases txs rule: rev_cases)
    case (snoc ys y)
    with assms(1,3) show ?thesis by (auto simp: books_def)
  qed simp
  moreover have "fees_minted m d' = fees_minted m d" if "t = Mint m" for m
    using st(3) st(9)[OF that] by (simp add: fees_minted_def word_unat_eq_iff)
  ultimately show ?thesis using assms(1,3) st by (cases t) (auto simp: books_def)
qed

context faithful_executor
begin

lemma books_exec:
  assumes "execute_transaction_and_commit E tx gp cb b = (b', r)" "valid_tx E tx" "sound_store (br_store b)"
    and "books E (leaked (br_data b)) (run_txs b) (br_data b)"
  shows "r = Inr () \<Longrightarrow> books E (leaked (br_data b')) (run_txs b') (br_data b')"
    and "r = Inl e \<Longrightarrow> maybe_checked_tx tx = Chargeable kind x \<Longrightarrow>
      books E (leaked (br_data b') \<or> leaky e) (run_txs b') (br_data b')"
proof -
  have inc: "books E (leaked (br_data b')) (run_txs b') (br_data b')"
    if "included E tx b b' t" "data_step (chain_tx_id E t) t (br_data b) d" "br_data b' = d\<lparr>ed_tx_count := n\<rparr>" for t d n
  proof -
    have "run_txs b' = run_txs b @ [t]" "\<not> ed_found_mint (br_data b)"
      using that(1) by (auto simp: included_def Let_def run_txs_def push_transaction_def)
    moreover have "\<not> leaked (br_data b') \<Longrightarrow> \<not> leaked (br_data b)"
      using that(2,3) unfolding leaked_def data_step_def by auto
    ultimately show ?thesis
      using books_included[OF assms(4) that(2)] that(3) by (auto elim!: books_cong)
  qed
  show "r = Inr () \<Longrightarrow> books E (leaked (br_data b')) (run_txs b') (br_data b')"
    by (rule execute_and_commit[OF assms(1,3,2)]) (auto dest: inc)
  show "books E (leaked (br_data b') \<or> leaky e) (run_txs b') (br_data b')"
    if "r = Inl e" "maybe_checked_tx tx = Chargeable kind x"
    using assms(1,3,2)
  proof (cases rule: execute_and_commit)
    case (committed t d)
    from inc[OF this(1-3)] show ?thesis by (rule books_cong) auto
  next
    case (rejected e')
    with that have f: "failed_data e (br_data b) (br_data b')" and txs: "run_txs b' = run_txs b" by (auto simp: run_txs_def)
    have "leaked (br_data b) \<Longrightarrow> leaked (br_data b')"
      using failed_data_fields(6,8)[OF f] by (auto simp: leaked_def)
    then show ?thesis
      using failed_data_fields(9)[OF f] unfolding txs
      by (intro books_cong[OF assms(4)]) (auto simp: failed_data_fields[OF f])
  qed
qed

lemma run_txs_data:
  "run_txs (skip_transaction txid e b) = run_txs b" "run_txs (push_block_event ev b) = run_txs b"
  by (simp_all add: run_txs_def skip_transaction_def push_block_event_def)

lemma leaked_data:
  "leaked (br_data (skip_transaction txid e b)) \<longleftrightarrow> leaky e \<or> leaked (br_data b)"
  "leaked (br_data (push_block_event (ForcedTransactionFailed txid h (ExecutionFailure e)) b)) \<longleftrightarrow> leaky e \<or> leaked (br_data b)"
  "leaked (br_data b) \<Longrightarrow> leaked (br_data (push_block_event ev b))"
  unfolding leaked_def skip_transaction_def push_block_event_def push_event_def by (simp_all; blast)+

lemma books_step:
  assumes "block_step E b b'" "block_inv E st hdr b" "books E (leaked (br_data b)) (run_txs b) (br_data b)"
  shows "books E (leaked (br_data b')) (run_txs b') (br_data b')"
  using assms
proof (induction rule: block_step.induct)
  case (exec tx gp cb b b')
  then show ?case by (intro books_exec(1)[OF exec(2,1)]) (simp_all add: block_inv_def Let_def)
next
  case (skip tx kind x gp cb b b' e txid)
  then have "books E (leaked (br_data b') \<or> leaky e) (run_txs b') (br_data b')"
    by (intro books_exec(2)[OF skip(3,1)]) (simp_all add: block_inv_def Let_def)
  then show ?case unfolding run_txs_data
    by (rule books_cong) (auto simp: leaked_data, auto simp: skip_transaction_def)
next
  case (forced tx kind x gp cb b b' e txid h)
  then have "books E (leaked (br_data b') \<or> leaky e) (run_txs b') (br_data b')"
    by (intro books_exec(2)[OF forced(3,1)]) (simp_all add: block_inv_def Let_def)
  then show ?case unfolding run_txs_data
    by (rule books_cong) (auto simp: leaked_data, auto simp: push_block_event_def push_event_def)
qed (auto elim!: books_cong simp: skip_transaction_def push_block_event_def push_event_def leaked_def run_txs_def)

lemma books_steps:
  assumes "block_steps E b b'" "block_inv E st hdr b" "books E (leaked (br_data b)) (run_txs b) (br_data b)"
  shows "books E (leaked (br_data b')) (run_txs b') (br_data b')"
  using assms by (induction rule: rtranclp_induct) (use block_inv_steps books_step in blast)+

end

section \<open>What only grows\<close>

context faithful_executor
begin

lemma exec_grows:
  assumes "execute_transaction_and_commit E tx gp cb b = (b', r)" "valid_tx E tx" "sound_store (br_store b)"
    and "r = Inr () \<or> maybe_checked_tx tx = Chargeable kind x"
  shows "leaked (br_data b) \<longrightarrow> leaked (br_data b')" "length (run_txs b) \<le> length (run_txs b')"
proof -
  have "(leaked (br_data b) \<longrightarrow> leaked (br_data b')) \<and> length (run_txs b) \<le> length (run_txs b')"
    using assms(1,3,2)
  proof (cases rule: execute_and_commit)
    case (committed t d)
    then show ?thesis
      by (auto simp: leaked_def data_step_def included_def Let_def run_txs_def push_transaction_def)
  next
    case (rejected e)
    with assms(4) have "failed_data e (br_data b) (br_data b')" by simp
    with rejected show ?thesis
      using failed_data_fields(6,8)[of e "br_data b" "br_data b'"] by (auto simp: leaked_def run_txs_def)
  qed
  then show "leaked (br_data b) \<longrightarrow> leaked (br_data b')" "length (run_txs b) \<le> length (run_txs b')" by simp_all
qed

lemma step_grows:
  assumes "block_step E b b'" "block_inv E st hdr b"
  shows "(leaked (br_data b) \<longrightarrow> leaked (br_data b')) \<and> length (run_txs b) \<le> length (run_txs b')"
  using assms
proof (induction rule: block_step.induct)
  case (exec tx gp cb b b')
  then show ?case using exec_grows[OF exec(2,1)] by (simp add: block_inv_def Let_def)
next
  case (skip tx kind x gp cb b b' e txid)
  then show ?case using exec_grows[OF skip(3,1)] by (simp add: block_inv_def Let_def leaked_data run_txs_data)
next
  case (forced tx kind x gp cb b b' e txid h)
  then show ?case using exec_grows[OF forced(3,1)] by (simp add: block_inv_def Let_def leaked_data run_txs_data)
qed (simp_all add: leaked_data run_txs_data, simp_all add: leaked_def run_txs_def)

lemma steps_grow:
  assumes "block_steps E b b'" "block_inv E st hdr b"
  shows "leaked (br_data b) \<Longrightarrow> leaked (br_data b')" "length (run_txs b) \<le> length (run_txs b')"
proof -
  have "(leaked (br_data b) \<longrightarrow> leaked (br_data b')) \<and> length (run_txs b) \<le> length (run_txs b')"
    using assms by (induction rule: rtranclp_induct) (use block_inv_steps step_grows order_trans in blast)+
  then show "leaked (br_data b) \<Longrightarrow> leaked (br_data b')" "length (run_txs b) \<le> length (run_txs b')" by simp_all
qed

end

end
