(* ===== verification/Executor_Replay.thy ===== *)
theory Executor_Replay
  imports Executor_Block
begin

text \<open>
  Production against validation.  The locale \<open>replayable_executor\<close> adds to the contract of the libraries that checks and
  the VM do not look at the fields that execution fills in.  Then a transaction of a produced block, executed again from
  the same state, gives the same result, and the events and skipped transactions of production have no influence on it;
  so validation accepts a produced block and finds the same changes.
\<close>

section \<open>The fields that execution fills in\<close>

text \<open>As \<open>erase\<close>, but the gas of predicates is kept: the executor writes back the value it was given.\<close>

fun blank_input :: "input \<Rightarrow> input" where
  "blank_input (CoinSigned c) = CoinSigned (c\<lparr>in_tx_pointer := default_pointer\<rparr>)"
| "blank_input (CoinPredicate c) = CoinPredicate (c\<lparr>in_tx_pointer := default_pointer\<rparr>)"
| "blank_input (ContractInput c) = ContractInput (zero_contract_input (ci_contract_id c))"
| "blank_input i = i"

fun blank :: "transaction \<Rightarrow> transaction" where
  "blank (Chargeable kind tx) =
     Chargeable kind (tx\<lparr>tx_inputs := map blank_input (tx_inputs tx), tx_outputs := map erase_output (tx_outputs tx)\<rparr>)"
| "blank (Mint m) = Mint (erase_mint m)"

lemma erase_blank_input: "erase_input (blank_input i) = erase_input i"
  by (cases i) (simp_all add: zero_contract_input_def)

lemma erase_erase_output [simp]: "erase_output (erase_output out) = erase_output out"
  by (cases out) (simp_all add: erase_contract_output_def)

lemma erase_blank [simp]: "erase (blank t) = erase t"
  by (cases t) (simp_all add: erase_chargeable_def erase_blank_input erase_mint_def zero_contract_input_def
      erase_contract_output_def o_def)

lemma blank_eq_erase: "blank t = blank t' \<Longrightarrow> erase t = erase t'"
  using erase_blank by metis

lemma blank_Chargeable_eq:
  "blank (Chargeable kind a) = blank (Chargeable kind' b) \<longleftrightarrow> kind = kind'
   \<and> map blank_input (tx_inputs a) = map blank_input (tx_inputs b)
   \<and> map erase_output (tx_outputs a) = map erase_output (tx_outputs b) \<and> tx_body a = tx_body b"
  by (cases a; cases b) auto

lemma blank_ChargeableE:
  assumes "blank t = blank (Chargeable kind x)"
  obtains y where "t = Chargeable kind y" "map blank_input (tx_inputs y) = map blank_input (tx_inputs x)"
proof (cases t)
  case (Chargeable kind' y)
  with assms that show ?thesis by (metis blank_Chargeable_eq)
next
  case (Mint m)
  with assms show ?thesis by simp
qed

text \<open>A checked transaction can only be made by the library: by one of the checks of a transaction under the given
  parameters, followed by further checks of it.\<close>

inductive library_checked :: "vm_lib \<Rightarrow> consensus_parameters \<Rightarrow> checked \<Rightarrow> bool" for V p where
  basic: "into_checked_basic V p h t = Inr c \<Longrightarrow> library_checked V p c"
| reusable: "into_checked_reusable_memory V p h m t = Inr c \<Longrightarrow> library_checked V p c"
| predicates: "library_checked V p c \<Longrightarrow> check_predicates V p b m c = Inr c' \<Longrightarrow> library_checked V p c'"
| signatures: "library_checked V p c \<Longrightarrow> check_signatures V (params_chain_id p) c = Inr c' \<Longrightarrow> library_checked V p c'"

text \<open>The libraries look at the other fields only: the VM zeroes these ones before it runs a transaction.  The laws are
  about transactions that the library has checked under the same parameters, for which the cached metadata is that of
  the transaction and a check that is recorded as done would succeed if it were done again.\<close>

locale replayable_executor = faithful_executor E for E :: "'s executor_env" +
  assumes basic_blank: "blank t = blank t' \<Longrightarrow> into_checked_basic (ex_vm E) p h t = Inr c \<Longrightarrow>
      \<exists>c'. into_checked_basic (ex_vm E) p h t' = Inr c'"
    and predicates_blank: "blank (checked_tx c) = blank (checked_tx c') \<Longrightarrow>
      library_checked (ex_vm E) p c \<Longrightarrow> library_checked (ex_vm E) p c' \<Longrightarrow>
      check_predicates (ex_vm E) p b m c = Inr d \<Longrightarrow> \<exists>d'. check_predicates (ex_vm E) p b m c' = Inr d'"
    and signatures_blank: "blank (checked_tx c) = blank (checked_tx c') \<Longrightarrow>
      library_checked (ex_vm E) p c \<Longrightarrow> library_checked (ex_vm E) p c' \<Longrightarrow>
      check_signatures (ex_vm E) (params_chain_id p) c = Inr d \<Longrightarrow>
      \<exists>d'. check_signatures (ex_vm E) (params_chain_id p) c' = Inr d'"
    and ready_blank: "blank (checked_tx c) = blank (checked_tx c') \<Longrightarrow>
      library_checked (ex_vm E) p c \<Longrightarrow> library_checked (ex_vm E) p c' \<Longrightarrow> into_ready (ex_vm E) p g h c = Inr r \<Longrightarrow>
      \<exists>r'. into_ready (ex_vm E) p g h c' = Inr r' \<and> (\<forall>env m. transact (ex_vm E) env m r' = transact (ex_vm E) env m r)"

lemma map_eq_via:
  assumes "map f xs = map f ys" "\<And>x y. f x = f y \<Longrightarrow> g x = g y"
  shows "map g xs = map g ys"
proof (rule nth_equalityI)
  show len: "length (map g xs) = length (map g ys)" using arg_cong[OF assms(1), of length] by simp
  show "map g xs ! i = map g ys ! i" if "i < length (map g xs)" for i
    using that len assms(2)[of "xs ! i" "ys ! i"] arg_cong[OF assms(1), of "\<lambda>zs. zs ! i"] by simp
qed

lemma coin_pointer_eq:
  "c\<lparr>in_tx_pointer := p\<rparr> = d\<lparr>in_tx_pointer := p\<rparr> \<longleftrightarrow> in_utxo_id c = in_utxo_id d \<and> in_owner c = in_owner d
   \<and> in_amount c = in_amount d \<and> in_asset_id c = in_asset_id d \<and> in_coin_predicate_gas c = in_coin_predicate_gas d
   \<and> in_coin_rest c = in_coin_rest d" for c d :: coin_input
  by (cases c; cases d) auto

lemma predicate_gas_blank: "blank_input i = blank_input j \<Longrightarrow> predicate_gas_used i = predicate_gas_used j"
  by (cases i; cases j) (auto simp: coin_pointer_eq)

lemma restored_gas:
  "c\<lparr>in_tx_pointer := p, in_coin_predicate_gas := 0\<rparr> = d\<lparr>in_tx_pointer := p, in_coin_predicate_gas := 0\<rparr> \<Longrightarrow>
   c\<lparr>in_coin_predicate_gas := in_coin_predicate_gas d, in_tx_pointer := p\<rparr> = d\<lparr>in_tx_pointer := p\<rparr>"
  "x\<lparr>in_message_predicate_gas := 0\<rparr> = y\<lparr>in_message_predicate_gas := 0\<rparr> \<Longrightarrow>
   x\<lparr>in_message_predicate_gas := in_message_predicate_gas y\<rparr> = y"
  for c d :: coin_input and x y :: message_input
  by (cases c; cases d; simp) (cases x; cases y; simp)

lemma update_gas_blank:
  "update_input_used_gas txid (map predicate_gas_used is) js = Inr js' \<Longrightarrow> map erase_input js = map erase_input is
   \<Longrightarrow> map blank_input js' = map blank_input is"
proof (induction "is" arbitrary: js js')
  case (Cons i "is")
  from Cons.prems(2) obtain j rest where js: "js = j # rest" "erase_input j = erase_input i" "map erase_input rest = map erase_input is"
    by (cases js) auto
  from Cons.prems(1) js(1) obtain j' rest' where
    j': "(case predicate_gas_used i of None \<Rightarrow> Inr j
      | Some gas_used \<Rightarrow> ok_or (InvalidTransactionOutcome txid) (set_predicate_gas gas_used j)) = Inr j'"
    and r: "update_input_used_gas txid (map predicate_gas_used is) rest = Inr rest'" "js' = j' # rest'"
    by (auto simp: res_then_eq_Inr)
  have "blank_input j' = blank_input i"
    using j' js(2) by (cases i; cases j) (auto simp: restored_gas split: option.splits)
  with Cons.IH[OF r(1) js(3)] r(2) show ?case by simp
qed simp

lemma compute_inputs_blank:
  "compute_inputs E st r inputs = Inr inputs' \<Longrightarrow> map blank_input inputs' = map blank_input inputs"
proof (induction inputs arbitrary: inputs')
  case (Cons i inputs)
  from Cons.prems obtain i' rest where i': "compute_input E st r i = Inr i'"
    and rest: "compute_inputs E st r inputs = Inr rest" "inputs' = i' # rest"
    by (auto simp: res_then_eq_Inr)
  have "blank_input i' = blank_input i"
    using i' by (cases i) (auto simp: compute_input_def res_then_eq_Inr zero_contract_input_def Let_def)
  with Cons.IH[OF rest(1)] rest(2) show ?case by simp
qed simp

lemma coin_matches_eq:
  assumes "in_owner x = in_owner y" "in_amount x = in_amount y" "in_asset_id x = in_asset_id y"
  shows "coin_matches coin x = coin_matches coin y"
  using assms by (cases coin) simp

lemma verify_coin_cong:
  assumes "in_utxo_id x = in_utxo_id y" "\<And>coin. coin_matches_input coin i = coin_matches_input coin j"
  shows "verify_coin E st i x = verify_coin E st j y"
  unfolding verify_coin_def assms ..

lemma verify_contract_cong:
  assumes "ci_contract_id c = ci_contract_id d"
  shows "verify_input E st h (ContractInput c) = verify_input E st h (ContractInput d)"
  unfolding verify_input_def input.case assms ..

lemma verify_input_blank: "blank_input i = blank_input j \<Longrightarrow> verify_input E st h i = verify_input E st h j"
proof (cases i; cases j)
  fix c d
  assume "blank_input i = blank_input j" "i = CoinSigned c" "j = CoinSigned d"
  then show ?thesis using verify_coin_cong[of c d i j] coin_matches_eq[of c d] by (simp add: verify_input_def coin_pointer_eq)
next
  fix c d
  assume "blank_input i = blank_input j" "i = CoinPredicate c" "j = CoinPredicate d"
  then show ?thesis using verify_coin_cong[of c d i j] coin_matches_eq[of c d] by (simp add: verify_input_def coin_pointer_eq)
next
  fix c d
  assume "blank_input i = blank_input j" "i = ContractInput c" "j = ContractInput d"
  then show ?thesis using verify_contract_cong[of c d] by (simp add: zero_contract_input_def)
qed simp_all

lemma verify_inputs_blank:
  "map blank_input is = map blank_input js \<Longrightarrow>
   verify_inputs_exist_and_values_match E st h is = verify_inputs_exist_and_values_match E st h js"
proof (induction "is" arbitrary: js)
  case (Cons i "is")
  then obtain j rest where "js = j # rest" "blank_input i = blank_input j" "map blank_input is = map blank_input rest"
    by (cases js) auto
  with Cons.IH show ?case using verify_input_blank[of i j E st h] by simp
qed simp

section \<open>Executing the result of an execution\<close>

context replayable_executor
begin

lemma attempt_replay:
  assumes "attempt_tx_execution_with_vm E c tx hdr cb gp s = (s', Inr (reverted, state, tx', rs))"
    and "checked_tx c = Chargeable kind tx" "checked_tx c' = Chargeable kind tx'" "checked_id c' = checked_id c"
  shows "blank (Chargeable kind tx') = blank (Chargeable kind tx)"
    and "library_checked (ex_vm E) (consensus_params E) c \<Longrightarrow> library_checked (ex_vm E) (consensus_params E) c' \<Longrightarrow>
      attempt_tx_execution_with_vm E c' tx' hdr cb gp s = (s', Inr (reverted, state, tx', rs))"
proof -
  let ?h = "height (p_consensus hdr)" and ?m = "tx_get (tx_level E) (xs_store s)"
  from assms(1) obtain ready res inputs1 before after0 inputs2 after outputs2 where
    ready: "into_ready (ex_vm E) (consensus_params E) gp ?h c = Inr ready"
    and res: "vm_outcome (transact (ex_vm E) (vm_env_of E hdr cb gp) ?m ready) = Inr res"
    and in1: "update_input_used_gas (checked_id c) (map predicate_gas_used (tx_inputs tx)) (tx_inputs (vm_tx res)) = Inr inputs1"
    and in2: "compute_inputs E (xs_store s) before inputs1 = Inr inputs2"
    and out2: "compute_state_of_not_utxo_outputs (ex_vm E) (checked_id c) inputs2 after (tx_outputs (vm_tx res)) = Inr outputs2"
    and tx': "tx' = (vm_tx res)\<lparr>tx_inputs := inputs2, tx_outputs := outputs2\<rparr>"
    unfolding attempt_tx_execution_with_vm_def Let_def
    by (auto elim!: and_then_InrE split: prod.splits)
  have "erase_chargeable (vm_tx res) = erase_chargeable tx" by (rule transact_erase[OF ready assms(2) res])
  then show bl: "blank (Chargeable kind tx') = blank (Chargeable kind tx)"
    using update_gas_blank[OF in1] compute_inputs_blank[OF in2] compute_outputs_erase[OF out2]
    by (simp only: blank_Chargeable_eq) (simp add: tx' erase_chargeable_eq)
  assume made: "library_checked (ex_vm E) (consensus_params E) c" "library_checked (ex_vm E) (consensus_params E) c'"
  obtain ready' where ready': "into_ready (ex_vm E) (consensus_params E) gp ?h c' = Inr ready'"
    "\<And>env m. transact (ex_vm E) env m ready' = transact (ex_vm E) env m ready"
    using ready_blank[OF _ made ready] bl assms(2,3) by metis
  have gas: "map predicate_gas_used (tx_inputs tx') = map predicate_gas_used (tx_inputs tx)"
    using bl by (intro map_eq_via[of blank_input, OF _ predicate_gas_blank]) (simp_all only: blank_Chargeable_eq)
  have "attempt_tx_execution_with_vm E c' tx' hdr cb gp s = attempt_tx_execution_with_vm E c tx hdr cb gp s"
    unfolding attempt_tx_execution_with_vm_def Let_def gas assms(4) using ready ready' by simp
  with assms(1) show "attempt_tx_execution_with_vm E c' tx' hdr cb gp s = (s', Inr (reverted, state, tx', rs))" by simp
qed

lemma extra_checks_replay:
  assumes "extra_tx_checks E c hdr st = Inr d" "blank (checked_tx c) = blank (checked_tx c')"
    and made: "library_checked (ex_vm E) (consensus_params E) c" "library_checked (ex_vm E) (consensus_params E) c'"
  obtains d' where "extra_tx_checks E c' hdr st = Inr d'" "checked_tx d' = checked_tx c'" "checked_id d' = checked_id c'"
    "library_checked (ex_vm E) (consensus_params E) d'"
proof -
  from assms(1) obtain d1 where
    d1: "check_predicates (ex_vm E) (consensus_params E) (allow_syscall E) (tx_get (tx_level E) st) c = Inr d1"
    and v: "(case checked_tx d1 of
          Chargeable _ tx \<Rightarrow> verify_inputs_exist_and_values_match E st (da_height (p_application hdr)) (tx_inputs tx)
        | Mint _ \<Rightarrow> Inr ()) = Inr ()"
    and d: "check_signatures (ex_vm E) (params_chain_id (consensus_params E)) d1 = Inr d"
    by (auto simp: extra_tx_checks_def res_then_eq_Inr)
  from predicates_blank[OF assms(2) made d1] obtain d1' where
    d1': "check_predicates (ex_vm E) (consensus_params E) (allow_syscall E) (tx_get (tx_level E) st) c' = Inr d1'" ..
  note same = predicates_tx[OF d1] predicates_tx[OF d1']
  note made1 = library_checked.predicates[OF made(1) d1] library_checked.predicates[OF made(2) d1']
  from signatures_blank[OF _ made1 d] assms(2) same obtain d' where
    d': "check_signatures (ex_vm E) (params_chain_id (consensus_params E)) d1' = Inr d'" by auto
  have v': "(case checked_tx d1' of
        Chargeable _ tx \<Rightarrow> verify_inputs_exist_and_values_match E st (da_height (p_application hdr)) (tx_inputs tx)
      | Mint _ \<Rightarrow> Inr ()) = Inr ()"
  proof (cases "checked_tx d1'")
    case (Chargeable kind x)
    have "blank (checked_tx d1) = blank (Chargeable kind x)" using assms(2) same Chargeable by metis
    then obtain y where y: "checked_tx d1 = Chargeable kind y" "map blank_input (tx_inputs y) = map blank_input (tx_inputs x)"
      by (rule blank_ChargeableE)
    with v verify_inputs_blank[OF y(2), of E st "da_height (p_application hdr)"] Chargeable show ?thesis by simp
  qed simp
  show ?thesis
    using that[of d'] d1' v' d' signatures_tx[OF d'] same library_checked.signatures[OF made1(2) d']
    by (simp add: extra_tx_checks_def)
qed

lemma extra_checks_made:
  "extra_tx_checks E c hdr st = Inr d \<Longrightarrow> library_checked (ex_vm E) (consensus_params E) c \<Longrightarrow>
   library_checked (ex_vm E) (consensus_params E) d"
  by (auto simp: extra_tx_checks_def res_then_eq_Inr intro: library_checked.predicates library_checked.signatures)

lemma chargeable_replay:
  assumes "execute_chargeable_transaction E kind c hdr cb gp s = (s', Inr t)" "checked_tx c = Chargeable kind x"
    and "checked_tx c1 = t" "checked_id c1 = checked_id c"
  shows "blank t = blank (checked_tx c)"
    and "library_checked (ex_vm E) (consensus_params E) c \<Longrightarrow> library_checked (ex_vm E) (consensus_params E) c1 \<Longrightarrow>
      execute_chargeable_transaction E kind c1 hdr cb gp s = (s', Inr t)"
proof -
  from assms(1) obtain d s1 reverted state tx rs where
    d: "(if forbid_fake_coins E then extra_tx_checks E c hdr (xs_store s) else Inr c) = Inr d"
    and 1: "attempt_tx_execution_with_vm E d (chargeable_of d) hdr cb gp s = (s1, Inr (reverted, state, tx, rs))"
    and 2: "and_then (spend_input_utxos E reverted (tx_inputs tx) s1)
      (\<lambda>s _. and_then (persist_output_utxos E (height (p_consensus hdr)) (checked_id c) (tx_inputs tx) (tx_outputs tx) s)
      (\<lambda>s _. and_then (on_store s (plain_put (ProcessedTransactions (ex_codecs E)) (xs_store s) (checked_id c) ()))
      (\<lambda>s _. and_then (on_data s (update_execution_data E tx rs gp reverted state (checked_id c) (xs_data s)))
      (\<lambda>s _. (s, Inr (Chargeable kind tx)))))) = (s', Inr t)"
    and t: "t = Chargeable kind tx"
    unfolding execute_chargeable_transaction_def Let_def by (auto elim!: and_then_InrE split: prod.splits)
  have same: "checked_tx d = checked_tx c \<and> checked_id d = checked_id c"
    using d by (auto simp: extra_tx_checks_def res_then_eq_Inr split: if_splits dest!: predicates_tx signatures_tx)
  then have dx: "checked_tx d = Chargeable kind (chargeable_of d)" using assms(2) by (simp add: chargeable_of_def)
  have c1: "checked_tx c1 = Chargeable kind tx" using assms(3) t by simp
  show bl: "blank t = blank (checked_tx c)"
    using attempt_replay(1)[OF 1 dx c1] same dx t assms(4) by metis
  assume made: "library_checked (ex_vm E) (consensus_params E) c" "library_checked (ex_vm E) (consensus_params E) c1"
  obtain d1 where d1: "(if forbid_fake_coins E then extra_tx_checks E c1 hdr (xs_store s) else Inr c1) = Inr d1"
    "checked_tx d1 = Chargeable kind tx" "checked_id d1 = checked_id d" "library_checked (ex_vm E) (consensus_params E) d1"
  proof (cases "forbid_fake_coins E")
    case True
    with d have "extra_tx_checks E c hdr (xs_store s) = Inr d" by simp
    then show ?thesis
      by (rule extra_checks_replay[OF _ _ made]) (use True bl c1 t that same assms(3,4) in auto)
  qed (use that c1 assms(4) same made in simp)
  have made_d: "library_checked (ex_vm E) (consensus_params E) d"
    using d made(1) extra_checks_made by (auto split: if_splits)
  have "chargeable_of d1 = tx" using d1(2) by (simp add: chargeable_of_def)
  with attempt_replay(2)[OF 1 dx d1(2,3) made_d d1(4)] d1(1) 2
  show "execute_chargeable_transaction E kind c1 hdr cb gp s = (s', Inr t)"
    by (simp add: execute_chargeable_transaction_def Let_def assms(4))
qed

end

lemma contract_compute_cong:
  assumes "ci_contract_id i = ci_contract_id j"
  shows "compute_inputs E st r [ContractInput i] = compute_inputs E st r [ContractInput j]"
  using assms by (cases i; cases j) (simp add: compute_input_def)

lemma contract_output_cong:
  assumes "co_input_index a = co_input_index b"
  shows "compute_state_of_not_utxo_outputs V txid inputs r [ContractOutput a] =
      compute_state_of_not_utxo_outputs V txid inputs r [ContractOutput b]"
    "persist_output_utxos E h txid inputs [ContractOutput a] s = persist_output_utxos E h txid inputs [ContractOutput b] s"
  subgoal using assms by (cases a; cases b) (simp add: Let_def split: option.split)
  subgoal by (simp add: persist_output_utxos_def persist_output_def assms)
  done

context replayable_executor
begin

lemma mint_vm_replay:
  assumes "execute_mint_with_vm E hdr cb txid m s = (s', Inr (i, out))" "good (xs_store s)"
  shows "execute_mint_with_vm E hdr cb txid (m\<lparr>mint_input := i, mint_output := out\<rparr>) s = (s', Inr (i, out))"
proof -
  have io: "ci_contract_id i = ci_contract_id (mint_input m)" "co_input_index out = co_input_index (mint_output m)"
    using mint_vm_ok(3,4)[OF assms] by (auto simp: erase_contract_output_def dest: arg_cong[of _ _ co_input_index])
  show ?thesis
    using assms(1) unfolding execute_mint_with_vm_def Let_def
    by (simp add: io contract_compute_cong[OF io(1)] contract_output_cong[OF io(2)] del: compute_inputs.simps
        compute_state_of_not_utxo_outputs.simps)
qed

lemma mint_replay:
  assumes "execute_mint E txid m hdr cb gp s = (s', Inr t)" "good (xs_store s)"
  obtains m' where "t = Mint m'" "execute_mint E txid m' hdr cb gp s = (s', Inr t)"
proof -
  let ?s0 = "s\<lparr>xs_data := (xs_data s)\<lparr>ed_found_mint := True\<rparr>\<rparr>"
  let ?hda = "da_height (p_application hdr)"
  from assms(1) obtain s1 m' where
    checks: "check_mint_has_expected_index m (xs_data ?s0) = Inr ()" "check_gas_price m gp = Inr ()"
    and s1: "(if ci_contract_id (mint_input m) = 0
         then (?s0, res_then (verify_mint_for_empty_contract m) (\<lambda>_. Inr m))
         else
           and_then (?s0, check_mint_amount m (ed_coinbase (xs_data ?s0)))
           (\<lambda>s _. and_then (s, if forbid_fake_coins E
                then verify_inputs_exist_and_values_match E (xs_store s) ?hda [ContractInput (mint_input m)] else Inr ())
           (\<lambda>s _. and_then (execute_mint_with_vm E hdr cb txid m s)
           (\<lambda>s (i, out). (s, Inr (m\<lparr>mint_input := i, mint_output := out\<rparr>)))))) = (s1, Inr m')"
    and st: "store_mint_tx E m' txid s1 = (s', Inr t)"
    unfolding execute_mint_def Let_def by (auto elim!: and_then_InrE)
  have t: "t = Mint m'" using st by (auto simp: store_mint_tx_def Let_def elim!: and_then_InrE split: if_splits)
  show ?thesis
  proof (cases "ci_contract_id (mint_input m) = 0")
    case True
    with s1 have "m' = m" by (auto simp: res_then_eq_Inr)
    with assms(1) t that show ?thesis by simp
  next
    case False
    with s1 obtain i out where
      am: "check_mint_amount m (ed_coinbase (xs_data ?s0)) = Inr ()"
      and v: "forbid_fake_coins E \<Longrightarrow>
        verify_inputs_exist_and_values_match E (xs_store s) ?hda [ContractInput (mint_input m)] = Inr ()"
      and vm: "execute_mint_with_vm E hdr cb txid m ?s0 = (s1, Inr (i, out))"
      and m': "m' = m\<lparr>mint_input := i, mint_output := out\<rparr>"
      by (cases "forbid_fake_coins E")
        (force elim!: and_then_InrE simp del: verify_inputs_exist_and_values_match.simps)+
    have g: "good (xs_store ?s0)" using assms(2) by simp
    note i = mint_vm_ok(3)[OF vm g]
    have v': "verify_inputs_exist_and_values_match E (xs_store s) ?hda [ContractInput i] =
        verify_inputs_exist_and_values_match E (xs_store s) ?hda [ContractInput (mint_input m)]"
      by (rule verify_inputs_blank) (simp add: i)
    have "execute_mint E txid m' hdr cb gp s = (s', Inr t)"
      using checks am v False i mint_vm_replay[OF vm g] st unfolding execute_mint_def Let_def m'
      by (simp add: check_mint_has_expected_index_def check_gas_price_def check_mint_amount_def v'
          del: verify_inputs_exist_and_values_match.simps split: if_splits)
    with t that show ?thesis by blast
  qed
qed

end

text \<open>What production needs of a transaction of the source for validation to accept it: if it is checked, the basic check
  at the height of the block would accept it again, and if it is checked under the parameters of the block, the
  library has checked it.\<close>

definition replayable_tx :: "'s executor_env \<Rightarrow> partial_block_header \<Rightarrow> maybe_checked \<Rightarrow> bool" where
  "replayable_tx E hdr tx = (valid_tx E tx \<and>
     (case tx of
        CheckedTransaction c v \<Rightarrow>
          (\<exists>c'. into_checked_basic (ex_vm E) (consensus_params E) (height (p_consensus hdr)) (checked_tx c) = Inr c')
          \<and> (v = consensus_parameters_version (p_application hdr) \<longrightarrow> library_checked (ex_vm E) (consensus_params E) c)
      | UncheckedTransaction _ \<Rightarrow> True))"

context replayable_executor
begin

lemma convert_made:
  "convert_maybe_checked_tx_to_checked_tx E tx hdr = Inr c \<Longrightarrow> replayable_tx E hdr tx \<Longrightarrow>
   library_checked (ex_vm E) (consensus_params E) c"
  by (auto simp: convert_maybe_checked_tx_to_checked_tx_def Let_def replayable_tx_def intro: library_checked.basic
      split: maybe_checked.splits if_splits)

lemma convert_blank:
  assumes "convert_maybe_checked_tx_to_checked_tx E tx hdr = Inr c" "replayable_tx E hdr tx"
    and "blank t = blank (checked_tx c)"
  obtains c1 where "convert_maybe_checked_tx_to_checked_tx E (UncheckedTransaction t) hdr = Inr c1" "checked_tx c1 = t"
proof -
  have "\<exists>c0. into_checked_basic (ex_vm E) (consensus_params E) (height (p_consensus hdr)) (checked_tx c) = Inr c0"
    using assms(1,2) basic_tx
    by (auto simp: convert_maybe_checked_tx_to_checked_tx_def Let_def replayable_tx_def split: maybe_checked.splits if_splits)
  with basic_blank[of "checked_tx c" t] assms(3) obtain c1 where
    "into_checked_basic (ex_vm E) (consensus_params E) (height (p_consensus hdr)) t = Inr c1" by metis
  with that basic_tx[OF this] show ?thesis by (simp add: convert_maybe_checked_tx_to_checked_tx_def Let_def)
qed

lemma transaction_replay:
  assumes "execute_transaction E tx txid hdr cb gp s = (s', Inr t)" "good (xs_store s)"
    and "txid = maybe_checked_id E tx" "replayable_tx E hdr tx"
  shows "execute_transaction E (UncheckedTransaction t) txid hdr cb gp s = (s', Inr t)"
proof -
  have v: "valid_tx E tx" using assms(4) by (simp add: replayable_tx_def)
  from assms(1) obtain c where pre: "check_mint_is_not_found (xs_data s) = Inr ()"
    "check_tx_is_not_duplicate E txid (xs_store s) = Inr ()"
    and c: "convert_maybe_checked_tx_to_checked_tx E tx hdr = Inr c"
    and run: "(case checked_tx c of
        Chargeable kind _ \<Rightarrow> execute_chargeable_transaction E kind c hdr cb gp s
      | Mint m \<Rightarrow> execute_mint E (checked_id c) m hdr cb gp s) = (s', Inr t)"
    unfolding execute_transaction_def by (auto elim!: and_then_InrE)
  note id = convert_ok[OF c v, folded assms(3)]
  have tid: "chain_tx_id E t = txid" by (rule execute_transaction_ok(2)[OF assms(1-3) v])
  have bl: "blank t = blank (checked_tx c)"
  proof (cases "checked_tx c")
    case (Chargeable kind x)
    with chargeable_replay(1)[of kind c hdr cb gp s s' t x "c\<lparr>checked_tx := t\<rparr>"] run show ?thesis by simp
  next
    case (Mint m)
    then have r: "execute_mint E (checked_id c) m hdr cb gp s = (s', Inr t)" using run by simp
    show ?thesis by (rule execute_mint_ok[OF r assms(2)]) (use Mint in simp)
  qed
  then obtain c1 where c1: "convert_maybe_checked_tx_to_checked_tx E (UncheckedTransaction t) hdr = Inr c1" "checked_tx c1 = t"
    using convert_blank[OF c assms(4)] by metis
  have id1: "checked_id c1 = checked_id c"
    using convert_ok(2)[OF c1(1)] c1(2) tid id(1) by (simp add: valid_tx_def)
  show ?thesis
  proof (cases "checked_tx c")
    case (Chargeable kind x)
    then have r: "execute_chargeable_transaction E kind c hdr cb gp s = (s', Inr t)" using run by simp
    obtain tx' where "t = Chargeable kind tx'" using bl Chargeable by (metis blank_ChargeableE)
    moreover have "replayable_tx E hdr (UncheckedTransaction t)" by (simp add: replayable_tx_def valid_tx_def)
    ultimately show ?thesis
      using chargeable_replay(2)[OF r Chargeable c1(2) id1 convert_made[OF c assms(4)] convert_made[OF c1(1)]] pre c1
      by (simp add: execute_transaction_def)
  next
    case (Mint m)
    then have "execute_mint E (checked_id c) m hdr cb gp s = (s', Inr t)" using run by simp
    with mint_replay assms(2) obtain m' where "t = Mint m'" "execute_mint E (checked_id c) m' hdr cb gp s = (s', Inr t)" by metis
    with pre c1 id1 show ?thesis by (simp add: execute_transaction_def)
  qed
qed

end

section \<open>Events and skipped transactions do not matter\<close>

definition alike :: "execution_data \<Rightarrow> execution_data \<Rightarrow> bool" where
  "alike d d' =
     (ed_coinbase d' = ed_coinbase d \<and> ed_used_gas d' = ed_used_gas d \<and> ed_used_size d' = ed_used_size d
      \<and> ed_tx_count d' = ed_tx_count d \<and> ed_found_mint d' = ed_found_mint d \<and> ed_message_ids d' = ed_message_ids d
      \<and> ed_tx_status d' = ed_tx_status d \<and> ed_changes d' = ed_changes d
      \<and> ed_event_inbox_root d' = ed_event_inbox_root d)"

definition alike_state :: "'s exec_state \<Rightarrow> 's exec_state \<Rightarrow> bool" where
  "alike_state s s' = (xs_store s' = xs_store s \<and> alike (xs_data s) (xs_data s'))"

definition same_run :: "('s, 'a) exec \<Rightarrow> ('s, 'a) exec \<Rightarrow> bool" where
  "same_run r r' = (snd r' = snd r \<and> alike_state (fst r) (fst r'))"

lemma same_then:
  assumes "same_run r r'" "\<And>s s' a. alike_state s s' \<Longrightarrow> same_run (f s a) (f' s' a)"
  shows "same_run (and_then r f) (and_then r' f')"
  using assms by (cases r; cases r'; cases "snd r") (auto simp: same_run_def)

lemma same_runI:
  "alike_state s s' \<Longrightarrow> same_run (s, x) (s', x)"
  "alike_state s s' \<Longrightarrow> same_run (push e s, x) (push e s', x)"
  "alike_state s s' \<Longrightarrow> same_run (on_store s r) (on_store s' r)"
  by (auto simp: same_run_def alike_state_def push_def push_event_def alike_def on_store_def)

lemmas same_intros = same_then same_runI

lemma alike_store: "alike_state s s' \<Longrightarrow> xs_store s' = xs_store s"
  by (simp add: alike_state_def)

lemma insert_coin_same: "alike_state s s' \<Longrightarrow> same_run (insert_coin E h u d s) (insert_coin E h u d s')"
  unfolding insert_coin_def Let_def
  by (auto intro!: same_intros simp: alike_state_def alike_def)

lemma persist_outputs_same:
  "alike_state s s' \<Longrightarrow> same_run (persist_outputs E h idx txid inputs i outs s) (persist_outputs E h idx txid inputs i outs s')"
proof (induction outs arbitrary: i s s')
  case (Cons out outs)
  have "same_run (persist_output E h idx u inputs out s) (persist_output E h idx u inputs out s')" for u
    unfolding persist_output_def insert_contract_utxo_def alike_store[OF Cons.prems]
    using Cons.prems by (auto intro!: same_intros insert_coin_same split: tx_output.splits option.splits)
  with Cons show ?case by (auto intro!: same_intros)
qed (simp add: same_runI)

lemma spend_inputs_same:
  "alike_state s s' \<Longrightarrow> same_run (spend_input_utxos E reverted inputs s) (spend_input_utxos E reverted inputs s')"
proof (induction inputs arbitrary: s s')
  case (Cons i inputs)
  have c: "same_run (spend_coin E c s) (spend_coin E c s')" for c
    unfolding spend_coin_def using Cons.prems by (auto intro!: same_intros simp: alike_store cong: option.case_cong)
  have m: "same_run (spend_message E n s) (spend_message E n s')" for n
    unfolding spend_message_def using Cons.prems by (auto intro!: same_intros simp: alike_store)
  have "same_run (spend_input E reverted i s) (spend_input E reverted i s')"
    using c m Cons.prems by (auto simp: spend_input_def same_runI split: input.splits)
  with Cons show ?case by (auto intro!: same_intros)
qed (simp add: same_runI)

lemma attempt_same:
  "alike_state s s' \<Longrightarrow>
   same_run (attempt_tx_execution_with_vm E c tx hdr cb gp s) (attempt_tx_execution_with_vm E c tx hdr cb gp s')"
  unfolding attempt_tx_execution_with_vm_def Let_def commit_unless_reverted_def
  by (auto intro!: same_intros simp: alike_store split: prod.splits)

lemma update_data_same:
  "alike_state s s' \<Longrightarrow> same_run (on_data s (update_execution_data E x rs gp reverted state txid (xs_data s)))
     (on_data s' (update_execution_data E x rs gp reverted state txid (xs_data s')))"
  unfolding update_execution_data_def Let_def
  by (cases "total_fee_paid E x rs gp"; cases reverted)
    (simp_all add: on_data_def same_run_def alike_state_def alike_def and_then_def ok_or_def
      split: option.split prod.split)

lemma persist_utxos_same:
  "alike_state s s' \<Longrightarrow> same_run (persist_output_utxos E h txid inputs outs s) (persist_output_utxos E h txid inputs outs s')"
  using persist_outputs_same[of s s'] by (simp add: persist_output_utxos_def alike_state_def alike_def)

lemma chargeable_same:
  "alike_state s s' \<Longrightarrow> same_run (execute_chargeable_transaction E kind c hdr cb gp s) (execute_chargeable_transaction E kind c hdr cb gp s')"
  unfolding execute_chargeable_transaction_def Let_def
  by (auto intro!: same_intros attempt_same spend_inputs_same persist_utxos_same update_data_same
      simp: alike_store split: prod.splits)

lemma mint_vm_same:
  "alike_state s s' \<Longrightarrow> same_run (execute_mint_with_vm E hdr cb txid m s) (execute_mint_with_vm E hdr cb txid m s')"
  unfolding execute_mint_with_vm_def Let_def
  by (auto intro!: same_intros persist_utxos_same simp: alike_store split: prod.splits)

lemma store_mint_same: "alike_state s s' \<Longrightarrow> same_run (store_mint_tx E m txid s) (store_mint_tx E m txid s')"
  unfolding store_mint_tx_def Let_def
  by (rule same_then) (simp_all add: same_run_def on_store_def alike_state_def alike_def)

lemma mint_same:
  assumes "alike_state s s'"
  shows "same_run (execute_mint E txid m hdr cb gp s) (execute_mint E txid m hdr cb gp s')"
proof -
  let ?f = "\<lambda>s. s\<lparr>xs_data := (xs_data s)\<lparr>ed_found_mint := True\<rparr>\<rparr>"
  have f: "alike_state (?f s) (?f s')" and eq: "check_mint_has_expected_index m (xs_data (?f s')) = check_mint_has_expected_index m (xs_data (?f s))"
    using assms by (simp_all add: alike_state_def alike_def check_mint_has_expected_index_def)
  have am: "check_mint_amount m (ed_coinbase (xs_data t')) = check_mint_amount m (ed_coinbase (xs_data t))" if "alike_state t t'" for t t' :: "'a exec_state"
    using that by (simp add: alike_state_def alike_def)
  show ?thesis
    unfolding execute_mint_def Let_def eq
    by (intro same_then same_runI(1) f) (auto intro!: same_intros mint_vm_same store_mint_same simp: alike_store am split: prod.splits)
qed

lemma transaction_same:
  assumes "alike_state s s'"
  shows "same_run (execute_transaction E tx txid hdr cb gp s) (execute_transaction E tx txid hdr cb gp s')"
proof -
  have "check_mint_is_not_found (xs_data s') = check_mint_is_not_found (xs_data s)"
    using assms by (simp add: alike_state_def alike_def check_mint_is_not_found_def)
  then show ?thesis
    unfolding execute_transaction_def using assms
    by (auto intro!: same_intros chargeable_same mint_same simp: alike_store split: transaction.splits)
qed

definition alike_run :: "'s block_run \<Rightarrow> 's block_run \<Rightarrow> bool" where
  "alike_run b v = (br_block v = br_block b \<and> br_store v = br_store b \<and> alike (br_data b) (br_data v))"

lemma commit_same:
  assumes "alike_run b v" "execute_transaction_and_commit E tx gp cb b = (b', r)"
  obtains v' where "execute_transaction_and_commit E tx gp cb v = (v', r)" "alike_run b' v'"
proof -
  let ?s = "\<lambda>b. \<lparr>xs_store = with_policy Overwrite (write_transaction (br_store b)), xs_data = br_data b\<rparr>"
  have "alike_state (?s b) (?s v)" using assms(1) by (simp add: alike_state_def alike_run_def)
  from transaction_same[OF this, of E tx "maybe_checked_id E tx" "p_header (br_block b)" cb gp]
  obtain s s' x where run: "execute_transaction E tx (maybe_checked_id E tx) (p_header (br_block b)) cb gp (?s b) = (s, x)"
    "execute_transaction E tx (maybe_checked_id E tx) (p_header (br_block b)) cb gp (?s v) = (s', x)"
    and a: "xs_store s' = xs_store s" "alike (xs_data s) (xs_data s')"
    by (cases "execute_transaction E tx (maybe_checked_id E tx) (p_header (br_block b)) cb gp (?s b)";
        cases "execute_transaction E tx (maybe_checked_id E tx) (p_header (br_block b)) cb gp (?s v)")
      (simp add: same_run_def alike_state_def)
  have eq: "br_block v = br_block b" "br_store v = br_store b" "ed_tx_count (br_data v) = ed_tx_count (br_data b)"
    using assms(1) by (simp_all add: alike_run_def alike_def)
  show ?thesis
  proof (cases x)
    case (Inl e)
    with assms(2) run a eq show ?thesis
      by (intro that[of "v\<lparr>br_data := xs_data s'\<rparr>"])
        (auto simp: execute_transaction_and_commit_def Let_def alike_run_def)
  next
    case (Inr t)
    obtain st' y where c: "tx_commit tx_commit_changes (xs_store s) = (st', y)" by fastforce
    have "snd (execute_transaction_and_commit E tx gp cb v) = r" "alike_run b' (fst (execute_transaction_and_commit E tx gp cb v))"
      using assms(2) run a eq Inr c
      by (auto simp: execute_transaction_and_commit_def Let_def alike_run_def alike_def push_transaction_def
          split: sum.splits option.splits)
    then show ?thesis by (intro that) (auto simp: prod_eq_iff)
  qed
qed

section \<open>Replaying a block\<close>

lemma alike_run_refl [simp]: "alike_run b b"
  by (simp add: alike_run_def alike_def)

lemma alike_run_sym: "alike_run b v \<Longrightarrow> alike_run v b"
  by (simp add: alike_run_def alike_def)

lemma alike_run_trans: "alike_run a b \<Longrightarrow> alike_run b c \<Longrightarrow> alike_run a c"
  by (simp add: alike_run_def alike_def)

text \<open>What was added to the block is accepted again, and leaves the same block, store and totals.\<close>

definition replays :: "'s executor_env \<Rightarrow> u64 \<Rightarrow> bytes32 \<Rightarrow> 's block_run \<Rightarrow> 's block_run \<Rightarrow> bool" where
  "replays E gp cb b b' =
     (\<exists>ts. run_txs b' = run_txs b @ ts
        \<and> (\<forall>v. alike_run b v \<longrightarrow> (\<exists>v'. validate_txs E gp cb ts v = (v', Inr ()) \<and> alike_run b' v')))"

lemma replays_alike: "alike_run b b' \<Longrightarrow> replays E gp cb b b'"
  unfolding replays_def
  using alike_run_trans[OF alike_run_sym] by (intro exI[of _ "[]"]) (auto simp: run_txs_def, simp add: alike_run_def)

lemma validate_txs_append:
  "validate_txs E gp cb (ts @ us) v = and_then (validate_txs E gp cb ts v) (\<lambda>v _. validate_txs E gp cb us v)"
proof (induction ts arbitrary: v)
  case (Cons t ts)
  then show ?case
    by (cases "execute_transaction_and_commit E (UncheckedTransaction t) gp cb v"; cases "snd (execute_transaction_and_commit E (UncheckedTransaction t) gp cb v)") simp_all
qed simp

lemma replays_trans:
  assumes "replays E gp cb a b" "replays E gp cb b c"
  shows "replays E gp cb a c"
proof -
  from assms obtain ts us where ts: "run_txs b = run_txs a @ ts" "run_txs c = run_txs b @ us"
    and 1: "\<And>v. alike_run a v \<Longrightarrow> \<exists>v'. validate_txs E gp cb ts v = (v', Inr ()) \<and> alike_run b v'"
    and 2: "\<And>v. alike_run b v \<Longrightarrow> \<exists>v'. validate_txs E gp cb us v = (v', Inr ()) \<and> alike_run c v'"
    unfolding replays_def by blast
  have "\<exists>v'. validate_txs E gp cb (ts @ us) v = (v', Inr ()) \<and> alike_run c v'" if "alike_run a v" for v
    using 1[OF that] 2 by (auto simp: validate_txs_append)
  with ts show ?thesis unfolding replays_def by (intro exI[of _ "ts @ us"]) simp
qed

context replayable_executor
begin

lemma commit_replays:
  assumes "execute_transaction_and_commit E tx gp cb b = (b', Inr ())" "sound_store (br_store b)"
    and "replayable_tx E (p_header (br_block b)) tx"
  shows "replays E gp cb b b'"
proof -
  let ?s = "\<lparr>xs_store = with_policy Overwrite (write_transaction (br_store b)), xs_data = br_data b\<rparr>"
  have v: "valid_tx E tx" using assms(3) by (simp add: replayable_tx_def)
  obtain s x where run: "execute_transaction E tx (maybe_checked_id E tx) (p_header (br_block b)) cb gp ?s = (s, x)" by fastforce
  with assms(1) obtain t where t: "x = Inr t"
    by (cases x) (simp_all add: execute_transaction_and_commit_def Let_def)
  note run = run[unfolded t]
  have g: "good (xs_store ?s)" by (simp add: fresh_good)
  have id: "maybe_checked_id E (UncheckedTransaction t) = maybe_checked_id E tx"
    using execute_transaction_ok(2)[OF run g refl v] by (simp add: maybe_checked_id_def chain_tx_id_def)
  have "execute_transaction_and_commit E (UncheckedTransaction t) gp cb b = execute_transaction_and_commit E tx gp cb b"
    unfolding execute_transaction_and_commit_def Let_def id run transaction_replay[OF run g refl assms(3)] ..
  with assms(1) have same: "execute_transaction_and_commit E (UncheckedTransaction t) gp cb b = (b', Inr ())" by simp
  have txs: "run_txs b' = run_txs b @ [t]"
    using assms(1) run
    by (cases "tx_commit tx_commit_changes (xs_store s)"; cases "snd (tx_commit tx_commit_changes (xs_store s))";
        cases "checked_add (ed_tx_count (br_data b)) 1")
      (simp_all add: execute_transaction_and_commit_def Let_def run_txs_def push_transaction_def, auto)
  show ?thesis
    unfolding replays_def
  proof (intro exI[of _ "[t]"] conjI allI impI txs)
    fix v
    assume "alike_run b v"
    then obtain v' where "execute_transaction_and_commit E (UncheckedTransaction t) gp cb v = (v', Inr ())" "alike_run b' v'"
      by (rule commit_same[OF _ same])
    then show "\<exists>v'. validate_txs E gp cb [t] v = (v', Inr ()) \<and> alike_run b' v'" by auto
  qed
qed

lemma failed_alike: "failed_data e (br_data b) (br_data b') \<Longrightarrow> \<not> leaky e \<Longrightarrow> br_block b' = br_block b
  \<Longrightarrow> br_store b' = br_store b \<Longrightarrow> ed_changes (br_data b') = ed_changes (br_data b) \<Longrightarrow> alike_run b (skip_transaction i e b')"
  by (simp add: alike_run_def alike_def skip_transaction_def failed_data_fields)

lemma skip_replays:
  assumes "execute_transaction_and_commit E tx gp cb b = (b', Inl e)" "valid_tx E tx" "maybe_checked_tx tx = Chargeable kind x"
    and "block_inv E st hdr b" "\<not> leaky e" "length (run_txs b) < 2 ^ 16 - 1"
  shows "replays E gp cb b (skip_transaction i e b')"
proof -
  have ok: "sound_store (br_store b)" "ed_tx_count (br_data b) = tx_index (length (run_txs b))"
    using assms(4) by (simp_all add: block_inv_def Let_def)
  from assms(1) ok(1) assms(2) show ?thesis
  proof (cases rule: execute_and_commit)
    case (committed t d)
    then have "tx_index (length (run_txs b)) = u_max" using ok(2) by (simp split: if_splits)
    then have "unat (tx_index (length (run_txs b))) = unat (u_max :: u16)" by simp
    with assms(6) show ?thesis by (simp add: unat_tx_index unat_u_max)
  next
    case (rejected e')
    then have f: "failed_data e (br_data b) (br_data b')" using assms(3) by simp
    then have "ed_changes (br_data b') = ed_changes (br_data b)"
      by (cases "br_data b"; cases "br_data b'") (simp add: failed_data_def)
    with failed_alike[OF f assms(5)] rejected show ?thesis by (intro replays_alike) simp
  qed
qed

lemma process_batch_replays:
  assumes "process_batch E gp cb txs statuses b = (b', Inr statuses')"
    and "\<forall>tx\<in>set txs. replayable_tx E hdr tx" "block_inv E st hdr b"
    and "\<not> leaked (br_data b')" "length (run_txs b') < 2 ^ 16 - 1"
  shows "replays E gp cb b b'"
  using assms
proof (induction txs arbitrary: statuses b)
  case (Cons tx txs)
  note bi = Cons.prems(3)
  have v: "valid_tx E tx" "\<forall>tx\<in>set txs. valid_tx E tx" "\<forall>tx\<in>set txs. replayable_tx E hdr tx"
    using Cons.prems(2) by (auto simp: replayable_tx_def)
  have IH: "replays E gp cb b1 b'" if r: "process_batch E gp cb txs statuses1 b1 = (b', Inr statuses')" and s: "block_step E b b1" for b1 statuses1
    by (rule Cons.IH[OF r v(3) block_inv_step[OF s bi] Cons.prems(4,5)])
  have grow: "\<not> leaked (br_data b1)" "length (run_txs b1) < 2 ^ 16 - 1"
    if "process_batch E gp cb txs statuses1 b1 = (b', Inr statuses')" "block_step E b b1" for b1 statuses1
    using steps_grow[OF process_batch_steps[OF that(1) v(2)] block_inv_step[OF that(2) bi]] Cons.prems(4,5) by auto
  from Cons.prems(1) show ?case
  proof (cases rule: process_batch_ConsE)
    case (overrun g)
    have "alike_run b (skip_transaction (maybe_checked_id E tx) (GasOverflow gas_limit_reason g (remaining_gas_limit E b)) b)"
      by (simp add: alike_run_def alike_def skip_transaction_def)
    from replays_trans[OF replays_alike[OF this] IH[OF overrun block_step.overrun]] show ?thesis .
  next
    case (skipped kind x e b1 statuses1)
    note s = block_step.skip[OF v(1) skipped(1,2)]
    have "\<not> leaky e" using grow(1)[OF skipped(3) s] by (simp add: leaked_data)
    moreover have "length (run_txs b) < 2 ^ 16 - 1"
      using grow(2)[OF skipped(3) s] step_grows[OF s bi, of "maybe_checked_id E tx"] by linarith
    ultimately show ?thesis
      using replays_trans[OF skip_replays[OF skipped(2) v(1) skipped(1) bi] IH[OF skipped(3) s]] by blast
  next
    case (executed kind x b1 statuses1)
    have "p_header (br_block b) = hdr" "sound_store (br_store b)" using bi by (simp_all add: block_inv_def Let_def)
    with commit_replays[OF executed(2)] Cons.prems(2) have "replays E gp cb b b1" by simp
    from replays_trans[OF this IH[OF executed(3) block_step.exec[OF v(1) executed(2)]]] show ?thesis .
  qed
qed (simp add: replays_alike)

end

context replayable_executor
begin

lemma source_valid: "source_gives (replayable_tx E h) Q I \<Longrightarrow> source_gives (valid_tx E) Q I"
  by (erule source_gives_mono) (simp add: replayable_tx_def)

lemma process_l2_replays:
  "process_l2_txs n E Q gp cb q statuses b = Some (q', (b', Inr statuses')) \<Longrightarrow>
   source_gives (replayable_tx E hdr) Q I \<Longrightarrow> I q \<Longrightarrow> block_inv E st hdr b
   \<Longrightarrow> \<not> leaked (br_data b') \<Longrightarrow> length (run_txs b') < 2 ^ 16 - 1 \<Longrightarrow> replays E gp cb b b'"
proof (induction n arbitrary: q statuses b)
  case (Suc n)
  obtain q1 txs where nb: "next_batch E Q q b = (q1, txs)" by fastforce
  note g = next_batch_gives[OF Suc.prems(2,3) nb]
  have v: "\<forall>tx\<in>set txs. valid_tx E tx" using g(2) by (auto simp: replayable_tx_def)
  show ?case
  proof (cases txs)
    case Nil
    with Suc.prems(1) nb show ?thesis by (simp add: replays_alike)
  next
    case (Cons tx rest)
    with Suc.prems(1) nb obtain b1 statuses1 where 1: "process_batch E gp cb txs statuses b = (b1, Inr statuses1)"
      and 2: "process_l2_txs n E Q gp cb q1 statuses1 b1 = Some (q', (b', Inr statuses'))"
      by (simp del: process_batch.simps split: prod.splits sum.splits)
    have bi: "block_inv E st hdr b1" by (rule block_inv_steps[OF process_batch_steps[OF 1 v] Suc.prems(4)])
    have steps: "block_steps E b1 b'" using process_l2_steps[OF 2 source_valid[OF Suc.prems(2)] g(1)] by simp
    have "replays E gp cb b b1"
      using steps_grow[OF steps bi] Suc.prems(5,6) by (intro process_batch_replays[OF 1 g(2) Suc.prems(4)]) auto
    from replays_trans[OF this Suc.IH[OF 2 Suc.prems(2) g(1) bi Suc.prems(5,6)]] show ?thesis .
  qed
qed simp

lemma produce_rounds_replays:
  "produce_rounds n E Q C q statuses b = Some (q', (b', Inr statuses')) \<Longrightarrow>
   source_gives (replayable_tx E hdr) Q I \<Longrightarrow> I q \<Longrightarrow> block_inv E st hdr b
   \<Longrightarrow> \<not> leaked (br_data b') \<Longrightarrow> length (run_txs b') < 2 ^ 16 - 1
   \<Longrightarrow> replays E (component_gas_price C) (coinbase_recipient C) b b'"
proof (induction n arbitrary: q statuses b)
  case (Suc n)
  note src = source_valid[OF Suc.prems(2)]
  from Suc.prems(1) obtain q1 b1 statuses1 where
    1: "process_l2_txs n E Q (component_gas_price C) (coinbase_recipient C) q statuses b = Some (q1, (b1, Inr statuses1))"
    by (auto split: option.splits sum.splits)
  note s1 = process_l2_steps[OF 1 src Suc.prems(3)]
  note bi = block_inv_steps[OF conjunct1[OF s1] Suc.prems(4)]
  obtain q2 more where w: "new_transactions Q q1 = (q2, more)" by fastforce
  have q2: "I q2" using s1 Suc.prems(2) w unfolding source_gives_def by (metis fst_conv)
  show ?case
  proof (cases more)
    case True
    with Suc.prems(1) 1 w have 2: "produce_rounds n E Q C q2 statuses1 b1 = Some (q', (b', Inr statuses'))" by simp
    have "replays E (component_gas_price C) (coinbase_recipient C) b b1"
      using steps_grow[OF produce_rounds_steps[OF 2 src q2] bi] Suc.prems(5,6)
      by (intro process_l2_replays[OF 1 Suc.prems(2-4)]) auto
    from replays_trans[OF this Suc.IH[OF 2 Suc.prems(2) q2 bi Suc.prems(5,6)]] show ?thesis .
  next
    case False
    with Suc.prems(1) 1 w have "b' = b1" by simp
    with process_l2_replays[OF 1 Suc.prems(2-4)] Suc.prems(5,6) show ?thesis by simp
  qed
qed simp

end

context faithful_executor
begin

lemma mint_included:
  assumes "execute_transaction_and_commit E (UncheckedTransaction (Mint m0)) gp cb b = (b', Inr ())" "sound_store (br_store b)"
  obtains m where "run_txs b' = run_txs b @ [Mint m]" "erase_mint m = erase_mint m0" "mint_gas_price m0 = gp"
    "mint_amount m0 = (if ci_contract_id (mint_input m0) = 0 then 0 else ed_coinbase (br_data b))"
    "ed_tx_count (br_data b) \<noteq> u_max" "ed_coinbase (br_data b') = ed_coinbase (br_data b)"
proof -
  let ?hdr = "p_header (br_block b)" and ?tx = "UncheckedTransaction (Mint m0)"
  let ?s = "\<lparr>xs_store = with_policy Overwrite (write_transaction (br_store b)), xs_data = br_data b\<rparr>"
  have g: "good (xs_store ?s)" by (simp add: fresh_good)
  obtain s x where run: "execute_transaction E ?tx (maybe_checked_id E ?tx) ?hdr cb gp ?s = (s, x)" by fastforce
  with assms(1) obtain t where t: "x = Inr t"
    by (cases x) (simp_all add: execute_transaction_and_commit_def Let_def)
  obtain c where c: "into_checked_basic (ex_vm E) (consensus_params E) (height (p_consensus ?hdr)) (Mint m0) = Inr c"
    and r: "(case checked_tx c of
        Chargeable kind _ \<Rightarrow> execute_chargeable_transaction E kind c ?hdr cb gp ?s
      | Mint m \<Rightarrow> execute_mint E (checked_id c) m ?hdr cb gp ?s) = (s, Inr t)"
    using run t unfolding execute_transaction_def convert_maybe_checked_tx_to_checked_tx_def Let_def
    by (auto elim!: and_then_InrE)
  then have r: "execute_mint E (checked_id c) m0 ?hdr cb gp ?s = (s, Inr t)" using basic_tx[OF c] by simp
  obtain m where m: "t = Mint m" "erase_mint m = erase_mint m0" "mint_gas_price m0 = gp"
    "mint_amount m0 = (if ci_contract_id (mint_input m0) = 0 then 0 else ed_coinbase (xs_data ?s))"
    "quiet (mint_data (checked_id c) (xs_data ?s)) (xs_data s)"
    by (rule execute_mint_ok[OF r g]) (assumption | rule that)+
  have "run_txs b' = run_txs b @ [t] \<and> ed_tx_count (br_data b) \<noteq> u_max \<and> ed_coinbase (br_data b') = ed_coinbase (xs_data s)"
    using assms(1) run t
    by (cases "tx_commit tx_commit_changes (xs_store s)"; cases "snd (tx_commit tx_commit_changes (xs_store s))")
      (auto simp: execute_transaction_and_commit_def Let_def run_txs_def push_transaction_def checked_add_1 split: if_splits)
  moreover have "ed_coinbase (xs_data s) = ed_coinbase (br_data b)" using quiet_fields(1)[OF m(5)] by (simp add: mint_data_def)
  ultimately show ?thesis using that[of m] m by simp
qed

end

section \<open>A produced block is valid\<close>

context replayable_executor
begin

lemma produce_block_replays:
  assumes "produce_block n E Q q C st = Some (Inr (partial, d))" "sound_store st" "\<not> leaked d"
    and "source_gives (replayable_tx E (header_to_produce C)) Q I" "I q"
  obtains b1 b3 ts m where
    "process_l1_txs E (coinbase_recipient C) (block_run_new (header_to_produce C) st) = (b1, Inr ())"
    "replays E (component_gas_price C) (coinbase_recipient C) b1 b3" "run_txs b3 = ts @ [Mint m]"
    "mint_gas_price m = component_gas_price C" "ci_contract_id (mint_input m) = coinbase_recipient C"
    "finish_run b3 = (partial, d)" "p_header partial = header_to_produce C"
proof -
  let ?b0 = "block_run_new (header_to_produce C) st" and ?gp = "component_gas_price C" and ?cb = "coinbase_recipient C"
  from assms(1) obtain b1 q' b2 statuses b3 where
    1: "process_l1_txs E ?cb ?b0 = (b1, Inr ())"
    and 2: "produce_rounds n E Q C q [] b1 = Some (q', (b2, Inr statuses))"
    and 3: "produce_mint_tx E C b2 = (b3, Inr ())" and fin: "finish_run b3 = (partial, d)"
    by (auto simp: produce_block_def split: prod.splits sum.splits option.splits)
  have bi1: "block_inv E st (header_to_produce C) b1"
    by (rule block_inv_steps[OF process_l1_steps[OF 1] block_inv_new[OF assms(2)]])
  have bi2: "block_inv E st (header_to_produce C) b2"
    by (rule block_inv_steps[OF produce_rounds_steps[OF 2 source_valid[OF assms(4)] assms(5)] bi1])
  note step3 = mint_step[OF 3]
  have bi3: "block_inv E st (header_to_produce C) b3" by (rule block_inv_step[OF step3 bi2])
  have ok2: "sound_store (br_store b2)" "p_header (br_block b2) = header_to_produce C"
    "ed_tx_count (br_data b2) = tx_index (length (run_txs b2))"
    using bi2 by (simp_all add: block_inv_def Let_def)
  obtain m where m0: "run_txs b3 = run_txs b2 @ [Mint m]" "erase_mint m = erase_mint (coinbase_mint E C b2)"
    "ed_tx_count (br_data b2) \<noteq> u_max"
    by (rule mint_included[OF 3[unfolded produce_mint_tx_def] ok2(1)])
  have m: "mint_gas_price m = ?gp" "ci_contract_id (mint_input m) = ?cb"
    using erase_mint_eq[OF m0(2)] by (simp_all add: coinbase_mint_def zero_contract_input_def)
  have "leaked (br_data b3) \<longleftrightarrow> leaked d" using fin by (auto simp: finish_run_def leaked_def)
  then have nl: "\<not> leaked (br_data b2)" using step_grows[OF step3 bi2] assms(3) by blast
  have "unat (tx_index (length (run_txs b2))) \<noteq> unat (u_max :: u16)" using m0(3) ok2(3) by (simp add: word_unat_eq_iff)
  then have len: "length (run_txs b2) < 2 ^ 16 - 1" by (simp add: unat_tx_index unat_u_max)
  have r3: "replays E ?gp ?cb b2 b3"
    using 3 unfolding produce_mint_tx_def by (rule commit_replays) (simp_all add: ok2 replayable_tx_def valid_tx_def)
  note r = replays_trans[OF produce_rounds_replays[OF 2 assms(4,5) bi1 nl len] r3]
  have "p_header partial = header_to_produce C" using bi3 fin by (auto simp: block_inv_def Let_def finish_run_def)
  with that[OF 1 r m0(1) m fin] show ?thesis .
qed

lemma produced_validates:
  assumes "produce_block n E Q q C st = Some (Inr (partial, d))" "sound_store st" "\<not> leaked d"
    and "source_gives (replayable_tx E (header_to_produce C)) Q I" "I q"
    and "partial_block_generate (ex_lib E) partial (ed_message_ids d) (ed_event_inbox_root d) = Inr blk"
  obtains d' where "validate_block E blk st = Inr d'" "ed_changes d' = ed_changes d" "ed_tx_status d' = ed_tx_status d"
    "partial_of_header (blk_header blk) = header_to_produce C"
proof -
  let ?gp = "component_gas_price C" and ?cb = "coinbase_recipient C"
  obtain b1 b3 ts m where 1: "process_l1_txs E ?cb (block_run_new (header_to_produce C) st) = (b1, Inr ())"
    and r: "replays E ?gp ?cb b1 b3" and m: "run_txs b3 = ts @ [Mint m]" "mint_gas_price m = ?gp" "ci_contract_id (mint_input m) = ?cb"
    and fin: "finish_run b3 = (partial, d)" and hdr: "p_header partial = header_to_produce C"
    by (rule produce_block_replays[OF assms(1-5)])
  have b3: "br_block b3 = partial" "d = (br_data b3)\<lparr>ed_changes := changes (br_store b3)\<rparr>"
    using fin by (auto simp: finish_run_def)
  from assms(6) have blk: "blk_transactions blk = run_txs b3" "partial_of_header (blk_header blk) = header_to_produce C"
    using hdr b3(1) by (auto simp: partial_block_generate_def block_new_iff header_generate_parts(2) run_txs_def)
  obtain us where us: "run_txs b3 = run_txs b1 @ us"
    "\<And>v. alike_run b1 v \<Longrightarrow> \<exists>v'. validate_txs E ?gp ?cb us v = (v', Inr ()) \<and> alike_run b3 v'"
    using r unfolding replays_def by blast
  then obtain v where v: "validate_txs E ?gp ?cb us b1 = (v, Inr ())" "alike_run b3 v" using alike_run_refl by blast
  have match: "check_transactions_match E (zip xs xs) = Inr ()" for xs by (induction xs) simp_all
  have "check_block_matches E (br_block v) blk (br_data v) = Inr ()"
    using v(2) assms(6) b3 blk(1)
    by (simp add: check_block_matches_def alike_run_def alike_def run_txs_def match)
  moreover have "get_coinbase_info_from_mint_tx (blk_transactions blk) = Inr (?gp, ?cb)"
    using m blk(1) by (simp add: get_coinbase_info_from_mint_tx_def)
  moreover have "drop (length (p_transactions (br_block b1))) (blk_transactions blk) = us"
    using blk(1) us(1) by (simp add: run_txs_def)
  ultimately have "validate_block E blk st = Inr (snd (finish_run v))"
    using blk(2) 1 v(1) by (simp add: validate_block_def Let_def)
  then show ?thesis
    using that v(2) b3(2) blk(2) by (simp add: finish_run_def alike_run_def alike_def)
qed

end

end
