(* ===== verification/Executor_Claims.thy ===== *)
theory Executor_Claims
  imports Executor_Replay Importer
begin

text \<open>
  What the executor guarantees (\<open>crates/services/executor/src/executor.rs\<close>): production terminates, what is produced
  validates, a validated block spends no coin twice and its books balance.  The last sections put the executor behind
  the importer (\<open>crates/fuel-core/src/service/adapters/block_importer.rs\<close>) and build one small chain, with codecs of
  fixed width and a VM whose programs do nothing, on which the results are applied.
\<close>

section \<open>The ledger of a validated block\<close>

text \<open>Every coin comes from a processed transaction, or from a transaction identifier that no transaction has: the coins of
  the genesis block.\<close>

definition coin_origin :: "'s executor_env \<Rightarrow> coin_view \<Rightarrow> (bytes32 \<Rightarrow> unit option storage_result) \<Rightarrow> bool" where
  "coin_origin E L P = (\<forall>u. L u \<noteq> Inr None \<longrightarrow> P (utxo_tx_id u) \<noteq> Inr None \<or> utxo_tx_id u \<notin> range (chain_tx_id E))"

lemma check_transactions_match_nth:
  "check_transactions_match E (zip xs ys) = Inr () \<Longrightarrow> i < length xs \<Longrightarrow> i < length ys \<Longrightarrow> xs ! i = ys ! i"
proof (induction xs arbitrary: ys i)
  case (Cons x xs)
  then show ?case by (cases ys; cases i) (auto split: if_splits)
qed simp

context faithful_executor
begin

lemma validate_txs_length:
  "validate_txs E gp cb ts b = (b', Inr ()) \<Longrightarrow> block_inv E st hdr b \<Longrightarrow> length (run_txs b') = length (run_txs b) + length ts"
proof (induction ts arbitrary: b)
  case (Cons t ts)
  from Cons.prems obtain b1 where 1: "execute_transaction_and_commit E (UncheckedTransaction t) gp cb b = (b1, Inr ())"
    and 2: "validate_txs E gp cb ts b1 = (b', Inr ())" by (auto elim!: and_then_InrE)
  have v: "valid_tx E (UncheckedTransaction t)" by (simp add: valid_tx_def)
  have s: "sound_store (br_store b)" using Cons.prems(2) by (simp add: block_inv_def Let_def)
  have "length (run_txs b1) = Suc (length (run_txs b))"
    by (rule execute_and_commit[OF 1 s v]) (auto simp: included_def Let_def run_txs_def push_transaction_def)
  with Cons.IH[OF 2 block_inv_step[OF block_step.exec[OF v 1] Cons.prems(2)]] show ?case by simp
qed simp

text \<open>Neither the transactions of the layer one nor those of a block that is validated are skipped.\<close>

lemma commit_keeps_skipped:
  assumes "execute_transaction_and_commit E tx gp cb b = (b', r)" "sound_store (br_store b)" "valid_tx E tx"
    and "r = Inr () \<or> maybe_checked_tx tx = Chargeable kind x"
  shows "ed_skipped (br_data b') = ed_skipped (br_data b)"
  using assms(1,2,3)
proof (cases rule: execute_and_commit)
  case (committed t d)
  then show ?thesis by (auto simp: data_step_def)
next
  case (rejected e)
  with assms(4) show ?thesis using failed_data_fields(6) by auto
qed

lemma validate_txs_keeps_skipped:
  "validate_txs E gp cb ts b = (b', Inr ()) \<Longrightarrow> block_inv E st hdr b \<Longrightarrow> ed_skipped (br_data b') = ed_skipped (br_data b)"
proof (induction ts arbitrary: b)
  case (Cons t ts)
  from Cons.prems obtain b1 where 1: "execute_transaction_and_commit E (UncheckedTransaction t) gp cb b = (b1, Inr ())"
    and 2: "validate_txs E gp cb ts b1 = (b', Inr ())" by (auto elim!: and_then_InrE)
  have v: "valid_tx E (UncheckedTransaction t)" by (simp add: valid_tx_def)
  have s: "sound_store (br_store b)" using Cons.prems(2) by (simp add: block_inv_def Let_def)
  from Cons.IH[OF 2 block_inv_step[OF block_step.exec[OF v 1] Cons.prems(2)]] commit_keeps_skipped[OF 1 s v]
  show ?case by simp
qed simp


lemma process_event_keeps_skipped:
  "process_event E h da_h ev p b = (b', r) \<Longrightarrow> ed_skipped (br_data b') = ed_skipped (br_data b)"
  by (auto simp: process_event_def Let_def push_block_event_def push_event_def
      split: relayer_event.splits if_splits prod.splits sum.splits)

lemma process_events_keeps_skipped:
  "process_events E h da_h evs p b = (b', Inr p') \<Longrightarrow> ed_skipped (br_data b') = ed_skipped (br_data b)"
  by (induction evs arbitrary: p b) (fastforce elim!: and_then_InrE dest: process_event_keeps_skipped)+

lemma process_da_heights_keeps_skipped:
  "process_da_heights E h hs p b = (b', Inr p') \<Longrightarrow> ed_skipped (br_data b') = ed_skipped (br_data b)"
  by (induction hs arbitrary: p b) (fastforce elim!: and_then_InrE dest: process_events_keeps_skipped)+

lemma process_relayed_keeps_skipped:
  "forced_ok E cs \<Longrightarrow> block_inv E st hdr b \<Longrightarrow> ed_skipped (br_data (process_relayed_txs E cb cs b)) = ed_skipped (br_data b)"
proof (induction cs arbitrary: b)
  case (Cons c cs)
  let ?tx = "CheckedTransaction c (consensus_parameters_version (p_application (p_header (br_block b))))"
  obtain b1 r where run: "execute_transaction_and_commit E ?tx RELAYED_GAS_PRICE cb b = (b1, r)" by fastforce
  obtain kind x where v: "valid_tx E ?tx" "maybe_checked_tx ?tx = Chargeable kind x" "forced_ok E cs"
    using Cons.prems(1) by (fastforce simp: forced_ok_def valid_tx_def)
  have s: "sound_store (br_store b)" using Cons.prems(2) by (simp add: block_inv_def Let_def)
  note keep = commit_keeps_skipped[OF run s v(1)]
  show ?case
  proof (cases r)
    case (Inl e)
    note f = block_step.forced[OF v(1,2) run[unfolded Inl]]
    show ?thesis
      using run Inl keep v(2) Cons.IH[OF v(3) block_inv_step[OF f Cons.prems(2)]]
      by (simp add: Let_def, simp add: push_block_event_def push_event_def)
  next
    case (Inr u)
    then have "execute_transaction_and_commit E ?tx RELAYED_GAS_PRICE cb b = (b1, Inr ())" using run by simp
    from block_inv_step[OF block_step.exec[OF v(1) this] Cons.prems(2)] Cons.IH[OF v(3)] keep run Inr v(2)
    show ?thesis by (simp add: Let_def)
  qed
qed simp

lemma process_l1_keeps_skipped:
  assumes "process_l1_txs E cb b = (b', Inr ())" "block_inv E st hdr b"
  shows "ed_skipped (br_data b') = ed_skipped (br_data b)"
proof -
  obtain h da_h b1 cs where g: "get_relayed_txs E h da_h b = (b1, Inr cs)" and b': "b' = process_relayed_txs E cb cs b1"
    using assms(1) by (auto simp: process_l1_txs_def Let_def elim!: and_then_InrE)
  have "ed_skipped (br_data b1) = ed_skipped (br_data b)"
    using g by (auto simp: get_relayed_txs_def process_da_def elim!: and_then_InrE dest: process_da_heights_keeps_skipped
        split: if_splits)
  moreover note get_relayed_steps[OF g]
  ultimately show ?thesis
    using process_relayed_keeps_skipped[of cs st hdr b1 cb] block_inv_steps[of b b1 st hdr] assms(2) b' by simp
qed

text \<open>Validation generates exactly the transactions of the block, the last of which is the mint transaction.\<close>

lemma validate_block_run:
  assumes "validate_block E blk st = Inr d" "sound_store st"
  obtains b where "block_inv E st (partial_of_header (blk_header blk)) b"
    "books E (leaked (br_data b)) (run_txs b) (br_data b)" "run_txs b = blk_transactions blk"
    "d = (br_data b)\<lparr>ed_changes := changes (br_store b)\<rparr>" "ed_skipped d = []"
    "header_generate (ex_lib E) (partial_of_header (blk_header blk)) (run_txs b) (ed_message_ids d) (ed_event_inbox_root d) =
       Inr (blk_header blk)"
proof -
  let ?hdr = "partial_of_header (blk_header blk)" and ?old = "blk_transactions blk"
  from assms(1) obtain gp cb where info: "get_coinbase_info_from_mint_tx ?old = Inr (gp, cb)"
    by (auto simp: validate_block_def res_then_eq_Inr)
  obtain b1 r1 where l1: "process_l1_txs E cb (block_run_new ?hdr st) = (b1, r1)" by fastforce
  obtain b r2 where l2: "validate_txs E gp cb (drop (length (p_transactions (br_block b1))) ?old) b1 = (b, r2)" by fastforce
  have r1: "r1 = Inr ()" using assms(1) info l1 by (cases r1) (simp_all add: validate_block_def)
  have r2: "r2 = Inr ()" using assms(1) info l1 l2 r1 by (cases r2) (simp_all add: validate_block_def)
  note 1 = l1[unfolded r1] and 2 = l2[unfolded r2]
  from assms(1) info 1 2 have match: "check_block_matches E (br_block b) blk (br_data b) = Inr ()" and d: "d = snd (finish_run b)"
    by (auto simp: validate_block_def res_then_eq_Inr)
  note s1 = process_l1_steps[OF 1] and s2 = validate_txs_steps[OF 2]
  have b0: "block_inv E st ?hdr (block_run_new ?hdr st)" by (rule block_inv_new[OF assms(2)])
  have bi1: "block_inv E st ?hdr b1" by (rule block_inv_steps[OF s1 b0])
  have bi: "block_inv E st ?hdr b" by (rule block_inv_steps[OF s2 bi1])
  have bk: "books E (leaked (br_data b)) (run_txs b) (br_data b)"
    by (rule books_steps[OF block_steps_trans[OF s1 s2] b0])
      (simp add: block_run_new_def run_txs_def books_def execution_data_new_def)
  have len: "length ?old \<le> length (run_txs b)" using validate_txs_length[OF 2 bi1] by (simp add: run_txs_def)
  have eq: "run_txs b ! i = ?old ! i" if "i < length ?old" for i
    using match check_transactions_match_nth[of E "run_txs b" ?old i] that len
    by (auto simp: check_block_matches_def res_then_eq_Inr run_txs_def)
  have ne: "?old \<noteq> []" and mint: "is_mint (List.last ?old)"
    using info by (auto simp: get_coinbase_info_from_mint_tx_def split: if_splits transaction.splits)
  have "length ?old = length (run_txs b)"
  proof (rule ccontr)
    assume "length ?old \<noteq> length (run_txs b)"
    with len ne have i: "length ?old - 1 < length (butlast (run_txs b))" by (cases ?old) auto
    then have "butlast (run_txs b) ! (length ?old - 1) = List.last ?old"
      using eq[of "length ?old - 1"] ne by (simp add: nth_butlast last_conv_nth)
    with i mint bk show False unfolding books_def by (metis nth_mem)
  qed
  then have old: "run_txs b = ?old" using eq by (intro nth_equalityI) auto
  have hdr: "p_header (br_block b) = ?hdr" using bi by (simp add: block_inv_def Let_def)
  have "header_generate (ex_lib E) ?hdr (run_txs b) (ed_message_ids d) (ed_event_inbox_root d) = Inr (blk_header blk)"
    using match d unfolding check_block_matches_def
    by (auto simp: res_then_eq_Inr finish_run_def partial_block_generate_def block_new_iff hdr run_txs_def map_err_def
        split: sum.splits if_splits)
  moreover have "ed_skipped d = []"
    using process_l1_keeps_skipped[OF 1 b0] validate_txs_keeps_skipped[OF 2 bi1] d
    by (simp add: finish_run_def block_run_new_def execution_data_new_def)
  ultimately show ?thesis using that[OF bi bk old] d by (simp add: finish_run_def)
qed

lemma origin_after:
  assumes "coin_origin E (block_coins E st) (block_processed E st)" "block_inv E st hdr b"
  shows "coin_origin E (block_coins E (br_store b)) (block_processed E (br_store b))"
proof -
  have "ledger_of E h i ts L u \<noteq> Inr None \<Longrightarrow> L u \<noteq> Inr None \<or> utxo_tx_id u \<in> chain_tx_id E ` set ts" for h i ts L u
  proof (induction ts arbitrary: i L)
    case (Cons t ts)
    then show ?case
      using tx_ledger_other[of u "chain_tx_id E t" h "tx_index i" t L] by (fastforce split: if_splits)
  qed simp
  then have "block_coins E st u \<noteq> Inr None \<or> utxo_tx_id u \<in> chain_tx_id E ` set (run_txs b)"
    if "block_coins E (br_store b) u \<noteq> Inr None" for u
    using assms(2) that unfolding block_inv_def Let_def by metis
  then show ?thesis
    using assms unfolding coin_origin_def block_inv_def Let_def by (metis option.distinct(1) sum.inject(2))
qed

end

section \<open>An executor to apply the results to\<close>

text \<open>Codecs with fields of fixed width, a VM whose programs do nothing, and a store with the consensus parameters and one
  coin.\<close>

fun coin_to_bytes :: "compressed_coin \<Rightarrow> bytes" where
  "coin_to_bytes (CoinV1 c) =
     word_bytes (cc_owner c) @ word_bytes (cc_amount c) @ word_bytes (cc_asset_id c)
     @ word_bytes (pointer_height (cc_tx_pointer c)) @ word_bytes (pointer_index (cc_tx_pointer c))"

definition coin_from_bytes :: "bytes \<Rightarrow> compressed_coin option" where
  "coin_from_bytes bs =
     Some (CoinV1 \<lparr>cc_owner = word_of_bytes (take 32 bs), cc_amount = word_of_bytes (take 8 (drop 32 bs)),
       cc_asset_id = word_of_bytes (take 32 (drop 40 bs)),
       cc_tx_pointer = \<lparr>pointer_height = word_of_bytes (take 4 (drop 72 bs)), pointer_index = word_of_bytes (drop 76 bs)\<rparr>\<rparr>)"

fun message_to_bytes :: "message \<Rightarrow> bytes" where
  "message_to_bytes (MessageV1 m) =
     word_bytes (sender m) @ word_bytes (recipient m) @ word_bytes (nonce m) @ word_bytes (message_amount m)
     @ word_bytes (message_da_height m) @ message_data m"

definition message_from_bytes :: "bytes \<Rightarrow> message option" where
  "message_from_bytes bs =
     Some (MessageV1 \<lparr>sender = word_of_bytes (take 32 bs), recipient = word_of_bytes (take 32 (drop 32 bs)),
       nonce = word_of_bytes (take 32 (drop 64 bs)), message_amount = word_of_bytes (take 8 (drop 96 bs)),
       message_data = drop 112 bs, message_da_height = word_of_bytes (take 8 (drop 104 bs))\<rparr>)"

fun info_to_bytes :: "contract_utxo_info \<Rightarrow> bytes" where
  "info_to_bytes (ContractUtxoInfoV1 i) =
     word_bytes (utxo_tx_id (info_utxo_id i)) @ word_bytes (output_index (info_utxo_id i))
     @ word_bytes (pointer_height (info_tx_pointer i)) @ word_bytes (pointer_index (info_tx_pointer i))"

definition info_from_bytes :: "bytes \<Rightarrow> contract_utxo_info option" where
  "info_from_bytes bs =
     Some (ContractUtxoInfoV1 \<lparr>info_utxo_id = \<lparr>utxo_tx_id = word_of_bytes (take 32 bs), output_index = word_of_bytes (take 2 (drop 32 bs))\<rparr>,
       info_tx_pointer = \<lparr>pointer_height = word_of_bytes (take 4 (drop 34 bs)), pointer_index = word_of_bytes (drop 38 bs)\<rparr>\<rparr>)"

definition params_to_bytes :: "consensus_parameters \<Rightarrow> bytes" where
  "params_to_bytes p =
     word_bytes (block_gas_limit p) @ word_bytes (block_transaction_size_limit p) @ word_bytes (params_chain_id p)
     @ word_bytes (base_asset_id p) @ params_rest p"

definition params_from_bytes :: "bytes \<Rightarrow> consensus_parameters option" where
  "params_from_bytes bs =
     Some \<lparr>block_gas_limit = word_of_bytes (take 8 bs), block_transaction_size_limit = word_of_bytes (take 8 (drop 8 bs)),
       params_chain_id = word_of_bytes (take 8 (drop 16 bs)), base_asset_id = word_of_bytes (take 32 (drop 24 bs)),
       params_rest = drop 56 bs\<rparr>"

definition fixed_codecs :: exec_codecs where
  "fixed_codecs = \<lparr>coin_codec = (coin_to_bytes, coin_from_bytes), message_codec = (message_to_bytes, message_from_bytes),
     utxo_info_codec = (info_to_bytes, info_from_bytes), unit_codec = (\<lambda>_. [], \<lambda>_. Some ()),
     header_codec = (\<lambda>_. [], \<lambda>_. None), params_codec = (params_to_bytes, params_from_bytes)\<rparr>"

definition idle_tx_id :: "u64 \<Rightarrow> transaction \<Rightarrow> bytes32" where
  "idle_tx_id chain t =
     (case t of Chargeable _ tx \<Rightarrow> 1 + of_nat (bytes_value (tx_body tx)) | Mint m \<Rightarrow> 0)"

definition idle_lib :: "transaction fuel_lib" where
  "idle_lib = \<lparr>hasher_digest = (\<lambda>bs. of_nat (length bs)), merkle_root = (\<lambda>ls. of_nat (length ls)),
     tx_to_bytes = (\<lambda>t. []), tx_id = idle_tx_id, UNIX_EPOCH = 0\<rparr>"

definition idle_check :: "consensus_parameters \<Rightarrow> transaction \<Rightarrow> checked" where
  "idle_check p t = \<lparr>checked_tx = t, checked_id = idle_tx_id (params_chain_id p) t, checked_max_gas = 10, checked_rest = []\<rparr>"

definition idle_result :: "checked \<Rightarrow> (string, vm_result) result" where
  "idle_result c =
     (case blank (checked_tx c) of
        Chargeable _ tx \<Rightarrow> Inr \<lparr>should_revert = False, vm_state = [], vm_tx = tx, vm_receipts = [ScriptResult 4],
          missing_contract_inputs = []\<rparr>
      | Mint _ \<Rightarrow> Inl ''not executable'')"

definition idle_vm :: vm_lib where
  "idle_vm = \<lparr>into_checked_basic = (\<lambda>p h t. Inr (idle_check p t)),
     into_checked_reusable_memory = (\<lambda>p h m t. Inr (idle_check p t)),
     check_predicates = (\<lambda>p b m c. Inr c), check_signatures = (\<lambda>i c. Inr c), into_ready = (\<lambda>p g h c. Inr c),
     transact = (\<lambda>env m c. \<lparr>vm_accesses = [], vm_changes = [], vm_outcome = idle_result c\<rparr>),
     balance_increase = (\<lambda>env m i a n. \<lparr>vm_accesses = [], vm_changes = [], vm_outcome = Inr ()\<rparr>),
     tx_max_gas = (\<lambda>p tx. 10), tx_min_gas = (\<lambda>p tx. 6), tx_max_fee_limit = (\<lambda>tx. 5),
     tx_refund_fee = (\<lambda>p tx used gp. Some 2), metered_bytes_size = (\<lambda>tx. 100), tx_expiration = (\<lambda>tx. u_max),
     transaction_from_bytes = (\<lambda>bs. None), compute_message_id = (\<lambda>s r n a d. n), sha256 = (\<lambda>bs. of_nat (length bs))\<rparr>"

definition idle_params :: consensus_parameters where
  "idle_params = \<lparr>block_gas_limit = 100, block_transaction_size_limit = 1000, params_chain_id = 0, base_asset_id = 0, params_rest = []\<rparr>"

definition idle_env :: "bool \<Rightarrow> memory_store executor_env" where
  "idle_env checks_coins = \<lparr>ex_kv = memory_kv, ex_lib = idle_lib, ex_vm = idle_vm, ex_codecs = fixed_codecs,
     consensus_params = idle_params, forbid_fake_coins = checks_coins, allow_syscall = False, dry_run = False,
     relayer_enabled = False, get_events = (\<lambda>_. Inr [])\<rparr>"

lemma coin_codec_decode: "coin_from_bytes (coin_to_bytes c) = Some c"
proof (cases c)
  case (CoinV1 v)
  then show ?thesis by (cases v) (simp add: coin_from_bytes_def word_of_bytes_word_bytes)
qed

lemma message_codec_decode: "message_from_bytes (message_to_bytes m) = Some m"
proof (cases m)
  case (MessageV1 v)
  then show ?thesis by (cases v) (simp add: message_from_bytes_def word_of_bytes_word_bytes)
qed

lemma info_codec_decode: "info_from_bytes (info_to_bytes i) = Some i"
proof (cases i)
  case (ContractUtxoInfoV1 v)
  then show ?thesis by (cases v) (simp add: info_from_bytes_def word_of_bytes_word_bytes)
qed

lemma params_codec_decode: "params_from_bytes (params_to_bytes p) = Some p"
  by (cases p) (simp add: params_from_bytes_def params_to_bytes_def word_of_bytes_word_bytes)

lemmas fixed_codecs_decode = coin_codec_decode message_codec_decode info_codec_decode params_codec_decode

lemma fixed_tables:
  "lawful_table (Coins fixed_codecs) id" "lawful_table (Messages fixed_codecs) id"
  "lawful_table (ContractsLatestUtxo fixed_codecs) id" "lawful_table (ProcessedTransactions fixed_codecs) id"
  by (unfold_locales;
      simp add: exec_tables fixed_codecs_def fixed_codecs_decode word_bytes_inj_iff utxo_id_to_bytes_def)+

lemma idle_result_blank: "blank (checked_tx c) = blank (checked_tx c') \<Longrightarrow> idle_result c = idle_result c'"
  by (simp add: idle_result_def)

lemma idle_result_erase:
  "idle_result c = Inr r \<Longrightarrow> checked_tx c = Chargeable kind tx \<Longrightarrow> erase_chargeable (vm_tx r) = erase_chargeable tx"
  using erase_blank[of "Chargeable kind tx"] by (auto simp: idle_result_def simp del: erase_blank)

lemma idle_id_erase: "erase t = erase t' \<Longrightarrow> idle_tx_id i t = idle_tx_id i t'"
  by (cases t; cases t') (auto simp: idle_tx_id_def erase_chargeable_def dest: arg_cong[of _ _ tx_body])

lemma idle_env_fields [simp]:
  "ex_kv (idle_env checks_coins) = memory_kv" "ex_lib (idle_env checks_coins) = idle_lib"
  "ex_vm (idle_env checks_coins) = idle_vm" "ex_codecs (idle_env checks_coins) = fixed_codecs"
  by (simp_all add: idle_env_def)

lemma idle_vm_fields [simp]:
  "into_checked_basic idle_vm p h t = Inr (idle_check p t)" "into_checked_reusable_memory idle_vm p h m t = Inr (idle_check p t)"
  "check_predicates idle_vm p b m c = Inr c" "check_signatures idle_vm i c = Inr c" "into_ready idle_vm p g h c = Inr c"
  "transact idle_vm env m c = \<lparr>vm_accesses = [], vm_changes = [], vm_outcome = idle_result c\<rparr>"
  "balance_increase idle_vm env m contract asset n = \<lparr>vm_accesses = [], vm_changes = [], vm_outcome = Inr ()\<rparr>"
  "tx_min_gas idle_vm p tx = 6" "tx_max_gas idle_vm p tx = 10" "tx_max_fee_limit idle_vm tx = 5" "tx_refund_fee idle_vm p tx used gp = Some 2"
  "metered_bytes_size idle_vm tx = 100" "tx_expiration idle_vm tx = u_max"
  "tx_id idle_lib = idle_tx_id" "checked_tx (idle_check p t) = t" "checked_id (idle_check p t) = idle_tx_id (params_chain_id p) t"
  by (simp_all add: idle_vm_def idle_lib_def idle_check_def)

interpretation idle: replayable_executor "(idle_env checks_coins)\<lparr>consensus_params := p, dry_run := False\<rparr>" for checks_coins p
proof (intro replayable_executor.intro faithful_executor.intro lawful_executor.intro faithful_executor_axioms.intro
    replayable_executor_axioms.intro, goal_cases)
  case 1
  then show ?case by (simp add: memory.kv_inspect_laws_axioms)
next
  case (12 pa g h c ready kind tx env m r)
  then show ?case by (auto intro: idle_result_erase)
next
  case (13 t t' i)
  then show ?case by (simp add: idle_id_erase[OF 13])
next
  case (17 c c' pa g h r)
  then show ?case by (auto dest: idle_result_blank)
qed (simp_all add: fixed_tables vm_frame_def changes_ok_def columns_def)

definition idle_coin :: utxo_id where
  "idle_coin = \<lparr>utxo_tx_id = 1, output_index = 0\<rparr>"

definition nine_units :: compressed_coin where
  "nine_units = CoinV1 \<lparr>cc_owner = 3, cc_amount = 9, cc_asset_id = 0, cc_tx_pointer = default_pointer\<rparr>"

text \<open>A store with a block at height 0, the parameters of version 0, one processed transaction, the coin of 9 units that it
  created and a contract for the fees.\<close>

definition idle_db :: memory_store where
  "idle_db = \<lparr>inner = (map (\<lambda>_. []) [0 ..< 22])
     [unat ConsensusParametersVersions_column := [(primitive_encode (0 :: u32), params_to_bytes idle_params)],
      unat ProcessedTransactions_column := [(word_bytes (1 :: bytes32), [])],
      unat ContractsLatestUtxo_column := [(word_bytes (9 :: bytes32), info_to_bytes default_utxo_info)],
      unat FuelBlocks_column := [(primitive_encode (0 :: block_height), [])],
      unat Metadata_column := [([], encode_ref_db_metadata (MetadataV1 0 0))],
      unat Coins_column := [(utxo_id_to_bytes idle_coin, coin_to_bytes nine_units)]]\<rparr>"

definition idle_transfer :: transaction where
  "idle_transfer = Chargeable Script
     \<lparr>tx_inputs = [CoinSigned \<lparr>in_utxo_id = idle_coin, in_owner = 3, in_amount = 9, in_asset_id = 0,
        in_tx_pointer = default_pointer, in_coin_predicate_gas = 0, in_coin_rest = []\<rparr>],
      tx_outputs = [CoinOutput \<lparr>out_to = 4, out_amount = 4, out_asset_id = 0\<rparr>], tx_body = [7]\<rparr>"

definition idle_components :: components where
  "idle_components = \<lparr>header_to_produce = \<lparr>p_application = \<lparr>da_height = 0, consensus_parameters_version = 0,
       state_transition_bytecode_version = 0, app_generated = ()\<rparr>,
     p_consensus = \<lparr>prev_root = 0, height = 1, time = 0, con_generated = ()\<rparr>\<rparr>,
     coinbase_recipient = 9, component_gas_price = 1\<rparr>"

definition idle_start :: "memory_store in_memory_transaction" where
  "idle_start = \<lparr>changes = [], policy = Overwrite, storage = idle_db\<rparr>"

lemma idle_db_get:
  "memory_get idle_db k ConsensusParametersVersions_column =
     Inr (if k = primitive_encode (0 :: u32) then Some (params_to_bytes idle_params) else None)"
  "memory_get idle_db k ProcessedTransactions_column = Inr (if k = word_bytes (1 :: bytes32) then Some [] else None)"
  "memory_get idle_db k Coins_column = Inr (if k = utxo_id_to_bytes idle_coin then Some (coin_to_bytes nine_units) else None)"
  "memory_get idle_db k ContractsLatestUtxo_column =
     Inr (if k = word_bytes (9 :: bytes32) then Some (info_to_bytes default_utxo_info) else None)"
  by (simp_all add: memory_get_def table_def idle_db_def exec_columns column_defs)

definition idle :: "bool \<Rightarrow> memory_store executor_env" where
  "idle checks = (idle_env checks)\<lparr>consensus_params := idle_params, dry_run := False\<rparr>"

lemma idle_fields [simp]:
  "ex_kv (idle checks) = memory_kv" "ex_lib (idle checks) = idle_lib" "ex_vm (idle checks) = idle_vm"
  "ex_codecs (idle checks) = fixed_codecs" "consensus_params (idle checks) = idle_params"
  "forbid_fake_coins (idle checks) = checks" "\<not> dry_run (idle checks)" "\<not> relayer_enabled (idle checks)"
  "block_gas_limit idle_params = 100" "block_transaction_size_limit idle_params = 1000" "base_asset_id idle_params = 0"
  by (simp_all add: idle_def idle_env_def idle_params_def)

lemma idle_into: "into_executor (idle_env checks) idle_db 0 False = Inr (idle checks, idle_start)"
  by (simp add: into_executor_def plain_get_def tx_get_def get_from_changes_def changes_at_def memory_kv_def kv_default_def
      with_policy_def transaction_def idle_db_get ConsensusParametersVersions_def fixed_codecs_def fixed_codecs_decode
      idle_start_def Let_def ok_or_def idle_def)

lemma append_less: "length a = length b \<Longrightarrow> a @ c < b @ d \<longleftrightarrow> a < b \<or> a = b \<and> c < d" for a :: "bytes"
  by (induction a b rule: list_induct2) auto

lemma memory_kv_simps:
  "kv_get memory_kv = memory_get"
  "kv_exists memory_kv s k c = (case memory_get s k c of Inl e \<Rightarrow> Inl e | Inr v \<Rightarrow> Inr (v \<noteq> None))"
  by (auto simp: memory_kv_def kv_default_def default_exists_def default_size_of_value_def split: sum.splits option.splits)

lemma idle_column_neq:
  "Coins_column \<noteq> ProcessedTransactions_column" "ProcessedTransactions_column \<noteq> Coins_column"
  "ContractsLatestUtxo_column \<noteq> Coins_column" "ContractsLatestUtxo_column \<noteq> ProcessedTransactions_column"
  "Coins_column \<noteq> ContractsLatestUtxo_column" "ProcessedTransactions_column \<noteq> ContractsLatestUtxo_column"
  by (simp_all add: exec_columns)

lemma tx_kv_exists: "kv_exists (tx_kv S) = tx_exists S"
  by (simp add: tx_kv_def)

lemmas exec_eval = execute_transaction_def check_mint_is_not_found_def execution_data_new_def check_tx_is_not_duplicate_def contains_key_def
     tx_exists_def tx_level_def tx_kv_exists tx_get_def get_from_changes_def changes_at_def memory_kv_simps idle_db_get
     convert_maybe_checked_tx_to_checked_tx_def execute_chargeable_transaction_def Let_def extra_tx_checks_def verify_input_def verify_coin_def plain_get_def 
     Coins_def ProcessedTransactions_def fixed_codecs_def fixed_codecs_decode ok_or_def chargeable_of_def attempt_tx_execution_with_vm_def idle_result_def
     vm_reverted_def finalize_def recorded_def compute_input_def get_coin_or_default_def commit_unless_reverted_def on_store_def
     tx_commit_changes_def all_receipts_def spend_input_def spend_coin_def plain_take_def swap_op_eq persist_output_utxos_def persist_output_def insert_coin_def
     plain_replace_def push_def push_event_def plain_put_def tx_put_def on_data_def update_execution_data_def total_fee_paid_def used_bytes_def
     tx_take_def tx_replace_def insert_op_def hm_insert_def hm_get_or_def idle_column_neq checked_add_def checked_sub_def

lemma max_tx_count_eq: "max_tx_count = 65534"
  by (simp add: max_tx_count_def sat_sub_def u_max_def)

lemmas block_eval = produce_without_commit_def execute_def produce_block_def process_l1_txs_def get_relayed_txs_def block_run_new_def
  process_l2_txs.simps produce_rounds.simps next_batch_def once_source_def once_next_def remaining_tx_count_def max_tx_count_eq remaining_gas_limit_def remaining_size_limit_def
  execute_transaction_and_commit_def maybe_checked_id_def maybe_checked_max_gas_def with_policy_def write_transaction_def transaction_def tx_commit_def push_transaction_def
  produce_mint_tx_def coinbase_mint_def execute_mint_def check_mint_has_expected_index_def check_gas_price_def verify_mint_for_empty_contract_def check_mint_amount_def execute_mint_with_vm_def validated_utxo_def ContractsLatestUtxo_def insert_contract_utxo_def nth_contract_def the_contract_input_def the_contract_output_def compute_balances_hash_def compute_state_hash_def bt_get_or_def no_values_def default_utxo_info_def zero_contract_input_def zero_contract_output_def
  store_mint_tx_def finish_run_def partial_block_generate_def block_new_def idle_tx_id_def
  convert_tx_execution_result_to_preconfirmation_def

section \<open>Termination of production\<close>

text \<open>Each round of the loop over a fixed list takes at least one transaction of it, or is the last one.\<close>

lemma once_batch:
  assumes "next_batch E once_source txs b = (txs', batch)"
  shows "length txs = length batch + length txs'"
proof -
  let ?n = "unat (remaining_tx_count b)"
  have "txs' = drop (min ?n (length txs)) txs" "batch = take ?n (take (min ?n (length txs)) txs)"
    using assms by (auto simp: next_batch_def once_source_def once_next_def Let_def)
  then show ?thesis by simp
qed

lemma process_l2_once:
  "length txs < n \<Longrightarrow> \<exists>r. \<forall>k. process_l2_txs (n + k) E once_source gp cb txs statuses b = Some r"
proof (induction n arbitrary: txs statuses b)
  case (Suc n)
  obtain txs' batch where nb: "next_batch E once_source txs b = (txs', batch)" by fastforce
  note len = once_batch[OF nb]
  show ?case
  proof (cases batch)
    case Nil
    with nb show ?thesis by simp
  next
    case (Cons tx rest)
    obtain b' x where p: "process_batch E gp cb batch statuses b = (b', x)" by fastforce
    have "length txs' < n" using Suc.prems len Cons by simp
    then have "\<exists>r. \<forall>k. process_l2_txs (n + k) E once_source gp cb txs' st b' = Some r" for st by (rule Suc.IH)
    with nb p Cons show ?thesis by (cases x) (simp_all del: process_batch.simps)
  qed
qed simp

lemma produce_rounds_once:
  assumes "length txs + 1 < n"
  shows "\<exists>r. \<forall>k. produce_rounds (n + k) E once_source C txs statuses b = Some r"
proof -
  obtain m where n: "n = Suc m" "length txs < m" using assms by (cases n) auto
  obtain q b' x where "\<forall>k. process_l2_txs (m + k) E once_source (component_gas_price C) (coinbase_recipient C) txs statuses b = Some (q, (b', x))"
    using process_l2_once[OF n(2)] by (metis prod_cases3)
  then show ?thesis unfolding n(1) by (cases x) (simp_all add: once_source_def)
qed

text \<open>C16. Production over a fixed list of transactions terminates.  The two nested loops of block production, which ask
  the source for transactions until it has none and then wait for new ones, end after at most one round more than
  the list has transactions, whatever the transactions, the store and the outcome of their execution are; more
  iterations do not change the result.\<close>

theorem production_terminates:
  "\<exists>r. \<forall>k. produce_block (length txs + 2 + k) E once_source txs C st = Some r"
proof -
  obtain b x where l1: "process_l1_txs E (coinbase_recipient C) (block_run_new (header_to_produce C) st) = (b, x)" by fastforce
  obtain r where "\<forall>k. produce_rounds (length txs + 2 + k) E once_source C txs [] b = Some r"
    using produce_rounds_once[of txs "length txs + 2" E C "[]" b] by auto
  with l1 show ?thesis
    by (cases x; cases r; cases "snd (snd r)"; cases "produce_mint_tx E C (fst (snd r))"; cases "snd (produce_mint_tx E C (fst (snd r)))")
      (auto simp: produce_block_def)
qed

section \<open>What is produced is valid\<close>

definition version_of :: "transaction block \<Rightarrow> u32" where
  "version_of blk = consensus_parameters_version (hdr_application (blk_header blk))"

lemma into_executor_store:
  "into_executor E database v dry = Inr (X, st) \<Longrightarrow>
   st = \<lparr>changes = [], policy = Overwrite, storage = database\<rparr> \<and> (\<exists>p. X = E\<lparr>consensus_params := p, dry_run := dry\<rparr>)"
  by (auto simp: into_executor_def Let_def res_then_eq_Inr with_policy_def transaction_def)

lemma fresh_sound: "sound_store \<lparr>changes = [], policy = Overwrite, storage = database\<rparr>"
  by (simp add: sound_store_def tx_ok_def changes_ok_def)

lemma validate_without_commit_Inr:
  assumes "validate_without_commit E database blk = Inr (v, ch)" "into_executor E database (version_of blk) False = Inr (X, st)"
  obtains d where "validate_block X blk st = Inr d" "v = \<lparr>vr_tx_status = ed_tx_status d, vr_events = ed_events d\<rparr>"
    "ch = ed_changes d"
  using assms by (auto simp: validate_without_commit_def version_of_def res_then_eq_Inr)

lemma produce_then_validate:
  assumes "into_executor E database (consensus_parameters_version (p_application (header_to_produce C))) False = Inr (X, st)"
    and "replayable_executor X"
    and "source_gives (replayable_tx X (header_to_produce C)) Q I" "I q"
    and "produce_without_commit n E database Q q C False = Some (Inr (r, ch))"
    and "\<forall>(i, e)\<in>set (pr_skipped r). \<not> leaky e"
    and "\<forall>i h e. ForcedTransactionFailed i h (ExecutionFailure e) \<in> set (pr_events r) \<longrightarrow> \<not> leaky e"
  shows "\<exists>v. validate_without_commit E database (pr_block r) = Inr (v, ch) \<and> vr_tx_status v = pr_tx_status r"
proof -
  have X: "\<not> dry_run X" and st: "sound_store st" using into_executor_store[OF assms(1)] fresh_sound by auto
  from assms(1,5) X obtain partial d where p: "produce_block n X Q q C st = Some (Inr (partial, d))"
    and g: "partial_block_generate (ex_lib X) partial (ed_message_ids d) (ed_event_inbox_root d) = Inr (pr_block r)"
    and r: "pr_skipped r = ed_skipped d" "pr_tx_status r = ed_tx_status d" "pr_events r = ed_events d" "ch = ed_changes d"
    by (auto simp: produce_without_commit_def execute_def res_then_eq_Inr map_err_def split: option.splits sum.splits)
  have "\<not> leaked d" using assms(6,7) r by (auto simp: leaked_def)
  then obtain d' where d': "validate_block X (pr_block r) st = Inr d'" "ed_changes d' = ed_changes d" "ed_tx_status d' = ed_tx_status d"
    "partial_of_header (blk_header (pr_block r)) = header_to_produce C"
    using replayable_executor.produced_validates[OF assms(2) p st _ assms(3,4) g] by blast
  have "consensus_parameters_version (hdr_application (blk_header (pr_block r))) =
      consensus_parameters_version (p_application (header_to_produce C))"
    unfolding d'(4)[symmetric] by (simp add: partial_of_header_def)
  with assms(1) d' r show ?thesis by (simp add: validate_without_commit_def)
qed

text \<open>C3. What the executor produces, it validates.  Let a block be produced without a dry run from a source whose
  transactions pass the basic checks at the height of the block and, where they claim to be checked already, were checked
  by the library, and let no transaction have been dropped because the
  gas or the size counters of the block would overflow.  Then the validation of the produced block on the same
  database succeeds: it regenerates every transaction and the header of the block, and returns the very same changes
  of the database and the same transaction statuses, although production has dropped transactions and has run the
  others in the order of the source and validation starts from the finished block.\<close>

theorem produced_block_validates:
  assumes "into_executor E database (consensus_parameters_version (p_application (header_to_produce C))) False = Inr (X, st)"
    and "replayable_executor X"
    and "source_gives (replayable_tx X (header_to_produce C)) Q I" "I q"
    and "produce_without_commit n E database Q q C False = Some (Inr (r, ch))"
    and "\<forall>(i, e)\<in>set (pr_skipped r). \<not> leaky e"
    and "\<forall>i h e. ForcedTransactionFailed i h (ExecutionFailure e) \<in> set (pr_events r) \<longrightarrow> \<not> leaky e"
  shows "\<exists>v. validate_without_commit E database (pr_block r) = Inr (v, ch) \<and> vr_tx_status v = pr_tx_status r"
  by (rule produce_then_validate[OF assms])

section \<open>What validation accepts\<close>

text \<open>The effect of a list of transactions on the coins and on the processed transactions, from one store to another.\<close>

definition block_ledger ::
    "'s executor_env \<Rightarrow> block_height \<Rightarrow> transaction list \<Rightarrow> 's in_memory_transaction \<Rightarrow> 's in_memory_transaction \<Rightarrow> bool" where
  "block_ledger X h txs st st' =
     (let spent = concat (map spent_by txs); ids = map (chain_tx_id X) txs in
      block_coins X st' = ledger_of X h 0 txs (block_coins X st)
      \<and> distinct spent \<and> (\<forall>u\<in>set spent. (\<exists>c. block_coins X st u = Inr (Some c)) \<or> utxo_tx_id u \<in> set ids)
      \<and> distinct ids \<and> (\<forall>i\<in>set ids. block_processed X st i = Inr None \<and> block_processed X st' i = Inr (Some ()))
      \<and> coin_origin X (block_coins X st') (block_processed X st'))"

context faithful_executor
begin

lemma run_ledger:
  assumes "block_inv E st hdr b" "forbid_fake_coins E" "coin_origin E (block_coins E st) (block_processed E st)"
  shows "block_ledger E (height (p_consensus hdr)) (run_txs b) st (br_store b)"
proof -
  note inv = assms(1)[unfolded block_inv_def Let_def]
  have ok: "spends_ok E (height (p_consensus hdr)) 0 (run_txs b) (block_coins E st)" using inv assms(2) by blast
  have fresh: "utxo_tx_id u \<notin> chain_tx_id E ` set (run_txs b)" if "block_coins E st u \<noteq> Inr None" for u
    using assms(3) inv that unfolding coin_origin_def by (metis rangeI imageE)
  show ?thesis
    using inv spends_distinct[OF ok _ fresh] spends_origin[OF ok] origin_after[OF assms(3,1)]
    unfolding block_ledger_def Let_def by simp
qed

end

text \<open>The store of a validation and its changes.\<close>

lemma validated_store:
  assumes "into_executor E database (version_of blk) False = Inr (X, st)" "faithful_executor X"
    and "validate_without_commit E database blk = Inr (v, ch)"
  shows "changes_ok ch" "columns ch \<subseteq> tx_columns"
    "forbid_fake_coins E \<Longrightarrow> coin_origin X (block_coins X st) (block_processed X st) \<Longrightarrow>
      block_ledger X (hdr_height (blk_header blk)) (blk_transactions blk) st (st\<lparr>changes := ch\<rparr>)"
proof -
  have st: "st = \<lparr>changes = [], policy = Overwrite, storage = database\<rparr>" "sound_store st"
    "forbid_fake_coins E \<longrightarrow> forbid_fake_coins X"
    using into_executor_store[OF assms(1)] fresh_sound by auto
  obtain d where d: "validate_block X blk st = Inr d" "ch = ed_changes d"
    by (rule validate_without_commit_Inr[OF assms(3,1)])
  obtain b where b: "block_inv X st (partial_of_header (blk_header blk)) b" "run_txs b = blk_transactions blk"
    "d = (br_data b)\<lparr>ed_changes := changes (br_store b)\<rparr>"
    by (rule faithful_executor.validate_block_run[OF assms(2) d(1) st(2)])
  have eq: "br_store b = st\<lparr>changes := ch\<rparr>"
    using b(1,3) d(2) st(1) by (cases "br_store b") (auto simp: sound_store_def block_inv_def Let_def)
  show "changes_ok ch" "columns ch \<subseteq> tx_columns"
    using b(1) st(1) unfolding block_inv_def Let_def eq by (auto simp: sound_store_def tx_ok_def)
  have "height (p_consensus (partial_of_header (blk_header blk))) = hdr_height (blk_header blk)"
    by (simp add: partial_of_header_def hdr_height_def)
  with faithful_executor.run_ledger[OF assms(2) b(1)] st(3)
  show "forbid_fake_coins E \<Longrightarrow> coin_origin X (block_coins X st) (block_processed X st) \<Longrightarrow>
      block_ledger X (hdr_height (blk_header blk)) (blk_transactions blk) st (st\<lparr>changes := ch\<rparr>)"
    unfolding eq b(2) by simp
qed

text \<open>C5. The books of a block balance.  In every block that validation accepts the last transaction, and only it, is a
  mint transaction; the statuses are those of the transactions in their order; the header commits to the
  transactions and to the messages of their receipts, in this order; and the mint transaction pays out exactly
  the sum of the fees of the transactions, or nothing if the block names no contract.  (The sum is only
  guaranteed while no forced transaction failed on the overflow of a counter.)\<close>

theorem validated_block_books:
  assumes "into_executor E database (version_of blk) False = Inr (X, st)" "faithful_executor X"
    and "validate_without_commit E database blk = Inr (v, ch)"
    and "\<forall>i h e. ForcedTransactionFailed i h (ExecutionFailure e) \<in> set (vr_events v) \<longrightarrow> \<not> leaky e"
  shows "\<exists>ts m root. blk_transactions blk = ts @ [Mint m] \<and> (\<forall>t\<in>set ts. \<not> is_mint t)
    \<and> map status_id (vr_tx_status v) = map (chain_tx_id X) (blk_transactions blk)
    \<and> header_generate (ex_lib X) (partial_of_header (blk_header blk)) (blk_transactions blk)
        (concat (map outbox (vr_tx_status v))) root = Inr (blk_header blk)
    \<and> unat (mint_amount m) = (if ci_contract_id (mint_input m) = 0 then 0 else sum_list (map (unat \<circ> paid) (vr_tx_status v)))"
proof -
  have st: "sound_store st" using into_executor_store[OF assms(1)] fresh_sound by auto
  obtain d where d: "validate_block X blk st = Inr d" "v = \<lparr>vr_tx_status = ed_tx_status d, vr_events = ed_events d\<rparr>"
    by (rule validate_without_commit_Inr[OF assms(3,1)])
  obtain b where b: "books X (leaked (br_data b)) (run_txs b) (br_data b)" "run_txs b = blk_transactions blk"
    "d = (br_data b)\<lparr>ed_changes := changes (br_store b)\<rparr>" "ed_skipped d = []"
    "header_generate (ex_lib X) (partial_of_header (blk_header blk)) (run_txs b) (ed_message_ids d) (ed_event_inbox_root d) =
       Inr (blk_header blk)" "block_inv X st (partial_of_header (blk_header blk)) b"
    by (rule faithful_executor.validate_block_run[OF assms(2) d(1) st])
  have l: "\<not> leaked (br_data b)" using assms(4) d(2) b(3,4) by (auto simp: leaked_def)
  obtain gp cb where "get_coinbase_info_from_mint_tx (blk_transactions blk) = Inr (gp, cb)"
    using d(1) by (auto simp: validate_block_def res_then_eq_Inr)
  then obtain ts m where txs: "blk_transactions blk = ts @ [Mint m]"
    by (cases "blk_transactions blk" rule: rev_cases)
      (auto simp: get_coinbase_info_from_mint_tx_def split: transaction.splits)
  note books = b(1)[unfolded books_def b(2)]
  have "mint_amount m = fees_minted m (br_data b)" "unat (ed_coinbase (br_data b)) = sum_list (map (unat \<circ> paid) (ed_tx_status (br_data b)))"
    using books l txs by simp_all
  moreover have "\<forall>t\<in>set ts. \<not> is_mint t" using books txs by simp
  moreover have "ed_message_ids d = concat (map outbox (ed_tx_status d))" "map status_id (ed_tx_status d) = map (chain_tx_id X) (blk_transactions blk)"
    using books b(3) by simp_all
  ultimately show ?thesis
    using txs b(2,3,5) d(2) by (auto simp: fees_minted_def intro!: exI[of _ "ed_event_inbox_root d"])
qed

section \<open>One block\<close>

lemmas idle_eval = idle_into idle_start_def block_eval idle_transfer_def word_bytes_inj_iff exec_eval nine_units_def
  idle_components_def utxo_id_to_bytes_def idle_coin_def append_less word_bytes_less sat_sub_def

lemma idle_produced:
  "\<exists>r ch. produce_without_commit (Suc (Suc (Suc 0))) (idle_env True) idle_db once_source [UncheckedTransaction idle_transfer]
      idle_components False = Some (Inr (r, ch))
    \<and> pr_skipped r = [] \<and> length (pr_events r) = 2 \<and> ForcedTransactionFailed i h f \<notin> set (pr_events r)
    \<and> map paid (pr_tx_status r) = [3, 0]"
  by (simp add: idle_eval header_generate_def paid_def del: coin_to_bytes.simps info_to_bytes.simps)

definition idle_mint :: mint where
  "idle_mint = \<lparr>mint_tx_pointer = \<lparr>pointer_height = 1, pointer_index = 1\<rparr>,
     mint_input = zero_contract_input 9, mint_output = zero_contract_output, mint_amount = 3, mint_asset_id = 0,
     mint_gas_price = 1\<rparr>"

definition idle_header :: block_header where
  "idle_header =
     (case header_generate idle_lib (header_to_produce idle_components) [idle_transfer, Mint idle_mint] [] 0 of Inr h \<Rightarrow> h)"

definition idle_block :: "transaction block" where
  "idle_block = BlockV1 \<lparr>header = idle_header, transactions = [idle_transfer, Mint idle_mint]\<rparr>"

lemma idle_header_generate:
  "header_generate idle_lib (header_to_produce idle_components) [idle_transfer, Mint idle_mint] [] 0 = Inr idle_header"
  by (simp add: idle_header_def header_generate_def)

lemma idle_header_parts: "partial_of_header idle_header = header_to_produce idle_components" "version_of idle_block = 0"
proof -
  show p: "partial_of_header idle_header = header_to_produce idle_components"
    by (rule header_generate_parts(2)[OF idle_header_generate])
  have "consensus_parameters_version (p_application (partial_of_header idle_header)) = 0"
    unfolding p by (simp add: idle_components_def)
  then show "version_of idle_block = 0" by (simp add: version_of_def idle_block_def partial_of_header_def)
qed

lemma idle_validated:
  "\<exists>v ch. validate_without_commit (idle_env True) idle_db idle_block = Inr (v, ch)
    \<and> ForcedTransactionFailed i h f \<notin> set (vr_events v) \<and> map paid (vr_tx_status v) = [3, 0]"
proof -
  have v: "consensus_parameters_version (hdr_application idle_header) = 0"
    using idle_header_parts(2) by (simp add: version_of_def idle_block_def)
  note g = idle_header_generate[unfolded idle_transfer_def idle_mint_def idle_components_def idle_coin_def
      zero_contract_input_def zero_contract_output_def, simplified]
  show ?thesis
    by (simp add: validate_without_commit_def idle_block_def v idle_eval validate_block_def idle_header_parts
        get_coinbase_info_from_mint_tx_def idle_mint_def check_block_matches_def g paid_def
        del: coin_to_bytes.simps info_to_bytes.simps)
qed


lemma idle_origin: "coin_origin (idle True) (block_coins (idle True) idle_start) (block_processed (idle True) idle_start)"
  by (auto simp: coin_origin_def block_coins_def block_processed_def plain_get_def tx_get_def get_from_changes_def changes_at_def
      idle_start_def memory_kv_simps idle_db_get Coins_def ProcessedTransactions_def utxo_id_to_bytes_def idle_coin_def
      word_bytes_inj_iff fixed_codecs_def fixed_codecs_decode nine_units_def split: if_splits)

lemma idle_replayable: "replayable_executor (idle True)"
  unfolding idle_def by (rule idle.replayable_executor_axioms)

lemma idle_faithful: "faithful_executor (idle True)"
  using idle_replayable by (simp add: replayable_executor_def)

lemma idle_source: "source_gives (replayable_tx (idle True) h) once_source (\<lambda>q. set q \<subseteq> {UncheckedTransaction idle_transfer})"
  by (auto simp: source_gives_def once_source_def once_next_def replayable_tx_def valid_tx_def Let_def
      dest: in_set_takeD in_set_dropD)

theorem produced_block_validates_witness:
  "\<exists>r ch v. produce_without_commit (Suc (Suc (Suc 0))) (idle_env True) idle_db once_source [UncheckedTransaction idle_transfer]
      idle_components False = Some (Inr (r, ch)) \<and> length (pr_tx_status r) = 2
    \<and> validate_without_commit (idle_env True) idle_db (pr_block r) = Inr (v, ch) \<and> vr_tx_status v = pr_tx_status r"
proof -
  obtain r ch where p: "produce_without_commit (Suc (Suc (Suc 0))) (idle_env True) idle_db once_source
      [UncheckedTransaction idle_transfer] idle_components False = Some (Inr (r, ch))"
    and r: "pr_skipped r = []" "map paid (pr_tx_status r) = [3, 0]"
    and f: "\<And>i h e. ForcedTransactionFailed i h (ExecutionFailure e) \<notin> set (pr_events r)"
    using idle_produced by (metis option.inject sum.inject(2) prod.inject)
  have "into_executor (idle_env True) idle_db
      (consensus_parameters_version (p_application (header_to_produce idle_components))) False = Inr (idle True, idle_start)"
    by (simp add: idle_components_def idle_into)
  from produced_block_validates[OF this idle_replayable idle_source _ p] r f p show ?thesis
    by (auto dest: arg_cong[of _ _ length])
qed

theorem validated_block_books_witness:
  "\<exists>v ch. validate_without_commit (idle_env True) idle_db idle_block = Inr (v, ch)
    \<and> unat (mint_amount idle_mint) = sum_list (map (unat \<circ> paid) (vr_tx_status v)) \<and> 0 < mint_amount idle_mint"
proof -
  obtain v ch where v: "validate_without_commit (idle_env True) idle_db idle_block = Inr (v, ch)"
    and f: "\<And>i h e. ForcedTransactionFailed i h (ExecutionFailure e) \<notin> set (vr_events v)"
    using idle_validated by (metis sum.inject(2) prod.inject)
  have i: "into_executor (idle_env True) idle_db (version_of idle_block) False = Inr (idle True, idle_start)"
    by (simp add: idle_header_parts idle_into)
  have "ci_contract_id (mint_input idle_mint) \<noteq> 0" "0 < mint_amount idle_mint"
    by (simp_all add: idle_mint_def zero_contract_input_def)
  with validated_block_books[OF i idle_faithful v] f v show ?thesis by (auto simp: idle_block_def)
qed

section \<open>The executor behind the importer\<close>

text \<open>The port through which the importer validates a block; the importer keeps the message of an error.\<close>

definition executor_adapter_validate ::
    "(executor_error \<Rightarrow> string) \<Rightarrow> 's executor_env \<Rightarrow> 's \<Rightarrow> transaction block
     \<Rightarrow> (string, (execution_status list \<times> executor_event list) \<times> changes) result" where
  "executor_adapter_validate show_error S database blk =
     (case validate_without_commit S database blk of
        Inl e \<Rightarrow> Inl (show_error e)
      | Inr (v, ch) \<Rightarrow> Inr ((vr_tx_status v, vr_events v), ch))"

lemma adapter_Inr:
  "executor_adapter_validate show_error S database blk = Inr ((st, ev), ch) \<longleftrightarrow>
   validate_without_commit S database blk = Inr (\<lparr>vr_tx_status = st, vr_events = ev\<rparr>, ch)"
  by (auto simp: executor_adapter_validate_def split: sum.splits)

lemma exec_columns_apart:
  "Coins_column \<in> tx_columns" "ProcessedTransactions_column \<in> tx_columns" "tx_columns \<inter> block_columns = {}"
  by (auto simp: tx_columns_def own_columns_def vm_columns_def block_columns_def exec_columns column_defs)

text \<open>The executor never changes the tables of blocks: it meets what the importer relies on.\<close>

lemma adapter_executor_ok:
  assumes "validate E = executor_adapter_validate show_error S database"
    and "into_executor S database (version_of blk) False = Inr (X, st)" "faithful_executor X"
  shows "executor_ok E blk"
proof -
  have "changes_at ch k FuelBlocks_column = None" if "columns ch \<subseteq> tx_columns" for ch k
    using that exec_columns_apart(3) by (intro columns_None) (auto simp: block_columns_def)
  with validated_store(1,2)[OF assms(2,3)] show ?thesis
    unfolding executor_ok_def assms(1) adapter_Inr removes_no_block_def by force
qed

lemma store_view_eq:
  assumes "\<And>k. kv_get S d' k (tcolumn T) = overlay ch k (tcolumn T) (kv_get S d k (tcolumn T))"
  shows "plain_get S T \<lparr>changes = [], policy = Overwrite, storage = d'\<rparr> = plain_get S T \<lparr>changes = ch, policy = Overwrite, storage = d\<rparr>"
  by (simp add: fun_eq_iff plain_get_def tx_get_overlay assms overlay_def[of "[]"] changes_at_def[of "[]"])

text \<open>The database after an import reads, in the tables of the executor, like the store of the validation.\<close>

lemma import_ledger:
  assumes "env_ok E ok" "chain_inv (store E) (descr E) ok (db I)" "tcolumn (MetadataTable (descr E)) \<notin> tx_columns"
    and "validate E = executor_adapter_validate show_error S (data (db I))" "ex_kv S = data_kv (store E)"
    and "into_executor S (data (db I)) (version_of (entity b)) False = Inr (X, st)" "faithful_executor X" "forbid_fake_coins S"
    and "coin_origin X (block_coins X st) (block_processed X st)"
    and "execute_and_commit E I b = (I', Inr ())"
  shows "block_ledger X (sealed_height b) (blk_transactions (entity b)) st (st\<lparr>storage := data (db I')\<rparr>)"
proof -
  have X: "ex_kv X = data_kv (store E)" "st = \<lparr>changes = [], policy = Overwrite, storage = data (db I)\<rparr>"
    using into_executor_store[OF assms(6)] assms(5) by auto
  note ok = adapter_executor_ok[OF assms(4,6,7)]
  obtain ts ev ch bch where p: "validate E (entity b) = Inr ((ts, ev), ch)"
    "changes_ok ch" "removes_no_block [ch]" "block_written (lib E) (codecs E) (chain_id E) b bch"
    "on_chain_commit (store E) (descr E) (db I) (ChangesList [bch, ch]) = (db I', Inr ())"
    by (rule import_commits[OF assms(1,2) ok assms(10)])
  have v: "validate_without_commit S (data (db I)) (entity b) = Inr (\<lparr>vr_tx_status = ts, vr_events = ev\<rparr>, ch)"
    using p(1) unfolding assms(4) adapter_Inr .
  have get: "kv_get (data_kv (store E)) (data (db I')) k c = overlay ch k c (kv_get (data_kv (store E)) (data (db I)) k c)"
    if "c \<in> tx_columns" for k c
    using that commit_block(5)[OF assms(1,2) p(4,2,3,5)] exec_columns_apart(3) assms(3) by blast
  have eqs: "block_coins X (st\<lparr>storage := data (db I')\<rparr>) = block_coins X (st\<lparr>changes := ch\<rparr>)"
    "block_processed X (st\<lparr>storage := data (db I')\<rparr>) = block_processed X (st\<lparr>changes := ch\<rparr>)"
    unfolding block_coins_def block_processed_def X
    by (simp_all, intro store_view_eq get, simp add: Coins_def exec_columns_apart,
        intro store_view_eq get, simp add: ProcessedTransactions_def exec_columns_apart)
  from validated_store(3)[OF assms(6,7) v assms(8,9)] show ?thesis
    unfolding block_ledger_def eqs sealed_height_def .
qed

text \<open>C15. The changes of a validated block are well-typed for the database.  They are a valid set of changes, touch only the
  tables of coins, messages, contracts and processed transactions, and in particular none of the tables of blocks;
  so the importer that validates blocks with this executor commits them next to the changes of the block itself, which
  touch only the tables of blocks, without a conflict.\<close>

theorem executor_changes_typed:
  assumes "into_executor S database (version_of blk) False = Inr (X, st)" "faithful_executor X"
    and "validate E = executor_adapter_validate show_error S database" "validate E blk = Inr ((ts, ev), ch)"
  shows "changes_ok ch \<and> columns ch \<subseteq> tx_columns \<and> executor_ok E blk
    \<and> (columns bch \<subseteq> block_columns \<longrightarrow> pairwise_disjoint {} [bch, ch])"
proof -
  have "validate_without_commit S database blk = Inr (\<lparr>vr_tx_status = ts, vr_events = ev\<rparr>, ch)"
    using assms(4) unfolding assms(3) adapter_Inr .
  note v = validated_store(1,2)[OF assms(1,2) this]
  have "pairwise_disjoint {} [bch, ch]" if "columns bch \<subseteq> block_columns"
    using that v(2) exec_columns_apart(3) by (intro disjoint_columns) blast
  with v adapter_executor_ok[OF assms(3,1,2)] show ?thesis by blast
qed

section \<open>A chain for the executor\<close>

text \<open>Only what these instances read back is encoded.\<close>

definition idle_postcard :: "(transaction, u64) postcard" where
  "idle_postcard = \<lparr>block_codec = (\<lambda>_. [], \<lambda>_. None), seal_codec = (\<lambda>_. [], \<lambda>_. None), tx_codec = (\<lambda>_. [], \<lambda>_. None),
     metadata_key_codec = (\<lambda>_. []), metadata_codec = (\<lambda>_. [], \<lambda>_. None)\<rparr>"

definition idle_chain :: "memory_store database" where
  "idle_chain = \<lparr>data = idle_db, stage_height = Some 0\<rparr>"

definition idle_node :: "(transaction, u64, execution_status, executor_event, memory_store) importer_env" where
  "idle_node = \<lparr>store = memory_storage, descr = reference_description, lib = idle_lib, codecs = idle_postcard,
     block_tree = \<lparr>empty_root = 0, tree_push = (\<lambda>tx version leaf. (tx, Inr (version + 1, 0)))\<rparr>,
     chain_id = 0, validate = executor_adapter_validate (\<lambda>_. []) (idle_env True) idle_db,
     verify_fields = (\<lambda>_ _. Inr ())\<rparr>"

definition idle_sealed :: "(transaction, u64) sealed_block" where
  "idle_sealed = \<lparr>entity = idle_block, seal = PoA \<lparr>signature = 0\<rparr>\<rparr>"

definition idle_importer :: "(transaction, u64, execution_status, executor_event, memory_store) importer" where
  "idle_importer = \<lparr>db = idle_chain, guard_free = True, permits = 1, broadcast = []\<rparr>"

lemma idle_node_ok: "env_ok idle_node memory_ok" "tree_total FuelBlockMerkleData_column (block_tree idle_node)"
  using memory_storage.transactable_axioms metadata_table.lawful_table_axioms
  by (auto simp: env_ok_def idle_node_def writes_only_def tree_total_def reference_description_def column_defs)

lemma idle_chain_blocks:
  "kv_get (data_kv memory_storage) idle_db k FuelBlocks_column = Inr (if k = primitive_encode (0 :: block_height) then Some [] else None)"
  "kv_get (data_kv memory_storage) idle_db k FuelBlockMerkleMetadata_column = Inr None"
  "kv_get (data_kv memory_storage) idle_db k FuelBlockConsensus_column = Inr None"
  "kv_get (data_kv memory_storage) idle_db k Transactions_column = Inr None"
  "kv_get (data_kv memory_storage) idle_db k Metadata_column =
     Inr (if k = [] then Some (encode_ref_db_metadata (MetadataV1 0 0)) else None)"
  by (simp_all add: memory_storage_def memory_kv_simps memory_get_def table_def idle_db_def exec_columns column_defs)

lemma idle_chain_inv: "chain_inv memory_storage reference_description memory_ok idle_chain"
proof -
  have "memory_ok idle_db"
    by (auto simp: memory_ok_def idle_db_def bt_ok_def exec_columns column_defs nth_list_update set_conv_nth split: if_splits)
  moreover have "stored_blocks memory_storage idle_db = {0..0}"
    by (auto simp: stored_blocks_def idle_chain_blocks primitive_encode_inj split: if_splits)
  moreover have "latest_height_from_metadata memory_storage reference_description idle_db = Inr (Some 0)"
    using decode_ref_db_metadata[of "MetadataV1 0 0"]
    by (simp add: latest_height_from_metadata_def plain_get_def tx_get_overlay transaction_def overlay_def reference_description_def
        idle_chain_blocks)
  ultimately show ?thesis
    by (auto simp: chain_inv_def idle_chain_def idle_chain_blocks primitive_encode_def split: if_splits)
qed

lemma idle_into_block:
  "into_executor (idle_env True) idle_db (version_of idle_block) False = Inr (idle True, idle_start)"
  by (simp add: idle_header_parts idle_into)

lemma idle_sealed_height: "sealed_height idle_sealed = 1"
proof -
  have "height (p_consensus (partial_of_header idle_header)) = 1"
    unfolding idle_header_parts by (simp add: idle_components_def)
  then show ?thesis by (simp add: sealed_height_def idle_sealed_def idle_block_def hdr_height_def partial_of_header_def)
qed

lemma tx_columns_small: "c \<in> tx_columns \<Longrightarrow> unat c \<le> 21 \<and> c \<notin> block_columns \<union> {Metadata_column}"
  using exec_columns_apart(3)
  by (auto simp: tx_columns_def own_columns_def vm_columns_def exec_columns Metadata_column_def)

theorem executor_changes_typed_witness:
  "\<exists>ts ev ch. validate idle_node idle_block = Inr ((ts, ev), ch) \<and> changes_ok ch \<and> columns ch \<subseteq> tx_columns
    \<and> executor_ok idle_node idle_block"
proof -
  have n: "validate idle_node = executor_adapter_validate (\<lambda>_. []) (idle_env True) idle_db" by (simp add: idle_node_def)
  obtain v ch where "validate_without_commit (idle_env True) idle_db idle_block = Inr (v, ch)" using idle_validated by blast
  then have v: "validate idle_node idle_block = Inr ((vr_tx_status v, vr_events v), ch)"
    by (simp add: n executor_adapter_validate_def)
  from executor_changes_typed[OF idle_into_block idle_faithful n v] v show ?thesis by blast
qed

lemma idle_import: "\<exists>I'. execute_and_commit idle_node idle_importer idle_sealed = (I', Inr ())"
proof -
  have n: "validate idle_node = executor_adapter_validate (\<lambda>_. []) (idle_env True) idle_db" by (simp add: idle_node_def)
  obtain v ch where "validate_without_commit (idle_env True) idle_db idle_block = Inr (v, ch)" using idle_validated by blast
  note vs = validated_store(1,2)[OF idle_into_block idle_faithful this]
  from \<open>_ = Inr (v, ch)\<close> have v: "validate idle_node (entity idle_sealed) = Inr ((vr_tx_status v, vr_events v), ch)"
    by (simp add: n executor_adapter_validate_def idle_sealed_def)
  have "\<exists>I'. execute_and_commit idle_node idle_importer idle_sealed = (I', Inr ()) \<and> stage_height (db I') = Some (sealed_height idle_sealed)
    \<and> broadcast I' = broadcast idle_importer @ [new_from_network idle_sealed (vr_tx_status v) (vr_events v)]"
  proof (rule execute_and_commit_succeeds[OF idle_node_ok(1) _ idle_node_ok(2) _ _ _ _ _ _ _ _ _ _ _ v vs(1)])
    show "new_to_store idle_node (data (db idle_importer)) idle_sealed"
      by (simp add: new_to_store_def idle_node_def idle_importer_def idle_chain_def idle_chain_blocks idle_sealed_def idle_block_def
          tx_key_def Transactions_def idle_lib_def idle_tx_id_def idle_transfer_def primitive_encode_inj word_bytes_inj_iff)
    show "latest_block_root memory_kv (codecs idle_node) (transaction (data (db idle_importer)) Fail []) = Inr None"
      using idle_chain_blocks(2)
      by (simp add: latest_block_root_def plain_get_def tx_get_overlay transaction_def overlay_def idle_importer_def idle_chain_def
          FuelBlockMerkleMetadata_def memory_storage_def)
  qed (use vs(2) tx_columns_small idle_chain_inv idle_sealed_height in
      \<open>auto simp: idle_node_def idle_importer_def idle_chain_def idle_sealed_def reference_description_def idle_db_def\<close>)
  then show ?thesis by blast
qed

end
