(* ===== verification/Executor_Failures.thy ===== *)
theory Executor_Failures
  imports Executor_Claims
begin

text \<open>
  What a transaction that fails leaves behind.  The changes of the store and the block are rolled back, but the events
  that were recorded before the failure stay, and so do, when a counter of the block overflows, the fee and the gas
  that \<open>update_execution_data\<close> had added before.  Two productions show what follows from it.
\<close>

section \<open>Where a failure can come from\<close>

text \<open>Only the update of the data fails with an error after which something is left in the totals of the block.\<close>

definition mild :: "(executor_error, 'a) result \<Rightarrow> bool" where
  "mild r = (\<forall>e. r = Inl e \<longrightarrow> \<not> leaky e)"

lemma mild_simps [simp]:
  "mild (Inr a)" "mild (Inl e) \<longleftrightarrow> \<not> leaky e"
  "mild (ok_or e x) \<longleftrightarrow> x \<noteq> None \<or> \<not> leaky e"
  by (auto simp: mild_def ok_or_def split: option.splits)

lemma mild_map_err [intro!]: "(\<And>x. \<not> leaky (f x)) \<Longrightarrow> mild (map_err f r)"
  by (auto simp: mild_def map_err_def split: sum.splits)

lemma mild_res_then [intro!]: "mild r \<Longrightarrow> (\<And>a. r = Inr a \<Longrightarrow> mild (f a)) \<Longrightarrow> mild (res_then r f)"
  by (auto simp: mild_def res_then_def split: sum.splits)

lemma mild_then [intro!]: "mild (snd r) \<Longrightarrow> (\<And>s a. r = (s, Inr a) \<Longrightarrow> mild (snd (f s a))) \<Longrightarrow> mild (snd (and_then r f))"
  by (auto simp: mild_def and_then_def split: sum.splits prod.splits)

lemma mild_on_store [simp]: "mild (snd (on_store s r))"
  by (auto simp: on_store_def leaky_def)




















section \<open>Failed transactions\<close>




section \<open>The events of a skipped transaction\<close>

text \<open>A transaction that spends the coin of the store and a message that is not there.\<close>

definition orphan_transfer :: transaction where
  "orphan_transfer = Chargeable Script
     \<lparr>tx_inputs = [CoinSigned \<lparr>in_utxo_id = idle_coin, in_owner = 3, in_amount = 9, in_asset_id = 0,
        in_tx_pointer = default_pointer, in_coin_predicate_gas = 0, in_coin_rest = []\<rparr>,
        MessageCoinSigned \<lparr>in_sender = 3, in_recipient = 3, in_message_amount = 1, in_nonce = 6, in_data = [],
          in_message_predicate_gas = 0, in_message_rest = []\<rparr>],
      tx_outputs = [], tx_body = [7]\<rparr>"

lemma idle_messages: "memory_get idle_db k Messages_column = Inr None"
  by (simp add: memory_get_def table_def idle_db_def exec_columns column_defs)

text \<open>The events of a skipped transaction stay in the result.  When the inputs are not checked, a transaction that
  spends a coin of the store and a message that does not exist is skipped: the block has only the mint transaction
  and the coin is not removed.  The events of the block nevertheless report that the coin was consumed, because the
  event is recorded before the failure and only the changes of the store are discarded.\<close>

lemma skipped_transaction_keeps_events:
  "\<exists>r ch. produce_without_commit (Suc (Suc (Suc 0))) (idle_env False) idle_db once_source [UncheckedTransaction orphan_transfer]
      idle_components False = Some (Inr (r, ch))
    \<and> pr_skipped r = [(8, MessageDoesNotExist 6)] \<and> length (blk_transactions (pr_block r)) = 1
    \<and> pr_events r = [CoinConsumed (coin_uncompress nine_units idle_coin)]
    \<and> changes_at ch (utxo_id_to_bytes idle_coin) Coins_column = None"
  by (simp add: idle_eval header_generate_def orphan_transfer_def idle_messages spend_message_def Messages_def skip_transaction_def
       del: coin_to_bytes.simps info_to_bytes.simps)

section \<open>The fee of a skipped transaction\<close>

text \<open>Transactions so large that the size of two of them overflows the counter.\<close>

definition heavy_env :: "memory_store executor_env" where
  "heavy_env = (idle_env False)\<lparr>ex_vm := idle_vm\<lparr>metered_bytes_size := \<lambda>tx. 3000000000\<rparr>\<rparr>"

definition heavy :: "memory_store executor_env" where
  "heavy = heavy_env\<lparr>consensus_params := idle_params, dry_run := False\<rparr>"

definition second_transfer :: transaction where
  "second_transfer = Chargeable Script
     \<lparr>tx_inputs = [CoinSigned \<lparr>in_utxo_id = \<lparr>utxo_tx_id = 1, output_index = 1\<rparr>, in_owner = 3, in_amount = 9, in_asset_id = 0,
        in_tx_pointer = default_pointer, in_coin_predicate_gas = 0, in_coin_rest = []\<rparr>],
      tx_outputs = [], tx_body = [8]\<rparr>"

lemma heavy_fields [simp]:
  "ex_kv heavy = memory_kv" "ex_lib heavy = idle_lib" "ex_vm heavy = idle_vm\<lparr>metered_bytes_size := \<lambda>tx. 3000000000\<rparr>"
  "ex_codecs heavy = fixed_codecs" "consensus_params heavy = idle_params"
  "\<not> forbid_fake_coins heavy" "\<not> dry_run heavy" "\<not> relayer_enabled heavy"
  by (simp_all add: heavy_def heavy_env_def idle_env_def)

lemma heavy_into: "into_executor heavy_env idle_db 0 False = Inr (heavy, idle_start)"
  by (simp add: into_executor_def plain_get_def tx_get_def get_from_changes_def changes_at_def memory_kv_def kv_default_def
      with_policy_def transaction_def idle_db_get ConsensusParametersVersions_def fixed_codecs_def fixed_codecs_decode
      idle_start_def Let_def ok_or_def heavy_def heavy_env_def)

text \<open>A transaction that overflows a counter of the block leaves its fee behind.  The update of the data of the block
  adds the fee before the additions that can fail.  If the size of a transaction overflows its counter, the transaction
  is skipped, but the mint transaction of the block also pays out its fee; so the executor rejects the block that
  it has produced.\<close>

lemma overflow_leaves_fee:
  "\<exists>r ch m. produce_without_commit (Suc (Suc (Suc 0))) heavy_env idle_db once_source
      [UncheckedTransaction idle_transfer, UncheckedTransaction second_transfer] idle_components False = Some (Inr (r, ch))
    \<and> pr_skipped r = [(9, TxSizeOverflow)] \<and> map paid (pr_tx_status r) = [3, 0]
    \<and> List.last (blk_transactions (pr_block r)) = Mint m \<and> mint_amount m = 6
    \<and> validate_without_commit heavy_env idle_db (pr_block r) = Inl CoinbaseAmountMismatch"
  by (simp add: heavy_into idle_eval header_generate_def second_transfer_def skip_transaction_def paid_def
      validate_without_commit_def validate_block_def get_coinbase_info_from_mint_tx_def partial_of_header_def recalculate_metadata_def
      del: coin_to_bytes.simps info_to_bytes.simps)

end
