(* ===== verification/Block_Producer.thy ===== *)
theory Block_Producer
  imports Executor_Failures
begin

text \<open>
  The block producer (\<^verbatim>\<open>src/crates/services/producer/src/block_producer.rs\<close>, its ports in \<^verbatim>\<open>ports.rs\<close> and
  their implementation in \<^verbatim>\<open>src/crates/fuel-core/src/service/adapters/producer.rs\<close>) and the executor of one native
  version behind it (\<^verbatim>\<open>src/crates/services/upgradable-executor/src/executor.rs\<close>, without the feature
  \<^verbatim>\<open>wasm-executor\<close>): the header of a new block, the choice of the height of the layer one, production,
  predefined blocks and dry runs.

  The ports of the producer are the fields of its record; the production lock is a flag that says whether \<open>try_lock\<close>
  succeeds.  Reads of the storage are not recorded.  The theorems relate the choice of the layer one height to the events
  of the relayer, and a produced block to the verifier and to the validation of the executor.
\<close>

section \<open>The native executor of a version\<close>

record 's upgradable =
  up_env :: "'s executor_env"
  up_relayer_view :: "unit storage_result"
  up_latest_view :: "'s storage_result"
  up_view_at :: "block_height \<Rightarrow> 's storage_result"
  native_executor_version :: u32
  allow_historical_execution :: bool
  forbid_fake_coins_default :: bool
  up_allow_syscall :: bool

record execution_options =
  opt_forbid_fake_coins :: bool
  opt_allow_syscall :: bool

datatype block_height_selection = LatestHeight | PastHeight block_height

datatype produce_block_mode = ProduceMode | DryRunMode block_height_selection

definition is_dry_run :: "produce_block_mode \<Rightarrow> bool" where
  "is_dry_run mode = (case mode of ProduceMode \<Rightarrow> False | DryRunMode _ \<Rightarrow> True)"

text \<open>The height whose state is read.\<close>

definition db_height :: "produce_block_mode \<Rightarrow> components \<Rightarrow> block_height option" where
  "db_height mode C =
     (case mode of
        ProduceMode \<Rightarrow> checked_sub (height (p_consensus (header_to_produce C))) 1
      | DryRunMode LatestHeight \<Rightarrow> None
      | DryRunMode (PastHeight h) \<Rightarrow> checked_sub h 1)"

definition view_of :: "'s upgradable \<Rightarrow> block_height option \<Rightarrow> 's storage_result" where
  "view_of U h = (case h of Some h \<Rightarrow> up_view_at U h | None \<Rightarrow> up_latest_view U)"

definition instance_env :: "'s upgradable \<Rightarrow> execution_options \<Rightarrow> 's executor_env" where
  "instance_env U opts = (up_env U)\<lparr>forbid_fake_coins := opt_forbid_fake_coins opts, allow_syscall := opt_allow_syscall opts\<rparr>"

definition native_produce_inner ::
    "nat \<Rightarrow> 's upgradable \<Rightarrow> execution_options \<Rightarrow> produce_block_mode \<Rightarrow> 'q tx_source \<Rightarrow> 'q \<Rightarrow> components
     \<Rightarrow> (executor_error, production_result \<times> changes) result option" where
  "native_produce_inner n U opts mode Q q C =
     (case res_then (up_relayer_view U) (\<lambda>_. view_of U (db_height mode C)) of
        Inl e \<Rightarrow> Some (Inl (ExecutorStorage e))
      | Inr database \<Rightarrow> produce_without_commit n (instance_env U opts) database Q q C (is_dry_run mode))"

definition not_supported_version :: string where
  "not_supported_version = ''Not supported version''"

definition produce_inner ::
    "nat \<Rightarrow> 's upgradable \<Rightarrow> execution_options \<Rightarrow> produce_block_mode \<Rightarrow> 'q tx_source \<Rightarrow> 'q \<Rightarrow> components
     \<Rightarrow> (executor_error, production_result \<times> changes) result option" where
  "produce_inner n U opts mode Q q C =
     (if state_transition_bytecode_version (p_application (header_to_produce C)) = native_executor_version U
      then native_produce_inner n U opts mode Q q C
      else Some (Inl (OtherError not_supported_version)))"

definition default_options :: "'s upgradable \<Rightarrow> execution_options" where
  "default_options U = \<lparr>opt_forbid_fake_coins = forbid_fake_coins_default U, opt_allow_syscall = up_allow_syscall U\<rparr>"

definition produce_without_commit_with_source ::
    "nat \<Rightarrow> 's upgradable \<Rightarrow> 'q tx_source \<Rightarrow> 'q \<Rightarrow> components
     \<Rightarrow> (executor_error, production_result \<times> changes) result option" where
  "produce_without_commit_with_source n U Q q C = produce_inner n U (default_options U) ProduceMode Q q C"

definition upgradable_dry_run ::
    "nat \<Rightarrow> 's upgradable \<Rightarrow> transaction list \<Rightarrow> components \<Rightarrow> bool option \<Rightarrow> block_height option
     \<Rightarrow> (executor_error, (transaction \<times> execution_status) list) result option" where
  "upgradable_dry_run n U txs C forbid at_height =
     (if at_height \<noteq> None \<and> \<not> allow_historical_execution U
      then Some (Inl (OtherError ''The historical execution is not allowed''))
      else
        (case produce_inner n U
                \<lparr>opt_forbid_fake_coins = (case forbid of Some f \<Rightarrow> f | None \<Rightarrow> forbid_fake_coins_default U),
                 opt_allow_syscall = up_allow_syscall U\<rparr>
                (DryRunMode (case at_height of Some h \<Rightarrow> PastHeight h | None \<Rightarrow> LatestHeight))
                once_source (map UncheckedTransaction txs) (C\<lparr>coinbase_recipient := 0\<rparr>) of
           None \<Rightarrow> None
         | Some (Inl e) \<Rightarrow> Some (Inl e)
         | Some (Inr (r, ch)) \<Rightarrow>
             (case pr_skipped r of
                (i, e) # _ \<Rightarrow> Some (Inl e)
              | [] \<Rightarrow> Some (Inr (zip (blk_transactions (pr_block r)) (pr_tx_status r))))))"

definition native_validate_inner ::
    "'s upgradable \<Rightarrow> execution_options \<Rightarrow> transaction block \<Rightarrow> (executor_error, validation_result \<times> changes) result" where
  "native_validate_inner U opts blk =
     (case res_then (up_relayer_view U) (\<lambda>_. view_of U (checked_sub (hdr_height (blk_header blk)) 1)) of
        Inl e \<Rightarrow> Inl (ExecutorStorage e)
      | Inr database \<Rightarrow> validate_without_commit (instance_env U opts) database blk)"

definition upgradable_validate ::
    "'s upgradable \<Rightarrow> transaction block \<Rightarrow> (executor_error, validation_result \<times> changes) result" where
  "upgradable_validate U blk =
     (if state_transition_bytecode_version (hdr_application (blk_header blk)) = native_executor_version U
      then native_validate_inner U (default_options U) blk
      else Inl (OtherError not_supported_version))"

section \<open>The producer\<close>

datatype producer_error =
    NoGenesisBlock
  | BlockHeightShouldBeHigherThanPrevious block_height block_height
  | MissingBlock block_height
  | InvalidDaFinalizationState da_block_height da_block_height
  | CannotProduceGenesisBlock
  | MustProduceBlockWithExpectedHeight block_height block_height
  | MaximumBlockHeightReached

text \<open>The cases of \<open>anyhow::Error\<close> that the producer returns.\<close>

datatype any_error =
    ProducerError producer_error
  | ProductionInProgress
  | NoGasPrice string
  | LastIsNotMint
  | NO_NEW_DA_HEIGHT_FOUND
  | NoReceipts
  | PortError string
  | ViewError storage_error
  | ExecutionFailed executor_error

record block_producer_database =
  view_latest_height :: "block_height option"
  get_block :: "block_height \<Rightarrow> compressed_block storage_result"
  view_header_root :: "block_height \<Rightarrow> bytes32 storage_result"
  latest_consensus_parameters_version :: "u32 storage_result"
  latest_state_transition_bytecode_version :: "u32 storage_result"

record relayer_block_info =
  gas_cost :: u64
  tx_count :: u64

record 's producer =
  production_lock_free :: bool
  config_coinbase_recipient :: "bytes32 option"
  view_provider :: "block_producer_database storage_result"
  prod_executor :: "'s upgradable"
  wait_for_at_least_height :: "da_block_height \<Rightarrow> (string, da_block_height) result"
  get_cost_and_transactions_number_for_block :: "da_block_height \<Rightarrow> (string, relayer_block_info) result"
  production_gas_price :: "(string, u64) result"
  dry_run_gas_price :: "(string, u64) result"
  consensus_params_at_version :: "u32 \<Rightarrow> (string, consensus_parameters) result"

subsection \<open>The relayer\<close>

fun event_cost :: "relayer_event \<Rightarrow> u64" where
  "event_cost (MessageEvent _) = 0"
| "event_cost (TransactionEvent t) = rt_max_gas t"

definition add_event :: "relayer_event \<Rightarrow> relayer_block_info \<Rightarrow> relayer_block_info" where
  "add_event ev i =
     \<lparr>gas_cost = sat_add (gas_cost i) (event_cost ev),
      tx_count = (case ev of MessageEvent _ \<Rightarrow> tx_count i | TransactionEvent _ \<Rightarrow> sat_add (tx_count i) 1)\<rparr>"

text \<open>The implementation of the port for the costs over the events of a height.\<close>

definition relayer_cost :: "(da_block_height \<Rightarrow> (string, relayer_event list) result) \<Rightarrow> da_block_height \<Rightarrow> (string, relayer_block_info) result" where
  "relayer_cost da_events h = res_then (da_events h) (\<lambda>evs. Inr (fold add_event evs \<lparr>gas_cost = 0, tx_count = 0\<rparr>))"

fun select_loop ::
    "'s producer \<Rightarrow> u64 \<Rightarrow> u64 \<Rightarrow> da_block_height list \<Rightarrow> u64 \<Rightarrow> u64 \<Rightarrow> da_block_height
     \<Rightarrow> (any_error, da_block_height) result" where
  "select_loop P gas_limit transactions_limit [] total_cost total_transactions new_best = Inr new_best"
| "select_loop P gas_limit transactions_limit (h # hs) total_cost total_transactions new_best =
     res_then (map_err PortError (get_cost_and_transactions_number_for_block P h))
     (\<lambda>i. let total_cost = sat_add total_cost (gas_cost i);
              total_transactions = sat_add total_transactions (tx_count i) in
          if gas_limit < total_cost \<or> transactions_limit < total_transactions then Inr new_best
          else select_loop P gas_limit transactions_limit hs total_cost total_transactions h)"

definition select_new_da_height ::
    "'s producer \<Rightarrow> u64 \<Rightarrow> da_block_height \<Rightarrow> u16 \<Rightarrow> (any_error, da_block_height) result" where
  "select_new_da_height P gas_limit previous_da_height transactions_limit =
     res_then (map_err PortError (wait_for_at_least_height P previous_da_height))
     (\<lambda>highest.
       if highest < previous_da_height
       then Inl (ProducerError (InvalidDaFinalizationState highest previous_da_height))
       else if highest = previous_da_height then Inr highest
       else res_then (select_loop P gas_limit (ucast transactions_limit) (da_range (sat_add previous_da_height 1) highest)
                        0 0 previous_da_height)
            (\<lambda>new_best. if new_best = previous_da_height then Inl NO_NEW_DA_HEIGHT_FOUND else Inr new_best))"

subsection \<open>Headers\<close>

record block_info =
  info_height :: block_height
  info_root :: bytes32
  info_da_height :: da_block_height
  info_consensus_parameters_version :: u32
  info_state_transition_bytecode_version :: u32

definition block_info_at :: "block_producer_database \<Rightarrow> block_height \<Rightarrow> (any_error, block_info) result" where
  "block_info_at V h =
     res_then (map_err ViewError (get_block V h))
     (\<lambda>block. res_then (map_err ViewError (view_header_root V h))
     (\<lambda>root. Inr \<lparr>info_height = h, info_root = root, info_da_height = hdr_da_height (blk_header block),
        info_consensus_parameters_version = consensus_parameters_version (hdr_application (blk_header block)),
        info_state_transition_bytecode_version = state_transition_bytecode_version (hdr_application (blk_header block))\<rparr>))"

definition latest_block_info :: "block_producer_database \<Rightarrow> (any_error, block_info) result" where
  "latest_block_info V = res_then (ok_or (ProducerError NoGenesisBlock) (view_latest_height V)) (block_info_at V)"

definition partial_header ::
    "da_block_height \<Rightarrow> u32 \<Rightarrow> u32 \<Rightarrow> bytes32 \<Rightarrow> block_height \<Rightarrow> tai64 \<Rightarrow> partial_block_header" where
  "partial_header da params_version bytecode_version root h t =
     \<lparr>p_application = \<lparr>da_height = da, consensus_parameters_version = params_version,
        state_transition_bytecode_version = bytecode_version, app_generated = ()\<rparr>,
      p_consensus = \<lparr>prev_root = root, height = h, time = t, con_generated = ()\<rparr>\<rparr>"

definition new_header :: "block_producer_database \<Rightarrow> tai64 \<Rightarrow> (any_error, partial_block_header) result" where
  "new_header V block_time =
     res_then (latest_block_info V)
     (\<lambda>previous. res_then (ok_or (ProducerError MaximumBlockHeightReached) (checked_add (info_height previous) 1))
     (\<lambda>h. res_then (map_err ViewError (latest_consensus_parameters_version V))
     (\<lambda>pv. res_then (map_err ViewError (latest_state_transition_bytecode_version V))
     (\<lambda>bv. Inr (partial_header (info_da_height previous) pv bv (info_root previous) h block_time)))))"

definition with_da_height :: "da_block_height \<Rightarrow> partial_block_header \<Rightarrow> partial_block_header" where
  "with_da_height da hdr = hdr\<lparr>p_application := (p_application hdr)\<lparr>da_height := da\<rparr>\<rparr>"

definition new_header_with_da_height ::
    "block_producer_database \<Rightarrow> tai64 \<Rightarrow> da_block_height \<Rightarrow> (any_error, partial_block_header) result" where
  "new_header_with_da_height V block_time da = res_then (new_header V block_time) (\<lambda>hdr. Inr (with_da_height da hdr))"

definition new_header_with_new_da_height ::
    "'s producer \<Rightarrow> block_producer_database \<Rightarrow> tai64 \<Rightarrow> (any_error, partial_block_header) result" where
  "new_header_with_new_da_height P V block_time =
     res_then (new_header V block_time)
     (\<lambda>hdr. res_then (map_err PortError (consensus_params_at_version P (consensus_parameters_version (p_application hdr))))
     (\<lambda>params. res_then (select_new_da_height P (block_gas_limit params) (da_height (p_application hdr)) (u_max - 1))
     (\<lambda>da. Inr (with_da_height da hdr))))"

definition dry_run_header ::
    "block_producer_database \<Rightarrow> block_height \<Rightarrow> tai64 \<Rightarrow> (any_error, partial_block_header) result" where
  "dry_run_header V h block_time =
     res_then (ok_or (ProducerError NoGenesisBlock) (checked_sub h 1))
     (\<lambda>prev. res_then (block_info_at V prev)
     (\<lambda>previous. res_then (block_info_at V h)
     (\<lambda>info. Inr (partial_header (info_da_height info) (info_consensus_parameters_version info)
        (info_state_transition_bytecode_version info) (info_root previous) h block_time))))"

subsection \<open>Production\<close>

definition coinbase_or_default :: "'s producer \<Rightarrow> bytes32" where
  "coinbase_or_default P = (case config_coinbase_recipient P of Some c \<Rightarrow> c | None \<Rightarrow> 0)"

definition executor_result ::
    "(executor_error, 'a) result option \<Rightarrow> (any_error, 'a) result option" where
  "executor_result r = map_option (map_err ExecutionFailed) r"

text \<open>The transactions and the components that are given to the executor.\<close>

definition to_produce ::
    "'s producer \<Rightarrow> (u64 \<Rightarrow> block_height \<Rightarrow> (string, 'q) result) \<Rightarrow> block_height \<Rightarrow> tai64
     \<Rightarrow> (any_error, 'q \<times> components) result" where
  "to_produce P tx_source h block_time =
     res_then (map_err NoGasPrice (production_gas_price P))
     (\<lambda>gas_price. res_then (map_err ViewError (view_provider P))
     (\<lambda>V. res_then (ok_or (ProducerError NoGenesisBlock) (view_latest_height V))
     (\<lambda>latest. res_then (ok_or (ProducerError MaximumBlockHeightReached) (checked_add latest 1))
     (\<lambda>next_height.
       if h = 0 then Inl (ProducerError CannotProduceGenesisBlock)
       else if h \<noteq> next_height then Inl (ProducerError (MustProduceBlockWithExpectedHeight h next_height))
       else res_then (map_err PortError (tx_source gas_price next_height))
         (\<lambda>q. res_then (new_header_with_new_da_height P V block_time)
         (\<lambda>hdr. Inr (q, \<lparr>header_to_produce = hdr, coinbase_recipient = coinbase_or_default P,
                         component_gas_price = gas_price\<rparr>)))))))"

definition produce_and_execute ::
    "nat \<Rightarrow> 's producer \<Rightarrow> 'q tx_source \<Rightarrow> (u64 \<Rightarrow> block_height \<Rightarrow> (string, 'q) result) \<Rightarrow> block_height \<Rightarrow> tai64
     \<Rightarrow> (any_error, production_result \<times> changes) result option" where
  "produce_and_execute n P Q tx_source h block_time =
     (if \<not> production_lock_free P then Some (Inl ProductionInProgress)
      else case to_produce P tx_source h block_time of
        Inl e \<Rightarrow> Some (Inl e)
      | Inr (q, C) \<Rightarrow> executor_result (produce_without_commit_with_source n (prod_executor P) Q q C))"

definition produce_and_execute_block_transactions ::
    "nat \<Rightarrow> 's producer \<Rightarrow> block_height \<Rightarrow> tai64 \<Rightarrow> transaction list \<Rightarrow> (any_error, production_result \<times> changes) result option" where
  "produce_and_execute_block_transactions n P h block_time txs =
     produce_and_execute n P once_source (\<lambda>_ _. Inr (map UncheckedTransaction txs)) h block_time"

text \<open>The same for a predefined block: its last transaction says who is paid and at which price.\<close>

definition predefined_to_produce ::
    "'s producer \<Rightarrow> transaction block \<Rightarrow> (any_error, transaction list \<times> components) result" where
  "predefined_to_produce P predefined =
     (let txs = blk_transactions predefined; h = hdr_height (blk_header predefined);
          da = hdr_da_height (blk_header predefined) in
      res_then (map_err PortError (wait_for_at_least_height P da))
      (\<lambda>_. res_then (map_err ViewError (view_provider P))
      (\<lambda>V. res_then (new_header_with_da_height V (hdr_time (blk_header predefined)) da)
      (\<lambda>hdr. res_then (ok_or (ProducerError NoGenesisBlock) (view_latest_height V))
      (\<lambda>latest.
        if height (p_consensus hdr) \<le> latest
        then Inl (ProducerError (BlockHeightShouldBeHigherThanPrevious h latest))
        else (case rev txs of
                Mint m # rest \<Rightarrow>
                  Inr (rev rest, \<lparr>header_to_produce = hdr, coinbase_recipient = ci_contract_id (mint_input m),
                                  component_gas_price = mint_gas_price m\<rparr>)
              | _ \<Rightarrow> Inl LastIsNotMint))))))"

definition produce_and_execute_predefined ::
    "nat \<Rightarrow> 's producer \<Rightarrow> transaction block \<Rightarrow> (any_error, production_result \<times> changes) result option" where
  "produce_and_execute_predefined n P predefined =
     (if \<not> production_lock_free P then Some (Inl ProductionInProgress)
      else case predefined_to_produce P predefined of
        Inl e \<Rightarrow> Some (Inl e)
      | Inr (txs, C) \<Rightarrow>
          executor_result (produce_without_commit_with_source n (prod_executor P) once_source
            (map UncheckedTransaction txs) C))"

text \<open>A script whose status has no receipts.\<close>

definition lacks_receipts :: "transaction \<times> execution_status \<Rightarrow> bool" where
  "lacks_receipts p =
     ((case fst p of Chargeable Script _ \<Rightarrow> True | _ \<Rightarrow> False) \<and> receipts (result_outcome (status_result (snd p))) = [])"

definition producer_dry_run ::
    "nat \<Rightarrow> 's producer \<Rightarrow> transaction list \<Rightarrow> block_height option \<Rightarrow> tai64 option \<Rightarrow> bool option \<Rightarrow> u64 option
     \<Rightarrow> (any_error, (transaction \<times> execution_status) list) result option" where
  "producer_dry_run n P txs h t utxo_validation gas_price =
     (case
        res_then (map_err ViewError (view_provider P))
        (\<lambda>V.
          let latest = (case view_latest_height V of Some l \<Rightarrow> l | None \<Rightarrow> 0);
              simulated_time = (case t of Some t \<Rightarrow> t
                | None \<Rightarrow> (case get_block V latest of Inr b \<Rightarrow> hdr_time (blk_header b)
                            | Inl _ \<Rightarrow> UNIX_EPOCH (ex_lib (up_env (prod_executor P))))) in
          res_then (ok_or (ProducerError MaximumBlockHeightReached) (checked_add latest 1))
          (\<lambda>next_height.
            res_then (case h of
                        Some h \<Rightarrow> if h = next_height then new_header V simulated_time else dry_run_header V h simulated_time
                      | None \<Rightarrow> new_header V simulated_time)
            (\<lambda>hdr. res_then (case gas_price of Some g \<Rightarrow> Inr g | None \<Rightarrow> map_err NoGasPrice (dry_run_gas_price P))
            (\<lambda>g. Inr \<lparr>header_to_produce = hdr, coinbase_recipient = coinbase_or_default P, component_gas_price = g\<rparr>)))) of
        Inl e \<Rightarrow> Some (Inl e)
      | Inr C \<Rightarrow>
          (case executor_result (upgradable_dry_run n (prod_executor P) txs C utxo_validation h) of
             None \<Rightarrow> None
           | Some (Inl e) \<Rightarrow> Some (Inl e)
           | Some (Inr rs) \<Rightarrow> Some (if list_ex lacks_receipts rs then Inl NoReceipts else Inr rs)))"

section \<open>The choice of the height of the layer one\<close>

definition tally :: "relayer_event list \<Rightarrow> relayer_block_info" where
  "tally evs = fold add_event evs \<lparr>gas_cost = 0, tx_count = 0\<rparr>"

definition forced_gas :: "relayer_event list \<Rightarrow> nat" where
  "forced_gas evs = sum_list (map (unat \<circ> event_cost) evs)"

definition forced_count :: "relayer_event list \<Rightarrow> nat" where
  "forced_count evs = length (filter (\<lambda>ev. case ev of TransactionEvent _ \<Rightarrow> True | _ \<Rightarrow> False) evs)"

lemma unat_add_event:
  "unat (gas_cost (add_event ev i)) = min (2 ^ 64 - 1) (unat (gas_cost i) + forced_gas [ev])"
  "unat (tx_count (add_event ev i)) = min (2 ^ 64 - 1) (unat (tx_count i) + forced_count [ev])"
  using unat_less_pow[of "tx_count i"]
  by (auto simp: add_event_def forced_gas_def forced_count_def unat_sat_add min_def split: relayer_event.splits)

lemma forced_append:
  "forced_gas (a @ b) = forced_gas a + forced_gas b" "forced_count (a @ b) = forced_count a + forced_count b"
  by (simp_all add: forced_gas_def forced_count_def)

lemma fold_add_event:
  "unat (gas_cost (fold add_event evs i)) = min (2 ^ 64 - 1) (unat (gas_cost i) + forced_gas evs)
   \<and> unat (tx_count (fold add_event evs i)) = min (2 ^ 64 - 1) (unat (tx_count i) + forced_count evs)"
proof (induction evs arbitrary: i)
  case Nil
  show ?case
    using unat_less_pow[of "gas_cost i"] unat_less_pow[of "tx_count i"] by (simp add: forced_gas_def forced_count_def)
next
  case (Cons ev evs)
  show ?case using forced_append[of "[ev]" evs] by (simp add: Cons unat_add_event min_def)
qed

lemma unat_tally:
  "unat (gas_cost (tally evs)) = min (2 ^ 64 - 1) (forced_gas evs)"
  "unat (tx_count (tally evs)) = min (2 ^ 64 - 1) (forced_count evs)"
  by (simp_all add: tally_def fold_add_event)

lemma tally_append:
  "sat_add (gas_cost (tally a)) (gas_cost (tally b)) = gas_cost (tally (a @ b))"
  "sat_add (tx_count (tally a)) (tx_count (tally b)) = tx_count (tally (a @ b))"
  by (simp_all add: word_unat_eq_iff unat_sat_add unat_tally forced_gas_def forced_count_def)

text \<open>Whether the events of some heights fit in a block.\<close>

definition fits :: "u64 \<Rightarrow> u64 \<Rightarrow> relayer_event list \<Rightarrow> bool" where
  "fits gas_limit transactions_limit evs =
     (gas_cost (tally evs) \<le> gas_limit \<and> tx_count (tally evs) \<le> transactions_limit)"

lemma select_loop_prefix:
  assumes "\<And>h. get_cost_and_transactions_number_for_block P h = relayer_cost da_events h"
    and "select_loop P g l hs (gas_cost (tally done0)) (tx_count (tally done0)) best0 = Inr best"
  shows "\<exists>pre post evs. hs = pre @ post \<and> best = List.last (best0 # pre)
    \<and> list_all2 (\<lambda>h es. da_events h = Inr es) pre evs \<and> (pre \<noteq> [] \<longrightarrow> fits g l (done0 @ concat evs))
    \<and> (post \<noteq> [] \<longrightarrow> (\<exists>es. da_events (hd post) = Inr es \<and> \<not> fits g l (done0 @ concat evs @ es)))"
  using assms(2)
proof (induction hs arbitrary: done0 best0)
  case (Cons h hs)
  obtain es where es: "da_events h = Inr es"
    using Cons.prems assms(1)[of h] by (auto simp: res_then_eq_Inr relayer_cost_def map_err_def split: sum.splits)
  note cost = assms(1)[of h, unfolded relayer_cost_def es, folded tally_def, simplified]
  show ?case
  proof (cases "fits g l (done0 @ es)")
    case False
    with Cons.prems cost es show ?thesis
      by (intro exI[of _ "[]"] exI[of _ "h # hs"]) (auto simp: Let_def tally_append fits_def not_le)
  next
    case True
    then have "select_loop P g l hs (gas_cost (tally (done0 @ es))) (tx_count (tally (done0 @ es))) h = Inr best"
      using Cons.prems cost by (auto simp: Let_def tally_append fits_def not_less split: if_splits)
    from Cons.IH[OF this] obtain pre post evs where r: "hs = pre @ post" "best = List.last (h # pre)"
      "list_all2 (\<lambda>h es. da_events h = Inr es) pre evs" "pre \<noteq> [] \<longrightarrow> fits g l ((done0 @ es) @ concat evs)"
      "post \<noteq> [] \<longrightarrow> (\<exists>es'. da_events (hd post) = Inr es' \<and> \<not> fits g l ((done0 @ es) @ concat evs @ es'))"
      by blast
    have "fits g l (done0 @ concat (es # evs))" using r(3,4) True by (cases pre) auto
    with r es show ?thesis
      by (intro exI[of _ "h # pre"] exI[of _ post] exI[of _ "es # evs"]) auto
  qed
qed (auto intro!: exI[of _ "[]"])

lemma da_range_prefix:
  assumes "da_range a b = pre @ post" "pre \<noteq> []"
  shows "pre = da_range a (List.last pre)" "a \<le> List.last pre" "List.last pre \<le> b"
    "post \<noteq> [] \<Longrightarrow> List.last pre < b \<and> hd post = List.last pre + 1" "post = [] \<Longrightarrow> List.last pre = b"
proof -
  obtain k where k: "length pre = Suc k" using assms(2) by (cases pre) auto
  have len: "Suc k + length post = Suc (unat b) - unat a"
    using arg_cong[OF assms(1), of length] k by (simp add: da_range_def del: upt_Suc)
  then have n: "unat a + k \<le> unat b" by simp
  have nth: "pre ! i = of_nat (unat a + i)" if "i \<le> k" for i
    using that n k arg_cong[OF assms(1), of "\<lambda>xs. xs ! i"] by (simp add: da_range_def nth_append del: upt_Suc of_nat_add)
  have last: "List.last pre = of_nat (unat a + k)" using nth[of k] k assms(2) by (simp add: last_conv_nth)
  have u: "unat (List.last pre) = unat a + k"
    using n unat_less_pow[of b] unfolding last by (simp add: unsigned_of_nat take_bit_nat_eq_self del: of_nat_add)
  show "pre = da_range a (List.last pre)"
    unfolding da_range_def u using n nth k by (intro nth_equalityI) (auto simp del: upt_Suc of_nat_add)
  show "a \<le> List.last pre" "List.last pre \<le> b" using u n by (auto simp: word_le_nat_alt)
  show "List.last pre < b \<and> hd post = List.last pre + 1" if "post \<noteq> []"
  proof -
    have l: "unat a + Suc k \<le> unat b" using that len by (cases post) auto
    have "hd post = da_range a b ! Suc k" using that by (simp add: assms(1) nth_append hd_conv_nth k)
    also have "\<dots> = of_nat (Suc (unat a + k))" using l by (simp add: da_range_def del: upt_Suc of_nat_add)
    also have "\<dots> = List.last pre + 1" unfolding last by simp
    finally show ?thesis using u l by (simp add: word_less_nat_alt)
  qed
  show "List.last pre = b" if "post = []" using that len u by (simp add: word_unat_eq_iff)
qed

text \<open>C40. The layer one height of a new block is the highest that fits.  Over the events of the relayer, the chosen height
  is not below the previous one and not above the finalized one; it is the previous one only when nothing newer is
  finalized.  The forced transactions of all heights up to it number at most the limit, 65534 in the producer, and
  together claim at most the gas limit of a block (the sum saturates, so a limit of the maximal value bounds
  nothing); and if the chosen height is below the finalized one, the events of the next height would exceed one of the
  limits.\<close>

theorem selected_da_height_is_best:
  assumes "\<And>h. get_cost_and_transactions_number_for_block P h = relayer_cost da_events h"
    and "select_new_da_height P gas_limit prev limit = Inr best" "gas_limit < u_max"
  shows "\<exists>highest evs. wait_for_at_least_height P prev = Inr highest \<and> prev \<le> best \<and> best \<le> highest
    \<and> (best = prev \<longrightarrow> highest = prev)
    \<and> list_all2 (\<lambda>h es. da_events h = Inr es) (if best = prev then [] else da_range (prev + 1) best) evs
    \<and> forced_count (concat evs) \<le> unat limit \<and> forced_gas (concat evs) \<le> unat gas_limit
    \<and> (best < highest \<longrightarrow> (\<exists>es. da_events (best + 1) = Inr es
        \<and> (unat limit < forced_count (concat evs @ es) \<or> unat gas_limit < forced_gas (concat evs @ es))))"
proof -
  obtain highest where h: "wait_for_at_least_height P prev = Inr highest" "prev \<le> highest"
    using assms(2) by (auto simp: select_new_da_height_def res_then_eq_Inr map_err_def not_less split: sum.splits if_splits)
  show ?thesis
  proof (cases "highest = prev")
    case True
    with assms(2) h show ?thesis
      by (intro exI[of _ highest] exI[of _ "[]"]) (simp add: select_new_da_height_def forced_count_def forced_gas_def)
  next
    case False
    let ?l = "ucast limit :: u64"
    have less: "prev < highest" using False h(2) by simp
    then have "unat prev \<noteq> 2 ^ 64 - 1" using unat_less_pow[of highest] by (auto simp: word_less_nat_alt)
    then have nxt: "sat_add prev 1 = prev + 1"
      using unat_less_pow[of prev] by (simp add: word_unat_eq_iff unat_sat_add unat_word_ariths)
    have zero: "gas_cost (tally []) = 0" "tx_count (tally []) = 0" by (simp_all add: tally_def)
    have sel: "select_loop P gas_limit ?l (da_range (prev + 1) highest) (gas_cost (tally [])) (tx_count (tally [])) prev = Inr best"
      and best: "best \<noteq> prev"
      using assms(2) h less False unfolding zero
      by (auto simp: select_new_da_height_def nxt res_then_eq_Inr split: if_splits)
    obtain pre post evs where r: "da_range (prev + 1) highest = pre @ post" "best = List.last (prev # pre)"
      "list_all2 (\<lambda>h es. da_events h = Inr es) pre evs" "pre \<noteq> [] \<longrightarrow> fits gas_limit ?l (concat evs)"
      "post \<noteq> [] \<longrightarrow> (\<exists>es. da_events (hd post) = Inr es \<and> \<not> fits gas_limit ?l (concat evs @ es))"
      using select_loop_prefix[OF assms(1) sel] by auto
    have ne: "pre \<noteq> []" and last: "best = List.last pre" using r(2) best by auto
    note d = da_range_prefix[OF r(1) ne, folded last]
    have "unat gas_limit < 2 ^ 64 - 1" using assms(3) by (simp add: word_less_nat_alt unat_u_max)
    then have fits: "fits gas_limit ?l es \<longleftrightarrow> forced_gas es \<le> unat gas_limit \<and> forced_count es \<le> unat limit" for es
      using unat_less_pow[of limit]
      by (auto simp: fits_def word_le_nat_alt unat_tally unat_ucast_wider)
    have "prev < prev + 1" using nxt \<open>unat prev \<noteq> _\<close> unat_less_pow[of prev]
      by (simp add: word_less_nat_alt unat_word_ariths)
    with d(2) have "prev < best" by simp
    moreover have "best < highest \<longrightarrow> post \<noteq> []" using d(5) by auto
    ultimately show ?thesis
      using h r(3,4,5) d(1,3,4) ne best unfolding fits
      by (intro exI[of _ highest] exI[of _ evs]) (auto simp: not_le)
  qed
qed


section \<open>The header of a produced block\<close>

text \<open>No step of production changes the header.\<close>

lemma commit_keeps_header:
  "execute_transaction_and_commit E tx gp cb b = (b', r) \<Longrightarrow> p_header (br_block b') = p_header (br_block b)"
  by (auto simp: execute_transaction_and_commit_def Let_def push_transaction_def split: prod.splits sum.splits option.splits if_splits)

lemma process_event_keeps_header:
  "process_event E h da_h ev p b = (b', r) \<Longrightarrow> p_header (br_block b') = p_header (br_block b)"
  by (auto simp: process_event_def Let_def push_block_event_def split: relayer_event.splits if_splits prod.splits sum.splits)

lemma process_events_keeps_header:
  "process_events E h da_h evs p b = (b', Inr p') \<Longrightarrow> p_header (br_block b') = p_header (br_block b)"
  by (induction evs arbitrary: p b) (fastforce elim!: and_then_InrE dest: process_event_keeps_header)+

lemma process_da_heights_keeps_header:
  "process_da_heights E h hs p b = (b', Inr p') \<Longrightarrow> p_header (br_block b') = p_header (br_block b)"
  by (induction hs arbitrary: p b) (fastforce elim!: and_then_InrE dest: process_events_keeps_header)+

lemma process_relayed_keeps_header: "p_header (br_block (process_relayed_txs E cb cs b)) = p_header (br_block b)"
proof (induction cs arbitrary: b)
  case (Cons c cs)
  let ?tx = "CheckedTransaction c (consensus_parameters_version (p_application (p_header (br_block b))))"
  obtain b1 r where run: "execute_transaction_and_commit E ?tx RELAYED_GAS_PRICE cb b = (b1, r)" by fastforce
  with commit_keeps_header[OF run] show ?case by (cases r) (simp_all add: Let_def Cons push_block_event_def)
qed simp

lemma process_l1_keeps_header:
  "process_l1_txs E cb b = (b', Inr ()) \<Longrightarrow> p_header (br_block b') = p_header (br_block b)"
  by (auto simp: process_l1_txs_def Let_def get_relayed_txs_def process_da_def process_relayed_keeps_header
      elim!: and_then_InrE dest: process_da_heights_keeps_header split: if_splits)

lemma process_batch_keeps_header:
  "process_batch E gp cb txs statuses b = (b', Inr statuses') \<Longrightarrow> p_header (br_block b') = p_header (br_block b)"
proof (induction txs arbitrary: statuses b)
  case (Cons tx txs)
  from Cons.prems show ?case
  proof (cases rule: process_batch_ConsE)
    case (overrun g)
    from Cons.IH[OF overrun] show ?thesis by (simp add: skip_transaction_def)
  next
    case (skipped kind x e b1 statuses1)
    from Cons.IH[OF skipped(3)] commit_keeps_header[OF skipped(2)] show ?thesis by (simp add: skip_transaction_def)
  next
    case (executed kind x b1 statuses1)
    from Cons.IH[OF executed(3)] commit_keeps_header[OF executed(2)] show ?thesis by simp
  qed
qed simp

lemma process_l2_keeps_header:
  "process_l2_txs n E Q gp cb q statuses b = Some (q', (b', Inr statuses')) \<Longrightarrow> p_header (br_block b') = p_header (br_block b)"
proof (induction n arbitrary: q statuses b)
  case (Suc n)
  obtain q1 txs where nb: "next_batch E Q q b = (q1, txs)" by fastforce
  show ?case
  proof (cases txs)
    case Nil
    with Suc.prems nb show ?thesis by simp
  next
    case (Cons tx rest)
    with Suc.prems nb obtain b1 statuses1 where 1: "process_batch E gp cb txs statuses b = (b1, Inr statuses1)"
      and 2: "process_l2_txs n E Q gp cb q1 statuses1 b1 = Some (q', (b', Inr statuses'))"
      by (simp del: process_batch.simps split: prod.splits sum.splits)
    from process_batch_keeps_header[OF 1] Suc.IH[OF 2] show ?thesis by simp
  qed
qed simp

lemma produce_rounds_keeps_header:
  "produce_rounds n E Q C q statuses b = Some (q', (b', Inr statuses')) \<Longrightarrow> p_header (br_block b') = p_header (br_block b)"
proof (induction n arbitrary: q statuses b)
  case (Suc n)
  from Suc.prems obtain q1 b1 statuses1 where
    1: "process_l2_txs n E Q (component_gas_price C) (coinbase_recipient C) q statuses b = Some (q1, (b1, Inr statuses1))"
    by (auto split: option.splits sum.splits)
  obtain q2 more where "new_transactions Q q1 = (q2, more)" by fastforce
  with Suc 1 process_l2_keeps_header[OF 1] show ?case by (cases more) auto
qed simp

lemma produced_header:
  assumes "produce_without_commit n E database Q q C False = Some (Inr (r, ch))"
  shows "\<exists>msgs root. header_generate (ex_lib E) (header_to_produce C) (blk_transactions (pr_block r)) msgs root =
    Inr (blk_header (pr_block r))"
proof -
  obtain X st where X: "into_executor E database (consensus_parameters_version (p_application (header_to_produce C))) False = Inr (X, st)"
    using assms by (auto simp: produce_without_commit_def split: sum.splits prod.splits)
  have lib: "ex_lib X = ex_lib E" "\<not> dry_run X" using X by (auto simp: into_executor_def Let_def res_then_eq_Inr)
  from assms X lib obtain partial d where p: "produce_block n X Q q C st = Some (Inr (partial, d))"
    and g: "partial_block_generate (ex_lib X) partial (ed_message_ids d) (ed_event_inbox_root d) = Inr (pr_block r)"
    by (auto simp: produce_without_commit_def execute_def res_then_eq_Inr map_err_def split: option.splits sum.splits)
  obtain b1 x1 where 1: "process_l1_txs X (coinbase_recipient C) (block_run_new (header_to_produce C) st) = (b1, x1)" by fastforce
  with p have x1: "x1 = Inr ()" by (cases x1) (simp_all add: produce_block_def)
  obtain q2 b2 x2 where 2: "produce_rounds n X Q C q [] b1 = Some (q2, (b2, Inr x2))"
    using p 1 x1 by (auto simp: produce_block_def split: option.splits sum.splits)
  obtain b3 x3 where 3: "produce_mint_tx X C b2 = (b3, x3)" by fastforce
  with p 1 x1 2 have "partial = br_block b3" by (cases x3) (auto simp: produce_block_def finish_run_def)
  then have "p_header partial = header_to_produce C"
    using process_l1_keeps_header[OF 1[unfolded x1]] produce_rounds_keeps_header[OF 2]
      commit_keeps_header[OF 3[unfolded produce_mint_tx_def]] by (simp add: block_run_new_def)
  with g lib(1) obtain hdr where
    "header_generate (ex_lib E) (header_to_produce C) (p_transactions partial) (ed_message_ids d) (ed_event_inbox_root d) = Inr hdr"
    "pr_block r = BlockV1 \<lparr>header = hdr, transactions = p_transactions partial\<rparr>"
    by (auto simp: partial_block_generate_def block_new_iff)
  then show ?thesis by (intro exI[of _ "ed_message_ids d"] exI[of _ "ed_event_inbox_root d"]) simp
qed

section \<open>Verification of produced blocks\<close>

text \<open>The verifier reads the same view of the database as the producer.\<close>

definition verifier_view :: "block_producer_database \<Rightarrow> poa_database" where
  "verifier_view V =
     \<lparr>block_header_merkle_root = (\<lambda>h. map_err (\<lambda>_. ()) (view_header_root V h)),
      db_block_header = (\<lambda>h. map_err (\<lambda>_. ()) (res_then (get_block V h) (\<lambda>b. Inr (blk_header b))))\<rparr>"

lemma new_header_Inr:
  assumes "new_header V t = Inr hdr"
  obtains prev block root where "view_latest_height V = Some prev" "get_block V prev = Inr block" "view_header_root V prev = Inr root"
    "checked_add prev 1 = Some (height (p_consensus hdr))" "prev_root (p_consensus hdr) = root" "time (p_consensus hdr) = t"
    "da_height (p_application hdr) = hdr_da_height (blk_header block)"
    "latest_consensus_parameters_version V = Inr (consensus_parameters_version (p_application hdr))"
    "latest_state_transition_bytecode_version V = Inr (state_transition_bytecode_version (p_application hdr))"
  using assms
  by (auto simp: new_header_def latest_block_info_def block_info_at_def partial_header_def res_then_eq_Inr intro!: that)

lemma da_range_member: "h \<in> set (da_range a b) \<Longrightarrow> a \<le> h \<and> h \<le> b"
proof -
  assume "h \<in> set (da_range a b)"
  then obtain k where k: "h = of_nat k" "unat a \<le> k" "k \<le> unat b" by (auto simp: da_range_def simp del: upt_Suc)
  then have "unat h = k" using unat_less_pow[of b] by (simp add: unsigned_of_nat take_bit_nat_eq_self)
  with k show ?thesis by (simp add: word_le_nat_alt)
qed

lemma select_loop_member: "select_loop P g l hs c n b = Inr b' \<Longrightarrow> b' = b \<or> b' \<in> set hs"
  by (induction hs arbitrary: c n b) (fastforce simp: res_then_eq_Inr Let_def split: if_splits)+

lemma select_keeps_order: "select_new_da_height P g prev l = Inr best \<Longrightarrow> prev \<le> best"
  using sat_add_ge[of prev 1]
  by (auto simp: select_new_da_height_def res_then_eq_Inr not_less split: if_splits
      dest!: select_loop_member da_range_member)

lemma checked_add_one: "checked_add a 1 = Some b \<longleftrightarrow> unat b = unat a + 1" for a b :: u32
  using unat_less_pow[of b] unat_less_pow[of a]
  by (auto simp: checked_add_def word_unat_eq_iff unat_word_ariths split: if_splits)

text \<open>What a successful production has done.\<close>

lemma to_produce_Inr:
  assumes "to_produce P src h t = Inr (q, C)" "view_provider P = Inr V"
  obtains g hdr da where "src g h = Inr q" "new_header V t = Inr hdr" "height (p_consensus hdr) = h"
    "da_height (p_application hdr) \<le> da"
    "C = \<lparr>header_to_produce = with_da_height da hdr, coinbase_recipient = coinbase_or_default P, component_gas_price = g\<rparr>"
proof -
  from assms obtain g latest hdr' where s: "view_latest_height V = Some latest" "checked_add latest 1 = Some h" "src g h = Inr q"
    and hdr': "new_header_with_new_da_height P V t = Inr hdr'"
    and C: "C = \<lparr>header_to_produce = hdr', coinbase_recipient = coinbase_or_default P, component_gas_price = g\<rparr>"
    unfolding to_produce_def by (auto simp: res_then_eq_Inr split: if_splits)
  from hdr' obtain hdr limit da where hdr: "new_header V t = Inr hdr" "hdr' = with_da_height da hdr"
    and da: "select_new_da_height P limit (da_height (p_application hdr)) (u_max - 1) = Inr da"
    unfolding new_header_with_new_da_height_def by (auto simp: res_then_eq_Inr)
  have "height (p_consensus hdr) = h" by (rule new_header_Inr[OF hdr(1)]) (use s(1,2) in simp)
  with that[OF s(3) hdr(1) _ select_keeps_order[OF da]] C hdr(2) show ?thesis by simp
qed

lemma produce_and_execute_Inr:
  assumes "produce_and_execute n P Q src h t = Some (Inr (r, ch))"
  obtains q C where "to_produce P src h t = Inr (q, C)"
    "produce_without_commit_with_source n (prod_executor P) Q q C = Some (Inr (r, ch))"
  using assms by (cases "to_produce P src h t") (auto simp: produce_and_execute_def executor_result_def split: if_splits)

lemma produced_from_view:
  assumes "produce_without_commit_with_source n U Q q C = Some (Inr (r, ch))"
  obtains database where
    "produce_without_commit n (instance_env U (default_options U)) database Q q C False = Some (Inr (r, ch))"
  using assms
  by (auto simp: produce_without_commit_with_source_def produce_inner_def native_produce_inner_def is_dry_run_def
      split: if_splits sum.splits)

lemma produced_natively:
  assumes "produce_without_commit_with_source n U Q q C = Some (Inr (r, ch))"
    and "checked_sub (height (p_consensus (header_to_produce C))) 1 = Some prev" "up_view_at U prev = Inr database"
  shows "produce_without_commit n (instance_env U (default_options U)) database Q q C False = Some (Inr (r, ch))"
    "state_transition_bytecode_version (p_application (header_to_produce C)) = native_executor_version U"
    "up_relayer_view U = Inr ()"
  using assms
  by (auto simp: produce_without_commit_with_source_def produce_inner_def native_produce_inner_def db_height_def view_of_def
      is_dry_run_def res_then_def split: if_splits sum.splits)

text \<open>The generated header has the fields of the partial one and passes the checks.\<close>

lemma generated_fields:
  assumes "header_generate L (with_da_height da hdr) txs msgs root = Inr h"
  shows "hdr_height h = height (p_consensus hdr)" "hdr_prev_root h = prev_root (p_consensus hdr)"
    "hdr_time h = time (p_consensus hdr)" "hdr_da_height h = da"
  using header_generate_parts(2)[OF assms, THEN arg_cong[where f = "height \<circ> p_consensus"]]
    header_generate_parts(2)[OF assms, THEN arg_cong[where f = "prev_root \<circ> p_consensus"]]
    header_generate_parts(2)[OF assms, THEN arg_cong[where f = "time \<circ> p_consensus"]]
    header_generate_parts(2)[OF assms, THEN arg_cong[where f = "da_height \<circ> p_application"]]
  by (simp_all add: partial_of_header_def with_da_height_def hdr_defs)

lemma generated_fields_accepted:
  assumes "new_header V t = Inr hdr" "da_height (p_application hdr) \<le> da" "view_latest_height V = Some prev"
    and "get_block V prev = Inr last_block" "hdr_time (blk_header last_block) \<le> t"
    and "header_generate L (with_da_height da hdr) (blk_transactions blk) msgs root = Inr (blk_header blk)"
  shows "poa_verify_block_fields L (verifier_view V) blk = Inr ()"
    "unat (hdr_height (blk_header blk)) = unat prev + 1"
proof -
  from assms(1) obtain mroot where n: "view_header_root V prev = Inr mroot" "checked_add prev 1 = Some (height (p_consensus hdr))"
    "prev_root (p_consensus hdr) = mroot" "time (p_consensus hdr) = t" "da_height (p_application hdr) = hdr_da_height (blk_header last_block)"
    by (rule new_header_Inr) (use assms(3,4) that in auto)
  note parts = header_generate_parts(1,2)[OF assms(6)]
  have hash: "hdr_application_hash (blk_header blk) = application_header_hash L (hdr_application (blk_header blk))"
    using assms(6)
    by (cases "blk_header blk") (auto simp: header_generate_def recalculate_metadata_def hdr_defs split: if_splits)
  note con = generated_fields[OF assms(6), unfolded n(3,4)]
  show up: "unat (hdr_height (blk_header blk)) = unat prev + 1" using con(1) n(2) checked_add_one by simp
  then have "hdr_height (blk_header blk) \<noteq> 0" "hdr_height (blk_header blk) - 1 = prev"
    by (auto simp: word_unat_eq_iff unat_sub_if')
  then show "poa_verify_block_fields L (verifier_view V) blk = Inr ()"
    using n con assms(2,4,5) hash parts(1) by (simp add: poa_verify_block_fields_def verifier_view_def Let_def not_less)
qed

text \<open>C39. What the producer makes, every node accepts.  Let the producer make a block for the next height on a view of the
  database, at a time not before that of the last block.  Then the verifier accepts the fields of the block on the same
  view: the root of the headers, the height, the layer one height, the time and the hashes.  And if the
  transactions of the source pass the basic checks and none was dropped on the overflow of a counter, the executor
  validates the block on the state of the last block, with the same changes and statuses.\<close>

theorem produced_block_accepted:
  assumes "produce_and_execute n P Q src h t = Some (Inr (r, ch))" "view_provider P = Inr V" "prod_executor P = U"
    and "view_latest_height V = Some prev" "get_block V prev = Inr last_block" "hdr_time (blk_header last_block) \<le> t"
    and "up_view_at U prev = Inr database" "latest_consensus_parameters_version V = Inr version"
    and "into_executor (instance_env U (default_options U)) database version False = Inr (X, st)" "replayable_executor X"
    and "\<And>hdr. height (p_consensus hdr) = h \<Longrightarrow> consensus_parameters_version (p_application hdr) = version \<Longrightarrow>
      source_gives (replayable_tx X hdr) Q I"
    and "\<And>g q. src g h = Inr q \<Longrightarrow> I q"
    and "\<forall>(i, e)\<in>set (pr_skipped r). \<not> leaky e"
    and "\<forall>i h e. ForcedTransactionFailed i h (ExecutionFailure e) \<in> set (pr_events r) \<longrightarrow> \<not> leaky e"
  shows "hdr_height (blk_header (pr_block r)) = h \<and> unat h = unat prev + 1
    \<and> poa_verify_block_fields (ex_lib (up_env U)) (verifier_view V) (pr_block r) = Inr ()
    \<and> (\<exists>v. upgradable_validate U (pr_block r) = Inr (v, ch) \<and> vr_tx_status v = pr_tx_status r)"
proof -
  obtain q C where C: "to_produce P src h t = Inr (q, C)"
    and run: "produce_without_commit_with_source n U Q q C = Some (Inr (r, ch))"
    using assms(1,3) by (auto elim: produce_and_execute_Inr)
  obtain g hdr da where q: "src g h = Inr q" and hdr: "new_header V t = Inr hdr" "height (p_consensus hdr) = h"
    and da: "da_height (p_application hdr) \<le> da" and hC: "header_to_produce C = with_da_height da hdr"
    by (rule to_produce_Inr[OF C assms(2)]) (use that in simp)
  have up: "unat h = unat prev + 1" "consensus_parameters_version (p_application hdr) = version"
    by (rule new_header_Inr[OF hdr(1)], use assms(4,8) hdr(2) checked_add_one[of prev h] in simp)+
  then have down: "checked_sub h 1 = Some prev" by (simp add: checked_sub_def word_le_nat_alt word_unat_eq_iff unat_sub)
  have "checked_sub (height (p_consensus (header_to_produce C))) 1 = Some prev"
    using down hdr(2) by (simp add: hC with_da_height_def)
  note native = produced_natively[OF run this assms(7)]
  obtain msgs root where gen: "header_generate (ex_lib (up_env U)) (with_da_height da hdr) (blk_transactions (pr_block r)) msgs root =
      Inr (blk_header (pr_block r))"
    using produced_header[OF native(1)] unfolding hC by (auto simp: instance_env_def)
  note ok = generated_fields_accepted[OF hdr(1) da assms(4-6) gen]
  have h: "hdr_height (blk_header (pr_block r)) = h" using ok(2) up(1) by (simp add: word_unat_eq_iff)
  have ver: "state_transition_bytecode_version (hdr_application (blk_header (pr_block r))) = native_executor_version U"
    using arg_cong[OF header_generate_parts(2)[OF gen], of "\<lambda>p. state_transition_bytecode_version (p_application p)"] native(2)
    by (simp add: hC partial_of_header_def with_da_height_def)
  have "\<exists>v. validate_without_commit (instance_env U (default_options U)) database (pr_block r) = Inr (v, ch)
      \<and> vr_tx_status v = pr_tx_status r"
    by (rule produce_then_validate[OF _ assms(10) _ _ native(1), of st I])
       (use assms(9,11-14) q up(2) hdr(2) in \<open>simp_all add: hC with_da_height_def\<close>)
  with ok h up(1) ver down native(3) assms(7) show ?thesis
    by (auto simp: upgradable_validate_def native_validate_inner_def view_of_def)
qed

section \<open>Predefined blocks\<close>

text \<open>The header of a predefined block is not its own.  A block that is produced from a predefined one has the time and
  the layer one height of the predefined block, but its height is the one behind the latest height and its root is
  that of the view, whatever the predefined header says.  The check that the height is higher than the latest one is
  made on the new header, so it never refuses a block.\<close>

lemma predefined_block_header:
  assumes "view_provider P = Inr V" "view_latest_height V = Some latest"
  shows "produce_and_execute_predefined n P predefined \<noteq> Some (Inl (ProducerError (BlockHeightShouldBeHigherThanPrevious h l)))
    \<and> (produce_and_execute_predefined n P predefined = Some (Inr (r, ch)) \<longrightarrow>
        unat (hdr_height (blk_header (pr_block r))) = unat latest + 1
        \<and> view_header_root V latest = Inr (hdr_prev_root (blk_header (pr_block r)))
        \<and> hdr_time (blk_header (pr_block r)) = hdr_time (blk_header predefined)
        \<and> hdr_da_height (blk_header (pr_block r)) = hdr_da_height (blk_header predefined))"
proof -
  let ?t = "hdr_time (blk_header predefined)" and ?da = "hdr_da_height (blk_header predefined)"
  have up: "unat (height (p_consensus hdr)) = unat latest + 1 \<and> view_header_root V latest = Inr (prev_root (p_consensus hdr))
      \<and> time (p_consensus hdr) = ?t" if "new_header V ?t = Inr hdr" for hdr
    by (rule new_header_Inr[OF that]) (use assms(2) checked_add_one in auto)
  have "predefined_to_produce P predefined \<noteq> Inl (ProducerError (BlockHeightShouldBeHigherThanPrevious h l))"
  proof (cases "new_header V ?t")
    case (Inl e)
    have "e \<noteq> ProducerError (BlockHeightShouldBeHigherThanPrevious h l)"
      using Inl by (auto simp: new_header_def latest_block_info_def block_info_at_def map_err_def ok_or_def res_then_def
          split: sum.splits option.splits)
    with assms Inl show ?thesis
      by (auto simp: predefined_to_produce_def Let_def new_header_with_da_height_def map_err_def res_then_def split: sum.splits)
  next
    case (Inr hdr)
    then have "\<not> height (p_consensus (with_da_height ?da hdr)) \<le> latest"
      using up by (simp add: with_da_height_def word_le_nat_alt)
    with assms Inr show ?thesis
      by (auto simp: predefined_to_produce_def Let_def new_header_with_da_height_def map_err_def res_then_def ok_or_def
          split: sum.splits list.splits transaction.splits)
  qed
  then have "produce_and_execute_predefined n P predefined \<noteq> Some (Inl (ProducerError (BlockHeightShouldBeHigherThanPrevious h l)))"
    by (auto simp: produce_and_execute_predefined_def executor_result_def map_err_def split: sum.splits prod.splits)
  moreover have "unat (hdr_height (blk_header (pr_block r))) = unat latest + 1
      \<and> view_header_root V latest = Inr (hdr_prev_root (blk_header (pr_block r)))
      \<and> hdr_time (blk_header (pr_block r)) = ?t \<and> hdr_da_height (blk_header (pr_block r)) = ?da"
    if run: "produce_and_execute_predefined n P predefined = Some (Inr (r, ch))"
  proof -
    obtain txs C where C: "predefined_to_produce P predefined = Inr (txs, C)"
      and e: "produce_without_commit_with_source n (prod_executor P) once_source (map UncheckedTransaction txs) C = Some (Inr (r, ch))"
      using run by (auto simp: produce_and_execute_predefined_def executor_result_def split: if_splits sum.splits prod.splits)
    from C assms obtain hdr where hdr: "new_header V ?t = Inr hdr" "header_to_produce C = with_da_height ?da hdr"
      by (auto simp: predefined_to_produce_def Let_def new_header_with_da_height_def res_then_eq_Inr
          split: if_splits list.splits transaction.splits)
    obtain database where "produce_without_commit n (instance_env (prod_executor P) (default_options (prod_executor P))) database
        once_source (map UncheckedTransaction txs) C False = Some (Inr (r, ch))"
      using produced_from_view[OF e] by blast
    from produced_header[OF this] hdr(2) obtain msgs root where
      "header_generate (ex_lib (instance_env (prod_executor P) (default_options (prod_executor P)))) (with_da_height ?da hdr)
         (blk_transactions (pr_block r)) msgs root = Inr (blk_header (pr_block r))" by auto
    from generated_fields[OF this] up[OF hdr(1)] show ?thesis by simp
  qed
  ultimately show ?thesis by blast
qed

section \<open>A producer over the sample executor\<close>

text \<open>A database with a genesis block, whose producer takes its fees at the contract 9 and whose relayer has finalized the
  height 7, with forced transactions at the heights 6 and 7.\<close>

definition genesis_header :: block_header where
  "genesis_header = (case header_generate idle_lib (partial_header 0 0 0 0 0 0) [] [] 0 of Inr h \<Rightarrow> h)"

definition idle_view :: block_producer_database where
  "idle_view = \<lparr>view_latest_height = Some 0, get_block = (\<lambda>_. Inr (BlockV1 \<lparr>header = genesis_header, transactions = []\<rparr>)),
     view_header_root = (\<lambda>_. Inr 0), latest_consensus_parameters_version = Inr 0,
     latest_state_transition_bytecode_version = Inr 0\<rparr>"

definition idle_upgradable :: "memory_store upgradable" where
  "idle_upgradable = \<lparr>up_env = idle_env True, up_relayer_view = Inr (), up_latest_view = Inr idle_db, up_view_at = (\<lambda>_. Inr idle_db),
     native_executor_version = 0, allow_historical_execution = False, forbid_fake_coins_default = True, up_allow_syscall = False\<rparr>"

definition forced_events :: "da_block_height \<Rightarrow> (string, relayer_event list) result" where
  "forced_events h = Inr (if h = 6 then [TransactionEvent \<lparr>rt_nonce = 1, rt_max_gas = 30, serialized_transaction = [], rt_da_height = 6\<rparr>]
     else if h = 7 then [TransactionEvent \<lparr>rt_nonce = 2, rt_max_gas = 90, serialized_transaction = [], rt_da_height = 7\<rparr>] else [])"

definition idle_producer :: "da_block_height \<Rightarrow> memory_store producer" where
  "idle_producer finalized = \<lparr>production_lock_free = True, config_coinbase_recipient = Some 9, view_provider = Inr idle_view,
     prod_executor = idle_upgradable, wait_for_at_least_height = (\<lambda>_. Inr finalized),
     get_cost_and_transactions_number_for_block = relayer_cost forced_events, production_gas_price = Inr 1,
     dry_run_gas_price = Inr 1, consensus_params_at_version = (\<lambda>_. Inr idle_params)\<rparr>"

theorem selected_da_height_is_best_witness:
  "select_new_da_height (idle_producer 7) 100 5 65534 = Inr 6
    \<and> (\<exists>evs. list_all2 (\<lambda>h es. forced_events h = Inr es) (da_range 6 6) evs \<and> forced_gas (concat evs) \<le> 100)"
proof -
  have s: "select_new_da_height (idle_producer 7) 100 5 65534 = Inr 6"
    by (simp add: select_new_da_height_def idle_producer_def relayer_cost_def forced_events_def da_range_def add_event_def
        sat_add_def checked_add_def upt_rec)
  have "\<And>h. get_cost_and_transactions_number_for_block (idle_producer 7) h = relayer_cost forced_events h"
    by (simp add: idle_producer_def)
  from selected_da_height_is_best[OF this s] s show ?thesis by (auto simp: u_max_def)
qed

lemma genesis_fields: "hdr_time genesis_header = 0" "hdr_da_height genesis_header = 0"
  by (simp_all add: genesis_header_def header_generate_def partial_header_def recalculate_metadata_def hdr_defs)

lemma idle_producer_fields [simp]:
  "production_lock_free (idle_producer n)" "config_coinbase_recipient (idle_producer n) = Some 9"
  "view_provider (idle_producer n) = Inr idle_view" "prod_executor (idle_producer n) = idle_upgradable"
  "wait_for_at_least_height (idle_producer n) da = Inr n" "production_gas_price (idle_producer n) = Inr 1"
  "consensus_params_at_version (idle_producer n) v = Inr idle_params"
  "view_latest_height idle_view = Some 0" "latest_consensus_parameters_version idle_view = Inr 0"
  "get_block idle_view h = Inr (BlockV1 \<lparr>header = genesis_header, transactions = []\<rparr>)"
  "up_env idle_upgradable = idle_env True" "up_view_at idle_upgradable h = Inr idle_db"
  by (simp_all add: idle_producer_def idle_view_def idle_upgradable_def)

lemma idle_new_header: "new_header idle_view 0 = Inr (header_to_produce idle_components)"
  by (simp add: new_header_def latest_block_info_def block_info_at_def idle_view_def genesis_fields partial_header_def
      idle_components_def checked_add_def ok_or_def)

lemma idle_options: "instance_env idle_upgradable (default_options idle_upgradable) = idle_env True"
  by (simp add: instance_env_def default_options_def idle_upgradable_def idle_env_def)

lemma idle_to_execute:
  "produce_without_commit_with_source n idle_upgradable Q q idle_components =
   produce_without_commit n (idle_env True) idle_db Q q idle_components False"
proof -
  have "produce_without_commit_with_source n idle_upgradable Q q idle_components =
      produce_without_commit n (instance_env idle_upgradable (default_options idle_upgradable)) idle_db Q q idle_components False"
    by (simp add: produce_without_commit_with_source_def produce_inner_def native_produce_inner_def db_height_def view_of_def
        is_dry_run_def idle_upgradable_def idle_components_def checked_sub_def)
  then show ?thesis unfolding idle_options .
qed

lemma with_same_da_height: "with_da_height 0 (header_to_produce idle_components) = header_to_produce idle_components"
  by (simp add: with_da_height_def idle_components_def)

lemma idle_to_produce:
  "to_produce (idle_producer 0) (\<lambda>_ _. Inr [UncheckedTransaction idle_transfer]) 1 0 =
   Inr ([UncheckedTransaction idle_transfer], idle_components)"
proof -
  have "new_header_with_new_da_height (idle_producer 0) idle_view 0 = Inr (header_to_produce idle_components)"
    unfolding new_header_with_new_da_height_def idle_new_header
    by (simp add: select_new_da_height_def idle_components_def with_da_height_def)
  then show ?thesis
    by (simp add: to_produce_def coinbase_or_default_def checked_add_def ok_or_def) (simp add: idle_components_def)
qed

theorem produced_block_accepted_witness:
  "\<exists>r ch v. produce_and_execute (Suc (Suc (Suc 0))) (idle_producer 0) once_source
      (\<lambda>_ _. Inr [UncheckedTransaction idle_transfer]) 1 0 = Some (Inr (r, ch))
    \<and> hdr_height (blk_header (pr_block r)) = 1
    \<and> poa_verify_block_fields idle_lib (verifier_view idle_view) (pr_block r) = Inr ()
    \<and> upgradable_validate idle_upgradable (pr_block r) = Inr (v, ch)"
proof -
  let ?src = "\<lambda>_ _. Inr [UncheckedTransaction idle_transfer]"
  obtain r ch where p: "produce_without_commit (Suc (Suc (Suc 0))) (idle_env True) idle_db once_source
      [UncheckedTransaction idle_transfer] idle_components False = Some (Inr (r, ch))"
    and r: "pr_skipped r = []"
    and f: "\<And>i h e. ForcedTransactionFailed i h (ExecutionFailure e) \<notin> set (pr_events r)"
    using idle_produced by (metis option.inject sum.inject(2) prod.inject)
  have run: "produce_and_execute (Suc (Suc (Suc 0))) (idle_producer 0) once_source ?src 1 0 = Some (Inr (r, ch))"
    using p by (simp add: produce_and_execute_def idle_to_produce idle_to_execute executor_result_def)
  have i: "into_executor (instance_env idle_upgradable (default_options idle_upgradable)) idle_db 0 False = Inr (idle True, idle_start)"
    unfolding idle_options by (rule idle_into)
  have "hdr_height (blk_header (pr_block r)) = 1 \<and> unat (1 :: block_height) = unat (0 :: block_height) + 1
    \<and> poa_verify_block_fields (ex_lib (up_env idle_upgradable)) (verifier_view idle_view) (pr_block r) = Inr ()
    \<and> (\<exists>v. upgradable_validate idle_upgradable (pr_block r) = Inr (v, ch) \<and> vr_tx_status v = pr_tx_status r)"
    by (rule produced_block_accepted[where last_block = "BlockV1 \<lparr>header = genesis_header, transactions = []\<rparr>",
          OF run _ _ _ _ _ _ _ i idle_replayable idle_source]) (simp_all add: genesis_fields r f)
  with run show ?thesis by auto
qed

lemma predefined_height_ignored:
  "\<exists>r ch. produce_and_execute_predefined (Suc (Suc (Suc 0))) (idle_producer 0)
      (BlockV1 \<lparr>header = genesis_header, transactions = [idle_transfer, Mint idle_mint]\<rparr>) = Some (Inr (r, ch))
    \<and> unat (hdr_height (blk_header (pr_block r))) = 1 \<and> hdr_height genesis_header = 0"
proof -
  let ?b = "BlockV1 \<lparr>header = genesis_header, transactions = [idle_transfer, Mint idle_mint]\<rparr>"
  obtain r ch where p: "produce_without_commit (Suc (Suc (Suc 0))) (idle_env True) idle_db once_source
      [UncheckedTransaction idle_transfer] idle_components False = Some (Inr (r, ch))"
    using idle_produced by metis
  have "predefined_to_produce (idle_producer 0) ?b = Inr ([idle_transfer], idle_components)"
    by (simp add: predefined_to_produce_def new_header_with_da_height_def genesis_fields idle_new_header with_same_da_height ok_or_def)
       (simp add: idle_components_def idle_mint_def zero_contract_input_def)
  then have run: "produce_and_execute_predefined (Suc (Suc (Suc 0))) (idle_producer 0) ?b = Some (Inr (r, ch))"
    using p by (simp add: produce_and_execute_predefined_def idle_to_execute executor_result_def)
  have "hdr_height genesis_header = 0"
    by (simp add: genesis_header_def header_generate_def partial_header_def recalculate_metadata_def hdr_defs)
  with predefined_block_header[of "idle_producer 0" idle_view 0 "Suc (Suc (Suc 0))" ?b _ _ r ch] run show ?thesis by auto
qed

end
