(* ===== verification/Spec2Isabelle.thy ===== *)
theory Spec2Isabelle
  imports Gas_Price History_Views Sync_Import Block_Producer
begin

text \<open>
  \<^bold>\<open>A verification of the block pipeline of fuel-core\<close>

  \<^bold>\<open>The program.\<close>  fuel-core is the full node of the Fuel network.  A block comes into being in the \<^emph>\<open>producer\<close>, which
  makes its header and lets the \<^emph>\<open>executor\<close> run the transactions; it reaches other nodes through the
  \<^emph>\<open>synchronisation\<close>, which fetches ranges of blocks; the \<^emph>\<open>importer\<close> checks it with the \<^emph>\<open>block verifier\<close>, runs it
  with the executor and commits it; the \<^emph>\<open>on-chain database\<close> keeps the chain of heights over a \<^emph>\<open>store\<close>, which is in
  memory, in RocksDB, or in RocksDB with history; and the \<^emph>\<open>gas price algorithm\<close> follows the blocks.  The development
  models these parts as functions on explicit states and proves what each promises to the next one.

  \<^bold>\<open>The theories,\<close> each with the files under \<^verbatim>\<open>src/\<close> that it models:

  \<^item> \<open>Rust_Prelude\<close>: machine integers at their width with the checked, saturating and wrapping operations of the standard
    library, results, and shared lemmas (collections \<open>sat_simps\<close>, \<open>ssat_simps\<close>).  \<open>Ordered_Map\<close>: \<open>BTreeMap\<close> as a
    list with increasing keys, \<open>HashMap\<close> as a list with distinct keys.
  \<^item> \<open>Gas_Price\<close> (\<^verbatim>\<open>crates/fuel-gas-price-algorithm/src/v0.rs, v1.rs\<close>): the two updaters as records; every update of
    a block of the layer two and of a record of the data availability layer.  Prices stay in range over all runs,
    single changes are bounded, the counters are exact, the activity caps the price, and the
    execution price follows the fullness of runs of blocks.
  \<^item> \<open>Kv_Store\<close> (\<^verbatim>\<open>crates/storage/src/kv_store.rs, transactional.rs\<close>): the storage traits with their default methods
    and the in-memory transaction.  A nested transaction refines a plain map and the overriding methods agree with
    the default ones.  \<open>Memory_Store\<close> (\<^verbatim>\<open>iter.rs\<close>, \<^verbatim>\<open>iter/changes_iterator.rs\<close>,
    \<^verbatim>\<open>crates/fuel-core/src/state/in_memory\<close>): iteration and the in-memory database.
  \<^item> \<open>Rocks_Db\<close> (\<^verbatim>\<open>crates/fuel-core/src/state/rocks_db.rs\<close>): reads, iteration and batched commits.
    \<open>Historical_Db\<close> and \<open>History_Views\<close> (\<^verbatim>\<open>state/historical_rocksdb.rs\<close> and its submodules): commits that store
    their undo changes, rollback, lists of changes and views of old heights.
  \<^item> \<open>Blocks\<close> (\<^verbatim>\<open>crates/types/src/blockchain\<close>, \<^verbatim>\<open>crates/services/consensus_module/src/block_verifier.rs\<close>,
    \<^verbatim>\<open>poa/src/verifier.rs\<close>): headers, blocks, identifiers and their verification.
    \<open>Tables\<close> (\<^verbatim>\<open>crates/storage/src/blueprint\<close>, \<^verbatim>\<open>codec/primitive.rs\<close>): plain and merklized tables.
  \<^item> \<open>Database\<close> (\<^verbatim>\<open>crates/fuel-core/src/database.rs\<close>): the heights of commits are linked.  \<open>Importer\<close>
    (\<^verbatim>\<open>crates/services/importer/src/importer.rs\<close> and its adapter): an import extends the chain by exactly its block,
    succeeds on a good next block, and interleaved callers are linearizable.
  \<^item> \<open>Sync_State\<close> and \<open>Sync_Import\<close> (\<^verbatim>\<open>crates/services/sync/src\<close>): the status refines a pair of numbers; chunks
    cover a range and overlap exactly on misfitting gaps; the import follows the executor and
    imports what is available.
  \<^item> \<open>Executor_Types\<close>, \<open>Executor_Tx\<close> and \<open>Executor\<close> (\<^verbatim>\<open>crates/services/executor/src\<close>): the data and tables, the
    execution of one transaction, and the production and validation of blocks.  \<open>Executor_Ledger\<close> shows what one
    transaction does to the coins, \<open>Executor_Block\<close> what production and validation do to a block (\<open>block_step\<close>,
    \<open>block_inv\<close>, \<open>books\<close>), \<open>Executor_Replay\<close> that validation repeats production; \<open>Executor_Claims\<close> draws the
    conclusions, that produced blocks validate, that the books of validated blocks balance and that production
    terminates, and \<open>Executor_Failures\<close> states what a failed transaction leaves behind.
  \<^item> \<open>Block_Producer\<close> (\<^verbatim>\<open>crates/services/producer/src/block_producer.rs\<close>,
    \<^verbatim>\<open>crates/services/upgradable-executor/src/executor.rs\<close>): what the producer makes is accepted by the verifier and
    by validation, and the layer one height it chooses is the best one that fits.
  \<^item> This theory puts the executor behind the importer: an import applies exactly the transactions of its block to the
    ledger of coins.

  \<^bold>\<open>States and operations.\<close>  A struct is a record with the names of the source, an enum a datatype; an operation takes the
  state and returns the state with a result, so that what an operation has written before it fails is in the model.
  Traits and ports are records of functions.  A contract between two parts is a locale, proved for the models:
  \<open>kv_inspect_laws\<close> and \<open>modifiable_store\<close> for the stores, \<open>transactable\<close> for the database below \<open>Database\<close>,
  \<open>lawful_table\<close> and \<open>merkle_tree\<close> for the tables, \<open>block_executor\<close> for the importer behind the synchronisation, and
  \<open>lawful_executor\<close>, \<open>faithful_executor\<close> and \<open>replayable_executor\<close> for the libraries behind the executor.

  \<^bold>\<open>Parameters.\<close>  Code that is not part of the repository is an argument, with what the source relies on as the
  assumptions of a locale, which a concrete instance meets: \<open>rocksdb\<close> (\<open>rocksdb_ordered\<close>: ordered tables, iterators
  exact only as far as the read options and prefix extractors promise, atomic batches, reads that do not fail),
  \<open>postcard\<close>, the Merkle tree, hashes, signature recovery, and \<open>fuel_tx\<close> with \<open>fuel_vm\<close>.  For the VM the contract
  bounds the tables that a run writes, through the adapter \<^verbatim>\<open>crates/storage/src/vm_storage.rs\<close>, which is taken as part
  of it; the laws on the checks of transactions are about values that these libraries have made themselves under the
  parameters of the block (\<open>library_checked\<close>).

  \<^bold>\<open>Bounds and fuel.\<close>  Only the loops of production over a source of transactions can run forever, because a source may
  always answer; \<open>process_l2_txs\<close>, \<open>produce_rounds\<close> and what calls them take a number of rounds and return \<open>None\<close> when
  it does not suffice.  For a fixed list of transactions a number two above its length is shown to be enough, and
  to be as good as any larger one; theorems on production hold for every number that returns.  Every other loop is
  a total function.

  \<^bold>\<open>What is not modelled.\<close>  Locks, threads and channels, except for the interleavings of callers of the importer
  (\<open>importer_step\<close>); the buffered stream of the synchronisation is run one chunk after the other.  Panics of RocksDB on
  columns that were never opened, its options, snapshots as resources, backup and metrics.  The executor behind the
  importer reads the database of the importer; the adapter reads a view at the height below the block, which is the
  same state for the next block.  The WASM executor, the recording of reads, preconfirmation signatures, the system
  calls of the VM, logging, and the worst case estimates of the gas price, which are floating point.  The transaction
  pool, the network, the relayer, the consensus service, the APIs and the tools are services of I/O around these parts.
\<close>

text \<open>C1. An import applies exactly the transactions of the block to the ledger of coins.  Let the importer validate blocks
  with the executor that checks the inputs, on its own database, in which every coin comes from a processed
  transaction.  After a successful import the chain has the height of the block, and the coins in the database are
  those before, changed by the transactions of the block in their order.  No coin is spent twice, every spent coin was
  in the database or was created in the block, no transaction of the block was processed before and each is now; and
  again every coin comes from a processed transaction, so the next import starts from the same situation.\<close>

theorem import_applies_ledger:
  assumes "env_ok E ok" "chain_inv (store E) (descr E) ok (db I)" "tcolumn (MetadataTable (descr E)) \<notin> tx_columns"
    and "validate E = executor_adapter_validate show_error S (data (db I))" "ex_kv S = data_kv (store E)"
    and "into_executor S (data (db I)) (version_of (entity b)) False = Inr (X, st)" "faithful_executor X" "forbid_fake_coins S"
    and "coin_origin X (block_coins X st) (block_processed X st)"
    and "execute_and_commit E I b = (I', Inr ())"
  shows "let txs = blk_transactions (entity b); spent = concat (map spent_by txs); ids = map (chain_tx_id X) txs;
      st' = st\<lparr>storage := data (db I')\<rparr> in
    stage_height (db I') = Some (sealed_height b) \<and> chain_inv (store E) (descr E) ok (db I')
    \<and> block_coins X st' = ledger_of X (sealed_height b) 0 txs (block_coins X st)
    \<and> distinct spent \<and> (\<forall>u\<in>set spent. (\<exists>c. block_coins X st u = Inr (Some c)) \<or> utxo_tx_id u \<in> set ids)
    \<and> distinct ids \<and> (\<forall>i\<in>set ids. block_processed X st i = Inr None \<and> block_processed X st' i = Inr (Some ()))
    \<and> coin_origin X (block_coins X st') (block_processed X st')"
proof -
  obtain ch bch where p: "changes_ok ch" "removes_no_block [ch]" "block_written (lib E) (codecs E) (chain_id E) b bch"
    "on_chain_commit (store E) (descr E) (db I) (ChangesList [bch, ch]) = (db I', Inr ())"
    by (rule import_commits[OF assms(1,2) adapter_executor_ok[OF assms(4,6,7)] assms(10)])
  from commit_block(1,2)[OF assms(1,2) p(3,1,2,4)] import_ledger[OF assms] show ?thesis
    unfolding block_ledger_def Let_def by blast
qed

theorem import_applies_ledger_witness:
  "\<exists>I'. execute_and_commit idle_node idle_importer idle_sealed = (I', Inr ()) \<and> stage_height (db I') = Some 1
    \<and> block_coins (idle True) (idle_start\<lparr>storage := data (db I')\<rparr>) =
        ledger_of (idle True) 1 0 [idle_transfer, Mint idle_mint] (block_coins (idle True) idle_start)
    \<and> concat (map spent_by (blk_transactions idle_block)) = [idle_coin]"
proof -
  obtain I' where I': "execute_and_commit idle_node idle_importer idle_sealed = (I', Inr ())" using idle_import by blast
  have n: "validate idle_node = executor_adapter_validate (\<lambda>_. []) (idle_env True) (data (db idle_importer))"
    "chain_inv (store idle_node) (descr idle_node) memory_ok (db idle_importer)"
    "ex_kv (idle_env True) = data_kv (store idle_node)" "tcolumn (MetadataTable (descr idle_node)) \<notin> tx_columns"
    "into_executor (idle_env True) (data (db idle_importer)) (version_of (entity idle_sealed)) False = Inr (idle True, idle_start)"
    using idle_chain_inv idle_into_block tx_columns_small[of Metadata_column]
    by (auto simp: idle_node_def idle_importer_def idle_chain_def idle_sealed_def memory_storage_def reference_description_def)
  have "forbid_fake_coins (idle_env True)" by (simp add: idle_env_def)
  from import_applies_ledger[OF idle_node_ok(1) n(2,4,1,3,5) idle_faithful this idle_origin I'] I' idle_sealed_height
  show ?thesis by (simp add: Let_def idle_sealed_def idle_block_def spent_by_def idle_transfer_def)
qed

end
